(* ===== verification/Prelude.thy ===== *)
theory Prelude
  imports Complex_Main "HOL-Library.AList"
begin

text \<open>
  What the component theories share: Python dictionaries as insertion-ordered
  association lists, counters kept in dictionaries, Python truth values of optional
  numbers, error results as sums, and a few list lemmas. Floating-point numbers of
  the source are rationals throughout the development (exact arithmetic); Python
  integers are \<open>int\<close>.
\<close>

section \<open>Dictionaries\<close>

text \<open>
  A Python \<^verbatim>\<open>dict\<close> iterates in insertion order and keeps the position of a key that
  is assigned again: \<open>AList.update\<close> does exactly this. \<open>d.pop(k, None)\<close> is
  \<open>AList.delete\<close>, \<open>d.get(k)\<close> is \<open>map_of\<close>.
\<close>

type_synonym ('k, 'v) dict = "('k \<times> 'v) list"

abbreviation dget :: "('k, 'v) dict \<Rightarrow> 'k \<Rightarrow> 'v option" where
  "dget \<equiv> map_of"

abbreviation dput :: "'k \<Rightarrow> 'v \<Rightarrow> ('k, 'v) dict \<Rightarrow> ('k, 'v) dict" where
  "dput \<equiv> AList.update"

abbreviation dpop :: "'k \<Rightarrow> ('k, 'v) dict \<Rightarrow> ('k, 'v) dict" where
  "dpop \<equiv> AList.delete"

abbreviation dkeys :: "('k, 'v) dict \<Rightarrow> 'k list" where
  "dkeys d \<equiv> map fst d"

abbreviation dvals :: "('k, 'v) dict \<Rightarrow> 'v list" where
  "dvals d \<equiv> map snd d"

text \<open>A key occurs once: every dictionary built by the operations satisfies it.\<close>

abbreviation dict_ok :: "('k, 'v) dict \<Rightarrow> bool" where
  "dict_ok d \<equiv> distinct (map fst d)"

named_theorems dict_simps "lookup after update, deletion, and the key sets"

lemma dget_dput [dict_simps]: "dget (dput k v d) k' = (if k' = k then Some v else dget d k')"
  by (simp add: update_conv')

lemma dget_dpop [dict_simps]: "dget (dpop k d) k' = (if k' = k then None else dget d k')"
  by (simp add: delete_conv')

lemma keys_dput [dict_simps]: "fst ` set (dput k v d) = insert k (fst ` set d)"
  by (induction d) auto

lemma keys_dpop [dict_simps]: "fst ` set (dpop k d) = fst ` set d - {k}"
  by (auto simp: AList.delete_eq)

lemma dict_ok_dput [simp]: "dict_ok d \<Longrightarrow> dict_ok (dput k v d)"
  by (rule distinct_update)

lemma dict_ok_dpop [simp]: "dict_ok d \<Longrightarrow> dict_ok (dpop k d)"
  by (rule distinct_delete)

lemma dget_None_iff: "dget d k = None \<longleftrightarrow> k \<notin> fst ` set d"
  by (rule map_of_eq_None_iff)

lemma dget_mem: "dget d k = Some v \<Longrightarrow> (k, v) \<in> set d"
  by (rule map_of_SomeD)

lemma dget_key: "dget d k = Some v \<Longrightarrow> k \<in> fst ` set d"
  by (force dest: map_of_SomeD)

lemma key_dget: "k \<in> fst ` set d \<Longrightarrow> \<exists>v. dget d k = Some v"
  using dget_None_iff [of d k] by (cases "dget d k") auto

lemma set_dput_subset: "set (dput k v d) \<subseteq> insert (k, v) (set d)"
  by (induction d) auto

lemma set_dpop_subset: "set (dpop k d) \<subseteq> set d"
  by (auto simp: AList.delete_eq)

section \<open>Counters kept in a dictionary\<close>

text \<open>The idiom \<open>d[k] = d.get(k, 0) + n\<close>.\<close>

definition dget0 :: "('k, 'n::zero) dict \<Rightarrow> 'k \<Rightarrow> 'n" where
  "dget0 d k = (case dget d k of None \<Rightarrow> 0 | Some n \<Rightarrow> n)"

definition dincr :: "'k \<Rightarrow> 'n::monoid_add \<Rightarrow> ('k, 'n) dict \<Rightarrow> ('k, 'n) dict" where
  "dincr k n d = dput k (dget0 d k + n) d"

text \<open>
  The contract a dictionary-like store offers to its clients. The counter laws are
  proved once from it.
\<close>

locale py_store =
  fixes lookup :: "'m \<Rightarrow> 'k \<Rightarrow> 'v option"
    and update :: "'k \<Rightarrow> 'v \<Rightarrow> 'm \<Rightarrow> 'm"
    and remove :: "'k \<Rightarrow> 'm \<Rightarrow> 'm"
  assumes lookup_update: "lookup (update k v m) k' = (if k' = k then Some v else lookup m k')"
    and lookup_remove: "lookup (remove k m) k' = (if k' = k then None else lookup m k')"
begin

lemma update_update: "lookup (update k v (update k w m)) = lookup (update k v m)"
  by (rule ext) (simp add: lookup_update)

lemma remove_update: "lookup (remove k (update k v m)) = lookup (remove k m)"
  by (rule ext) (simp add: lookup_update lookup_remove)

lemma update_commute:
  "k \<noteq> k' \<Longrightarrow> lookup (update k v (update k' w m)) = lookup (update k' w (update k v m))"
  by (rule ext) (simp add: lookup_update)

lemma default_after_update:
  "(case lookup (update k v m) k' of None \<Rightarrow> d | Some x \<Rightarrow> x) =
     (if k' = k then v else (case lookup m k' of None \<Rightarrow> d | Some x \<Rightarrow> x))"
  by (simp add: lookup_update)

lemma default_after_remove:
  "(case lookup (remove k m) k' of None \<Rightarrow> d | Some x \<Rightarrow> x) =
     (if k' = k then d else (case lookup m k' of None \<Rightarrow> d | Some x \<Rightarrow> x))"
  by (simp add: lookup_remove)

end

interpretation dict: py_store "map_of :: ('k \<times> 'v) list \<Rightarrow> 'k \<Rightarrow> 'v option" AList.update AList.delete
  by unfold_locales (simp_all add: dict_simps)

lemma dget0_dput [dict_simps]: "dget0 (dput k v d) k' = (if k' = k then v else dget0 d k')"
  unfolding dget0_def by (rule dict.default_after_update)

lemma dget0_dpop [dict_simps]: "dget0 (dpop k d) k' = (if k' = k then 0 else dget0 d k')"
  unfolding dget0_def by (rule dict.default_after_remove)

lemma dget0_dincr [dict_simps]:
  "dget0 (dincr k n d) k' = (if k' = k then dget0 d k + n else dget0 d k')"
  by (simp add: dincr_def dict_simps)

lemma dget0_Nil [simp]: "dget0 [] k = 0"
  by (simp add: dget0_def)

lemma dget0_Cons: "dget0 ((k, v) # d) k' = (if k' = k then v else dget0 d k')"
  by (simp add: dget0_def)

lemma dget0_absent: "k \<notin> fst ` set d \<Longrightarrow> dget0 d k = 0"
  by (simp add: dget0_def dget_None_iff [THEN iffD2])

lemma dict_ok_dincr [simp]: "dict_ok d \<Longrightarrow> dict_ok (dincr k n d)"
  by (simp add: dincr_def)

lemma keys_dincr [dict_simps]: "fst ` set (dincr k n d) = insert k (fst ` set d)"
  by (simp add: dincr_def dict_simps)

lemma sum_dvals_dput:
  fixes d :: "('k, 'n::ab_group_add) dict"
  shows "dict_ok d \<Longrightarrow> sum_list (dvals (dput k v d)) = sum_list (dvals d) - dget0 d k + v"
  by (induction d) (auto simp: dget0_def algebra_simps split: option.splits dest: map_of_SomeD)

lemma sum_dvals_dincr:
  fixes d :: "('k, 'n::ab_group_add) dict"
  shows "dict_ok d \<Longrightarrow> sum_list (dvals (dincr k n d)) = sum_list (dvals d) + n"
  by (simp add: dincr_def sum_dvals_dput)

section \<open>Results and lists\<close>

text \<open>\<open>xs.remove(x)\<close> removes the first occurrence; \<open>bool(x)\<close> of an optional number.\<close>

definition truthy :: "'n::zero option \<Rightarrow> bool" where
  "truthy x \<longleftrightarrow> (case x of None \<Rightarrow> False | Some n \<Rightarrow> n \<noteq> 0)"

lemma truthy_simps [simp]: "truthy None = False" "truthy (Some n) = (n \<noteq> 0)"
  by (simp_all add: truthy_def)

definition bind_err :: "'e + 'a \<Rightarrow> ('a \<Rightarrow> 'e + 'b) \<Rightarrow> 'e + 'b" where
  "bind_err r f = (case r of Inl e \<Rightarrow> Inl e | Inr x \<Rightarrow> f x)"

lemma bind_err_simps [simp]: "bind_err (Inl e) f = Inl e" "bind_err (Inr x) f = f x"
  by (simp_all add: bind_err_def)

lemma bind_err_eq_Inr: "bind_err r f = Inr y \<longleftrightarrow> (\<exists>x. r = Inr x \<and> f x = Inr y)"
  by (cases r) auto

text \<open>A loop that may raise.\<close>

fun fold_err :: "('a \<Rightarrow> 's \<Rightarrow> 'e + 's) \<Rightarrow> 'a list \<Rightarrow> 's \<Rightarrow> 'e + 's" where
  "fold_err f [] s = Inr s"
| "fold_err f (x # xs) s = bind_err (f x s) (fold_err f xs)"

lemma fold_err_append: "fold_err f (xs @ ys) s = bind_err (fold_err f xs s) (fold_err f ys)"
  by (induction xs arbitrary: s) (simp_all add: bind_err_def split: sum.splits)

lemma fold_err_invariant:
  assumes "fold_err f xs s = Inr s'" and "P s" and "\<And>x s s'. x \<in> set xs \<Longrightarrow> f x s = Inr s' \<Longrightarrow> P s \<Longrightarrow> P s'"
  shows "P s'"
  using assms by (induction xs arbitrary: s) (auto simp: bind_err_eq_Inr)

lemma fold_err_relation:
  assumes "fold_err f xs s = Inr s'" and "\<And>s. R s s" and "\<And>a b c. R a b \<Longrightarrow> R b c \<Longrightarrow> R a c"
    and "\<And>x s s'. x \<in> set xs \<Longrightarrow> f x s = Inr s' \<Longrightarrow> R s s'"
  shows "R s s'"
  using assms by (induction xs arbitrary: s) (fastforce simp: bind_err_eq_Inr)+

lemma find_snoc: "find P xs = None \<Longrightarrow> P x \<Longrightarrow> find P (xs @ [x]) = Some x"
  by (induction xs) (auto split: if_splits)

lemma filter_all_length: "length (filter P xs) = length xs \<longleftrightarrow> (\<forall>x \<in> set xs. P x)"
  using length_filter_less [of _ xs P] by (metis filter_id_conv less_irrefl)

section \<open>Text\<close>

text \<open>
  \<open>int(s)\<close> for Latin-1 strings: surrounding white space, a sign, decimal digits with single
  underscores between them; \<open>None\<close> is a \<open>ValueError\<close>. \<open>s.strip()\<close> and \<open>s.lower()\<close> likewise.
\<close>

definition py_space :: "char \<Rightarrow> bool" where
  "py_space c \<longleftrightarrow> (let n = of_char c :: nat in n = 32 \<or> 9 \<le> n \<and> n \<le> 13 \<or> 28 \<le> n \<and> n \<le> 31 \<or> n = 133 \<or> n = 160)"

definition strip_of :: "(char \<Rightarrow> bool) \<Rightarrow> string \<Rightarrow> string" where
  "strip_of P s = rev (dropWhile P (rev (dropWhile P s)))"

definition py_strip :: "string \<Rightarrow> string" where
  "py_strip s = strip_of py_space s"

text \<open>Numbers may be surrounded by white space other than the separators 28 to 31.\<close>

definition num_space :: "char \<Rightarrow> bool" where
  "num_space c \<longleftrightarrow> (let n = of_char c :: nat in n = 32 \<or> 9 \<le> n \<and> n \<le> 13 \<or> n = 133 \<or> n = 160)"

definition py_lower :: "string \<Rightarrow> string" where
  "py_lower s = map (\<lambda>c. let n = of_char c :: nat in
     if 65 \<le> n \<and> n \<le> 90 \<or> 192 \<le> n \<and> n \<le> 222 \<and> n \<noteq> 215 then char_of (n + 32) else c) s"

definition py_digit :: "char \<Rightarrow> nat option" where
  "py_digit c = (let n = of_char c :: nat in if 48 \<le> n \<and> n \<le> 57 then Some (n - 48) else None)"

fun digits :: "nat \<Rightarrow> string \<Rightarrow> nat option" where
  "digits acc [] = Some acc"
| "digits acc (c # s) =
     (case py_digit c of
        Some d \<Rightarrow> digits (acc * 10 + d) s
      | None \<Rightarrow>
          (case s of
             c' # s' \<Rightarrow> (if c = CHR ''_'' then (case py_digit c' of Some d \<Rightarrow> digits (acc * 10 + d) s' | None \<Rightarrow> None) else None)
           | [] \<Rightarrow> None))"

definition unsigned_int :: "string \<Rightarrow> nat option" where
  "unsigned_int s = (case s of [] \<Rightarrow> None | c # r \<Rightarrow> (case py_digit c of Some d \<Rightarrow> digits d r | None \<Rightarrow> None))"

definition py_int :: "string \<Rightarrow> int option" where
  "py_int s =
     (let t = strip_of num_space s
      in case t of
           [] \<Rightarrow> None
         | c # r \<Rightarrow>
             if c = CHR ''-'' then map_option (\<lambda>n. - int n) (unsigned_int r)
             else if c = CHR ''+'' then map_option int (unsigned_int r)
             else map_option int (unsigned_int t))"

text \<open>\<open>str(n)\<close> of a natural number.\<close>

definition digit_char :: "nat \<Rightarrow> char" where
  "digit_char d = char_of (48 + d)"

fun nat_str :: "nat \<Rightarrow> string" where
  "nat_str n = (if n < 10 then [digit_char n] else nat_str (n div 10) @ [digit_char (n mod 10)])"

declare nat_str.simps [simp del]

lemma py_digit_char: "d < 10 \<Longrightarrow> py_digit (digit_char d) = Some d"
  by (simp add: py_digit_def digit_char_def)

lemma nat_str_digits: "nat_str n \<noteq> [] \<and> list_all (\<lambda>c. py_digit c \<noteq> None) (nat_str n)"
proof (induction n rule: nat_str.induct)
  case (1 n)
  then show ?case by (subst nat_str.simps, subst (2) nat_str.simps) (auto simp: py_digit_char)
qed

lemma nat_str_chars: "c \<in> set (nat_str n) \<Longrightarrow> py_digit c \<noteq> None"
  using nat_str_digits [of n] by (auto simp: list_all_iff)

lemma nat_str_small: "n < 10 \<Longrightarrow> nat_str n = [digit_char n]"
  by (subst nat_str.simps) simp

lemma nat_str_big: "\<not> n < 10 \<Longrightarrow> nat_str n = nat_str (n div 10) @ [digit_char (n mod 10)]"
  by (subst nat_str.simps) simp

lemma digit_char_inj: "digit_char a = digit_char b \<Longrightarrow> a < 10 \<Longrightarrow> b < 10 \<Longrightarrow> a = b"
  by (metis option.inject py_digit_char)

lemma nat_str_inj: "nat_str n = nat_str m \<Longrightarrow> n = m"
proof (induction n arbitrary: m rule: nat_str.induct)
  case (1 n)
  have ne: "nat_str k \<noteq> []" for k using nat_str_digits by blast
  consider "n < 10" "m < 10" | "n < 10" "\<not> m < 10" | "\<not> n < 10" "m < 10" | "\<not> n < 10" "\<not> m < 10" by blast
  then show ?case
  proof cases
    case 1
    then show ?thesis using "1.prems" digit_char_inj by (simp add: nat_str_small)
  next
    case 2
    then show ?thesis using "1.prems" ne [of "m div 10"] by (simp add: nat_str_small nat_str_big)
  next
    case 3
    then show ?thesis using "1.prems" ne [of "n div 10"] by (simp add: nat_str_small nat_str_big)
  next
    case 4
    then have "nat_str (n div 10) = nat_str (m div 10)" and d: "digit_char (n mod 10) = digit_char (m mod 10)"
      using "1.prems" by (simp_all add: nat_str_big)
    then have "n div 10 = m div 10" using "1.IH" 4 by blast
    moreover have "n mod 10 = m mod 10" using digit_char_inj [OF d] by simp
    ultimately show ?thesis by (metis div_mult_mod_eq)
  qed
qed

section \<open>Numbers\<close>

text \<open>\<open>int(x)\<close> of a float: truncation toward zero.\<close>

definition py_trunc :: "rat \<Rightarrow> int" where
  "py_trunc x = (if 0 \<le> x then \<lfloor>x\<rfloor> else \<lceil>x\<rceil>)"

text \<open>\<open>sorted(xs, key=f, reverse=True)\<close> keeps the order of equal elements.\<close>

definition sort_desc :: "('a \<Rightarrow> 'b::linordered_ab_group_add) \<Rightarrow> 'a list \<Rightarrow> 'a list" where
  "sort_desc f xs = sort_key (\<lambda>x. - f x) xs"

lemma set_sort_desc [simp]: "set (sort_desc f xs) = set xs"
  by (simp add: sort_desc_def)

lemma length_sort_desc [simp]: "length (sort_desc f xs) = length xs"
  by (simp add: sort_desc_def)

lemma sorted_sort_desc: "sorted_wrt (\<lambda>x y. f y \<le> f x) (sort_desc f xs)"
proof -
  have "sorted (map (\<lambda>x. - f x) (sort_desc f xs))" by (simp add: sort_desc_def)
  then show ?thesis by (simp add: sorted_map)
qed

lemma distinct_sort_desc [simp]: "distinct (sort_desc f xs) = distinct xs"
  by (simp add: sort_desc_def)

end
