(* ===== verification/WorkQueue.thy ===== *)
theory WorkQueue
  imports Prelude
begin

text \<open>
  The reconcile work queue, \<^verbatim>\<open>src/gpustack/server/workqueue.py\<close>: the coalescing pending
  map, the ready order, the in-flight set, the delay heap, the debounce window and the
  per-key exponential backoff. Every method is one definition; the value of
  \<open>time.monotonic()\<close> that a method reads is an argument \<open>now\<close>, and so is the value of
  the random source. Section by section: data, backoff, queue operations, the structural
  invariant and its preservation, runs of operations, and the properties.
\<close>

section \<open>Events\<close>

datatype work_event_type = ADDED | MODIFIED | DELETED

record ('k, 'o) work_event =
  ev_keys :: 'k
  ev_type :: work_event_type
  ev_object :: 'o

definition default_coalesce ::
  "('k, 'o) work_event \<Rightarrow> ('k, 'o) work_event \<Rightarrow> ('k, 'o) work_event" where
  "default_coalesce existing incoming =
     (if ev_type existing = DELETED \<and> ev_type incoming \<noteq> DELETED then existing else incoming)"

section \<open>Exponential backoff\<close>

record 'k exponential_backoff =
  bo_base :: rat
  bo_cap :: rat
  bo_jitter :: rat
  bo_failures :: "('k, nat) dict"

text \<open>\<open>rnd\<close> is the value \<open>self._rand()\<close> returns.\<close>

definition backoff_when ::
  "rat \<Rightarrow> 'k \<Rightarrow> 'k exponential_backoff \<Rightarrow> rat \<times> 'k exponential_backoff" where
  "backoff_when rnd k b =
     (let n = dget0 (bo_failures b) k;
          b' = b\<lparr>bo_failures := dput k (n + 1) (bo_failures b)\<rparr>;
          delay = min (bo_base b * 2 ^ n) (bo_cap b);
          delay' = (if bo_jitter b \<noteq> 0 then delay + delay * bo_jitter b * rnd else delay)
      in (delay', b'))"

definition backoff_forget :: "'k \<Rightarrow> 'k exponential_backoff \<Rightarrow> 'k exponential_backoff" where
  "backoff_forget k b = b\<lparr>bo_failures := dpop k (bo_failures b)\<rparr>"

definition backoff_failures :: "'k \<Rightarrow> 'k exponential_backoff \<Rightarrow> nat" where
  "backoff_failures k b = dget0 (bo_failures b) k"

section \<open>The delay heap\<close>

text \<open>
  The list under \<^verbatim>\<open>heapq\<close> is observed through its first element, \<^verbatim>\<open>heappop\<close> and a filter
  followed by \<^verbatim>\<open>heapify\<close> only. Entries compare by due time and then by the unique sequence
  number, so the heap is the list of its entries in that order.
\<close>

type_synonym ('k, 'o) delayed_entry = "rat \<times> nat \<times> ('k, 'o) work_event"

fun entry_before :: "('k, 'o) delayed_entry \<Rightarrow> ('k, 'o) delayed_entry \<Rightarrow> bool" where
  "entry_before (t, s, e) (t', s', e') \<longleftrightarrow> t < t' \<or> (t = t' \<and> s \<le> s')"

fun heappush :: "('k, 'o) delayed_entry \<Rightarrow> ('k, 'o) delayed_entry list \<Rightarrow> ('k, 'o) delayed_entry list" where
  "heappush x [] = [x]"
| "heappush x (y # ys) = (if entry_before x y then x # y # ys else y # heappush x ys)"

abbreviation entry_keys :: "('k, 'o) delayed_entry \<Rightarrow> 'k" where
  "entry_keys x \<equiv> ev_keys (snd (snd x))"

section \<open>The queue\<close>

record ('k, 'o) workqueue =
  wq_dedup_window :: rat
  wq_dedup_max_wait :: rat
  wq_coalesce :: "('k, 'o) work_event \<Rightarrow> ('k, 'o) work_event \<Rightarrow> ('k, 'o) work_event"
  wq_backoff :: "'k exponential_backoff"
  wq_pending :: "('k, ('k, 'o) work_event) dict"
  wq_order :: "'k list"
  wq_queued :: "'k set"
  wq_processing :: "'k set"
  wq_delayed :: "('k, 'o) delayed_entry list"
  wq_seq :: nat
  wq_debounce :: "('k, rat \<times> rat \<times> ('k, 'o) work_event) dict"
  wq_wakeup :: bool

definition workqueue_init ::
  "rat \<Rightarrow> rat \<Rightarrow> rat \<Rightarrow> rat \<Rightarrow> rat \<Rightarrow>
   (('k, 'o) work_event \<Rightarrow> ('k, 'o) work_event \<Rightarrow> ('k, 'o) work_event) option \<Rightarrow>
   ('k, 'o) workqueue" where
  "workqueue_init dedup_window dedup_max_wait backoff_base backoff_max backoff_jitter coalesce =
     \<lparr>wq_dedup_window = dedup_window,
      wq_dedup_max_wait = (if dedup_max_wait \<noteq> 0 then dedup_max_wait else dedup_window),
      wq_coalesce = (case coalesce of None \<Rightarrow> default_coalesce | Some c \<Rightarrow> c),
      wq_backoff = \<lparr>bo_base = backoff_base, bo_cap = backoff_max,
                    bo_jitter = backoff_jitter, bo_failures = []\<rparr>,
      wq_pending = [], wq_order = [], wq_queued = {}, wq_processing = {},
      wq_delayed = [], wq_seq = 0, wq_debounce = [], wq_wakeup = False\<rparr>"

definition enqueue_ready ::
  "'k \<Rightarrow> work_event_type option \<Rightarrow> ('k, 'o) workqueue \<Rightarrow> ('k, 'o) workqueue" where
  "enqueue_ready k ty q =
     q\<lparr>wq_queued := insert k (wq_queued q),
       wq_order := (if ty = Some DELETED then k # wq_order q else wq_order q @ [k])\<rparr>"

definition promote_to_ready :: "'k \<Rightarrow> bool \<Rightarrow> ('k, 'o) workqueue \<Rightarrow> ('k, 'o) workqueue" where
  "promote_to_ready k front q =
     (if k \<in> wq_processing q then q
      else if k \<in> wq_queued q then
        (if front then q\<lparr>wq_order := k # remove1 k (wq_order q)\<rparr> else q)
      else enqueue_ready k (if front then Some DELETED else None) q)"

definition cancel_delayed :: "'k \<Rightarrow> ('k, 'o) workqueue \<Rightarrow> ('k, 'o) workqueue" where
  "cancel_delayed k q =
     (if wq_delayed q = [] then q
      else let filtered = filter (\<lambda>x. entry_keys x \<noteq> k) (wq_delayed q)
           in if length filtered \<noteq> length (wq_delayed q) then q\<lparr>wq_delayed := filtered\<rparr> else q)"

text \<open>\<open>_add(event, now)\<close>.\<close>

definition wq_add :: "('k, 'o) work_event \<Rightarrow> rat \<Rightarrow> ('k, 'o) workqueue \<Rightarrow> ('k, 'o) workqueue" where
  "wq_add event now q =
     (let k = ev_keys event;
          ev = (case dget (wq_pending q) k of
                  None \<Rightarrow> event
                | Some old \<Rightarrow> wq_coalesce q old event);
          q1 = q\<lparr>wq_pending := dput k ev (wq_pending q)\<rparr>
      in if ev_type ev = DELETED then
           let q2 = cancel_delayed k q1;
               q3 = q2\<lparr>wq_debounce := dpop k (wq_debounce q2)\<rparr>
           in (promote_to_ready k True q3)\<lparr>wq_wakeup := True\<rparr>
         else if 0 < wq_dedup_window q1 \<and> ev_type ev = MODIFIED then
           let first_seen = (case dget (wq_debounce q1) k of None \<Rightarrow> now | Some (_, f, _) \<Rightarrow> f);
               deadline = min (now + wq_dedup_window q1) (first_seen + wq_dedup_max_wait q1)
           in q1\<lparr>wq_debounce := dput k (deadline, first_seen, ev) (wq_debounce q1),
                 wq_wakeup := True\<rparr>
         else (promote_to_ready k False q1)\<lparr>wq_wakeup := True\<rparr>)"

definition add_after ::
  "('k, 'o) work_event \<Rightarrow> rat \<Rightarrow> rat \<Rightarrow> ('k, 'o) workqueue \<Rightarrow> ('k, 'o) workqueue" where
  "add_after event delay now q =
     (if delay \<le> 0 then wq_add event now q
      else let q1 = cancel_delayed (ev_keys event) q
           in q1\<lparr>wq_delayed := heappush (now + delay, wq_seq q1, event) (wq_delayed q1),
                 wq_seq := Suc (wq_seq q1), wq_wakeup := True\<rparr>)"

definition add_rate_limited ::
  "('k, 'o) work_event \<Rightarrow> rat \<Rightarrow> rat \<Rightarrow> ('k, 'o) workqueue \<Rightarrow> ('k, 'o) workqueue" where
  "add_rate_limited event rnd now q =
     (let (delay, b) = backoff_when rnd (ev_keys event) (wq_backoff q)
      in add_after event delay now (q\<lparr>wq_backoff := b\<rparr>))"

definition wq_forget :: "'k \<Rightarrow> ('k, 'o) workqueue \<Rightarrow> ('k, 'o) workqueue" where
  "wq_forget k q = q\<lparr>wq_backoff := backoff_forget k (wq_backoff q)\<rparr>"

definition wq_done :: "'k \<Rightarrow> ('k, 'o) workqueue \<Rightarrow> ('k, 'o) workqueue" where
  "wq_done k q =
     (let q1 = q\<lparr>wq_processing := wq_processing q - {k}\<rparr>
      in case dget (wq_pending q1) k of
           None \<Rightarrow> q1
         | Some ev \<Rightarrow>
             if k \<in> wq_queued q1 then q1
             else (enqueue_ready k (Some (ev_type ev)) q1)\<lparr>wq_wakeup := True\<rparr>)"

definition wq_len :: "('k, 'o) workqueue \<Rightarrow> nat" where
  "wq_len q = length (wq_pending q)"

subsection \<open>Draining what is due\<close>

lemma cancel_delayed_simp: "cancel_delayed k q = q\<lparr>wq_delayed := filter (\<lambda>x. entry_keys x \<noteq> k) (wq_delayed q)\<rparr>"
proof (cases "length (filter (\<lambda>x. entry_keys x \<noteq> k) (wq_delayed q)) = length (wq_delayed q)")
  case True
  then have "filter (\<lambda>x. entry_keys x \<noteq> k) (wq_delayed q) = wq_delayed q"
    by (simp only: filter_all_length filter_id_conv)
  then show ?thesis
    by (simp add: cancel_delayed_def Let_def)
next
  case False
  then show ?thesis
    by (auto simp: cancel_delayed_def Let_def)
qed

named_theorems wq_defs "the queue operations, unfolded"

lemmas [wq_defs] = enqueue_ready_def promote_to_ready_def cancel_delayed_simp wq_add_def

lemma length_delayed_wq_add: "length (wq_delayed (wq_add e now q)) \<le> length (wq_delayed q)"
  by (simp add: wq_defs Let_def)

text \<open>The loop \<open>while self._delayed and self._delayed[0][0] <= now\<close>; its body may cancel
  further entries but adds none, so the heap shrinks.\<close>

function drain_delayed :: "rat \<Rightarrow> ('k, 'o) workqueue \<Rightarrow> ('k, 'o) workqueue" where
  "drain_delayed now q =
     (case wq_delayed q of
        [] \<Rightarrow> q
      | (due, s, event) # rest \<Rightarrow>
          if due \<le> now then drain_delayed now (wq_add event now (q\<lparr>wq_delayed := rest\<rparr>)) else q)"
  by pat_completeness auto
termination
proof (relation "measure (\<lambda>(now, q). length (wq_delayed q))", goal_cases)
  case 1
  show ?case by simp
next
  case (2 now q x rest due y s event)
  have "length (wq_delayed (wq_add event now (q\<lparr>wq_delayed := rest\<rparr>))) \<le> length rest"
    using length_delayed_wq_add [of event now "q\<lparr>wq_delayed := rest\<rparr>"] by simp
  with 2 show ?case by simp
qed

declare drain_delayed.simps [simp del]

definition expired_keys :: "rat \<Rightarrow> ('k, 'o) workqueue \<Rightarrow> 'k list" where
  "expired_keys now q = map fst (filter (\<lambda>(k, deadline, f, e). deadline \<le> now) (wq_debounce q))"

fun drain_expired :: "'k list \<Rightarrow> ('k, 'o) workqueue \<Rightarrow> ('k, 'o) workqueue" where
  "drain_expired [] q = q"
| "drain_expired (k # ks) q =
     (let q1 = q\<lparr>wq_debounce := dpop k (wq_debounce q)\<rparr>
      in drain_expired ks
           (case dget (wq_pending q1) k of None \<Rightarrow> q1 | Some _ \<Rightarrow> promote_to_ready k False q1))"

definition drain_due :: "rat \<Rightarrow> ('k, 'o) workqueue \<Rightarrow> ('k, 'o) workqueue" where
  "drain_due now q =
     (let q1 = drain_delayed now q
      in if wq_debounce q1 = [] then q1 else drain_expired (expired_keys now q1) q1)"

definition has_due :: "rat \<Rightarrow> ('k, 'o) workqueue \<Rightarrow> bool" where
  "has_due now q \<longleftrightarrow>
     (case wq_delayed q of [] \<Rightarrow> False | x # _ \<Rightarrow> fst x \<le> now) \<or>
     list_ex (\<lambda>(deadline, f, e). deadline \<le> now) (dvals (wq_debounce q))"

definition time_to_next_due :: "rat \<Rightarrow> ('k, 'o) workqueue \<Rightarrow> rat option" where
  "time_to_next_due now q =
     (let due_times = (case wq_delayed q of [] \<Rightarrow> [] | x # _ \<Rightarrow> [fst x]) @ map fst (dvals (wq_debounce q))
      in if due_times = [] then None else Some (max 0 (Min (set due_times) - now)))"

subsection \<open>The consumer\<close>

text \<open>
  One turn of the loop in \<open>get\<close>: hand out an event, go round again at once, or wait for a
  wake-up (with the timeout, if any). \<open>now\<close> and \<open>now'\<close> are the two clock readings of the
  turn. \<open>self._pending.pop(keys)\<close> raises when the key is missing; that outcome is
  \<open>GetKeyError\<close>.
\<close>

datatype ('k, 'o) get_result = Got "('k, 'o) work_event" | Again | Wait "rat option" | GetKeyError

definition get_turn ::
  "rat \<Rightarrow> rat \<Rightarrow> ('k, 'o) workqueue \<Rightarrow> ('k, 'o) get_result \<times> ('k, 'o) workqueue" where
  "get_turn now now' q =
     (let q1 = drain_due now q
      in case wq_order q1 of
           k # ks \<Rightarrow>
             let q2 = q1\<lparr>wq_order := ks, wq_queued := wq_queued q1 - {k}\<rparr>
             in (case dget (wq_pending q2) k of
                   None \<Rightarrow> (GetKeyError, q2)
                 | Some event \<Rightarrow>
                     (Got event, q2\<lparr>wq_pending := dpop k (wq_pending q2),
                                    wq_processing := insert k (wq_processing q2)\<rparr>))
         | [] \<Rightarrow>
             let timeout = time_to_next_due now q1;
                 q2 = q1\<lparr>wq_wakeup := False\<rparr>
             in if wq_order q2 \<noteq> [] \<or> has_due now' q2 then (Again, q2) else (Wait timeout, q2))"

section \<open>Runs\<close>

text \<open>
  The single event loop interleaves the synchronous producers, \<open>done\<close>, \<open>forget\<close> and turns
  of the consumer in any order; a run is a list of such actions, from the empty queue.
\<close>

datatype ('k, 'o) wq_action =
    Add "('k, 'o) work_event" rat
  | AddAfter "('k, 'o) work_event" rat rat
  | AddRateLimited "('k, 'o) work_event" rat rat
  | Forget 'k
  | Done 'k
  | GetTurn rat rat

fun wq_exec :: "('k, 'o) wq_action \<Rightarrow> ('k, 'o) workqueue \<Rightarrow> ('k, 'o) get_result option \<times> ('k, 'o) workqueue" where
  "wq_exec (Add e now) q = (None, wq_add e now q)"
| "wq_exec (AddAfter e delay now) q = (None, add_after e delay now q)"
| "wq_exec (AddRateLimited e rnd now) q = (None, add_rate_limited e rnd now q)"
| "wq_exec (Forget k) q = (None, wq_forget k q)"
| "wq_exec (Done k) q = (None, wq_done k q)"
| "wq_exec (GetTurn now now') q = (let (r, q') = get_turn now now' q in (Some r, q'))"

fun wq_run :: "('k, 'o) wq_action list \<Rightarrow> ('k, 'o) workqueue \<Rightarrow> ('k, 'o) get_result list \<times> ('k, 'o) workqueue" where
  "wq_run [] q = ([], q)"
| "wq_run (a # as) q =
     (let (r, q1) = wq_exec a q; (rs, q2) = wq_run as q1
      in ((case r of None \<Rightarrow> rs | Some x \<Rightarrow> x # rs), q2))"

inductive wq_reachable :: "('k, 'o) workqueue \<Rightarrow> ('k, 'o) workqueue \<Rightarrow> bool" for q0 where
  start: "wq_reachable q0 q0"
| step: "wq_reachable q0 q \<Longrightarrow> wq_exec a q = (r, q') \<Longrightarrow> wq_reachable q0 q'"

section \<open>The structural invariant\<close>

definition ready_ok :: "('k, 'o) workqueue \<Rightarrow> bool" where
  "ready_ok q \<longleftrightarrow>
     dict_ok (wq_pending q) \<and> distinct (wq_order q) \<and> set (wq_order q) = wq_queued q \<and>
     wq_queued q \<inter> wq_processing q = {} \<and> wq_queued q \<subseteq> fst ` set (wq_pending q) \<and>
     (\<forall>(k, e) \<in> set (wq_pending q). ev_keys e = k)"

definition timers_ok :: "('k, 'o) workqueue \<Rightarrow> bool" where
  "timers_ok q \<longleftrightarrow>
     dict_ok (wq_debounce q) \<and> sorted_wrt entry_before (wq_delayed q) \<and>
     distinct (map entry_keys (wq_delayed q)) \<and>
     distinct (map (fst \<circ> snd) (wq_delayed q)) \<and>
     (\<forall>x \<in> set (wq_delayed q). fst (snd x) < wq_seq q) \<and>
     (\<forall>(k, deadline, f, e) \<in> set (wq_debounce q). deadline \<le> f + wq_dedup_max_wait q)"

text \<open>Keys that are on their way to the consumer: ready, in flight, or behind a timer.\<close>

definition covered :: "('k, 'o) workqueue \<Rightarrow> 'k set" where
  "covered q = wq_queued q \<union> wq_processing q \<union> fst ` set (wq_debounce q)"

definition wq_inv :: "('k, 'o) workqueue \<Rightarrow> bool" where
  "wq_inv q \<longleftrightarrow> ready_ok q \<and> timers_ok q \<and> fst ` set (wq_pending q) \<subseteq> covered q"

lemma wq_inv_init: "wq_inv (workqueue_init w m b c j co)"
  by (simp add: wq_inv_def ready_ok_def timers_ok_def covered_def workqueue_init_def)

subsection \<open>Helpers: each building block\<close>

lemma promote_ready_ok:
  "ready_ok q \<Longrightarrow> k \<in> fst ` set (wq_pending q) \<Longrightarrow> ready_ok (promote_to_ready k front q)"
  by (auto simp: ready_ok_def promote_to_ready_def enqueue_ready_def set_remove1_eq)

lemma promote_covered: "covered (promote_to_ready k front q) = insert k (covered q)"
  by (auto simp: covered_def promote_to_ready_def enqueue_ready_def)

lemma promote_frame [simp]:
  "wq_pending (promote_to_ready k front q) = wq_pending q"
  "wq_processing (promote_to_ready k front q) = wq_processing q"
  "wq_delayed (promote_to_ready k front q) = wq_delayed q"
  "wq_seq (promote_to_ready k front q) = wq_seq q"
  "wq_debounce (promote_to_ready k front q) = wq_debounce q"
  "wq_dedup_max_wait (promote_to_ready k front q) = wq_dedup_max_wait q"
  "wq_dedup_window (promote_to_ready k front q) = wq_dedup_window q"
  "wq_coalesce (promote_to_ready k front q) = wq_coalesce q"
  "wq_backoff (promote_to_ready k front q) = wq_backoff q"
  by (simp_all add: promote_to_ready_def enqueue_ready_def)

lemma promote_queued_eq:
  "wq_queued (promote_to_ready k front q) =
     (if k \<in> wq_processing q then wq_queued q else insert k (wq_queued q))"
  by (auto simp: promote_to_ready_def enqueue_ready_def)

lemma promote_queued: "k \<in> wq_queued (promote_to_ready k front q) \<union> wq_processing q"
  by (auto simp: promote_to_ready_def enqueue_ready_def)

lemma promote_queued_mono: "wq_queued q \<subseteq> wq_queued (promote_to_ready k front q)"
  by (auto simp: promote_to_ready_def enqueue_ready_def)

lemma promote_timers [simp]: "timers_ok (promote_to_ready k front q) = timers_ok q"
  by (simp add: timers_ok_def)

lemma cancel_delayed_frame [simp]:
  "wq_pending (cancel_delayed k q) = wq_pending q"
  "wq_queued (cancel_delayed k q) = wq_queued q"
  "wq_order (cancel_delayed k q) = wq_order q"
  "wq_processing (cancel_delayed k q) = wq_processing q"
  "wq_seq (cancel_delayed k q) = wq_seq q"
  "wq_debounce (cancel_delayed k q) = wq_debounce q"
  "wq_dedup_max_wait (cancel_delayed k q) = wq_dedup_max_wait q"
  "wq_dedup_window (cancel_delayed k q) = wq_dedup_window q"
  "wq_coalesce (cancel_delayed k q) = wq_coalesce q"
  "wq_delayed (cancel_delayed k q) = filter (\<lambda>x. entry_keys x \<noteq> k) (wq_delayed q)"
  by (simp_all add: cancel_delayed_simp)

lemma distinct_map_filterI: "distinct (map f xs) \<Longrightarrow> distinct (map f (filter P xs))"
  by (rule distinct_map_filter)

lemma cancel_timers: "timers_ok q \<Longrightarrow> timers_ok (cancel_delayed k q)"
  by (auto simp: timers_ok_def sorted_wrt_filter distinct_map_filter)

lemma debounce_drop_timers: "timers_ok q \<Longrightarrow> timers_ok (q\<lparr>wq_debounce := dpop k (wq_debounce q)\<rparr>)"
  using set_dpop_subset [of k "wq_debounce q"] by (fastforce simp: timers_ok_def)

lemma debounce_set_timers:
  assumes "timers_ok q" and "deadline \<le> f + wq_dedup_max_wait q"
  shows "timers_ok (q\<lparr>wq_debounce := dput k (deadline, f, e) (wq_debounce q)\<rparr>)"
  using assms set_dput_subset [of k "(deadline, f, e)" "wq_debounce q"]
  by (fastforce simp: timers_ok_def)

lemma timers_ok_irrelevant [simp]:
  "timers_ok (q\<lparr>wq_pending := p\<rparr>) = timers_ok q"
  "timers_ok (q\<lparr>wq_wakeup := w\<rparr>) = timers_ok q"
  "timers_ok (q\<lparr>wq_order := ord\<rparr>) = timers_ok q"
  "timers_ok (q\<lparr>wq_queued := qs\<rparr>) = timers_ok q"
  "timers_ok (q\<lparr>wq_processing := ps\<rparr>) = timers_ok q"
  "timers_ok (q\<lparr>wq_backoff := bo\<rparr>) = timers_ok q"
  by (simp_all add: timers_ok_def)

lemma ready_ok_irrelevant [simp]:
  "ready_ok (q\<lparr>wq_debounce := d\<rparr>) = ready_ok q"
  "ready_ok (q\<lparr>wq_wakeup := w\<rparr>) = ready_ok q"
  "ready_ok (q\<lparr>wq_delayed := dl\<rparr>) = ready_ok q"
  "ready_ok (q\<lparr>wq_seq := s\<rparr>) = ready_ok q"
  "ready_ok (q\<lparr>wq_backoff := bo\<rparr>) = ready_ok q"
  "ready_ok (cancel_delayed k q) = ready_ok q"
  by (simp_all add: ready_ok_def)

lemma covered_irrelevant [simp]:
  "covered (q\<lparr>wq_pending := p\<rparr>) = covered q"
  "covered (q\<lparr>wq_wakeup := w\<rparr>) = covered q"
  "covered (q\<lparr>wq_delayed := dl\<rparr>) = covered q"
  "covered (q\<lparr>wq_seq := s\<rparr>) = covered q"
  "covered (q\<lparr>wq_backoff := bo\<rparr>) = covered q"
  "covered (cancel_delayed k q) = covered q"
  by (simp_all add: covered_def)

lemma covered_debounce_put: "covered (q\<lparr>wq_debounce := dput k v (wq_debounce q)\<rparr>) = insert k (covered q)"
  by (auto simp: covered_def dict_simps)

lemma covered_debounce_pop: "covered q \<subseteq> insert k (covered (q\<lparr>wq_debounce := dpop k (wq_debounce q)\<rparr>))"
  by (auto simp: covered_def dict_simps)

lemma ready_ok_pending_put:
  assumes "ready_ok q" and "ev_keys ev = k"
  shows "ready_ok (q\<lparr>wq_pending := dput k ev (wq_pending q)\<rparr>)"
proof -
  from assms have "\<forall>(k', e) \<in> set (dput k ev (wq_pending q)). ev_keys e = k'"
    using set_dput_subset [of k ev "wq_pending q"] by (auto simp: ready_ok_def)
  with assms(1) show ?thesis
    by (auto simp: ready_ok_def keys_dput)
qed

lemma heappush_set [simp]: "set (heappush x xs) = insert x (set xs)"
  by (induction xs) auto

lemma entry_before_trans: "entry_before x y \<Longrightarrow> entry_before y z \<Longrightarrow> entry_before x z"
  by (cases x; cases y; cases z) auto

lemma entry_before_linear: "entry_before x y \<or> entry_before y x"
  by (cases x; cases y) auto

lemma heappush_sorted: "sorted_wrt entry_before xs \<Longrightarrow> sorted_wrt entry_before (heappush x xs)"
proof (induction xs)
  case Nil
  then show ?case by simp
next
  case (Cons y ys)
  show ?case
  proof (cases "entry_before x y")
    case True
    with Cons.prems show ?thesis by (auto intro: entry_before_trans simp del: entry_before.simps)
  next
    case False
    then have "entry_before y x" using entry_before_linear [of x y] by blast
    with False Cons show ?thesis by (auto simp del: entry_before.simps)
  qed
qed

lemma heappush_distinct: "distinct (map f (heappush x xs)) \<longleftrightarrow> f x \<notin> f ` set xs \<and> distinct (map f xs)"
  by (induction xs) auto

subsection \<open>Fields an operation never writes\<close>

lemma wq_add_frame [simp]:
  "wq_processing (wq_add e now q) = wq_processing q"
  "wq_coalesce (wq_add e now q) = wq_coalesce q"
  "wq_dedup_max_wait (wq_add e now q) = wq_dedup_max_wait q"
  "wq_dedup_window (wq_add e now q) = wq_dedup_window q"
  "wq_backoff (wq_add e now q) = wq_backoff q"
  by (simp_all add: wq_add_def Let_def cancel_delayed_simp)

lemma add_after_frame [simp]:
  "wq_processing (add_after e delay now q) = wq_processing q"
  "wq_coalesce (add_after e delay now q) = wq_coalesce q"
  by (simp_all add: add_after_def Let_def)

lemma add_rate_limited_eq:
  "add_rate_limited e rnd now q =
     add_after e (fst (backoff_when rnd (ev_keys e) (wq_backoff q))) now
       (q\<lparr>wq_backoff := snd (backoff_when rnd (ev_keys e) (wq_backoff q))\<rparr>)"
  by (simp add: add_rate_limited_def split: prod.split)

lemma drain_delayed_frame [simp]:
  "wq_processing (drain_delayed now q) = wq_processing q \<and>
   wq_coalesce (drain_delayed now q) = wq_coalesce q \<and>
   wq_dedup_max_wait (drain_delayed now q) = wq_dedup_max_wait q"
proof (induction now q rule: drain_delayed.induct)
  case (1 now q)
  then show ?case
    by (subst (1 2 3) drain_delayed.simps) (auto split: list.split)
qed

lemma drain_expired_frame [simp]:
  "wq_processing (drain_expired ks q) = wq_processing q \<and>
   wq_coalesce (drain_expired ks q) = wq_coalesce q \<and>
   wq_pending (drain_expired ks q) = wq_pending q \<and>
   wq_delayed (drain_expired ks q) = wq_delayed q"
  by (induction ks arbitrary: q) (simp_all add: Let_def split: option.split)

lemma drain_due_frame [simp]:
  "wq_processing (drain_due now q) = wq_processing q"
  "wq_coalesce (drain_due now q) = wq_coalesce q"
  by (simp_all add: drain_due_def Let_def)

lemma get_turn_empty:
  "wq_order (drain_due now q) = [] \<Longrightarrow>
   get_turn now now' q =
     (if has_due now' (drain_due now q) then Again else Wait (time_to_next_due now (drain_due now q)),
      (drain_due now q)\<lparr>wq_wakeup := False\<rparr>)"
  by (simp add: get_turn_def has_due_def Let_def)

lemma get_turn_ready:
  "wq_order (drain_due now q) = k # ks \<Longrightarrow> dget (wq_pending (drain_due now q)) k = Some e \<Longrightarrow>
   get_turn now now' q =
     (Got e, (drain_due now q)\<lparr>wq_order := ks, wq_queued := wq_queued (drain_due now q) - {k},
        wq_pending := dpop k (wq_pending (drain_due now q)),
        wq_processing := insert k (wq_processing (drain_due now q))\<rparr>)"
  by (simp add: get_turn_def Let_def)

lemma wq_inv_delayed_tail:
  "wq_inv q \<Longrightarrow> wq_delayed q = x # rest \<Longrightarrow> wq_inv (q\<lparr>wq_delayed := rest\<rparr>)"
  by (auto simp: wq_inv_def timers_ok_def)

lemma wq_inv_irrelevant [simp]:
  "wq_inv (q\<lparr>wq_wakeup := w\<rparr>) = wq_inv q"
  "wq_inv (q\<lparr>wq_backoff := bo\<rparr>) = wq_inv q"
  by (simp_all add: wq_inv_def)

lemma drain_expired_step_inv:
  assumes "wq_inv q"
  shows "wq_inv (case dget (wq_pending q) k of
            None \<Rightarrow> q\<lparr>wq_debounce := dpop k (wq_debounce q)\<rparr>
          | Some _ \<Rightarrow> promote_to_ready k False (q\<lparr>wq_debounce := dpop k (wq_debounce q)\<rparr>))"
proof (cases "dget (wq_pending q) k")
  case None
  then have "k \<notin> fst ` set (wq_pending q)" by (simp add: dget_None_iff)
  with assms None show ?thesis
    using covered_debounce_pop [where q = q and k = k] debounce_drop_timers [of q k]
    by (auto simp: wq_inv_def)
next
  case (Some e)
  let ?q1 = "q\<lparr>wq_debounce := dpop k (wq_debounce q)\<rparr>"
  have "k \<in> fst ` set (wq_pending ?q1)" using Some by (simp add: dget_key)
  with assms Some show ?thesis
    using covered_debounce_pop [where q = q and k = k] debounce_drop_timers [of q k]
      promote_ready_ok [of ?q1 k False]
    by (auto simp: wq_inv_def promote_covered)
qed

lemma drain_expired_inv: "wq_inv q \<Longrightarrow> wq_inv (drain_expired ks q)"
proof (induction ks arbitrary: q)
  case Nil
  then show ?case by simp
next
  case (Cons k ks)
  from Cons.IH [OF drain_expired_step_inv [OF Cons.prems, of k]] show ?case
    by (simp add: Let_def split: option.split)
qed

lemma push_timers:
  assumes "timers_ok q" and "\<forall>x \<in> set (wq_delayed q). entry_keys x \<noteq> ev_keys e"
  shows "timers_ok (q\<lparr>wq_delayed := heappush (t, wq_seq q, e) (wq_delayed q), wq_seq := Suc (wq_seq q)\<rparr>)"
proof -
  from assms(1) have lt: "\<forall>x \<in> set (wq_delayed q). fst (snd x) < wq_seq q"
    by (simp add: timers_ok_def)
  then have "wq_seq q \<notin> (fst \<circ> snd) ` set (wq_delayed q)" by force
  moreover have "ev_keys e \<notin> entry_keys ` set (wq_delayed q)" using assms(2) by force
  ultimately show ?thesis
    using assms(1) lt
    by (simp add: timers_ok_def heappush_sorted heappush_distinct less_Suc_eq)
qed

lemma add_after_delay_inv:
  assumes "wq_inv q"
  shows "wq_inv ((cancel_delayed (ev_keys e) q)\<lparr>
    wq_delayed := heappush (t, wq_seq (cancel_delayed (ev_keys e) q), e)
                    (wq_delayed (cancel_delayed (ev_keys e) q)),
    wq_seq := Suc (wq_seq (cancel_delayed (ev_keys e) q)), wq_wakeup := True\<rparr>)"
proof -
  let ?q = "cancel_delayed (ev_keys e) q"
  from assms have "timers_ok ?q" by (simp add: wq_inv_def cancel_timers)
  then have "timers_ok (?q\<lparr>wq_delayed := heappush (t, wq_seq ?q, e) (wq_delayed ?q),
      wq_seq := Suc (wq_seq ?q)\<rparr>)"
    by (rule push_timers) simp
  with assms show ?thesis by (simp add: wq_inv_def)
qed

lemma wq_done_inv:
  assumes "wq_inv q"
  shows "wq_inv (wq_done k q)"
proof (cases "dget (wq_pending q) k")
  case None
  then have "k \<notin> fst ` set (wq_pending q)" by (simp add: dget_None_iff)
  moreover have "wq_done k q = q\<lparr>wq_processing := wq_processing q - {k}\<rparr>"
    using None by (simp add: wq_done_def Let_def)
  ultimately show ?thesis
    using assms by (auto simp: wq_inv_def ready_ok_def covered_def)
next
  case (Some e)
  then have k: "k \<in> fst ` set (wq_pending q)" by (rule dget_key)
  show ?thesis
  proof (cases "k \<in> wq_queued q")
    case True
    with Some have "wq_done k q = q\<lparr>wq_processing := wq_processing q - {k}\<rparr>"
      by (simp add: wq_done_def Let_def)
    with True assms show ?thesis by (auto simp: wq_inv_def ready_ok_def covered_def)
  next
    case False
    with Some have "wq_done k q =
      (enqueue_ready k (Some (ev_type e)) (q\<lparr>wq_processing := wq_processing q - {k}\<rparr>))\<lparr>wq_wakeup := True\<rparr>"
      by (simp add: wq_done_def Let_def)
    with False k assms show ?thesis
      by (auto simp: wq_inv_def ready_ok_def covered_def enqueue_ready_def)
  qed
qed

section \<open>What a coalescing function promises, and what the queue makes of it\<close>

text \<open>
  The queue takes the coalescing function as a constructor argument. Its clients rely on
  three laws: the key is kept, a pending \<open>DELETED\<close> is sticky, and an incoming \<open>DELETED\<close>
  always wins. The invariant and the priority of deletions follow for every such function.
\<close>

locale work_coalescer =
  fixes co :: "('k, 'o) work_event \<Rightarrow> ('k, 'o) work_event \<Rightarrow> ('k, 'o) work_event"
  assumes co_keys: "ev_keys e1 = ev_keys e2 \<Longrightarrow> ev_keys (co e1 e2) = ev_keys e1"
    and co_sticky: "ev_type e1 = DELETED \<Longrightarrow> ev_type (co e1 e2) = DELETED"
    and co_upgrade: "ev_type e2 = DELETED \<Longrightarrow> ev_type (co e1 e2) = DELETED"
begin

lemma coalesced_keys:
  assumes "ready_ok q" and "wq_coalesce q = co" and "dget (wq_pending q) (ev_keys e) = Some old"
  shows "ev_keys (co old e) = ev_keys e"
proof -
  from assms(1,3) have "ev_keys old = ev_keys e"
    by (auto simp: ready_ok_def dest!: dget_mem)
  then show ?thesis using co_keys [of old e] by simp
qed

lemma wq_add_inv:
  assumes inv: "wq_inv q" and c: "wq_coalesce q = co"
  shows "wq_inv (wq_add e now q)"
proof -
  define k where "k = ev_keys e"
  define ev where "ev = (case dget (wq_pending q) k of None \<Rightarrow> e | Some old \<Rightarrow> wq_coalesce q old e)"
  define q1 where "q1 = q\<lparr>wq_pending := dput k ev (wq_pending q)\<rparr>"
  from inv have r: "ready_ok q" and t: "timers_ok q" and l: "fst ` set (wq_pending q) \<subseteq> covered q"
    by (simp_all add: wq_inv_def)
  have "ev_keys ev = k"
    using coalesced_keys [OF r c, of e] by (simp add: ev_def k_def c split: option.split)
  with r have r1: "ready_ok q1"
    unfolding q1_def by (rule ready_ok_pending_put)
  have t1: "timers_ok q1" using t by (simp add: q1_def)
  have p1: "k \<in> fst ` set (wq_pending q1)" and l1: "fst ` set (wq_pending q1) \<subseteq> insert k (covered q1)"
    using l by (auto simp: q1_def dict_simps)
  let ?q3 = "cancel_delayed k q1\<lparr>wq_debounce := dpop k (wq_debounce (cancel_delayed k q1))\<rparr>"
  let ?f = "case dget (wq_debounce q1) k of None \<Rightarrow> now | Some (_, f, _) \<Rightarrow> f"
  let ?d = "min (now + wq_dedup_window q1) (?f + wq_dedup_max_wait q1)"
  have "wq_inv ((promote_to_ready k True ?q3)\<lparr>wq_wakeup := True\<rparr>)"
    using promote_ready_ok [of ?q3 k True] r1 p1 l1 debounce_drop_timers [OF cancel_timers [OF t1]]
      covered_debounce_pop [where q = "cancel_delayed k q1" and k = k]
    by (auto simp: wq_inv_def promote_covered)
  moreover have "wq_inv (q1\<lparr>wq_debounce := dput k (?d, ?f, ev) (wq_debounce q1), wq_wakeup := True\<rparr>)"
    using debounce_set_timers [OF t1, of ?d ?f k ev] r1 l1
      covered_debounce_put [where q = q1 and k = k and v = "(?d, ?f, ev)"]
    by (auto simp: wq_inv_def)
  moreover have "wq_inv ((promote_to_ready k False q1)\<lparr>wq_wakeup := True\<rparr>)"
    using promote_ready_ok [OF r1 p1, of False] t1 l1 by (auto simp: wq_inv_def promote_covered)
  ultimately show ?thesis
    unfolding wq_add_def Let_def k_def [symmetric] ev_def [symmetric] q1_def [symmetric] by simp
qed

lemma drain_delayed_inv: "wq_inv q \<Longrightarrow> wq_coalesce q = co \<Longrightarrow> wq_inv (drain_delayed now q)"
proof (induction now q rule: drain_delayed.induct)
  case (1 now q)
  show ?case
  proof (cases "wq_delayed q")
    case Nil
    with 1 show ?thesis by (simp add: drain_delayed.simps)
  next
    case (Cons x rest)
    obtain due sq e where x: "x = (due, sq, e)" by (cases x)
    have "wq_inv (wq_add e now (q\<lparr>wq_delayed := rest\<rparr>))"
      using wq_add_inv [OF wq_inv_delayed_tail [OF 1(2) Cons], of e now] 1(3) by simp
    then show ?thesis
      using 1 Cons x by (subst drain_delayed.simps) simp
  qed
qed

lemma drain_due_inv: "wq_inv q \<Longrightarrow> wq_coalesce q = co \<Longrightarrow> wq_inv (drain_due now q)"
  by (simp add: drain_due_def Let_def drain_delayed_inv drain_expired_inv)

lemma add_after_inv: "wq_inv q \<Longrightarrow> wq_coalesce q = co \<Longrightarrow> wq_inv (add_after e delay now q)"
  using wq_add_inv [of q e now] add_after_delay_inv [of q e "now + delay"]
  unfolding add_after_def Let_def by (simp only: if_split) blast

lemma get_turn_inv:
  assumes inv: "wq_inv q" and c: "wq_coalesce q = co" and g: "get_turn now now' q = (r, q')"
  shows "wq_inv q' \<and> wq_coalesce q' = co \<and> r \<noteq> GetKeyError \<and>
    (case r of Got e \<Rightarrow> ev_keys e \<notin> wq_processing q \<and>
                        wq_processing q' = insert (ev_keys e) (wq_processing q)
             | _ \<Rightarrow> wq_processing q' = wq_processing q)"
proof -
  define q1 where "q1 = drain_due now q"
  have i1: "wq_inv q1" and c1: "wq_coalesce q1 = co" and pr: "wq_processing q1 = wq_processing q"
    using drain_due_inv [OF inv c] c by (simp_all add: q1_def)
  show ?thesis
  proof (cases "wq_order q1")
    case Nil
    then have "r = Again \<or> (\<exists>t. r = Wait t)" and "q' = q1\<lparr>wq_wakeup := False\<rparr>"
      using g by (auto simp: get_turn_empty q1_def split: if_splits)
    with i1 c1 pr show ?thesis by auto
  next
    case (Cons k ks)
    with i1 have "k \<in> fst ` set (wq_pending q1)" by (auto simp: wq_inv_def ready_ok_def)
    then obtain e where e: "dget (wq_pending q1) k = Some e" using key_dget [of k "wq_pending q1"] by blast
    with i1 have ke: "ev_keys e = k" by (auto simp: wq_inv_def ready_ok_def dest!: dget_mem)
    let ?q' = "q1\<lparr>wq_order := ks, wq_queued := wq_queued q1 - {k},
                   wq_pending := dpop k (wq_pending q1), wq_processing := insert k (wq_processing q1)\<rparr>"
    have rq: "r = Got e" "q' = ?q'"
      using g get_turn_ready [of now q k ks e now'] Cons e by (auto simp: q1_def)
    have "wq_inv ?q'"
      using i1 Cons set_dpop_subset [of k "wq_pending q1"]
      by (auto simp: wq_inv_def ready_ok_def covered_def keys_dpop timers_ok_def)
    moreover have "k \<notin> wq_processing q"
      using i1 Cons pr by (auto simp: wq_inv_def ready_ok_def)
    ultimately show ?thesis using rq ke c1 pr by simp
  qed
qed

lemma wq_exec_inv:
  assumes "wq_inv q" and "wq_coalesce q = co" and "wq_exec a q = (r, q')"
  shows "wq_inv q' \<and> wq_coalesce q' = co"
proof (cases a)
  case (GetTurn now now')
  with assms show ?thesis
    using get_turn_inv [OF assms(1,2)] by (auto split: prod.splits)
next
  case (AddRateLimited e rnd now)
  with assms show ?thesis
    using add_after_inv [of "q\<lparr>wq_backoff := snd (backoff_when rnd (ev_keys e) (wq_backoff q))\<rparr>"]
    by (auto simp: add_rate_limited_eq)
next
  case (Done k)
  with assms wq_done_inv [OF assms(1), of k] show ?thesis
    by (auto simp: wq_done_def enqueue_ready_def Let_def split: option.splits)
qed (use assms wq_add_inv add_after_inv in \<open>auto simp: wq_forget_def\<close>)

lemma wq_reachable_inv:
  assumes "wq_reachable q0 q" and "wq_inv q0" and "wq_coalesce q0 = co"
  shows "wq_inv q \<and> wq_coalesce q = co"
  using assms
proof (induction rule: wq_reachable.induct)
  case start
  then show ?case by simp
next
  case (step q a r q')
  then show ?case using wq_exec_inv by blast
qed

lemma exec_keeps_processing:
  assumes "wq_inv q" and "wq_coalesce q = co" and "wq_exec a q = (r, q')"
    and "k \<in> wq_processing q" and "a \<noteq> Done k"
  shows "k \<in> wq_processing q' \<and> (\<forall>e. r = Some (Got e) \<longrightarrow> ev_keys e \<noteq> k)"
proof (cases a)
  case (GetTurn now now')
  with assms show ?thesis
    using get_turn_inv [OF assms(1,2), of now now'] by (auto split: prod.splits get_result.splits)
next
  case (Done k')
  with assms show ?thesis
    by (auto simp: wq_done_def enqueue_ready_def Let_def split: option.splits)
qed (use assms in \<open>auto simp: wq_forget_def add_rate_limited_eq\<close>)

lemma run_serial:
  assumes "wq_inv q" and "wq_coalesce q = co" and "wq_run as q = (rs, q')"
    and "k \<in> wq_processing q" and "Done k \<notin> set as"
  shows "k \<in> wq_processing q' \<and> (\<forall>e. Got e \<in> set rs \<longrightarrow> ev_keys e \<noteq> k)"
  using assms
proof (induction as arbitrary: q rs)
  case Nil
  then show ?case by simp
next
  case (Cons a as)
  obtain r q1 where a: "wq_exec a q = (r, q1)" by (cases "wq_exec a q")
  obtain rs1 where as: "wq_run as q1 = (rs1, q')"
    using Cons.prems(3) a by (auto split: prod.splits)
  have "k \<in> wq_processing q1 \<and> (\<forall>e. r = Some (Got e) \<longrightarrow> ev_keys e \<noteq> k)"
    using exec_keeps_processing [OF Cons.prems(1,2) a Cons.prems(4)] Cons.prems(5) by auto
  moreover have "k \<in> wq_processing q' \<and> (\<forall>e. Got e \<in> set rs1 \<longrightarrow> ev_keys e \<noteq> k)"
    using Cons.IH [of q1] wq_exec_inv [OF Cons.prems(1,2) a] as Cons.prems(5) calculation by auto
  moreover have "set rs \<subseteq> set_option r \<union> set rs1"
    using Cons.prems(3) a as by (cases r) auto
  ultimately show ?case by fastforce
qed

lemma run_reachable: "wq_run as q = (rs, q') \<Longrightarrow> wq_reachable q0 q \<Longrightarrow> wq_reachable q0 q'"
proof (induction as arbitrary: q rs)
  case Nil
  then show ?case by simp
next
  case (Cons a as)
  then show ?case by (auto split: prod.splits intro: wq_reachable.step)
qed

lemma wq_add_pending_deleted:
  assumes "dget (wq_pending q) k = Some d" and "ev_type d = DELETED" and "wq_coalesce q = co"
  shows "\<exists>d'. dget (wq_pending (wq_add e now q)) k = Some d' \<and> ev_type d' = DELETED"
  using assms co_sticky [of d e]
  by (cases "ev_keys e = k") (auto simp: wq_add_def Let_def dict_simps)

lemma drain_delayed_pending_deleted:
  assumes "dget (wq_pending q) k = Some d" and "ev_type d = DELETED" and "wq_coalesce q = co"
  shows "\<exists>d'. dget (wq_pending (drain_delayed now q)) k = Some d' \<and> ev_type d' = DELETED"
  using assms
proof (induction now q arbitrary: d rule: drain_delayed.induct)
  case (1 now q)
  show ?case
  proof (cases "wq_delayed q")
    case Nil
    with 1 show ?thesis by (simp add: drain_delayed.simps)
  next
    case (Cons x rest)
    obtain due sq e where x: "x = (due, sq, e)" by (cases x)
    let ?q = "wq_add e now (q\<lparr>wq_delayed := rest\<rparr>)"
    obtain d' where "dget (wq_pending ?q) k = Some d'" "ev_type d' = DELETED"
      using wq_add_pending_deleted [of "q\<lparr>wq_delayed := rest\<rparr>" k d e now] 1 by auto
    then show ?thesis
      using 1 Cons x by (subst drain_delayed.simps) auto
  qed
qed

lemma drain_due_pending_deleted:
  assumes "dget (wq_pending q) k = Some d" and "ev_type d = DELETED" and "wq_coalesce q = co"
  shows "\<exists>d'. dget (wq_pending (drain_due now q)) k = Some d' \<and> ev_type d' = DELETED"
  using drain_delayed_pending_deleted [OF assms, of now] by (simp add: drain_due_def Let_def)

lemma exec_pending_deleted:
  assumes inv: "wq_inv q" and c: "wq_coalesce q = co" and x: "wq_exec a q = (r, q')"
    and d: "dget (wq_pending q) k = Some d" "ev_type d = DELETED"
  shows "(\<exists>d'. dget (wq_pending q') k = Some d' \<and> ev_type d' = DELETED) \<or>
         (\<exists>e. r = Some (Got e) \<and> ev_keys e = k \<and> ev_type e = DELETED)"
proof (cases a)
  case (GetTurn now now')
  obtain g where g: "get_turn now now' q = (g, q')" and r: "r = Some g"
    using x GetTurn by (auto split: prod.splits)
  define q1 where "q1 = drain_due now q"
  obtain d' where d': "dget (wq_pending q1) k = Some d'" "ev_type d' = DELETED"
    using drain_due_pending_deleted [OF d c] by (auto simp: q1_def)
  have i1: "wq_inv q1" using drain_due_inv [OF inv c] by (simp add: q1_def)
  show ?thesis
  proof (cases "wq_order q1")
    case Nil
    then show ?thesis using g d' by (auto simp: get_turn_empty q1_def)
  next
    case (Cons h hs)
    with i1 obtain e where e: "dget (wq_pending q1) h = Some e"
      using key_dget [of h "wq_pending q1"] by (auto simp: wq_inv_def ready_ok_def)
    with i1 have "ev_keys e = h" by (auto simp: wq_inv_def ready_ok_def dest!: dget_mem)
    then show ?thesis
      using g r d' e get_turn_ready [of now q h hs e now'] Cons
      by (auto simp: q1_def [symmetric] dict_simps)
  qed
qed (use assms wq_add_pending_deleted [OF d c] in
      \<open>auto simp: wq_forget_def wq_done_def enqueue_ready_def add_rate_limited_eq add_after_def
        wq_add_pending_deleted Let_def split: option.splits\<close>)

end

interpretation default_co: work_coalescer default_coalesce
  by unfold_locales (simp_all add: default_coalesce_def)

section \<open>Timers: nothing due is left behind\<close>

lemma drain_delayed_done: "\<forall>x \<in> set (wq_delayed (drain_delayed now q)). sorted_wrt entry_before (wq_delayed (drain_delayed now q)) \<longrightarrow> now < fst x"
proof (induction now q rule: drain_delayed.induct)
  case (1 now q)
  show ?case
  proof (cases "wq_delayed q")
    case Nil
    then show ?thesis by (simp add: drain_delayed.simps)
  next
    case (Cons x rest)
    obtain due sq e where x: "x = (due, sq, e)" by (cases x)
    show ?thesis
    proof (cases "due \<le> now")
      case True
      then show ?thesis using 1 Cons x by (subst (1 2) drain_delayed.simps) simp
    next
      case False
      then have "drain_delayed now q = q" using Cons x by (simp add: drain_delayed.simps)
      with False Cons x show ?thesis by force
    qed
  qed
qed

lemma drain_expired_debounce: "wq_debounce (drain_expired ks q) = filter (\<lambda>p. fst p \<notin> set ks) (wq_debounce q)"
proof (induction ks arbitrary: q)
  case Nil
  then show ?case by simp
next
  case (Cons k ks)
  show ?case
    by (cases "dget (wq_pending q) k")
      (auto simp: Cons.IH Let_def AList.delete_eq intro!: filter_cong)
qed

lemma drain_due_eq: "drain_due now q = drain_expired (expired_keys now (drain_delayed now q)) (drain_delayed now q)"
  by (simp add: drain_due_def Let_def expired_keys_def)

lemma drain_due_no_debounce:
  "(k, deadline, f, e) \<in> set (wq_debounce (drain_due now q)) \<Longrightarrow> now < deadline"
  by (force simp: drain_due_eq drain_expired_debounce expired_keys_def)

lemma drain_expired_queued_mono: "wq_queued q \<subseteq> wq_queued (drain_expired ks q)"
proof (induction ks arbitrary: q)
  case Nil
  then show ?case by simp
next
  case (Cons k ks)
  let ?q1 = "q\<lparr>wq_debounce := dpop k (wq_debounce q)\<rparr>"
  have "wq_queued q \<subseteq> wq_queued (promote_to_ready k False ?q1)"
    using promote_queued_mono [of ?q1 k False] by simp
  with Cons.IH [of ?q1] Cons.IH [of "promote_to_ready k False ?q1"] show ?case
    by (auto simp: Let_def split: option.split)
qed

lemma drain_expired_promotes:
  "k \<in> set ks \<Longrightarrow> k \<in> fst ` set (wq_pending q) \<Longrightarrow>
   k \<in> wq_queued (drain_expired ks q) \<union> wq_processing q"
proof (induction ks arbitrary: q)
  case Nil
  then show ?case by simp
next
  case (Cons j ks)
  let ?q1 = "q\<lparr>wq_debounce := dpop j (wq_debounce q)\<rparr>"
  let ?q2 = "case dget (wq_pending q) j of None \<Rightarrow> ?q1 | Some _ \<Rightarrow> promote_to_ready j False ?q1"
  have step: "drain_expired (j # ks) q = drain_expired ks ?q2"
    by (simp add: Let_def)
  show ?case
  proof (cases "k = j")
    case True
    obtain e where "dget (wq_pending q) j = Some e"
      using Cons.prems(2) True key_dget [of k "wq_pending q"] by auto
    then have "k \<in> wq_queued ?q2 \<union> wq_processing q"
      using promote_queued [of j False ?q1] True by auto
    then show ?thesis using drain_expired_queued_mono [of ?q2 ks] step by auto
  next
    case False
    have "k \<in> wq_queued (drain_expired ks ?q2) \<union> wq_processing ?q2"
      using Cons.IH [of ?q2] Cons.prems False by (auto split: option.splits)
    then show ?thesis using step by (auto split: option.splits)
  qed
qed

text \<open>A pending key whose window has run out stays so until it is made ready.\<close>

definition due_or_ready :: "rat \<Rightarrow> 'k \<Rightarrow> ('k, 'o) workqueue \<Rightarrow> bool" where
  "due_or_ready now k q \<longleftrightarrow> k \<in> fst ` set (wq_pending q) \<and>
     (k \<in> wq_queued q \<union> wq_processing q \<or>
      (\<exists>d f e. dget (wq_debounce q) k = Some (d, f, e) \<and> d \<le> now \<and> f + wq_dedup_max_wait q \<le> now))"

text \<open>The three ways \<open>_add\<close> ends.\<close>

lemma wq_add_branches:
  obtains (Deleted) ev q1 where "q1 = q\<lparr>wq_pending := dput (ev_keys e) ev (wq_pending q)\<rparr>"
      "ev_type ev = DELETED"
      "wq_add e now q = (promote_to_ready (ev_keys e) True
         ((cancel_delayed (ev_keys e) q1)\<lparr>wq_debounce := dpop (ev_keys e) (wq_debounce q)\<rparr>))\<lparr>wq_wakeup := True\<rparr>"
  | (Debounced) ev q1 f where "q1 = q\<lparr>wq_pending := dput (ev_keys e) ev (wq_pending q)\<rparr>"
      "f = (case dget (wq_debounce q) (ev_keys e) of None \<Rightarrow> now | Some (_, f, _) \<Rightarrow> f)"
      "wq_add e now q = q1\<lparr>wq_debounce := dput (ev_keys e)
         (min (now + wq_dedup_window q) (f + wq_dedup_max_wait q), f, ev) (wq_debounce q), wq_wakeup := True\<rparr>"
  | (Ready) ev q1 where "q1 = q\<lparr>wq_pending := dput (ev_keys e) ev (wq_pending q)\<rparr>"
      "wq_add e now q = (promote_to_ready (ev_keys e) False q1)\<lparr>wq_wakeup := True\<rparr>"
proof -
  define ev where "ev = (case dget (wq_pending q) (ev_keys e) of None \<Rightarrow> e | Some old \<Rightarrow> wq_coalesce q old e)"
  note d = wq_add_def [of e now q, folded ev_def, unfolded Let_def, folded ev_def]
  show thesis
  proof (cases "ev_type ev = DELETED")
    case True
    then show thesis by (intro Deleted [OF refl, of ev]) (simp_all add: d)
  next
    case del: False
    show thesis
    proof (cases "0 < wq_dedup_window q \<and> ev_type ev = MODIFIED")
      case True
      with del show thesis by (intro Debounced [OF refl refl, of ev]) (simp add: d)
    next
      case False
      with del show thesis by (intro Ready [OF refl, of ev]) (auto simp: d)
    qed
  qed
qed

lemma wq_add_due_or_ready:
  assumes "due_or_ready now k q"
  shows "due_or_ready now k (wq_add e now q)"
proof (cases rule: wq_add_branches [where q = q and e = e and now = now])
  case (Deleted ev q1)
  then show ?thesis
    using assms by (auto simp: due_or_ready_def dict_simps promote_queued_eq)
next
  case (Debounced ev q1 f)
  then show ?thesis
    using assms by (auto simp: due_or_ready_def dict_simps min_le_iff_disj)
next
  case (Ready ev q1)
  then show ?thesis
    using assms by (auto simp: due_or_ready_def dict_simps promote_queued_eq)
qed

lemma drain_delayed_due_or_ready: "due_or_ready now k q \<Longrightarrow> due_or_ready now k (drain_delayed now q)"
proof (induction now q rule: drain_delayed.induct)
  case (1 now q)
  show ?case
  proof (cases "wq_delayed q")
    case Nil
    with 1 show ?thesis by (simp add: drain_delayed.simps)
  next
    case (Cons x rest)
    obtain due sq e where x: "x = (due, sq, e)" by (cases x)
    have "due_or_ready now k (q\<lparr>wq_delayed := rest\<rparr>)"
      using 1(2) by (simp add: due_or_ready_def)
    then have "due_or_ready now k (wq_add e now (q\<lparr>wq_delayed := rest\<rparr>))"
      by (rule wq_add_due_or_ready)
    then show ?thesis using 1 Cons x by (subst drain_delayed.simps) auto
  qed
qed

lemma drain_due_makes_ready:
  assumes "due_or_ready now k q"
  shows "k \<in> wq_queued (drain_due now q) \<union> wq_processing q"
proof -
  define q1 where "q1 = drain_delayed now q"
  have d: "due_or_ready now k q1"
    using drain_delayed_due_or_ready [OF assms] by (simp add: q1_def)
  show ?thesis
  proof (cases "k \<in> wq_queued q1 \<union> wq_processing q1")
    case True
    then show ?thesis
      using drain_expired_queued_mono [of q1 "expired_keys now q1"]
      by (auto simp: drain_due_eq q1_def)
  next
    case False
    with d obtain dl f e where "dget (wq_debounce q1) k = Some (dl, f, e)" "dl \<le> now"
      by (auto simp: due_or_ready_def)
    then have "k \<in> set (expired_keys now q1)"
      by (force simp: expired_keys_def dest: dget_mem)
    moreover have "k \<in> fst ` set (wq_pending q1)" using d by (simp add: due_or_ready_def)
    ultimately show ?thesis
      using drain_expired_promotes [of k "expired_keys now q1" q1]
      by (auto simp: drain_due_eq q1_def)
  qed
qed

lemma next_due_exact:
  assumes "sorted_wrt entry_before (wq_delayed q)"
    and "dues = fst ` set (wq_delayed q) \<union> fst ` snd ` set (wq_debounce q)"
    and "\<forall>d \<in> dues. now < d"
  shows "case time_to_next_due now q of None \<Rightarrow> dues = {}
         | Some s \<Rightarrow> 0 < s \<and> now + s \<in> dues \<and> (\<forall>d \<in> dues. now + s \<le> d)"
proof -
  define first where "first = (case wq_delayed q of [] \<Rightarrow> [] | x # _ \<Rightarrow> [fst x]) @ map fst (dvals (wq_debounce q))"
  have sub: "set first \<subseteq> dues"
    using assms(2) by (cases "wq_delayed q") (auto simp: first_def image_image)
  have low: "\<exists>m \<in> set first. m \<le> d" if "d \<in> dues" for d
  proof (cases "d \<in> fst ` set (wq_delayed q)")
    case True
    then obtain x where x: "x \<in> set (wq_delayed q)" "d = fst x" by blast
    then obtain y ys where y: "wq_delayed q = y # ys" by (cases "wq_delayed q") auto
    with x assms(1) have "x = y \<or> entry_before y x" by auto
    then have "fst y \<le> d" using x by (cases x; cases y) auto
    then show ?thesis using y by (simp add: first_def)
  next
    case False
    with that assms(2) have "d \<in> fst ` snd ` set (wq_debounce q)" by simp
    then have "d \<in> set first" by (simp add: first_def image_image)
    then show ?thesis by blast
  qed
  have t: "time_to_next_due now q = (if first = [] then None else Some (max 0 (Min (set first) - now)))"
    unfolding time_to_next_due_def first_def Let_def by (rule refl)
  show ?thesis
  proof (cases "first = []")
    case True
    then show ?thesis using low by (auto simp: t)
  next
    case False
    then have mi: "Min (set first) \<in> set first" by simp
    with sub assms(3) have pos: "now < Min (set first)" by blast
    have "\<forall>d \<in> dues. Min (set first) \<le> d"
      using low by (meson Min_le List.finite_set order_trans)
    then show ?thesis
      using False mi sub pos by (auto simp: t max_def)
  qed
qed

section \<open>Properties of the queue\<close>

lemma reachable_inv:
  "wq_reachable (workqueue_init w m b c j None) q \<Longrightarrow> wq_inv q \<and> wq_coalesce q = default_coalesce"
proof -
  assume "wq_reachable (workqueue_init w m b c j None) q"
  moreover have "wq_coalesce (workqueue_init w m b c j None) = default_coalesce"
    by (simp add: workqueue_init_def)
  ultimately show "wq_inv q \<and> wq_coalesce q = default_coalesce"
    by (rule default_co.wq_reachable_inv [OF _ wq_inv_init])
qed

lemma reachable_by_run: "snd (wq_run as q) = q' \<Longrightarrow> wq_reachable q q'"
  using default_co.run_reachable [of as q "fst (wq_run as q)" q' q] wq_reachable.start [of q]
  by (metis prod.collapse)

text \<open>A small queue for the witnesses: key 1 in flight and dirty again (debounced), key 2
  pending, key 3 delayed.\<close>

definition sample_ev :: "nat \<Rightarrow> work_event_type \<Rightarrow> (nat, unit) work_event" where
  "sample_ev k t = \<lparr>ev_keys = k, ev_type = t, ev_object = ()\<rparr>"

definition sample_init :: "(nat, unit) workqueue" where
  "sample_init = workqueue_init 2 5 1 300 0 None"

definition sample_actions :: "(nat, unit) wq_action list" where
  "sample_actions =
     [Add (sample_ev 1 ADDED) 0, GetTurn 0 0, Add (sample_ev 1 MODIFIED) 1,
      Add (sample_ev 2 MODIFIED) 1, AddAfter (sample_ev 3 ADDED) 9 1]"

definition sample_queue :: "(nat, unit) workqueue" where
  "sample_queue = snd (wq_run sample_actions sample_init)"

lemma sample_reachable: "wq_reachable (workqueue_init 2 5 1 300 0 None) sample_queue"
  using reachable_by_run [of sample_actions sample_init sample_queue]
  by (simp add: sample_queue_def sample_init_def)

text \<open>C1: No work is lost, and a turn of the consumer never fails. In every state that any
  interleaving of producers, completions and consumer turns can reach, each pending key is
  ready, in flight (so \<open>done\<close> re-queues it) or behind its debounce timer, and \<open>get\<close> never
  pops a key that is missing from the pending map.\<close>

theorem wq_no_lost_work:
  assumes "wq_reachable (workqueue_init w m b c j None) q"
  shows "(fst ` set (wq_pending q) \<subseteq> set (wq_order q) \<union> wq_processing q \<union> fst ` set (wq_debounce q)) \<and>
    (fst (get_turn now now' q) \<noteq> GetKeyError)"
proof (intro conjI)
  from assms have inv: "wq_inv q" and co: "wq_coalesce q = default_coalesce"
    using reachable_inv by blast+
  then show "fst ` set (wq_pending q) \<subseteq> set (wq_order q) \<union> wq_processing q \<union> fst ` set (wq_debounce q)"
    by (simp add: wq_inv_def ready_ok_def covered_def)
  show "fst (get_turn now now' q) \<noteq> GetKeyError"
    using default_co.get_turn_inv [OF inv co, of now now'] by (cases "get_turn now now' q") simp
qed

theorem wq_no_lost_work_witness:
  "fst ` set (wq_pending sample_queue) =  {1, 2} \<and> fst (get_turn 4 4 sample_queue) \<noteq> GetKeyError \<and>
   fst ` set (wq_pending sample_queue) \<subseteq>
     set (wq_order sample_queue) \<union> wq_processing sample_queue \<union> fst ` set (wq_debounce sample_queue)"
proof -
  have "fst ` set (wq_pending sample_queue) = {1, 2}" by code_simp
  with wq_no_lost_work [OF sample_reachable, of 4 4]
  show ?thesis by blast
qed

text \<open>C24: Per-key serialisation. Once a key is in flight, no later turn of the consumer hands
  out an event for it, whatever is added, delayed or completed for other keys meanwhile,
  until \<open>done\<close> is called for that key.\<close>

theorem wq_serialisation:
  assumes "wq_reachable (workqueue_init w m b c j None) q"
    and "k \<in> wq_processing q" and "Done k \<notin> set as" and "wq_run as q = (rs, q')"
  shows "(\<forall>e. Got e \<in> set rs \<longrightarrow> ev_keys e \<noteq> k) \<and> k \<in> wq_processing q'"
  using default_co.run_serial [of q as rs q' k] reachable_inv [OF assms(1)] assms(2-4) by blast

theorem wq_serialisation_witness:
  "1 \<in> wq_processing sample_queue \<and>
   Got (sample_ev 2 MODIFIED) \<in> set (fst (wq_run [GetTurn 7 7, Add (sample_ev 1 DELETED) 8, GetTurn 9 9] sample_queue)) \<and>
   \<not> (\<exists>e. Got e \<in> set (fst (wq_run [GetTurn 7 7, Add (sample_ev 1 DELETED) 8, GetTurn 9 9] sample_queue)) \<and> ev_keys e = 1)"
proof -
  let ?as = "[GetTurn 7 7, Add (sample_ev 1 DELETED) 8, GetTurn 9 9]"
  have p: "1 \<in> wq_processing sample_queue" by code_simp
  have "Got (sample_ev 2 MODIFIED) \<in> set (fst (wq_run ?as sample_queue))" by code_simp
  moreover have "Done 1 \<notin> set ?as" by simp
  ultimately show ?thesis
    using p wq_serialisation [OF sample_reachable p, of ?as] by (metis prod.collapse)
qed

text \<open>Deletions have priority. Adding a \<open>DELETED\<close> event leaves a pending deletion for the
  key, cancels its delayed and debounced entries, and puts the key at the front of the
  ready order, or, if it is in flight, leaves it for \<open>done\<close> to put there.\<close>

theorem wq_deleted_priority:
  assumes "wq_reachable (workqueue_init w m b c j None) q" and "ev_type e = DELETED"
  shows "(\<exists>d. dget (wq_pending (wq_add e now q)) (ev_keys e) = Some d \<and> ev_type d = DELETED) \<and>
    (ev_keys e \<notin> entry_keys ` set (wq_delayed (wq_add e now q))) \<and>
    (ev_keys e \<notin> fst ` set (wq_debounce (wq_add e now q))) \<and>
    (if ev_keys e \<in> wq_processing q then wq_order (wq_done (ev_keys e) (wq_add e now q)) = ev_keys e # wq_order q
         else (\<exists>ks. wq_order (wq_add e now q) = ev_keys e # ks))"
proof (intro conjI)
  from assms(1) have inv: "wq_inv q" and co: "wq_coalesce q = default_coalesce"
    using reachable_inv by blast+
  define ev where "ev = (case dget (wq_pending q) (ev_keys e) of None \<Rightarrow> e | Some old \<Rightarrow> wq_coalesce q old e)"
  have dl: "ev_type ev = DELETED"
    using assms(2) default_co.co_upgrade [of e] by (simp add: ev_def co split: option.split)
  define q3 where "q3 = q\<lparr>wq_pending := dput (ev_keys e) ev (wq_pending q),
    wq_delayed := filter (\<lambda>x. entry_keys x \<noteq> ev_keys e) (wq_delayed q),
    wq_debounce := dpop (ev_keys e) (wq_debounce q)\<rparr>"
  have eq: "wq_add e now q = (promote_to_ready (ev_keys e) True q3)\<lparr>wq_wakeup := True\<rparr>"
    using dl by (simp add: wq_add_def ev_def [symmetric] q3_def cancel_delayed_simp Let_def)
  show "\<exists>d. dget (wq_pending (wq_add e now q)) (ev_keys e) = Some d \<and> ev_type d = DELETED"
    using dl by (simp add: eq q3_def dict_simps)
  show "ev_keys e \<notin> entry_keys ` set (wq_delayed (wq_add e now q))"
    by (auto simp: eq q3_def)
  show "ev_keys e \<notin> fst ` set (wq_debounce (wq_add e now q))"
    by (simp add: eq q3_def keys_dpop)
  have "wq_queued q \<inter> wq_processing q = {}" using inv by (simp add: wq_inv_def ready_ok_def)
  then show "if ev_keys e \<in> wq_processing q then wq_order (wq_done (ev_keys e) (wq_add e now q)) = ev_keys e # wq_order q
         else (\<exists>ks. wq_order (wq_add e now q) = ev_keys e # ks)"
    using dl by (auto simp: eq q3_def promote_to_ready_def enqueue_ready_def wq_done_def dict_simps Let_def)
qed

theorem wq_deleted_priority_witness:
  "wq_order (wq_add (sample_ev 2 DELETED) 2 sample_queue) = [2] \<and>
   2 \<notin> fst ` set (wq_debounce (wq_add (sample_ev 2 DELETED) 2 sample_queue)) \<and>
   wq_order (wq_done 1 (wq_add (sample_ev 1 DELETED) 2 sample_queue)) = [1]"
proof -
  have "wq_order (wq_add (sample_ev 2 DELETED) 2 sample_queue) = [2]"
    and "wq_order (wq_done 1 (wq_add (sample_ev 1 DELETED) 2 sample_queue)) = [1]" by code_simp+
  then show ?thesis
    using wq_deleted_priority [OF sample_reachable, of "sample_ev 2 DELETED" 2]
    by (simp add: sample_ev_def)
qed

text \<open>Deletions are sticky. A pending \<open>DELETED\<close> survives every operation of the queue
  until a turn of the consumer hands exactly that deletion out.\<close>

theorem wq_deleted_sticky:
  assumes "wq_reachable (workqueue_init w m b c j None) q"
    and "dget (wq_pending q) k = Some d" and "ev_type d = DELETED" and "wq_exec a q = (r, q')"
  shows "(\<exists>d'. dget (wq_pending q') k = Some d' \<and> ev_type d' = DELETED) \<or>
         (\<exists>e. r = Some (Got e) \<and> ev_keys e = k \<and> ev_type e = DELETED)"
  using default_co.exec_pending_deleted [OF _ _ assms(4,2,3)] reachable_inv [OF assms(1)] by blast

theorem wq_deleted_sticky_witness:
  "\<exists>d'. dget (wq_pending (wq_add (sample_ev 1 ADDED) 3 (wq_add (sample_ev 1 DELETED) 2 sample_queue))) 1 = Some d' \<and>
        ev_type d' = DELETED"
proof -
  let ?q = "wq_add (sample_ev 1 DELETED) 2 sample_queue"
  have r: "wq_reachable (workqueue_init 2 5 1 300 0 None) ?q"
    by (rule wq_reachable.step [OF sample_reachable, of "Add (sample_ev 1 DELETED) 2" None]) simp
  have "dget (wq_pending ?q) 1 = Some (sample_ev 1 DELETED)" by code_simp
  from wq_deleted_sticky [OF r this, of "Add (sample_ev 1 ADDED) 3" None "wq_add (sample_ev 1 ADDED) 3 ?q"]
  show ?thesis by (simp add: sample_ev_def)
qed

text \<open>The debounce window cannot starve a key. A pending key that has been debounced since
  \<open>first\<close> is ready or in flight after the drain of any turn at or after
  \<open>first + dedup_max_wait\<close>, however many events slid its deadline.\<close>

theorem wq_debounce_bounded:
  assumes "wq_reachable (workqueue_init w m b c j None) q"
    and "k \<in> fst ` set (wq_pending q)" and "dget (wq_debounce q) k = Some (deadline, first, e)"
    and "first + wq_dedup_max_wait q \<le> now"
  shows "k \<in> set (wq_order (drain_due now q)) \<union> wq_processing (drain_due now q)"
proof -
  from assms(1) have inv: "wq_inv q" and co: "wq_coalesce q = default_coalesce"
    using reachable_inv by blast+
  have "deadline \<le> first + wq_dedup_max_wait q"
    using inv dget_mem [OF assms(3)] by (auto simp: wq_inv_def timers_ok_def)
  then have "due_or_ready now k q"
    using assms(2-4) by (auto simp: due_or_ready_def)
  then have "k \<in> wq_queued (drain_due now q) \<union> wq_processing q"
    by (rule drain_due_makes_ready)
  moreover have "set (wq_order (drain_due now q)) = wq_queued (drain_due now q)"
    using default_co.drain_due_inv [OF inv co, of now] by (simp add: wq_inv_def ready_ok_def)
  ultimately show ?thesis by simp
qed

theorem wq_debounce_bounded_witness:
  "dget (wq_debounce sample_queue) 2 = Some (3, 1, sample_ev 2 MODIFIED) \<and>
   2 \<in> set (wq_order (drain_due 6 sample_queue)) \<union> wq_processing (drain_due 6 sample_queue)"
proof -
  have d: "dget (wq_debounce sample_queue) 2 = Some (3, 1, sample_ev 2 MODIFIED)"
    and p: "2 \<in> fst ` set (wq_pending sample_queue)"
    and m: "1 + wq_dedup_max_wait sample_queue \<le> 6" by code_simp+
  from d wq_debounce_bounded [OF sample_reachable p d m] show ?thesis by blast
qed

text \<open>The consumer sleeps only when it may, and exactly as long as it may. When a turn
  decides to wait, no key is ready, every pending key is in flight or still inside its
  window, and the timeout is the positive distance to the earliest timer (none if there is
  no timer).\<close>

theorem wq_wait_exact:
  assumes "wq_reachable (workqueue_init w m b c j None) q" and "get_turn now now' q = (Wait t, q')"
  shows "(wq_order q' = []) \<and>
    (\<forall>k \<in> fst ` set (wq_pending q'). k \<in> wq_processing q' \<or>
           (\<exists>d f e. dget (wq_debounce q') k = Some (d, f, e) \<and> now < d)) \<and>
    (let dues = fst ` set (wq_delayed q') \<union> fst ` snd ` set (wq_debounce q')
         in case t of None \<Rightarrow> dues = {} | Some s \<Rightarrow> 0 < s \<and> now + s \<in> dues \<and> (\<forall>d \<in> dues. now + s \<le> d))"
proof (intro conjI)
  from assms(1) have inv: "wq_inv q" and co: "wq_coalesce q = default_coalesce"
    using reachable_inv by blast+
  have inv1: "wq_inv (drain_due now q)" using default_co.drain_due_inv [OF inv co] .
  have ord: "wq_order (drain_due now q) = []"
    using assms(2) inv1 default_co.get_turn_inv [OF inv co assms(2)]
    by (cases "wq_order (drain_due now q)") (auto simp: get_turn_def Let_def split: option.splits)
  then have q': "q' = (drain_due now q)\<lparr>wq_wakeup := False\<rparr>"
    and t: "t = time_to_next_due now (drain_due now q)"
    using assms(2) by (auto simp: get_turn_empty split: if_splits)
  show "wq_order q' = []" using ord q' by simp
  have deb: "\<And>k d f e. (k, d, f, e) \<in> set (wq_debounce q') \<Longrightarrow> now < d"
    using drain_due_no_debounce q' by fastforce
  have "wq_queued q' = {}" using inv1 ord q' by (simp add: wq_inv_def ready_ok_def)
  then have cov: "fst ` set (wq_pending q') \<subseteq> wq_processing q' \<union> fst ` set (wq_debounce q')"
    using inv1 q' by (auto simp: wq_inv_def covered_def)
  show "\<forall>k \<in> fst ` set (wq_pending q'). k \<in> wq_processing q' \<or>
           (\<exists>d f e. dget (wq_debounce q') k = Some (d, f, e) \<and> now < d)"
  proof
    fix k assume "k \<in> fst ` set (wq_pending q')"
    with cov consider "k \<in> wq_processing q'" | "k \<in> fst ` set (wq_debounce q')" by blast
    then show "k \<in> wq_processing q' \<or> (\<exists>d f e. dget (wq_debounce q') k = Some (d, f, e) \<and> now < d)"
      using key_dget [of k "wq_debounce q'"] deb by cases (fastforce dest: dget_mem)+
  qed
  define dues where "dues = fst ` set (wq_delayed q') \<union> fst ` snd ` set (wq_debounce q')"
  have sorted: "sorted_wrt entry_before (wq_delayed q')"
    using inv1 q' by (simp add: wq_inv_def timers_ok_def)
  have later: "\<forall>d \<in> dues. now < d"
    using deb drain_delayed_done [of now q] sorted q'
    by (fastforce simp: dues_def drain_due_eq)
  show "let dues = fst ` set (wq_delayed q') \<union> fst ` snd ` set (wq_debounce q')
         in case t of None \<Rightarrow> dues = {} | Some s \<Rightarrow> 0 < s \<and> now + s \<in> dues \<and> (\<forall>d \<in> dues. now + s \<le> d)"
    unfolding Let_def dues_def [symmetric]
    using next_due_exact [OF sorted dues_def later] t q' by (simp add: time_to_next_due_def)
qed

theorem wq_wait_exact_witness:
  "\<exists>q'. get_turn 2 2 sample_queue = (Wait (Some 1), q') \<and> wq_order q' = []"
proof -
  have "fst (get_turn 2 2 sample_queue) = Wait (Some 1)" by code_simp
  then obtain q' where "get_turn 2 2 sample_queue = (Wait (Some 1), q')"
    by (cases "get_turn 2 2 sample_queue") auto
  with wq_wait_exact [OF sample_reachable this] show ?thesis by blast
qed

text \<open>Last schedule wins. After \<open>add_after\<close> with a positive delay, the heap holds exactly
  one entry for the key: the new event at \<open>now + delay\<close>; in every reachable state no key has
  two delayed entries and the entries' sequence numbers are pairwise distinct, so the heap
  never compares two events.\<close>

theorem wq_last_schedule_wins:
  assumes "wq_reachable (workqueue_init w m b c j None) q" and "0 < delay"
  shows "(filter (\<lambda>x. entry_keys x = ev_keys e) (wq_delayed (add_after e delay now q)) =
           [(now + delay, wq_seq q, e)]) \<and>
    (distinct (map entry_keys (wq_delayed (add_after e delay now q)))) \<and>
    (distinct (map (fst \<circ> snd) (wq_delayed (add_after e delay now q))))"
proof (intro conjI)
  from assms(1) have inv: "wq_inv q" and co: "wq_coalesce q = default_coalesce"
    using reachable_inv by blast+
  have push: "filter (\<lambda>x. entry_keys x = ev_keys e) (heappush (t, n, e) (filter (\<lambda>x. entry_keys x \<noteq> ev_keys e) xs))
      = [(t, n, e)]" for t n xs
    by (induction xs) auto
  from assms(2) show "filter (\<lambda>x. entry_keys x = ev_keys e) (wq_delayed (add_after e delay now q)) =
           [(now + delay, wq_seq q, e)]"
    by (simp add: add_after_def Let_def push)
  show "distinct (map entry_keys (wq_delayed (add_after e delay now q)))"
    and "distinct (map (fst \<circ> snd) (wq_delayed (add_after e delay now q)))"
    using default_co.add_after_inv [OF inv co, of e delay now] by (simp_all add: wq_inv_def timers_ok_def)
qed

theorem wq_last_schedule_wins_witness:
  "filter (\<lambda>x. entry_keys x = 3) (wq_delayed (add_after (sample_ev 3 MODIFIED) 4 2 sample_queue)) =
     [(6, 1, sample_ev 3 MODIFIED)]"
proof -
  have "wq_seq sample_queue = 1" by code_simp
  with wq_last_schedule_wins [OF sample_reachable, of 4 "sample_ev 3 MODIFIED" 2] show ?thesis
    by (simp add: sample_ev_def)
qed

text \<open>Backoff. The delay after \<open>n\<close> recorded failures is \<open>min (base * 2 ^ n) cap\<close> plus
  at most the jitter fraction of it, so it lies between 0 and \<open>cap * (1 + jitter)\<close>; the
  failure is recorded for this key only, and \<open>forget\<close> restarts it at the base delay.\<close>

theorem backoff_delay_bounds:
  assumes "0 \<le> bo_base b" and "0 \<le> bo_cap b" and "0 \<le> bo_jitter b" and "0 \<le> rnd" and "rnd \<le> 1"
    and "backoff_when rnd k b = (delay, b')"
  shows "(min (bo_base b * 2 ^ backoff_failures k b) (bo_cap b) \<le> delay) \<and>
    (delay \<le> min (bo_base b * 2 ^ backoff_failures k b) (bo_cap b) * (1 + bo_jitter b)) \<and>
    (0 \<le> delay \<and> delay \<le> bo_cap b * (1 + bo_jitter b)) \<and>
    (backoff_failures k' b' = backoff_failures k' b + (if k' = k then 1 else 0)) \<and>
    (backoff_failures k (backoff_forget k b') = 0)"
proof (intro conjI)
  define m where "m = min (bo_base b * 2 ^ backoff_failures k b) (bo_cap b)"
  have m0: "0 \<le> m" using assms(1,2) by (simp add: m_def)
  have jr: "0 \<le> bo_jitter b * rnd" "bo_jitter b * rnd \<le> bo_jitter b"
    using assms(3-5) by (simp_all add: mult_left_le)
  have d: "delay = m * (1 + bo_jitter b * rnd)" and b': "b' = b\<lparr>bo_failures := dput k (backoff_failures k b + 1) (bo_failures b)\<rparr>"
    using assms(6) by (auto simp: backoff_when_def m_def backoff_failures_def Let_def algebra_simps split: if_splits)
  have lo: "m \<le> delay" using m0 jr by (simp add: d algebra_simps)
  have hi: "delay \<le> m * (1 + bo_jitter b)"
    unfolding d by (rule mult_left_mono) (use jr m0 in simp_all)
  have "m * (1 + bo_jitter b) \<le> bo_cap b * (1 + bo_jitter b)"
    by (rule mult_right_mono) (use assms(3) in \<open>simp_all add: m_def\<close>)
  with lo hi m0 show "0 \<le> delay" and "delay \<le> bo_cap b * (1 + bo_jitter b)" by linarith+
  show "min (bo_base b * 2 ^ backoff_failures k b) (bo_cap b) \<le> delay"
    and "delay \<le> min (bo_base b * 2 ^ backoff_failures k b) (bo_cap b) * (1 + bo_jitter b)"
    using lo hi by (simp_all add: m_def)
  show "backoff_failures k' b' = backoff_failures k' b + (if k' = k then 1 else 0)"
    and "backoff_failures k (backoff_forget k b') = 0"
    by (simp_all add: b' backoff_failures_def backoff_forget_def dict_simps)
qed

theorem backoff_delay_bounds_witness:
  "fst (backoff_when (1/2) (7::nat) \<lparr>bo_base = 1, bo_cap = 300, bo_jitter = 1/10, bo_failures = [(7, 3)]\<rparr>) = 42/5 \<and>
   (0::rat) \<le> 42/5 \<and> (42/5::rat) \<le> 300 * (1 + 1/10)"
proof -
  let ?b = "\<lparr>bo_base = 1, bo_cap = 300, bo_jitter = 1/10, bo_failures = [(7::nat, 3)]\<rparr>"
  obtain d b' where r: "backoff_when (1/2) 7 ?b = (d, b')" by (cases "backoff_when (1/2) 7 ?b")
  have "d = 42/5" using r by (simp add: backoff_when_def dget0_def)
  with r backoff_delay_bounds [of ?b "1/2" 7 d b'] show ?thesis by simp
qed

end
