(* ===== verification/Events.thy ===== *)
theory Events
  imports Prelude
begin

text \<open>
  Events on a topic, \<^verbatim>\<open>src/gpustack/server/coordinator/base.py\<close>, and the change detector,
  \<^verbatim>\<open>src/gpustack/server/coordinator/cache.py\<close>: the two payload shapes (a hydrated model
  object, or the id-only dictionary that survives the wire), the identifier an event
  carries, and the field and list differences between two row states.
\<close>

section \<open>Python values as payloads\<close>

text \<open>
  An object is its attributes, a dictionary its entries; \<open>VNone\<close> is Python's \<open>None\<close>.
\<close>

datatype pyval =
    VNone
  | VInt int
  | VStr string
  | VList "pyval list"
  | VDict "(string \<times> pyval) list"
  | VObj "(string \<times> pyval) list"

text \<open>\<open>hasattr\<close> and \<open>getattr\<close>.\<close>

fun py_attr :: "pyval \<Rightarrow> string \<Rightarrow> pyval option" where
  "py_attr (VObj fs) n = dget fs n"
| "py_attr _ n = None"

definition py_getattr :: "pyval \<Rightarrow> string \<Rightarrow> pyval" where
  "py_getattr v n = (case py_attr v n of None \<Rightarrow> VNone | Some x \<Rightarrow> x)"

definition get_or_none :: "(string \<times> pyval) list \<Rightarrow> string \<Rightarrow> pyval" where
  "get_or_none d n = (case dget d n of None \<Rightarrow> VNone | Some x \<Rightarrow> x)"

section \<open>Events\<close>

datatype event_type = CREATED | UPDATED | DELETED | UNKNOWN | HEARTBEAT

fun event_type_name :: "event_type \<Rightarrow> string" where
  "event_type_name CREATED = ''CREATED''"
| "event_type_name UPDATED = ''UPDATED''"
| "event_type_name DELETED = ''DELETED''"
| "event_type_name UNKNOWN = ''UNKNOWN''"
| "event_type_name HEARTBEAT = ''HEARTBEAT''"

text \<open>\<open>EventType[name]\<close>; an unknown name raises \<open>KeyError\<close>.\<close>

definition event_type_of_name :: "string \<Rightarrow> event_type option" where
  "event_type_of_name n =
     List.find (\<lambda>t. event_type_name t = n) [CREATED, UPDATED, DELETED, UNKNOWN, HEARTBEAT]"

record event =
  evt_type :: event_type
  evt_data :: pyval
  evt_changed :: "(string, pyval \<times> pyval) dict"
  evt_id :: pyval

fun derive_id_from_data :: "pyval \<Rightarrow> pyval" where
  "derive_id_from_data VNone = VNone"
| "derive_id_from_data (VObj fs) = get_or_none fs ''id''"
| "derive_id_from_data (VDict d) = get_or_none d ''id''"
| "derive_id_from_data _ = VNone"

definition refresh_id :: "event \<Rightarrow> event" where
  "refresh_id e = (if evt_id e = VNone then e\<lparr>evt_id := derive_id_from_data (evt_data e)\<rparr> else e)"

text \<open>The constructor: the fields, then \<open>__post_init__\<close>.\<close>

definition make_event ::
  "event_type \<Rightarrow> pyval \<Rightarrow> (string, pyval \<times> pyval) dict \<Rightarrow> pyval \<Rightarrow> event" where
  "make_event t d ch i = refresh_id \<lparr>evt_type = t, evt_data = d, evt_changed = ch, evt_id = i\<rparr>"

definition wire_data :: "event \<Rightarrow> pyval" where
  "wire_data e =
     (case evt_data e of
        VNone \<Rightarrow> VNone
      | VDict d \<Rightarrow> (case dget d ''id'' of Some i \<Rightarrow> VDict [(''id'', i)] | None \<Rightarrow> VDict d)
      | v \<Rightarrow>
          (case py_attr v ''id'' of
             Some i \<Rightarrow> VDict [(''id'', i)]
           | None \<Rightarrow> if evt_id e \<noteq> VNone then VDict [(''id'', evt_id e)] else VNone))"

definition to_dict :: "event \<Rightarrow> (string, pyval) dict" where
  "to_dict e =
     [(''type'', VStr (event_type_name (evt_type e))), (''data'', wire_data e), (''id'', evt_id e)]"

text \<open>\<open>None\<close>: the type name is unknown (a \<open>KeyError\<close> in the source).\<close>

definition from_dict :: "(string, pyval) dict \<Rightarrow> event option" where
  "from_dict d =
     (case dget d ''type'' of
        None \<Rightarrow> Some (make_event UNKNOWN (get_or_none d ''data'') [] (get_or_none d ''id''))
      | Some (VStr n) \<Rightarrow>
          map_option (\<lambda>t. make_event t (get_or_none d ''data'') [] (get_or_none d ''id''))
            (event_type_of_name n)
      | Some _ \<Rightarrow> None)"

definition event_field :: "pyval \<Rightarrow> string \<Rightarrow> pyval \<Rightarrow> pyval" where
  "event_field data name dflt =
     (case data of
        VNone \<Rightarrow> dflt
      | VDict d \<Rightarrow> (if get_or_none d name = VNone then dflt else get_or_none d name)
      | v \<Rightarrow> (if py_getattr v name = VNone then dflt else py_getattr v name))"

definition resolve_event_id :: "event \<Rightarrow> pyval" where
  "resolve_event_id e = evt_id e"

text \<open>The test \<open>_process_coordinator_event\<close> makes: a dictionary whose only key is \<open>id\<close>.\<close>

fun is_id_only :: "pyval \<Rightarrow> bool" where
  "is_id_only (VDict d) \<longleftrightarrow> set (dkeys d) = {''id''}"
| "is_id_only _ \<longleftrightarrow> False"

fun is_dict :: "pyval \<Rightarrow> bool" where
  "is_dict (VDict d) \<longleftrightarrow> True"
| "is_dict _ \<longleftrightarrow> False"

section \<open>Change detection\<close>

text \<open>
  Equality of field values is the \<open>__eq__\<close> of the values' own classes, an argument here.
  A relationship list is compared by the ids of its elements.
\<close>

fun key_of :: "pyval \<Rightarrow> pyval" where
  "key_of VNone = VNone"
| "key_of (VObj fs) = get_or_none fs ''id''"
| "key_of (VDict d) = get_or_none d ''id''"
| "key_of _ = VNone"

definition list_diff ::
  "(pyval \<Rightarrow> pyval \<Rightarrow> bool) \<Rightarrow> pyval list \<Rightarrow> pyval list \<Rightarrow> (pyval list \<times> pyval list) option" where
  "list_diff eq old new =
     (let old_keys = map key_of old; new_keys = map key_of new
      in if VNone \<in> set old_keys \<or> VNone \<in> set new_keys
         then (if list_all2 eq old new then None else Some ([], []))
         else if set old_keys = set new_keys then None
         else Some (filter (\<lambda>x. key_of x \<notin> set new_keys) old,
                    filter (\<lambda>x. key_of x \<notin> set old_keys) new))"

definition diff_field ::
  "(pyval \<Rightarrow> pyval \<Rightarrow> bool) \<Rightarrow> pyval \<Rightarrow> pyval \<Rightarrow> (pyval \<times> pyval) option" where
  "diff_field eq old new =
     (case (old, new) of
        (VList a, VList b) \<Rightarrow> map_option (\<lambda>(r, ad). (VList r, VList ad)) (list_diff eq a b)
      | (VList a, _) \<Rightarrow> map_option (\<lambda>(r, ad). (VList r, VList ad)) (list_diff eq a [])
      | (_, VList b) \<Rightarrow> map_option (\<lambda>(r, ad). (VList r, VList ad)) (list_diff eq [] b)
      | _ \<Rightarrow> if eq old new then None else Some (old, new))"

text \<open>
  The loop over the fields of the new object; names that start with an underscore are
  internal. \<open>old_obj is None\<close> (nothing cached) yields no changes.
\<close>

fun detect_fields ::
  "(pyval \<Rightarrow> pyval \<Rightarrow> bool) \<Rightarrow> pyval \<Rightarrow> pyval \<Rightarrow> string list \<Rightarrow> (string, pyval \<times> pyval) dict" where
  "detect_fields eq old new [] = []"
| "detect_fields eq old new (f # fs) =
     (if take 1 f = ''_'' then detect_fields eq old new fs
      else case diff_field eq (py_getattr old f) (py_getattr new f) of
             None \<Rightarrow> detect_fields eq old new fs
           | Some d \<Rightarrow> (f, d) # detect_fields eq old new fs)"

definition detect_changes ::
  "(pyval \<Rightarrow> pyval \<Rightarrow> bool) \<Rightarrow> string list \<Rightarrow> pyval option \<Rightarrow> pyval \<Rightarrow> (string, pyval \<times> pyval) dict" where
  "detect_changes eq model_fields old new =
     (case old of None \<Rightarrow> [] | Some o' \<Rightarrow> detect_fields eq o' new model_fields)"

section \<open>Lemmas\<close>

lemma event_type_of_name [simp]: "event_type_of_name (event_type_name t) = Some t"
  by (cases t) (simp_all add: event_type_of_name_def)

lemma get_or_none_Cons [simp]: "get_or_none ((k, v) # d) n = (if n = k then v else get_or_none d n)"
  by (simp add: get_or_none_def)

lemma derive_wire_data:
  "evt_id e = VNone \<Longrightarrow> derive_id_from_data (wire_data e) = derive_id_from_data (evt_data e)"
  by (cases "evt_data e") (simp_all add: wire_data_def get_or_none_def split: option.split)

lemma refresh_idem [simp]: "refresh_id (refresh_id e) = refresh_id e"
  by (simp add: refresh_id_def)

lemma detect_fields_sound:
  "(f, d) \<in> set (detect_fields eq old new fs) \<Longrightarrow>
     f \<in> set fs \<and> diff_field eq (py_getattr old f) (py_getattr new f) = Some d"
  by (induction fs) (auto split: if_splits option.splits)

lemma detect_fields_complete:
  "f \<in> set fs \<Longrightarrow> take 1 f \<noteq> ''_'' \<Longrightarrow> diff_field eq (py_getattr old f) (py_getattr new f) = Some d \<Longrightarrow>
     (f, d) \<in> set (detect_fields eq old new fs)"
  by (induction fs) (auto split: option.splits)

lemma diff_field_list:
  "VNone \<notin> key_of ` set xs \<Longrightarrow> VNone \<notin> key_of ` set ys \<Longrightarrow>
   diff_field eq (VList xs) (VList ys) =
     (if key_of ` set xs = key_of ` set ys then None
      else Some (VList (filter (\<lambda>x. key_of x \<notin> key_of ` set ys) xs),
                 VList (filter (\<lambda>y. key_of y \<notin> key_of ` set xs) ys)))"
  by (simp add: diff_field_def list_diff_def Let_def)


text \<open>Change detection reports exactly the fields that differ. For a cached old state, a
  public field of the model is reported iff its difference is non-empty, with that
  difference; for relationship lists of keyed rows the reported pair is the removed and the
  added rows, and nothing is reported when the sets of ids agree.\<close>

theorem detect_changes_exact:
  assumes "f \<in> set model_fields" and "take 1 f \<noteq> ''_''"
  shows "((f, d) \<in> set (detect_changes eq model_fields (Some old) new) \<longleftrightarrow>
            diff_field eq (py_getattr old f) (py_getattr new f) = Some d) \<and>
         (\<forall>xs ys. py_getattr old f = VList xs \<and> py_getattr new f = VList ys \<and>
            VNone \<notin> key_of ` set xs \<and> VNone \<notin> key_of ` set ys \<longrightarrow>
            diff_field eq (VList xs) (VList ys) =
              (if key_of ` set xs = key_of ` set ys then None
               else Some (VList (filter (\<lambda>x. key_of x \<notin> key_of ` set ys) xs),
                          VList (filter (\<lambda>y. key_of y \<notin> key_of ` set xs) ys))))"
proof (rule conjI)
  show "(f, d) \<in> set (detect_changes eq model_fields (Some old) new) \<longleftrightarrow>
      diff_field eq (py_getattr old f) (py_getattr new f) = Some d"
    using assms detect_fields_sound [of f d eq old new model_fields]
      detect_fields_complete [of f model_fields eq old new d]
    by (auto simp: detect_changes_def)
qed (auto simp: diff_field_list)

theorem detect_changes_exact_witness:
  "(''gpus'', VList [VObj [(''id'', VInt 1)]], VList [VObj [(''id'', VInt 3)]]) \<in>
     set (detect_changes (=) [''name'', ''gpus'']
       (Some (VObj [(''name'', VStr ''w''), (''gpus'', VList [VObj [(''id'', VInt 1)], VObj [(''id'', VInt 2)]])]))
       (VObj [(''name'', VStr ''w''), (''gpus'', VList [VObj [(''id'', VInt 2)], VObj [(''id'', VInt 3)]])]))"
proof -
  let ?old = "VObj [(''name'', VStr ''w''), (''gpus'', VList [VObj [(''id'', VInt 1)], VObj [(''id'', VInt 2)]])]"
  let ?new = "VObj [(''name'', VStr ''w''), (''gpus'', VList [VObj [(''id'', VInt 2)], VObj [(''id'', VInt 3)]])]"
  have "diff_field (=) (py_getattr ?old ''gpus'') (py_getattr ?new ''gpus'') =
      Some (VList [VObj [(''id'', VInt 1)]], VList [VObj [(''id'', VInt 3)]])"
    by code_simp
  with detect_changes_exact [of "''gpus''" "[''name'', ''gpus'']" _ "(=)" ?old ?new] show ?thesis
    by simp
qed

end
