(* ===== verification/Subscriber.thy ===== *)
theory Subscriber
  imports Events "HOL-Library.Multiset"
begin

text \<open>
  The bus subscriber, \<^verbatim>\<open>src/gpustack/server/bus.py\<close> (class \<open>Subscriber\<close>): a bounded queue
  with backpressure, coalescing of \<open>UPDATED\<close> events per id, counters, and \<open>close\<close>.

  A call of \<open>enqueue\<close> runs without suspension up to \<open>queue.put\<close> (the two critical sections
  contain no \<open>await\<close>, so the lock is never contended), where it may park. The model is a
  state machine whose actions are the atomic stretches between suspension points: starting
  an \<open>enqueue\<close>, resuming a parked put, cancelling a task that is parked, \<open>receive\<close>, \<open>close\<close>.
  The parked puts are those of \<open>asyncio.Queue\<close>: taking an item wakes the first parked one,
  a woken one looks at the queue again when it runs, and a cancelled one unwinds with the
  exception that \<open>enqueue\<close> catches to roll back its entry.
\<close>

section \<open>State\<close>

datatype count_kind = RECEIVED | FILTERED | COALESCED | ENQUEUED | BACKPRESSURED

text \<open>
  \<open>Parked\<close>: waiting on its future. \<open>Woken\<close>: the future is resolved, the task has not run
  yet. \<open>Cancelled w\<close>: the task will see \<open>CancelledError\<close>; \<open>w\<close> records that the future had
  been resolved before the cancellation.
\<close>

datatype putter_state = Parked | Woken | Cancelled bool

record putter =
  p_event :: event
  p_state :: putter_state

record subscriber =
  sub_topic :: string
  sub_source :: "string option"
  sub_event_types :: "event_type list option"
  sub_maxsize :: int
  sub_queue :: "event list"
  sub_putters :: "putter list"
  sub_latest :: "(pyval, event) dict"
  sub_counts :: "(count_kind \<times> event_type, nat) dict"
  sub_closed :: bool

definition subscriber_init ::
  "string \<Rightarrow> string option \<Rightarrow> event_type list option \<Rightarrow> int \<Rightarrow> subscriber" where
  "subscriber_init topic source event_types queue_size =
     \<lparr>sub_topic = topic, sub_source = source,
      sub_event_types = (case event_types of None \<Rightarrow> None | Some [] \<Rightarrow> None | Some ts \<Rightarrow> Some ts),
      sub_maxsize = queue_size, sub_queue = [], sub_putters = [], sub_latest = [],
      sub_counts = [], sub_closed = False\<rparr>"

section \<open>Operations\<close>

definition sub_bump :: "count_kind \<Rightarrow> event_type \<Rightarrow> subscriber \<Rightarrow> subscriber" where
  "sub_bump kind t s = s\<lparr>sub_counts := dincr (kind, t) 1 (sub_counts s)\<rparr>"

definition should_enqueue :: "event \<Rightarrow> subscriber \<Rightarrow> bool" where
  "should_enqueue e s =
     (case sub_event_types s of None \<Rightarrow> True | Some ts \<Rightarrow> evt_type e \<in> set ts)"

definition queue_full :: "subscriber \<Rightarrow> bool" where
  "queue_full s \<longleftrightarrow> 0 < sub_maxsize s \<and> sub_maxsize s \<le> int (length (sub_queue s))"

text \<open>The key under which an event is coalesced: an \<open>UPDATED\<close> event with an id.\<close>

definition upd_id :: "event \<Rightarrow> pyval option" where
  "upd_id e = (if evt_type e = UPDATED \<and> evt_id e \<noteq> VNone then Some (evt_id e) else None)"

definition put_done :: "event \<Rightarrow> subscriber \<Rightarrow> subscriber" where
  "put_done e s = sub_bump ENQUEUED (evt_type e) (s\<lparr>sub_queue := sub_queue s @ [e]\<rparr>)"

definition put_with_backpressure :: "event \<Rightarrow> subscriber \<Rightarrow> subscriber" where
  "put_with_backpressure e s =
     (if queue_full s then
        (sub_bump BACKPRESSURED (evt_type e) s)\<lparr>sub_putters := sub_putters s @ [\<lparr>p_event = e, p_state = Parked\<rparr>]\<rparr>
      else put_done e s)"

definition sub_enqueue :: "event \<Rightarrow> subscriber \<Rightarrow> subscriber" where
  "sub_enqueue e s =
     (if sub_closed s then s
      else let s1 = sub_bump RECEIVED (evt_type e) s
           in if \<not> should_enqueue e s1 then sub_bump FILTERED (evt_type e) s1
              else case upd_id e of
                     Some i \<Rightarrow>
                       (case dget (sub_latest s1) i of
                          Some _ \<Rightarrow> sub_bump COALESCED (evt_type e) (s1\<lparr>sub_latest := dput i e (sub_latest s1)\<rparr>)
                        | None \<Rightarrow> put_with_backpressure e (s1\<lparr>sub_latest := dput i e (sub_latest s1)\<rparr>))
                   | None \<Rightarrow> put_with_backpressure e s1)"

text \<open>\<open>_wakeup_next\<close>: the first parked putter is woken.\<close>

fun wake_next :: "putter list \<Rightarrow> putter list" where
  "wake_next [] = []"
| "wake_next (p # ps) = (if p_state p = Parked then p\<lparr>p_state := Woken\<rparr> # ps else p # wake_next ps)"

definition rollback :: "event \<Rightarrow> subscriber \<Rightarrow> subscriber" where
  "rollback e s = (case upd_id e of None \<Rightarrow> s | Some i \<Rightarrow> s\<lparr>sub_latest := dpop i (sub_latest s)\<rparr>)"

text \<open>The task that owns putter \<open>i\<close> runs again.\<close>

definition sub_resume :: "nat \<Rightarrow> subscriber \<Rightarrow> subscriber" where
  "sub_resume i s =
     (if length (sub_putters s) \<le> i then s
      else let p = sub_putters s ! i;
               rest = take i (sub_putters s) @ drop (Suc i) (sub_putters s)
           in case p_state p of
                Parked \<Rightarrow> s
              | Woken \<Rightarrow>
                  if queue_full s then s\<lparr>sub_putters := rest @ [p\<lparr>p_state := Parked\<rparr>]\<rparr>
                  else put_done (p_event p) (s\<lparr>sub_putters := rest\<rparr>)
              | Cancelled w \<Rightarrow>
                  rollback (p_event p)
                    (s\<lparr>sub_putters := (if w \<and> \<not> queue_full s then wake_next rest else rest)\<rparr>))"

text \<open>The task that owns putter \<open>i\<close> is cancelled from outside.\<close>

definition sub_cancel :: "nat \<Rightarrow> subscriber \<Rightarrow> subscriber" where
  "sub_cancel i s =
     (if length (sub_putters s) \<le> i then s
      else let p = sub_putters s ! i
           in case p_state p of
                Parked \<Rightarrow> s\<lparr>sub_putters := (sub_putters s)[i := p\<lparr>p_state := Cancelled False\<rparr>]\<rparr>
              | Woken \<Rightarrow> s\<lparr>sub_putters := (sub_putters s)[i := p\<lparr>p_state := Cancelled True\<rparr>]\<rparr>
              | Cancelled _ \<Rightarrow> s)"

text \<open>\<open>receive\<close>; \<open>None\<close> while the queue is empty and the call waits.\<close>

definition sub_receive :: "subscriber \<Rightarrow> event option \<times> subscriber" where
  "sub_receive s =
     (case sub_queue s of
        [] \<Rightarrow> (None, s)
      | e # q \<Rightarrow>
          let s1 = s\<lparr>sub_queue := q, sub_putters := wake_next (sub_putters s)\<rparr>
          in case upd_id e of
               Some i \<Rightarrow>
                 (case dget (sub_latest s1) i of
                    Some l \<Rightarrow> (Some l, s1\<lparr>sub_latest := dpop i (sub_latest s1)\<rparr>)
                  | None \<Rightarrow> (Some e, s1))
             | None \<Rightarrow> (Some e, s1))"

definition cancel_parked :: "putter \<Rightarrow> putter" where
  "cancel_parked p = (if p_state p = Parked then p\<lparr>p_state := Cancelled False\<rparr> else p)"

definition sub_close :: "subscriber \<Rightarrow> subscriber" where
  "sub_close s =
     (if sub_closed s then s
      else s\<lparr>sub_closed := True, sub_queue := [],
             sub_putters := map cancel_parked ((wake_next ^^ length (sub_queue s)) (sub_putters s))\<rparr>)"

section \<open>Runs\<close>

datatype sub_action = Enqueue event | Receive | Resume nat | Cancel nat | Close

fun sub_exec :: "sub_action \<Rightarrow> subscriber \<Rightarrow> event option \<times> subscriber" where
  "sub_exec (Enqueue e) s = (None, sub_enqueue e s)"
| "sub_exec Receive s = sub_receive s"
| "sub_exec (Resume i) s = (None, sub_resume i s)"
| "sub_exec (Cancel i) s = (None, sub_cancel i s)"
| "sub_exec Close s = (None, sub_close s)"

inductive sub_reachable :: "subscriber \<Rightarrow> subscriber \<Rightarrow> bool" for s0 where
  start: "sub_reachable s0 s0"
| step: "sub_reachable s0 s \<Longrightarrow> sub_exec a s = (r, s') \<Longrightarrow> sub_reachable s0 s'"

fun sub_run :: "sub_action list \<Rightarrow> subscriber \<Rightarrow> event list \<times> subscriber" where
  "sub_run [] s = ([], s)"
| "sub_run (a # as) s =
     (let (r, s1) = sub_exec a s; (rs, s2) = sub_run as s1
      in ((case r of None \<Rightarrow> rs | Some e \<Rightarrow> e # rs), s2))"

text \<open>Runs on the normal completion path: no cancellation and no \<open>close\<close>.\<close>

fun undisturbed :: "sub_action \<Rightarrow> bool" where
  "undisturbed (Cancel i) = False"
| "undisturbed Close = False"
| "undisturbed _ = True"

inductive sub_undisturbed :: "subscriber \<Rightarrow> subscriber \<Rightarrow> bool" for s0 where
  start: "sub_undisturbed s0 s0"
| step: "sub_undisturbed s0 s \<Longrightarrow> undisturbed a \<Longrightarrow> sub_exec a s = (r, s') \<Longrightarrow> sub_undisturbed s0 s'"

section \<open>The coalescing invariant\<close>

text \<open>
  The events a subscriber holds, queued or on their way in, and their coalescing keys. The
  documented invariant: an id has an entry in \<open>latest_by_key\<close> iff there is, or will be, a
  queue token whose \<open>receive\<close> pops it; moreover there is exactly one.
\<close>

definition held :: "subscriber \<Rightarrow> event list" where
  "held s = sub_queue s @ map p_event (sub_putters s)"

definition toks :: "event list \<Rightarrow> pyval list" where
  "toks es = map (the \<circ> upd_id) (filter (\<lambda>e. upd_id e \<noteq> None) es)"

definition token_inv :: "event list \<Rightarrow> (pyval, event) dict \<Rightarrow> bool" where
  "token_inv es l \<longleftrightarrow> dict_ok l \<and> distinct (toks es) \<and> set (toks es) = fst ` set l \<and>
     (\<forall>(i, e) \<in> set l. upd_id e = Some i)"

definition sub_bounded :: "subscriber \<Rightarrow> bool" where
  "sub_bounded s \<longleftrightarrow> (0 < sub_maxsize s \<longrightarrow> int (length (sub_queue s)) \<le> sub_maxsize s)"

definition sub_inv :: "subscriber \<Rightarrow> bool" where
  "sub_inv s \<longleftrightarrow> sub_bounded s \<and> (\<not> sub_closed s \<longrightarrow> token_inv (held s) (sub_latest s))"

lemma mset_toks: "mset es = mset es' \<Longrightarrow> mset (toks es) = mset (toks es')"
  by (simp add: toks_def mset_filter)

lemma toks_add: "mset es = add_mset e (mset es') \<Longrightarrow>
   mset (toks es) = (case upd_id e of None \<Rightarrow> mset (toks es') | Some i \<Rightarrow> add_mset i (mset (toks es')))"
  by (auto simp: toks_def mset_filter split: option.split)

lemma token_inv_perm: "token_inv es l \<Longrightarrow> mset es = mset es' \<Longrightarrow> token_inv es' l"
  using mset_toks [of es es'] by (auto simp: token_inv_def dest: mset_eq_imp_distinct_iff mset_eq_setD)

lemma token_inv_remove:
  assumes "token_inv es l" and "mset es = add_mset e (mset es')"
  shows "token_inv es' (case upd_id e of None \<Rightarrow> l | Some i \<Rightarrow> dpop i l)"
proof (cases "upd_id e")
  case None
  then show ?thesis
    using assms toks_add [OF assms(2)]
    by (auto simp: token_inv_def dest: mset_eq_imp_distinct_iff mset_eq_setD)
next
  case (Some i)
  then have m: "mset (toks es) = mset (i # toks es')" using toks_add [OF assms(2)] by simp
  then have "distinct (i # toks es')" and "set (toks es) = set (i # toks es')"
    using assms(1) mset_eq_imp_distinct_iff [OF m] mset_eq_setD [OF m] by (simp_all add: token_inv_def)
  with assms(1) Some show ?thesis
    using set_dpop_subset [of i l] by (auto simp: token_inv_def keys_dpop)
qed

lemma token_inv_add:
  assumes "token_inv es l" and "mset es' = add_mset e (mset es)"
    and "\<And>i. upd_id e = Some i \<Longrightarrow> dget l i = None"
  shows "token_inv es' (case upd_id e of None \<Rightarrow> l | Some i \<Rightarrow> dput i e l)"
proof (cases "upd_id e")
  case None
  then show ?thesis
    using assms toks_add [OF assms(2)]
    by (auto simp: token_inv_def dest: mset_eq_imp_distinct_iff mset_eq_setD)
next
  case (Some i)
  then have m: "mset (toks es') = mset (i # toks es)" using toks_add [OF assms(2)] by simp
  have "i \<notin> set (toks es)" using assms(1) assms(3) [OF Some] by (simp add: token_inv_def dget_None_iff)
  then have "distinct (toks es')" and "set (toks es') = insert i (set (toks es))"
    using assms(1) mset_eq_imp_distinct_iff [OF m] mset_eq_setD [OF m] by (simp_all add: token_inv_def)
  moreover have "\<forall>(j, x) \<in> set (dput i e l). upd_id x = Some j"
    using assms(1) Some set_dput_subset [of i e l] by (auto simp: token_inv_def)
  ultimately show ?thesis using assms(1) Some by (simp add: token_inv_def keys_dput)
qed

lemma token_inv_coalesce:
  assumes "token_inv es l" and "upd_id e = Some i" and "dget l i = Some x"
  shows "token_inv es (dput i e l)"
proof -
  have "i \<in> fst ` set l" using assms(3) by (rule dget_key)
  then have "insert i (fst ` set l) = fst ` set l" by blast
  moreover have "\<forall>(j, x) \<in> set (dput i e l). upd_id x = Some j"
    using assms(1,2) set_dput_subset [of i e l] by (auto simp: token_inv_def)
  ultimately show ?thesis using assms(1) by (simp add: token_inv_def keys_dput)
qed

subsection \<open>Preservation, one action at a time\<close>

lemma map_event_wake [simp]: "map p_event (wake_next ps) = map p_event ps"
  by (induction ps) auto

lemma image_event_wake [simp]: "image_mset p_event (mset (wake_next ps)) = image_mset p_event (mset ps)"
  by (metis map_event_wake mset_map)

lemma map_event_cancel [simp]: "map p_event (map cancel_parked ps) = map p_event ps"
  by (simp add: cancel_parked_def)

lemma bump_frame [simp]:
  "sub_queue (sub_bump k t s) = sub_queue s" "sub_putters (sub_bump k t s) = sub_putters s"
  "sub_latest (sub_bump k t s) = sub_latest s" "sub_closed (sub_bump k t s) = sub_closed s"
  "sub_maxsize (sub_bump k t s) = sub_maxsize s" "sub_event_types (sub_bump k t s) = sub_event_types s"
  "queue_full (sub_bump k t s) = queue_full s" "held (sub_bump k t s) = held s"
  "should_enqueue e (sub_bump k t s) = should_enqueue e s"
  by (simp_all add: sub_bump_def queue_full_def held_def should_enqueue_def)

lemma put_done_facts:
  "mset (held (put_done e s)) = add_mset e (mset (held s))"
  "sub_latest (put_done e s) = sub_latest s" "sub_closed (put_done e s) = sub_closed s"
  by (simp_all add: put_done_def held_def)

lemma put_done_bounded: "\<not> queue_full s \<Longrightarrow> sub_bounded (put_done e s)"
  by (auto simp: put_done_def sub_bounded_def queue_full_def)

lemma put_backpressure_facts:
  "mset (held (put_with_backpressure e s)) = add_mset e (mset (held s))"
  "sub_latest (put_with_backpressure e s) = sub_latest s"
  "sub_closed (put_with_backpressure e s) = sub_closed s"
  using put_done_facts [of e s] by (simp_all add: put_with_backpressure_def held_def)

lemma put_backpressure_bounded: "sub_bounded s \<Longrightarrow> sub_bounded (put_with_backpressure e s)"
  using put_done_bounded [of s e] by (auto simp: put_with_backpressure_def sub_bounded_def)

lemma bounded_bump [simp]: "sub_bounded (sub_bump k t s) = sub_bounded s"
  by (simp add: sub_bounded_def)

lemma bounded_latest [simp]: "sub_bounded (s\<lparr>sub_latest := l\<rparr>) = sub_bounded s"
  by (simp add: sub_bounded_def)

lemma held_latest [simp]: "held (s\<lparr>sub_latest := l\<rparr>) = held s"
  by (simp add: held_def)

lemma enqueue_inv:
  assumes "sub_inv s"
  shows "sub_inv (sub_enqueue e s)"
proof (cases "sub_closed s \<or> \<not> should_enqueue e s")
  case True
  with assms show ?thesis by (auto simp: sub_enqueue_def sub_inv_def Let_def)
next
  case False
  define s1 where "s1 = sub_bump RECEIVED (evt_type e) s"
  from assms False have b: "sub_bounded s1" and t: "token_inv (held s1) (sub_latest s1)"
    by (simp_all add: sub_inv_def s1_def)
  show ?thesis
  proof (cases "upd_id e")
    case None
    then have "sub_enqueue e s = put_with_backpressure e s1"
      using False by (simp add: sub_enqueue_def s1_def Let_def)
    moreover have "token_inv (held (put_with_backpressure e s1)) (sub_latest s1)"
      using token_inv_add [OF t put_backpressure_facts(1), of e] None by simp
    ultimately show ?thesis using b by (simp add: sub_inv_def put_backpressure_facts put_backpressure_bounded)
  next
    case (Some i)
    let ?s2 = "s1\<lparr>sub_latest := dput i e (sub_latest s1)\<rparr>"
    show ?thesis
    proof (cases "dget (sub_latest s1) i")
      case None
      then have "sub_enqueue e s = put_with_backpressure e ?s2"
        using False Some by (simp add: sub_enqueue_def s1_def Let_def)
      moreover have "token_inv (held (put_with_backpressure e ?s2)) (dput i e (sub_latest s1))"
        using token_inv_add [OF t, of "held (put_with_backpressure e ?s2)" e] Some None
          put_backpressure_facts(1) [of e ?s2] by simp
      ultimately show ?thesis using b by (simp add: sub_inv_def put_backpressure_facts put_backpressure_bounded)
    next
      case (Some x)
      then have "sub_enqueue e s = sub_bump COALESCED (evt_type e) ?s2"
        using False \<open>upd_id e = Some i\<close> by (simp add: sub_enqueue_def s1_def Let_def)
      then show ?thesis
        using b token_inv_coalesce [OF t \<open>upd_id e = Some i\<close> Some] by (simp add: sub_inv_def)
    qed
  qed
qed

lemma receive_inv:
  assumes "sub_inv s" and "sub_receive s = (r, s')"
  shows "sub_inv s'"
proof (cases "sub_queue s")
  case Nil
  with assms show ?thesis by (simp add: sub_receive_def)
next
  case (Cons e q)
  let ?mid = "s\<lparr>sub_queue := q, sub_putters := wake_next (sub_putters s)\<rparr>"
  have b: "sub_bounded ?mid" using assms(1) Cons by (auto simp: sub_inv_def sub_bounded_def)
  have m: "mset (held s) = add_mset e (mset (held ?mid))" using Cons by (simp add: held_def)
  have "s' = ?mid \<and> (\<forall>i. upd_id e = Some i \<longrightarrow> dget (sub_latest s) i = None) \<or>
        (\<exists>i. upd_id e = Some i \<and> s' = ?mid\<lparr>sub_latest := dpop i (sub_latest s)\<rparr>)"
    using assms(2) Cons by (auto simp: sub_receive_def Let_def split: option.splits)
  then show ?thesis
  proof
    assume a: "s' = ?mid \<and> (\<forall>i. upd_id e = Some i \<longrightarrow> dget (sub_latest s) i = None)"
    have "token_inv (held ?mid) (sub_latest s)" if "\<not> sub_closed s"
    proof -
      have t: "token_inv (held s) (sub_latest s)" using assms(1) that by (simp add: sub_inv_def)
      have "upd_id e = None"
      proof (rule ccontr)
        assume "upd_id e \<noteq> None"
        then obtain i where i: "upd_id e = Some i" by auto
        then have "i \<in> set (toks (held s))" using Cons by (simp add: toks_def held_def)
        then show False using t a i by (auto simp: token_inv_def dget_None_iff)
      qed
      then show ?thesis using token_inv_remove [OF t m] by simp
    qed
    with a b show ?thesis by (simp add: sub_inv_def)
  next
    assume "\<exists>i. upd_id e = Some i \<and> s' = ?mid\<lparr>sub_latest := dpop i (sub_latest s)\<rparr>"
    then show ?thesis
      using b assms(1) token_inv_remove [OF _ m, of "sub_latest s"] by (auto simp: sub_inv_def)
  qed
qed

lemma mset_remove_nth:
  "i < length xs \<Longrightarrow> mset xs = add_mset (xs ! i) (mset (take i xs @ drop (Suc i) xs))"
  by (metis Cons_nth_drop_Suc append_take_drop_id mset.simps(2) mset_append union_mset_add_mset_right)

lemma resume_inv:
  assumes "sub_inv s"
  shows "sub_inv (sub_resume i s)"
proof (cases "length (sub_putters s) \<le> i")
  case True
  with assms show ?thesis by (simp add: sub_resume_def)
next
  case False
  define p where "p = sub_putters s ! i"
  define rest where "rest = take i (sub_putters s) @ drop (Suc i) (sub_putters s)"
  have m: "mset (sub_putters s) = add_mset p (mset rest)"
    using mset_remove_nth [of i "sub_putters s"] False by (simp add: p_def rest_def)
  then have mh: "mset (held s) = add_mset (p_event p) (mset (sub_queue s @ map p_event rest))"
    by (simp add: held_def)
  note d = sub_resume_def [of i s, folded p_def rest_def, unfolded Let_def]
  show ?thesis
  proof (cases "p_state p")
    case Parked
    with assms False show ?thesis by (simp add: d p_def)
  next
    case Woken
    let ?mid = "s\<lparr>sub_putters := rest\<rparr>"
    have h1: "mset (held (put_done (p_event p) ?mid)) = mset (held s)"
      using put_done_facts(1) [of "p_event p" ?mid] mh by (simp add: held_def)
    have h2: "mset (held (s\<lparr>sub_putters := rest @ [p\<lparr>p_state := Parked\<rparr>]\<rparr>)) = mset (held s)"
      using mh by (simp add: held_def)
    show ?thesis
      using assms False Woken put_done_facts(2,3) [of "p_event p" ?mid] put_done_bounded [of ?mid "p_event p"]
        token_inv_perm [OF _ h1 [symmetric]] token_inv_perm [OF _ h2 [symmetric]]
      by (auto simp: d p_def [symmetric] rest_def [symmetric] sub_inv_def sub_bounded_def queue_full_def)
  next
    case (Cancelled w)
    let ?mid = "s\<lparr>sub_putters := (if w \<and> \<not> queue_full s then wake_next rest else rest)\<rparr>"
    have eq: "sub_resume i s = rollback (p_event p) ?mid"
      using False Cancelled by (simp add: d p_def [symmetric] rest_def [symmetric])
    have "mset (held s) = add_mset (p_event p) (mset (held ?mid))"
      using mh by (simp add: held_def)
    from token_inv_remove [OF _ this, of "sub_latest s"] assms show ?thesis
      by (auto simp: eq rollback_def sub_inv_def sub_bounded_def split: option.splits)
  qed
qed

lemma cancel_inv: "sub_inv s \<Longrightarrow> sub_inv (sub_cancel i s)"
proof -
  assume a: "sub_inv s"
  have "map p_event ((sub_putters s)[i := (sub_putters s ! i)\<lparr>p_state := x\<rparr>]) = map p_event (sub_putters s)" for x
    by (cases "i < length (sub_putters s)") (auto simp: map_update list_update_same_conv list_update_beyond)
  with a show ?thesis
    by (auto simp: sub_cancel_def sub_inv_def held_def sub_bounded_def Let_def split: putter_state.split)
qed

lemma close_inv: "sub_inv s \<Longrightarrow> sub_inv (sub_close s)"
  by (auto simp: sub_close_def sub_inv_def sub_bounded_def)

lemma exec_inv: "sub_inv s \<Longrightarrow> sub_exec a s = (r, s') \<Longrightarrow> sub_inv s'"
  by (cases a) (auto simp: enqueue_inv resume_inv cancel_inv close_inv intro: receive_inv)

lemma sub_reachable_inv: "sub_reachable s0 s \<Longrightarrow> sub_inv s0 \<Longrightarrow> sub_inv s"
  by (induction rule: sub_reachable.induct) (auto intro: exec_inv)

lemma init_inv: "sub_inv (subscriber_init topic source ts n)"
  by (simp add: sub_inv_def subscriber_init_def sub_bounded_def token_inv_def held_def toks_def)

subsection \<open>Newest state wins\<close>

lemma wake_latest [simp]: "sub_latest (s\<lparr>sub_queue := q, sub_putters := ps\<rparr>) = sub_latest s"
  by simp

lemma resume_latest_undisturbed:
  "i < length (sub_putters s) \<Longrightarrow> \<forall>w. p_state (sub_putters s ! i) \<noteq> Cancelled w \<Longrightarrow>
   sub_latest (sub_resume i s) = sub_latest s"
  by (auto simp: sub_resume_def Let_def put_done_def split: putter_state.split)

text \<open>Putters that are not being cancelled.\<close>

definition no_cancel :: "subscriber \<Rightarrow> bool" where
  "no_cancel s \<longleftrightarrow> (\<forall>p \<in> set (sub_putters s). p_state p = Parked \<or> p_state p = Woken)"

lemma wake_no_cancel:
  "\<forall>p \<in> set ps. p_state p = Parked \<or> p_state p = Woken \<Longrightarrow>
   \<forall>p \<in> set (wake_next ps). p_state p = Parked \<or> p_state p = Woken"
  by (induction ps) auto

lemma put_backpressure_no_cancel: "no_cancel s \<Longrightarrow> no_cancel (put_with_backpressure e s)"
  by (auto simp: no_cancel_def put_with_backpressure_def put_done_def)

lemma enqueue_no_cancel: "no_cancel s \<Longrightarrow> no_cancel (sub_enqueue e s)"
proof -
  have latest: "no_cancel (s\<lparr>sub_latest := l\<rparr>) = no_cancel s" and bump: "no_cancel (sub_bump k t s) = no_cancel s" for s l k t
    by (simp_all add: no_cancel_def)
  assume "no_cancel s"
  then show ?thesis
    by (auto simp: sub_enqueue_def Let_def latest bump put_backpressure_no_cancel split: option.split)
qed

lemma set_remove_nth: "set (take i xs @ drop (Suc i) xs) \<subseteq> set xs"
  by (auto dest: in_set_takeD in_set_dropD)

lemma resume_no_cancel: "no_cancel s \<Longrightarrow> no_cancel (sub_resume i s)"
  using set_remove_nth [of i "sub_putters s"] nth_mem [of i "sub_putters s"]
  by (fastforce simp: no_cancel_def sub_resume_def Let_def put_done_def not_le split: putter_state.split)

lemma receive_no_cancel: "no_cancel s \<Longrightarrow> sub_receive s = (r, s') \<Longrightarrow> no_cancel s'"
  using wake_no_cancel [of "sub_putters s"]
  by (auto simp: no_cancel_def sub_receive_def Let_def split: list.splits option.splits)

lemma exec_no_cancel: "no_cancel s \<Longrightarrow> undisturbed a \<Longrightarrow> sub_exec a s = (r, s') \<Longrightarrow> no_cancel s'"
  by (cases a) (auto simp: enqueue_no_cancel resume_no_cancel intro: receive_no_cancel)

lemma exec_open: "\<not> sub_closed s \<Longrightarrow> undisturbed a \<Longrightarrow> sub_exec a s = (r, s') \<Longrightarrow> \<not> sub_closed s'"
  by (cases a) (auto simp: sub_enqueue_def put_with_backpressure_def put_done_def sub_resume_def rollback_def
      sub_receive_def Let_def split: if_splits option.splits putter_state.splits list.splits)

lemma undisturbed_facts:
  assumes "sub_undisturbed s0 s" and "sub_inv s0" and "no_cancel s0" and "\<not> sub_closed s0"
  shows "sub_inv s \<and> no_cancel s \<and> \<not> sub_closed s"
  using assms
proof (induction rule: sub_undisturbed.induct)
  case start
  then show ?case by simp
next
  case (step s a r s')
  then show ?case
    using exec_inv [of s a r s'] exec_no_cancel [of s a r s'] exec_open [of s a r s'] by simp
qed

lemma init_undisturbed: "no_cancel (subscriber_init topic source ts n) \<and> \<not> sub_closed (subscriber_init topic source ts n)"
  by (simp add: no_cancel_def subscriber_init_def)

lemma enqueue_other_latest:
  "upd_id e' \<noteq> Some i \<Longrightarrow> dget (sub_latest (sub_enqueue e' s)) i = dget (sub_latest s) i"
  by (auto simp: sub_enqueue_def Let_def put_backpressure_facts dict_simps split: option.split)

lemma enqueue_sets_latest:
  "\<not> sub_closed s \<Longrightarrow> should_enqueue e s \<Longrightarrow> upd_id e = Some i \<Longrightarrow>
   dget (sub_latest (sub_enqueue e s)) i = Some e"
  by (auto simp: sub_enqueue_def Let_def put_backpressure_facts dict_simps split: option.split)

lemma receive_latest:
  assumes "sub_inv s" and "\<not> sub_closed s" and "dget (sub_latest s) i = Some e" and "sub_receive s = (r, s')"
  shows "(r = Some e \<and> dget (sub_latest s') i = None) \<or>
         (dget (sub_latest s') i = Some e \<and> (\<forall>e'. r = Some e' \<longrightarrow> upd_id e' \<noteq> Some i))"
proof (cases "sub_queue s")
  case Nil
  with assms show ?thesis by (simp add: sub_receive_def)
next
  case (Cons h q)
  have t: "token_inv (held s) (sub_latest s)" using assms(1,2) by (simp add: sub_inv_def)
  show ?thesis
  proof (cases "upd_id h")
    case None
    with assms(3,4) Cons show ?thesis by (auto simp: sub_receive_def Let_def)
  next
    case (Some j)
    then have "j \<in> set (toks (held s))" using Cons by (simp add: toks_def held_def)
    then obtain l where l: "dget (sub_latest s) j = Some l"
      using t key_dget [of j "sub_latest s"] by (auto simp: token_inv_def)
    with t have "upd_id l = Some j" by (auto simp: token_inv_def dest!: dget_mem)
    then show ?thesis
      using assms(3,4) Cons Some l by (cases "i = j") (auto simp: sub_receive_def Let_def dict_simps)
  qed
qed

lemma receive_no_entry:
  assumes "sub_inv s" and "\<not> sub_closed s" and "dget (sub_latest s) i = None" and "sub_receive s = (r, s')"
  shows "dget (sub_latest s') i = None \<and> (\<forall>e'. r = Some e' \<longrightarrow> upd_id e' \<noteq> Some i)"
proof (cases "sub_queue s")
  case Nil
  with assms show ?thesis by (simp add: sub_receive_def)
next
  case (Cons h q)
  have t: "token_inv (held s) (sub_latest s)" using assms(1,2) by (simp add: sub_inv_def)
  show ?thesis
  proof (cases "upd_id h")
    case None
    with assms(3,4) Cons show ?thesis by (auto simp: sub_receive_def Let_def)
  next
    case (Some j)
    then have "j \<in> set (toks (held s))" using Cons by (simp add: toks_def held_def)
    then obtain l where l: "dget (sub_latest s) j = Some l"
      using t key_dget [of j "sub_latest s"] by (auto simp: token_inv_def)
    with t have "upd_id l = Some j" by (auto simp: token_inv_def dest!: dget_mem)
    with assms(3,4) Cons Some l show ?thesis
      by (cases "i = j") (auto simp: sub_receive_def Let_def dict_simps)
  qed
qed

lemma exec_latest:
  assumes "sub_inv s" and "no_cancel s" and "\<not> sub_closed s" and "sub_exec a s = (r, s')" and "undisturbed a"
    and "\<And>e'. a = Enqueue e' \<Longrightarrow> upd_id e' \<noteq> Some i"
  shows "case dget (sub_latest s) i of
           Some e \<Rightarrow> (r = Some e \<and> dget (sub_latest s') i = None) \<or>
                     (dget (sub_latest s') i = Some e \<and> (\<forall>e'. r = Some e' \<longrightarrow> upd_id e' \<noteq> Some i))
         | None \<Rightarrow> dget (sub_latest s') i = None \<and> (\<forall>e'. r = Some e' \<longrightarrow> upd_id e' \<noteq> Some i)"
proof (cases a)
  case (Enqueue e')
  then have "dget (sub_latest s') i = dget (sub_latest s) i" and "r = None"
    using assms(4) enqueue_other_latest [OF assms(6)] by auto
  then show ?thesis by (simp split: option.split)
next
  case Receive
  then show ?thesis
    using receive_latest [OF assms(1,3)] receive_no_entry [OF assms(1,3)] assms(4) by (simp split: option.split)
next
  case (Resume j)
  have "sub_latest (sub_resume j s) = sub_latest s"
  proof (cases "j < length (sub_putters s)")
    case True
    with assms(2) have "\<forall>w. p_state (sub_putters s ! j) \<noteq> Cancelled w" by (force simp: no_cancel_def dest: nth_mem)
    with True show ?thesis by (rule resume_latest_undisturbed)
  qed (simp add: sub_resume_def)
  with Resume assms(4) show ?thesis by (auto split: option.split)
qed (use assms(5) in auto)

lemma run_delivers_once:
  assumes "sub_inv s" and "no_cancel s" and "\<not> sub_closed s"
    and "\<forall>a \<in> set as. undisturbed a \<and> (\<forall>e'. a = Enqueue e' \<longrightarrow> upd_id e' \<noteq> Some i)"
    and "sub_run as s = (out, s')" and "\<forall>l. dget (sub_latest s) i = Some l \<longrightarrow> upd_id l = Some i"
  shows "filter (\<lambda>x. upd_id x = Some i) out @ (case dget (sub_latest s') i of None \<Rightarrow> [] | Some e \<Rightarrow> [e]) =
         (case dget (sub_latest s) i of None \<Rightarrow> [] | Some e \<Rightarrow> [e])"
  using assms
proof (induction as arbitrary: s out)
  case Nil
  then show ?case by simp
next
  case (Cons a as)
  obtain r s1 where a: "sub_exec a s = (r, s1)" by (cases "sub_exec a s")
  obtain out1 where as: "sub_run as s1 = (out1, s')"
    using Cons.prems(5) a by (auto split: prod.splits)
  have u: "undisturbed a" and ne: "\<And>e'. a = Enqueue e' \<Longrightarrow> upd_id e' \<noteq> Some i" using Cons.prems(4) by auto
  note st = exec_latest [OF Cons.prems(1-3) a u ne]
  have i1: "sub_inv s1" "no_cancel s1" "\<not> sub_closed s1"
    using exec_inv [OF Cons.prems(1) a] exec_no_cancel [OF Cons.prems(2) u a] exec_open [OF Cons.prems(3) u a] by auto
  have k1: "\<forall>l. dget (sub_latest s1) i = Some l \<longrightarrow> upd_id l = Some i"
    using st Cons.prems(6) by (auto split: option.splits)
  have IH: "filter (\<lambda>x. upd_id x = Some i) out1 @ (case dget (sub_latest s') i of None \<Rightarrow> [] | Some e \<Rightarrow> [e]) =
         (case dget (sub_latest s1) i of None \<Rightarrow> [] | Some e \<Rightarrow> [e])"
    using Cons.IH [OF i1 _ as k1] Cons.prems(4) by simp
  have out: "out = (case r of None \<Rightarrow> out1 | Some e \<Rightarrow> e # out1)"
    using Cons.prems(5) a as by (auto split: option.split)
  show ?case
    using st IH Cons.prems(6) by (auto simp: out split: option.splits)
qed

section \<open>Counters\<close>

abbreviation cnt :: "subscriber \<Rightarrow> count_kind \<Rightarrow> event_type \<Rightarrow> nat" where
  "cnt s kind t \<equiv> dget0 (sub_counts s) (kind, t)"

definition in_flight :: "subscriber \<Rightarrow> event_type \<Rightarrow> nat" where
  "in_flight s t = size (filter_mset (\<lambda>e. evt_type e = t) (image_mset p_event (mset (sub_putters s))))"

definition counts_ok :: "subscriber \<Rightarrow> bool" where
  "counts_ok s \<longleftrightarrow> (\<forall>t.
     cnt s RECEIVED t = cnt s FILTERED t + cnt s COALESCED t + cnt s ENQUEUED t + in_flight s t \<and>
     cnt s BACKPRESSURED t \<le> cnt s ENQUEUED t + in_flight s t)"

lemma cnt_bump: "cnt (sub_bump k t s) k' t' = cnt s k' t' + (if k' = k \<and> t' = t then 1 else 0)"
  by (simp add: sub_bump_def dict_simps)

lemma counts_put:
  assumes "\<forall>t. cnt s RECEIVED t = cnt s FILTERED t + cnt s COALESCED t + cnt s ENQUEUED t + in_flight s t +
      (if t = evt_type e then 1 else 0) \<and> cnt s BACKPRESSURED t \<le> cnt s ENQUEUED t + in_flight s t"
  shows "counts_ok (put_with_backpressure e s)"
  using assms
  by (auto simp: counts_ok_def put_with_backpressure_def put_done_def cnt_bump in_flight_def sub_bump_def dict_simps
      intro: le_SucI)

lemma in_flight_wake: "in_flight (s\<lparr>sub_putters := wake_next ps\<rparr>) t = in_flight (s\<lparr>sub_putters := ps\<rparr>) t"
  by (simp add: in_flight_def)

lemma counts_enqueue:
  assumes "counts_ok s"
  shows "counts_ok (sub_enqueue e s)"
proof (cases "sub_closed s \<or> \<not> should_enqueue e s")
  case True
  with assms show ?thesis
    by (auto simp: sub_enqueue_def Let_def counts_ok_def cnt_bump in_flight_def)
next
  case False
  let ?mid = "\<lambda>l. (sub_bump RECEIVED (evt_type e) s)\<lparr>sub_latest := l\<rparr>"
  have s1: "\<forall>t. cnt (?mid l) RECEIVED t = cnt (?mid l) FILTERED t + cnt (?mid l) COALESCED t + cnt (?mid l) ENQUEUED t +
      in_flight (?mid l) t + (if t = evt_type e then 1 else 0) \<and>
      cnt (?mid l) BACKPRESSURED t \<le> cnt (?mid l) ENQUEUED t + in_flight (?mid l) t" for l
    using assms by (auto simp: counts_ok_def cnt_bump in_flight_def)
  have "counts_ok (sub_bump COALESCED (evt_type e) (?mid l))" for l
    using assms by (auto simp: counts_ok_def cnt_bump in_flight_def)
  moreover have eq: "?mid (sub_latest s) = sub_bump RECEIVED (evt_type e) s"
    by (simp add: sub_bump_def)
  moreover have "counts_ok (put_with_backpressure e (sub_bump RECEIVED (evt_type e) s))"
    by (rule counts_put [OF s1 [of "sub_latest s", unfolded eq]])
  ultimately show ?thesis
    using False counts_put [OF s1]
    by (auto simp: sub_enqueue_def Let_def split: option.split)
qed

lemma counts_receive: "counts_ok s \<Longrightarrow> sub_receive s = (r, s') \<Longrightarrow> counts_ok s'"
  by (auto simp: counts_ok_def sub_receive_def in_flight_def Let_def split: list.splits option.splits)

lemma counts_resume:
  assumes "counts_ok s" and "no_cancel s"
  shows "counts_ok (sub_resume i s)"
proof (cases "i < length (sub_putters s)")
  case True
  define p where "p = sub_putters s ! i"
  define rest where "rest = take i (sub_putters s) @ drop (Suc i) (sub_putters s)"
  have m: "mset (sub_putters s) = add_mset p (mset rest)"
    using mset_remove_nth [OF True] by (simp add: p_def rest_def)
  have fl: "in_flight s t = (if t = evt_type (p_event p) then 1 else 0) + in_flight (s\<lparr>sub_putters := rest\<rparr>) t" for t
    using m by (simp add: in_flight_def)
  have fl2: "in_flight (s\<lparr>sub_putters := rest @ [p\<lparr>p_state := Parked\<rparr>]\<rparr>) t = in_flight s t" for t
    using m by (simp add: in_flight_def)
  have fl3: "in_flight (put_done e s) t = in_flight s t" for e s t
    by (simp add: in_flight_def put_done_def)
  have c: "cnt (put_done e s) k t = cnt s k t + (if k = ENQUEUED \<and> t = evt_type e then 1 else 0)" for e s k t
    by (simp add: put_done_def cnt_bump)
  have "p_state p = Parked \<or> p_state p = Woken" using assms(2) True by (simp add: no_cancel_def p_def)
  moreover have "counts_ok (s\<lparr>sub_putters := rest @ [p\<lparr>p_state := Parked\<rparr>]\<rparr>)"
    using assms(1) by (simp add: counts_ok_def fl2)
  moreover have "counts_ok (put_done (p_event p) (s\<lparr>sub_putters := rest\<rparr>))"
    using assms(1) by (auto simp: counts_ok_def fl fl3 c split: if_splits)
  ultimately show ?thesis
    using assms(1) True by (auto simp: sub_resume_def p_def [symmetric] rest_def [symmetric])
qed (use assms in \<open>simp add: sub_resume_def\<close>)

lemma counts_exec: "counts_ok s \<Longrightarrow> no_cancel s \<Longrightarrow> undisturbed a \<Longrightarrow> sub_exec a s = (r, s') \<Longrightarrow> counts_ok s'"
  by (cases a) (auto simp: counts_enqueue counts_resume intro: counts_receive)

section \<open>Closing\<close>

definition woken :: "subscriber \<Rightarrow> nat" where
  "woken s = length (filter (\<lambda>p. p_state p = Woken) (sub_putters s))"

text \<open>After \<open>close\<close>: no putter is parked, and the woken ones fit into the queue.\<close>

definition unwinding :: "subscriber \<Rightarrow> bool" where
  "unwinding s \<longleftrightarrow> (\<forall>p \<in> set (sub_putters s). p_state p = Woken \<or> p_state p = Cancelled False) \<and>
     (0 < sub_maxsize s \<longrightarrow> int (length (sub_queue s)) + int (woken s) \<le> sub_maxsize s)"

lemma woken_wake:
  "length (filter (\<lambda>p. p_state p = Woken) (wake_next ps)) \<le> Suc (length (filter (\<lambda>p. p_state p = Woken) ps))"
  by (induction ps) auto

lemma woken_wakes:
  "length (filter (\<lambda>p. p_state p = Woken) ((wake_next ^^ n) ps)) \<le> n + length (filter (\<lambda>p. p_state p = Woken) ps)"
proof (induction n)
  case 0
  then show ?case by simp
next
  case (Suc n)
  then show ?case using woken_wake [of "(wake_next ^^ n) ps"] by simp
qed

lemma wakes_states:
  "\<forall>p \<in> set ps. p_state p = Parked \<or> p_state p = Woken \<Longrightarrow>
   \<forall>p \<in> set ((wake_next ^^ n) ps). p_state p = Parked \<or> p_state p = Woken"
  by (induction n) (simp_all add: wake_no_cancel)

lemma woken_cancel: "filter (\<lambda>p. p_state p = Woken) (map cancel_parked ps) = filter (\<lambda>p. p_state p = Woken) ps"
  by (induction ps) (auto simp: cancel_parked_def)

lemma close_unwinding:
  assumes "sub_inv s" and "no_cancel s" and "\<not> sub_closed s" and "woken s = 0"
  shows "unwinding (sub_close s)"
proof -
  let ?ps = "(wake_next ^^ length (sub_queue s)) (sub_putters s)"
  have "\<forall>p \<in> set (map cancel_parked ?ps). p_state p = Woken \<or> p_state p = Cancelled False"
    using wakes_states [of "sub_putters s" "length (sub_queue s)"] assms(2)
    by (auto simp: no_cancel_def cancel_parked_def)
  moreover have "length (filter (\<lambda>p. p_state p = Woken) (map cancel_parked ?ps)) \<le> length (sub_queue s)"
    using woken_wakes [of "length (sub_queue s)" "sub_putters s"] assms(4) by (simp add: woken_cancel woken_def)
  ultimately show ?thesis
    using assms(1,3) by (auto simp: unwinding_def woken_def sub_close_def sub_inv_def sub_bounded_def)
qed

lemma resume_unwinding:
  assumes "unwinding s" and "sub_putters s \<noteq> []"
  shows "unwinding (sub_resume 0 s) \<and> length (sub_putters (sub_resume 0 s)) = length (sub_putters s) - 1"
proof -
  obtain p ps where ps: "sub_putters s = p # ps" using assms(2) by (cases "sub_putters s") auto
  from assms(1) ps consider "p_state p = Woken" "\<not> queue_full s" | "p_state p = Cancelled False"
    by (auto simp: unwinding_def queue_full_def woken_def)
  then show ?thesis
    using assms(1) ps
    by cases (auto simp: sub_resume_def put_done_def rollback_def unwinding_def woken_def split: option.split)
qed

lemma unwinding_all: "unwinding s \<Longrightarrow> sub_putters ((sub_resume 0 ^^ length (sub_putters s)) s) = []"
proof (induction "length (sub_putters s)" arbitrary: s)
  case 0
  then show ?case by simp
next
  case (Suc n)
  then have "sub_putters s \<noteq> []" by auto
  from resume_unwinding [OF Suc.prems this] Suc.hyps(2)
  have u: "unwinding (sub_resume 0 s)" and l: "n = length (sub_putters (sub_resume 0 s))" by simp_all
  from Suc.hyps(1) [OF l u] l Suc.hyps(2) [symmetric] show ?case
    by (simp add: funpow_swap1 del: funpow.simps) (simp add: funpow_swap1)
qed

section \<open>Properties of the subscriber\<close>

lemma run_undisturbed:
  "sub_undisturbed s0 s \<Longrightarrow> list_all undisturbed as \<Longrightarrow> sub_undisturbed s0 (snd (sub_run as s))"
proof (induction as arbitrary: s)
  case Nil
  then show ?case by simp
next
  case (Cons a as)
  obtain r s1 where a: "sub_exec a s = (r, s1)" by (cases "sub_exec a s")
  have "sub_undisturbed s0 s1" using Cons.prems a by (auto intro: sub_undisturbed.step)
  with Cons have "sub_undisturbed s0 (snd (sub_run as s1))" by simp
  with a show ?case by (simp add: split_beta Let_def)
qed

lemma enqueue_undisturbed: "sub_undisturbed s0 s \<Longrightarrow> sub_undisturbed s0 (sub_enqueue e s)"
  using run_undisturbed [of s0 s "[Enqueue e]"] by simp

definition sample_update :: "int \<Rightarrow> string \<Rightarrow> event" where
  "sample_update i v = make_event UPDATED (VObj [(''id'', VInt i), (''state'', VStr v)]) [] VNone"

text \<open>C20: One token per coalesced id, and a bounded queue. In every state that any interleaving
  of \<open>enqueue\<close>, \<open>receive\<close>, resumed and cancelled puts can reach before the subscriber is
  closed, an id has an entry in \<open>latest_by_key\<close> iff exactly one queued or in-flight event
  will pop it (no id is stranded, none is delivered twice), and a bounded queue never
  exceeds its size.\<close>

theorem sub_token_invariant:
  assumes "sub_reachable (subscriber_init topic source ts n) s" and "\<not> sub_closed s"
  shows "(dget (sub_latest s) i \<noteq> None \<longleftrightarrow> count (mset (toks (held s))) i = 1) \<and>
         (dget (sub_latest s) i = None \<longleftrightarrow> count (mset (toks (held s))) i = 0) \<and>
         (0 < sub_maxsize s \<longrightarrow> int (length (sub_queue s)) \<le> sub_maxsize s)"
proof -
  have inv: "sub_inv s" using sub_reachable_inv [OF assms(1) init_inv] .
  then have t: "distinct (toks (held s))" and k: "set (toks (held s)) = fst ` set (sub_latest s)"
    using assms(2) by (simp_all add: sub_inv_def token_inv_def)
  have "count (mset (toks (held s))) i = (if i \<in> set (toks (held s)) then 1 else 0)"
    using t distinct_count_atmost_1 [of "toks (held s)"] by simp
  then show ?thesis using inv k by (auto simp: dget_None_iff sub_inv_def sub_bounded_def)
qed

theorem sub_token_invariant_witness:
  "\<exists>s. sub_reachable (subscriber_init ''model'' None None 1) s \<and> \<not> sub_closed s \<and>
       count (mset (toks (held s))) (VInt 7) = 1"
proof -
  let ?init = "subscriber_init ''model'' None None 1"
  let ?mid = "sub_enqueue (sample_update 3 ''a'') ?init"
  let ?s = "sub_enqueue (sample_update 7 ''b'') ?mid"
  have "sub_reachable ?init ?mid"
    by (rule sub_reachable.step [OF sub_reachable.start, where a = "Enqueue (sample_update 3 ''a'')" and r = None]) simp
  then have r: "sub_reachable ?init ?s"
    by (rule sub_reachable.step [where a = "Enqueue (sample_update 7 ''b'')" and r = None]) simp
  have o: "\<not> sub_closed ?s" and l: "dget (sub_latest ?s) (VInt 7) \<noteq> None" by code_simp+
  from sub_token_invariant [OF r o] r o l show ?thesis by blast
qed

text \<open>The newest state is delivered, exactly once. Once an \<open>UPDATED\<close> event for an id has
  been accepted, then in any run without cancellation, close or a newer update for that id,
  the events with that id that the consumer receives are either none, while the update is
  still held as the latest, or exactly this newest event.\<close>

theorem sub_newest_delivered_once:
  assumes "sub_undisturbed (subscriber_init topic source ts n) s"
    and "should_enqueue e s" and "upd_id e = Some i"
    and "\<forall>a \<in> set as. undisturbed a \<and> (\<forall>e'. a = Enqueue e' \<longrightarrow> upd_id e' \<noteq> Some i)"
    and "sub_run as (sub_enqueue e s) = (out, s')"
  shows "filter (\<lambda>x. upd_id x = Some i) out =
           (if dget (sub_latest s') i = None then [e] else []) \<and>
         (dget (sub_latest s') i = None \<or> dget (sub_latest s') i = Some e)"
proof -
  from undisturbed_facts [OF assms(1) init_inv] init_undisturbed
  have f: "sub_inv s" "no_cancel s" "\<not> sub_closed s" by auto
  have l: "dget (sub_latest (sub_enqueue e s)) i = Some e"
    using enqueue_sets_latest [OF f(3) assms(2,3)] .
  have o: "\<not> sub_closed (sub_enqueue e s)"
    using exec_open [OF f(3), of "Enqueue e"] by simp
  have "filter (\<lambda>x. upd_id x = Some i) out @ (case dget (sub_latest s') i of None \<Rightarrow> [] | Some e \<Rightarrow> [e]) = [e]"
    using run_delivers_once [OF enqueue_inv [OF f(1)] enqueue_no_cancel [OF f(2)] o assms(4,5)] l assms(3) by simp
  then show ?thesis by (auto split: option.splits simp: append_eq_Cons_conv)
qed

theorem sub_newest_delivered_once_witness:
  "filter (\<lambda>x. upd_id x = Some (VInt 7))
     (fst (sub_run [Enqueue (sample_update 3 ''x''), Receive, Resume 0, Receive]
       (sub_enqueue (sample_update 7 ''new'') (sub_enqueue (sample_update 7 ''old'') (subscriber_init ''model'' None None 1)))))
   = [sample_update 7 ''new'']"
proof -
  let ?init = "subscriber_init ''model'' None None 1"
  let ?s = "sub_enqueue (sample_update 7 ''old'') ?init"
  let ?as = "[Enqueue (sample_update 3 ''x''), Receive, Resume 0, Receive]"
  have r: "sub_undisturbed ?init ?s"
    by (intro enqueue_undisturbed sub_undisturbed.start)
  have a: "should_enqueue (sample_update 7 ''new'') ?s" "upd_id (sample_update 7 ''new'') = Some (VInt 7)"
    and ids: "upd_id (sample_update 3 ''x'') \<noteq> Some (VInt 7)"
    and none: "dget (sub_latest (snd (sub_run ?as (sub_enqueue (sample_update 7 ''new'') ?s)))) (VInt 7) = None" by code_simp+
  obtain out s' where run: "sub_run ?as (sub_enqueue (sample_update 7 ''new'') ?s) = (out, s')"
    by (cases "sub_run ?as (sub_enqueue (sample_update 7 ''new'') ?s)")
  from sub_newest_delivered_once [OF r a _ run] ids none run show ?thesis by simp
qed

text \<open>Counters add up. On the normal completion path the received events of each type are
  those filtered, coalesced, enqueued and still parked, and the backpressured ones are
  among the enqueued and parked ones: no event is dropped under backpressure.\<close>

theorem sub_counts_add_up:
  assumes "sub_undisturbed (subscriber_init topic source ts n) s"
  shows "cnt s RECEIVED t = cnt s FILTERED t + cnt s COALESCED t + cnt s ENQUEUED t + in_flight s t \<and>
         cnt s BACKPRESSURED t \<le> cnt s ENQUEUED t + in_flight s t"
proof -
  have "counts_ok s \<and> no_cancel s"
    using assms
  proof (induction rule: sub_undisturbed.induct)
    case start
    then show ?case
      using init_undisturbed by (simp add: counts_ok_def subscriber_init_def in_flight_def)
  next
    case (step s a r s')
    then show ?case using counts_exec exec_no_cancel by blast
  qed
  then show ?thesis by (simp add: counts_ok_def)
qed

theorem sub_counts_add_up_witness:
  "\<exists>s. sub_undisturbed (subscriber_init ''model'' None None 1) s \<and> cnt s RECEIVED UPDATED = 2 \<and>
       in_flight s UPDATED = 1 \<and>
       cnt s RECEIVED UPDATED = cnt s FILTERED UPDATED + cnt s COALESCED UPDATED + cnt s ENQUEUED UPDATED + in_flight s UPDATED"
proof -
  let ?init = "subscriber_init ''model'' None None 1"
  let ?mid = "sub_enqueue (sample_update 3 ''a'') ?init"
  let ?s = "sub_enqueue (sample_update 7 ''b'') ?mid"
  have r: "sub_undisturbed ?init ?s"
    by (intro enqueue_undisturbed sub_undisturbed.start)
  have "cnt ?s RECEIVED UPDATED = 2" "in_flight ?s UPDATED = 1" by code_simp+
  with sub_counts_add_up [OF r, of UPDATED] r show ?thesis by blast
qed

text \<open>Closing unwinds every parked put. If no put has been woken but not yet run when
  \<open>close\<close> is called, then after letting each suspended put run once none is left.\<close>

theorem sub_close_unwinds:
  assumes "sub_undisturbed (subscriber_init topic source ts n) s" and "woken s = 0"
  shows "sub_putters ((sub_resume 0 ^^ length (sub_putters (sub_close s))) (sub_close s)) = []"
  using undisturbed_facts [OF assms(1) init_inv] init_undisturbed assms(2)
  by (intro unwinding_all close_unwinding) auto

theorem sub_close_unwinds_witness:
  "length (sub_putters (sub_enqueue (sample_update 7 ''b'') (sub_enqueue (sample_update 3 ''a'') (subscriber_init ''model'' None None 1)))) = 1 \<and>
   sub_putters ((sub_resume 0 ^^ 1)
     (sub_close (sub_enqueue (sample_update 7 ''b'') (sub_enqueue (sample_update 3 ''a'') (subscriber_init ''model'' None None 1))))) = []"
proof -
  let ?init = "subscriber_init ''model'' None None 1"
  let ?mid = "sub_enqueue (sample_update 3 ''a'') ?init"
  let ?s = "sub_enqueue (sample_update 7 ''b'') ?mid"
  have r: "sub_undisturbed ?init ?s"
    by (intro enqueue_undisturbed sub_undisturbed.start)
  have "woken ?s = 0" "length (sub_putters ?s) = 1" "length (sub_putters (sub_close ?s)) = 1" by code_simp+
  with sub_close_unwinds [OF r] show ?thesis by simp
qed

text \<open>Closing can strand a put when one was woken but had not run yet. With a queue of
  size 1 there is an undisturbed run after which \<open>close\<close> leaves two woken puts; the first
  takes the only slot, the second parks again on the closed subscriber, and no resumption
  ever changes that state: the put, and the subscriber it references, stay alive.\<close>

theorem sub_close_can_strand:
  "\<exists>s. sub_undisturbed (subscriber_init ''model'' None None 1) s \<and> woken s = 1 \<and>
     (let s' = sub_resume 0 (sub_resume 0 (sub_close s))
      in sub_closed s' \<and> map p_state (sub_putters s') = [Parked] \<and> queue_full s' \<and>
         (\<forall>i. sub_resume i s' = s'))"
proof -
  let ?init = "subscriber_init ''model'' None None 1"
  let ?as = "[Enqueue (sample_update 1 ''a''), Enqueue (sample_update 2 ''b''), Enqueue (sample_update 3 ''c''),
              Receive, Enqueue (sample_update 4 ''d'')]"
  from run_undisturbed [OF sub_undisturbed.start, of ?as] have r: "sub_undisturbed ?init (snd (sub_run ?as ?init))" by simp
  define s' where "s' = sub_resume 0 (sub_resume 0 (sub_close (snd (sub_run ?as ?init))))"
  have f: "woken (snd (sub_run ?as ?init)) = 1" "sub_closed s'" "map p_state (sub_putters s') = [Parked]" "queue_full s'"
    unfolding s'_def by code_simp+
  then have "sub_resume i s' = s'" for i
    by (cases i) (auto simp: sub_resume_def)
  with r f show ?thesis
    unfolding Let_def by (intro exI [of _ "snd (sub_run ?as ?init)"]) (simp only: s'_def [symmetric], blast)
qed

end
