(* ===== verification/EventBus.thy ===== *)
theory EventBus
  imports Subscriber
begin

text \<open>
  The event bus, \<^verbatim>\<open>src/gpustack/server/bus.py\<close> (class \<open>EventBus\<close>): the subscriber lists per
  topic, the tasks it spawns, publishing with and without a coordinator, the enrichment of
  cross-instance events through the change-detector caches, and the counters of departed
  subscribers. Subscribers are objects shared by reference, so they live in a store.
\<close>

section \<open>State\<close>

text \<open>
  Coordinators: the single-node one of \<^verbatim>\<open>coordinator/local.py\<close>, which calls back into the bus,
  or one contributed by a plugin, whose \<open>publish\<close> may raise and which is distributed.
\<close>

datatype coordinator = LocalCoordinator | PluginCoordinator

definition is_distributed :: "coordinator \<Rightarrow> bool" where
  "is_distributed c \<longleftrightarrow> c = PluginCoordinator"

datatype bus_task = SubscribeTask string | EnqueueTask nat event | CoordinatorTask event string

record bus =
  bus_store :: "(nat, subscriber) dict"
  bus_next :: nat
  bus_subscribers :: "(string, nat list) dict"
  bus_coordinator :: "coordinator option"
  bus_channels :: "string set"
  bus_tasks :: "bus_task list"
  bus_retired :: "(string \<times> string \<times> count_kind \<times> event_type, nat) dict"

definition bus_init :: "bus" where
  "bus_init = \<lparr>bus_store = [], bus_next = 0, bus_subscribers = [], bus_coordinator = None,
     bus_channels = {}, bus_tasks = [], bus_retired = []\<rparr>"

definition topic_subscribers :: "bus \<Rightarrow> string \<Rightarrow> nat list" where
  "topic_subscribers b topic = (case dget (bus_subscribers b) topic of None \<Rightarrow> [] | Some l \<Rightarrow> l)"

section \<open>Operations\<close>

definition spawn :: "bus_task \<Rightarrow> bus \<Rightarrow> bus" where
  "spawn t b = b\<lparr>bus_tasks := bus_tasks b @ [t]\<rparr>"

definition set_coordinator :: "coordinator option \<Rightarrow> bus \<Rightarrow> bus" where
  "set_coordinator c b = b\<lparr>bus_coordinator := c\<rparr>"

definition bus_subscribe ::
  "string \<Rightarrow> string option \<Rightarrow> event_type list option \<Rightarrow> int \<Rightarrow> bus \<Rightarrow> nat \<times> bus" where
  "bus_subscribe topic source event_types queue_size b =
     (let sid = bus_next b;
          b1 = b\<lparr>bus_store := dput sid (subscriber_init topic source event_types queue_size) (bus_store b),
                 bus_next := Suc sid\<rparr>;
          b2 = (case dget (bus_subscribers b1) topic of
                  Some _ \<Rightarrow> b1
                | None \<Rightarrow>
                    let b' = b1\<lparr>bus_subscribers := dput topic [] (bus_subscribers b1)\<rparr>
                    in if bus_coordinator b' \<noteq> None then spawn (SubscribeTask topic) b' else b')
      in (sid, b2\<lparr>bus_subscribers := dput topic (topic_subscribers b2 topic @ [sid]) (bus_subscribers b2)\<rparr>))"

text \<open>\<open>ok\<close>: the coordinator's own \<open>subscribe\<close> does not raise.\<close>

definition subscribe_to_coordinator :: "bool \<Rightarrow> string \<Rightarrow> bus \<Rightarrow> bus" where
  "subscribe_to_coordinator ok topic b =
     (if topic \<in> bus_channels b then b
      else if ok then b\<lparr>bus_channels := insert topic (bus_channels b)\<rparr> else b)"

definition on_coordinator_event :: "event \<Rightarrow> string \<Rightarrow> bus \<Rightarrow> bus" where
  "on_coordinator_event e topic b = spawn (CoordinatorTask e topic) b"

definition route_event :: "event \<Rightarrow> string \<Rightarrow> bus \<Rightarrow> bus" where
  "route_event e topic b =
     (case dget (bus_subscribers b) topic of
        None \<Rightarrow> b
      | Some sids \<Rightarrow> fold (\<lambda>sid. spawn (EnqueueTask sid e)) sids b)"

text \<open>\<open>ok\<close>: the coordinator's \<open>publish\<close> does not raise. The local coordinator's \<open>publish\<close>
  calls the callback registered for the topic.\<close>

definition bus_publish :: "bool \<Rightarrow> string \<Rightarrow> event \<Rightarrow> bus \<Rightarrow> bus" where
  "bus_publish ok topic e b =
     (case bus_coordinator b of
        Some LocalCoordinator \<Rightarrow> if topic \<in> bus_channels b then on_coordinator_event e topic b else b
      | Some PluginCoordinator \<Rightarrow> if ok then b else route_event e topic b
      | None \<Rightarrow> route_event e topic b)"

fun fold_counts ::
  "string \<Rightarrow> string \<Rightarrow> ((count_kind \<times> event_type) \<times> nat) list \<Rightarrow>
   (string \<times> string \<times> count_kind \<times> event_type, nat) dict \<Rightarrow>
   (string \<times> string \<times> count_kind \<times> event_type, nat) dict" where
  "fold_counts topic source [] r = r"
| "fold_counts topic source (((k, t), n) # cs) r =
     fold_counts topic source cs (dincr (topic, source, k, t) n r)"

definition source_label :: "subscriber \<Rightarrow> string" where
  "source_label s = (case sub_source s of None \<Rightarrow> '''' | Some x \<Rightarrow> x)"

definition bus_unsubscribe :: "string \<Rightarrow> nat \<Rightarrow> bus \<Rightarrow> bus" where
  "bus_unsubscribe topic sid b =
     (let sids = topic_subscribers b topic;
          removed = (sid \<in> set sids);
          b1 = (case dget (bus_subscribers b) topic of
                  None \<Rightarrow> b
                | Some _ \<Rightarrow>
                    if remove1 sid sids = [] then b\<lparr>bus_subscribers := dpop topic (bus_subscribers b)\<rparr>
                    else b\<lparr>bus_subscribers := dput topic (remove1 sid sids) (bus_subscribers b)\<rparr>)
      in case dget (bus_store b1) sid of
           None \<Rightarrow> b1
         | Some s \<Rightarrow>
             let b2 = (if removed
                       then b1\<lparr>bus_retired := fold_counts topic (source_label s) (sub_counts s) (bus_retired b1)\<rparr>
                       else b1)
             in b2\<lparr>bus_store := dput sid (sub_close s) (bus_store b2)\<rparr>)"

section \<open>Cross-instance events\<close>

text \<open>
  The topics of \<^verbatim>\<open>coordinator/models.py\<close> (the schema modules it imports exist). The caches are
  \<open>cachetools.LRUCache\<close> objects: their operations are an argument, and so are the database
  read (\<open>Inl\<close>: it raised) and the equality of field values.
\<close>

definition model_registry :: "string list" where
  "model_registry =
     [''worker'', ''model'', ''modelinstance'', ''modelfile'', ''modelroute'', ''modelroutetarget'',
      ''cluster'', ''workerpool'', ''cloudcredential'', ''modelprovider'', ''principal'', ''user'',
      ''apikey'', ''benchmark'', ''inferencebackend'', ''catalogsource'', ''inferencebackendsource'',
      ''inferencerunnersource'', ''cacheprovidersource'']"

definition get_model_for_topic :: "string \<Rightarrow> bool" where
  "get_model_for_topic topic \<longleftrightarrow> topic \<in> set model_registry"

record 'c lru_ops =
  lru_new :: 'c
  lru_get :: "'c \<Rightarrow> pyval \<Rightarrow> pyval option \<times> 'c"
  lru_put :: "'c \<Rightarrow> pyval \<Rightarrow> pyval \<Rightarrow> 'c"
  lru_remove :: "'c \<Rightarrow> pyval \<Rightarrow> 'c"

record 'c enrich_env =
  env_lru :: "'c lru_ops"
  env_fetch :: "string \<Rightarrow> pyval \<Rightarrow> unit + pyval option"
  env_eq :: "pyval \<Rightarrow> pyval \<Rightarrow> bool"
  env_fields :: "string \<Rightarrow> string list"

definition get_change_detector :: "'c lru_ops \<Rightarrow> string \<Rightarrow> (string, 'c) dict \<Rightarrow> 'c" where
  "get_change_detector ops topic cs = (case dget cs topic of None \<Rightarrow> lru_new ops | Some c \<Rightarrow> c)"

definition remember_local_row ::
  "'c enrich_env \<Rightarrow> coordinator option \<Rightarrow> event \<Rightarrow> string \<Rightarrow> (string, 'c) dict \<Rightarrow> (string, 'c) dict" where
  "remember_local_row env coord e topic cs =
     (case coord of
        None \<Rightarrow> cs
      | Some c \<Rightarrow>
          if \<not> is_distributed c then cs
          else if \<not> get_model_for_topic topic then cs
          else if evt_id e = VNone \<or> is_dict (evt_data e) \<or> evt_data e = VNone then cs
          else let det = get_change_detector (env_lru env) topic cs
               in dput topic
                    (if evt_type e = DELETED then lru_remove (env_lru env) det (evt_id e)
                     else lru_put (env_lru env) det (evt_id e) (evt_data e)) cs)"

text \<open>What is routed (if anything), and the caches afterwards.\<close>

definition process_coordinator_event ::
  "'c enrich_env \<Rightarrow> coordinator option \<Rightarrow> event \<Rightarrow> string \<Rightarrow> (string, 'c) dict \<Rightarrow>
   event option \<times> (string, 'c) dict" where
  "process_coordinator_event env coord e topic cs =
     (if \<not> is_id_only (evt_data e) then (Some e, remember_local_row env coord e topic cs)
      else if evt_id e = VNone then (None, cs)
      else if \<not> get_model_for_topic topic then (None, cs)
      else let ops = env_lru env;
               (old, det) = lru_get ops (get_change_detector ops topic cs) (evt_id e);
               cs1 = dput topic det cs
           in case env_fetch env topic (evt_id e) of
                Inl _ \<Rightarrow> (None, cs1)
              | Inr obj \<Rightarrow>
                  if evt_type e = DELETED then
                    (Some (case old of
                             Some o' \<Rightarrow> make_event DELETED o' [] (evt_id e)
                           | None \<Rightarrow> e),
                     dput topic (lru_remove ops det (evt_id e)) cs1)
                  else case obj of
                    None \<Rightarrow> (None, cs1)
                  | Some new \<Rightarrow>
                      (Some (make_event (evt_type e) new
                               (detect_changes (env_eq env) (env_fields env topic) old new) (evt_id e)),
                       dput topic (lru_put ops det (evt_id e) new) cs1))"

section \<open>Lemmas\<close>

lemma fold_spawn: "fold (\<lambda>sid. spawn (EnqueueTask sid e)) sids b =
   b\<lparr>bus_tasks := bus_tasks b @ map (\<lambda>sid. EnqueueTask sid e) sids\<rparr>"
  by (induction sids arbitrary: b) (simp_all add: spawn_def)

lemma route_event_eq:
  "route_event e topic b = b\<lparr>bus_tasks := bus_tasks b @ map (\<lambda>sid. EnqueueTask sid e) (topic_subscribers b topic)\<rparr>"
  by (simp add: route_event_def topic_subscribers_def fold_spawn split: option.split)

lemma dget0_fold_counts:
  "dict_ok cs \<Longrightarrow> dget0 (fold_counts topic source cs r) (t, s, k, ty) =
     dget0 r (t, s, k, ty) + (if t = topic \<and> s = source then dget0 cs (k, ty) else 0)"
proof (induction topic source cs r rule: fold_counts.induct)
  case (1 topic source r)
  then show ?case by simp
next
  case (2 topic source k' ty' n cs r)
  then have "dget0 cs (k', ty') = 0" by (intro dget0_absent) simp
  with 2 show ?case by (auto simp: dget0_Cons dget0_dincr)
qed

definition live_count :: "bus \<Rightarrow> string \<Rightarrow> count_kind \<Rightarrow> event_type \<Rightarrow> nat \<Rightarrow> nat" where
  "live_count b source k t sid =
     (case dget (bus_store b) sid of
        None \<Rightarrow> 0
      | Some s \<Rightarrow> if source_label s = source then dget0 (sub_counts s) (k, t) else 0)"

text \<open>What \<open>bus_events_total\<close> reports: the counts of live subscribers plus the retired ones.\<close>

definition bus_total :: "bus \<Rightarrow> string \<Rightarrow> string \<Rightarrow> count_kind \<Rightarrow> event_type \<Rightarrow> nat" where
  "bus_total b topic source k t =
     dget0 (bus_retired b) (topic, source, k, t) +
     sum_list (map (live_count b source k t) (topic_subscribers b topic))"

lemma close_counts [simp]: "sub_counts (sub_close s) = sub_counts s" "sub_source (sub_close s) = sub_source s"
  by (simp_all add: sub_close_def)

lemma live_count_close:
  assumes "dget (bus_store b) sid = Some s" and "bus_store b' = dput sid (sub_close s) (bus_store b)"
  shows "live_count b' source k t = live_count b source k t"
  using assms by (auto simp: live_count_def dict_simps source_label_def)

lemma sum_list_remove1:
  fixes f :: "'a \<Rightarrow> nat"
  shows "x \<in> set xs \<Longrightarrow> sum_list (map f xs) = f x + sum_list (map f (remove1 x xs))"
  by (induction xs) auto

lemma topic_subscribers_unsubscribe:
  "dget (bus_store b) sid = Some s \<Longrightarrow>
   topic_subscribers (bus_unsubscribe topic sid b) t =
     (if t = topic then remove1 sid (topic_subscribers b t) else topic_subscribers b t)"
  by (auto simp: bus_unsubscribe_def topic_subscribers_def Let_def dict_simps split: option.splits)

section \<open>Properties of the bus\<close>

text \<open>Only deletions are delivered id-only. When the database returns model objects, an
  event the bus routes after a coordinator callback keeps the kind and, if it was id-only,
  the id of the incoming event; and if what is routed is id-only, then it is a \<open>DELETED\<close>.\<close>

theorem coordinator_event_hydrated:
  assumes "\<forall>i v. env_fetch env topic i = Inr (Some v) \<longrightarrow> (\<exists>fs. v = VObj fs)"
    and "process_coordinator_event env coord e topic cs = (Some e', cs')"
  shows "evt_type e' = evt_type e \<and> evt_id e' = evt_id e \<and> (is_id_only (evt_data e') \<longrightarrow> evt_type e' = DELETED)"
proof (cases "is_id_only (evt_data e)")
  case False
  with assms(2) show ?thesis by (simp add: process_coordinator_event_def)
next
  case True
  have keep: "evt_type (make_event t d c i) = t" "evt_data (make_event t d c i) = d"
      "i \<noteq> VNone \<Longrightarrow> evt_id (make_event t d c i) = i" for t d c i
    by (simp_all add: make_event_def refresh_id_def)
  obtain obj where "env_fetch env topic (evt_id e) = Inr obj"
    using assms(2) True by (auto simp: process_coordinator_event_def Let_def split: if_splits prod.splits sum.splits)
  moreover have "evt_id e \<noteq> VNone"
    using assms(2) True by (auto simp: process_coordinator_event_def split: if_splits)
  moreover have "env_fetch env topic (evt_id e) = Inr (Some v) \<Longrightarrow> \<not> is_id_only v" for v
    using assms(1) by force
  ultimately show ?thesis
    using assms(2) True
    by (auto simp: process_coordinator_event_def keep Let_def split: if_splits prod.splits option.splits)
qed

text \<open>An LRU cache as an association list, for the witness.\<close>

definition list_cache :: "(pyval \<times> pyval) list lru_ops" where
  "list_cache = \<lparr>lru_new = [], lru_get = (\<lambda>c k. (dget c k, c)), lru_put = (\<lambda>c k v. dput k v c),
     lru_remove = (\<lambda>c k. dpop k c)\<rparr>"

definition sample_env :: "(pyval \<times> pyval) list enrich_env" where
  "sample_env = \<lparr>env_lru = list_cache, env_fetch = (\<lambda>t i. Inr (Some (VObj [(''id'', i), (''state'', VStr ''ready'')]))),
     env_eq = (=), env_fields = (\<lambda>t. [''id'', ''state''])\<rparr>"

theorem coordinator_event_hydrated_witness:
  "\<exists>e'. fst (process_coordinator_event sample_env (Some PluginCoordinator)
           (make_event UPDATED (VDict [(''id'', VInt 4)]) [] VNone) ''worker'' []) = Some e' \<and>
        evt_type e' = UPDATED \<and> \<not> is_id_only (evt_data e')"
proof -
  let ?e = "make_event UPDATED (VDict [(''id'', VInt 4)]) [] VNone"
  let ?r = "process_coordinator_event sample_env (Some PluginCoordinator) ?e ''worker'' []"
  have h: "\<forall>i v. env_fetch sample_env ''worker'' i = Inr (Some v) \<longrightarrow> (\<exists>fs. v = VObj fs)"
    by (simp add: sample_env_def)
  have n: "fst ?r \<noteq> None" by code_simp
  then obtain e' where e': "fst ?r = Some e'" by blast
  then have "?r = (Some e', snd ?r)" by (cases ?r) simp
  from coordinator_event_hydrated [OF h this] have "evt_type e' = UPDATED" "\<not> is_id_only (evt_data e')"
    by (auto simp: make_event_def refresh_id_def)
  with e' show ?thesis by blast
qed

text \<open>Unsubscribing keeps the reported totals. The sum of live and retired counts of every
  (topic, source, kind, type) is unchanged by \<open>unsubscribe\<close>, also when it is called a second
  time for the same subscriber.\<close>

theorem unsubscribe_keeps_totals:
  assumes "dget (bus_store b) sid = Some s" and "dict_ok (sub_counts s)"
  shows "bus_total (bus_unsubscribe topic sid b) t src k ty = bus_total b t src k ty"
proof -
  let ?b = "bus_unsubscribe topic sid b"
  have store: "bus_store ?b = dput sid (sub_close s) (bus_store b)"
    using assms(1) by (auto simp: bus_unsubscribe_def Let_def split: option.split)
  have live: "live_count ?b src k ty = live_count b src k ty"
    by (rule live_count_close [OF assms(1) store])
  have ret: "dget0 (bus_retired ?b) (t, src, k, ty) = dget0 (bus_retired b) (t, src, k, ty) +
      (if sid \<in> set (topic_subscribers b topic) \<and> t = topic then live_count b src k ty sid else 0)"
    using assms
    by (auto simp: bus_unsubscribe_def Let_def dget0_fold_counts live_count_def split: option.split)
  have subs: "topic_subscribers ?b t = (if t = topic then remove1 sid (topic_subscribers b t) else topic_subscribers b t)"
    by (rule topic_subscribers_unsubscribe [OF assms(1)])
  show ?thesis
    using sum_list_remove1 [of sid "topic_subscribers b topic" "live_count b src k ty"]
    by (auto simp: bus_total_def live ret subs remove1_idem)
qed

theorem unsubscribe_keeps_totals_witness:
  "bus_total (bus_unsubscribe ''model'' 0
     (\<lparr>bus_store = [(0, sub_enqueue (sample_update 1 ''a'') (subscriber_init ''model'' (Some ''ui'') None 4))],
       bus_next = 1, bus_subscribers = [(''model'', [0])], bus_coordinator = None, bus_channels = {},
       bus_tasks = [], bus_retired = []\<rparr>)) ''model'' ''ui'' RECEIVED UPDATED = 1"
proof -
  let ?s = "sub_enqueue (sample_update 1 ''a'') (subscriber_init ''model'' (Some ''ui'') None 4)"
  let ?b = "\<lparr>bus_store = [(0, ?s)], bus_next = 1, bus_subscribers = [(''model'', [0])], bus_coordinator = None,
       bus_channels = {}, bus_tasks = [], bus_retired = []\<rparr>"
  have s: "dget (bus_store ?b) 0 = Some ?s" by simp
  have d: "dict_ok (sub_counts ?s)" and t: "bus_total ?b ''model'' ''ui'' RECEIVED UPDATED = 1" by code_simp+
  from unsubscribe_keeps_totals [OF s d, of "''model''" "''model''" "''ui''" RECEIVED UPDATED] t show ?thesis by simp
qed

text \<open>Publishing reaches every subscriber of the topic, and only them, whatever the
  coordinator does: without a coordinator, or when a plugin's \<open>publish\<close> raises, exactly one
  enqueue task per current subscriber of the topic is spawned; with the local coordinator
  the event comes back through the callback of a subscribed channel; a plugin that succeeds
  takes over the delivery. No subscriber runs on the publisher's path.\<close>

theorem publish_fan_out:
  "bus_tasks (bus_publish ok topic e b) = bus_tasks b @
     (case bus_coordinator b of
        Some LocalCoordinator \<Rightarrow> if topic \<in> bus_channels b then [CoordinatorTask e topic] else []
      | Some PluginCoordinator \<Rightarrow>
          if ok then [] else map (\<lambda>sid. EnqueueTask sid e) (topic_subscribers b topic)
      | None \<Rightarrow> map (\<lambda>sid. EnqueueTask sid e) (topic_subscribers b topic)) \<and>
   bus_store (bus_publish ok topic e b) = bus_store b"
  by (simp add: bus_publish_def route_event_eq on_coordinator_event_def spawn_def split: option.split coordinator.split)

end
