(* ===== verification/PyBytes.thy ===== *)
theory PyBytes
  imports Prelude "HOL-Library.Word"
begin

text \<open>
  The parts of Python that the wire format of the websocket proxy uses: \<^verbatim>\<open>bytes\<close> as lists of
  8-bit words, slices and indexing, big-endian \<^verbatim>\<open>struct\<close> fields, \<^verbatim>\<open>uuid.UUID\<close>, and strings as
  lists of code points with strict UTF-8 encoding and decoding (surrogates and overlong
  forms rejected). The exceptions they raise are the values of \<open>ws_error\<close>.
\<close>

type_synonym bytes = "8 word list"

type_synonym pystr = "nat list"

type_synonym uuid = "128 word"

datatype ws_error =
    ValueError string
  | StructError
  | UnicodeEncodeError
  | UnicodeDecodeError
  | IndexError
  | TypeError
  | GzipError

section \<open>Slices, indexing and fixed-width fields\<close>

definition slice :: "bytes \<Rightarrow> nat \<Rightarrow> nat \<Rightarrow> bytes" where
  "slice bs a b = take (b - a) (drop a bs)"

definition byte_at :: "bytes \<Rightarrow> nat \<Rightarrow> ws_error + nat" where
  "byte_at bs i = (if i < length bs then Inr (unat (bs ! i)) else Inl IndexError)"

text \<open>\<open>bytes([n])\<close>\<close>

definition one_byte :: "int \<Rightarrow> ws_error + bytes" where
  "one_byte n = (if 0 \<le> n \<and> n < 256 then Inr [of_int n] else Inl (ValueError ''bytes must be in range(0, 256)''))"

fun be :: "nat \<Rightarrow> nat \<Rightarrow> bytes" where
  "be 0 x = []"
| "be (Suc n) x = be n (x div 256) @ [of_nat (x mod 256)]"

definition of_be :: "bytes \<Rightarrow> nat" where
  "of_be bs = foldl (\<lambda>a b. a * 256 + unat b) 0 bs"

text \<open>
  \<open>struct.pack\<close> and \<open>struct.unpack\<close> of one unsigned big-endian field of \<open>n\<close> bytes: formats
  \<^verbatim>\<open>>H\<close> (2), \<^verbatim>\<open>>I\<close> (4) and \<^verbatim>\<open>>Q\<close> (8).
\<close>

definition struct_pack :: "nat \<Rightarrow> int \<Rightarrow> ws_error + bytes" where
  "struct_pack n x = (if 0 \<le> x \<and> x < 256 ^ n then Inr (be n (nat x)) else Inl StructError)"

definition struct_unpack :: "nat \<Rightarrow> bytes \<Rightarrow> ws_error + nat" where
  "struct_unpack n bs = (if length bs = n then Inr (of_be bs) else Inl StructError)"

definition uuid_bytes :: "uuid \<Rightarrow> bytes" where
  "uuid_bytes u = be 16 (unat u)"

definition uuid_of_bytes :: "bytes \<Rightarrow> ws_error + uuid" where
  "uuid_of_bytes bs = (if length bs = 16 then Inr (of_nat (of_be bs))
                       else Inl (ValueError ''bytes is not a 16-char string''))"

lemma length_be [simp]: "length (be n x) = n"
  by (induction n arbitrary: x) auto

lemma of_be_snoc: "of_be (bs @ [b]) = of_be bs * 256 + unat b"
  by (simp add: of_be_def)

lemma unat_byte [simp]: "unat (of_nat (x mod 256) :: 8 word) = x mod 256"
  by (simp add: unat_of_nat)

lemma of_be_be: "of_be (be n x) = x mod 256 ^ n"
proof (induction n arbitrary: x)
  case 0
  then show ?case by (simp add: of_be_def)
next
  case (Suc n)
  have "x mod 256 ^ Suc n = x div 256 mod 256 ^ n * 256 + x mod 256"
    by (simp add: mod_mult2_eq mult.commute)
  then show ?case by (simp only: be.simps of_be_snoc Suc unat_byte)
qed

lemma of_be_bound: "of_be bs < 256 ^ length bs"
proof (induction bs rule: rev_induct)
  case (snoc b bs)
  have "unat b < 256" using unsigned_less [of b, where 'a = nat] by simp
  with snoc show ?case by (simp add: of_be_snoc)
qed (simp add: of_be_def)

lemma be_of_be: "be (length bs) (of_be bs) = bs"
proof (induction bs rule: rev_induct)
  case (snoc b bs)
  have "unat b < 256" using unsigned_less [of b, where 'a = nat] by simp
  with snoc show ?case by (simp add: of_be_snoc)
qed simp

lemma length_uuid_bytes [simp]: "length (uuid_bytes u) = 16"
  by (simp add: uuid_bytes_def)

lemma uuid_roundtrip [simp]: "uuid_of_bytes (uuid_bytes u) = Inr u"
proof -
  have "unat u < 256 ^ 16" using unsigned_less [of u, where 'a = nat] by simp
  then show ?thesis by (simp add: uuid_of_bytes_def uuid_bytes_def of_be_be)
qed

lemma struct_pack_Inr: "struct_pack n x = Inr b \<longleftrightarrow> 0 \<le> x \<and> x < 256 ^ n \<and> b = be n (nat x)"
  by (auto simp: struct_pack_def)

lemma struct_roundtrip: "struct_pack n x = Inr b \<Longrightarrow> struct_unpack n b = Inr (nat x) \<and> length b = n"
  by (auto simp: struct_pack_Inr struct_unpack_def of_be_be nat_less_iff)

lemma one_byte_Inr: "one_byte n = Inr b \<longleftrightarrow> 0 \<le> n \<and> n < 256 \<and> b = [of_int n]"
  by (auto simp: one_byte_def)

lemma unat_of_int_byte: "0 \<le> n \<Longrightarrow> n < 256 \<Longrightarrow> unat (of_int n :: 8 word) = nat n"
  using unat_of_nat [of "nat n", where 'a = 8] by (simp add: nat_less_iff)

section \<open>UTF-8\<close>

fun encode_cp :: "nat \<Rightarrow> bytes option" where
  "encode_cp c =
     (if c < 128 then Some [of_nat c]
      else if c < 2048 then Some [of_nat (192 + c div 64), of_nat (128 + c mod 64)]
      else if 55296 \<le> c \<and> c < 57344 then None
      else if c < 65536 then
        Some [of_nat (224 + c div 4096), of_nat (128 + c div 64 mod 64), of_nat (128 + c mod 64)]
      else if c < 1114112 then
        Some [of_nat (240 + c div 262144), of_nat (128 + c div 4096 mod 64),
              of_nat (128 + c div 64 mod 64), of_nat (128 + c mod 64)]
      else None)"

fun encode :: "pystr \<Rightarrow> ws_error + bytes" where
  "encode [] = Inr []"
| "encode (c # s) =
     (case encode_cp c of
        None \<Rightarrow> Inl UnicodeEncodeError
      | Some b \<Rightarrow> bind_err (encode s) (\<lambda>r. Inr (b @ r)))"

definition cont :: "8 word \<Rightarrow> bool" where
  "cont b \<longleftrightarrow> 128 \<le> unat b \<and> unat b < 192"

definition low6 :: "8 word \<Rightarrow> nat" where
  "low6 b = unat b - 128"

text \<open>One code point and the bytes after it; \<open>None\<close> on a malformed sequence.\<close>

fun decode_cp :: "bytes \<Rightarrow> (nat \<times> bytes) option" where
  "decode_cp [] = None"
| "decode_cp (b # bs) =
     (let n = unat b
      in if n < 128 then Some (n, bs)
         else if n < 194 then None
         else if n < 224 then
           (case bs of
              c1 # r \<Rightarrow> if cont c1 then Some ((n - 192) * 64 + low6 c1, r) else None
            | _ \<Rightarrow> None)
         else if n < 240 then
           (case bs of
              c1 # c2 # r \<Rightarrow>
                let c = (n - 224) * 4096 + low6 c1 * 64 + low6 c2
                in if cont c1 \<and> cont c2 \<and> 2048 \<le> c \<and> \<not> (55296 \<le> c \<and> c < 57344)
                   then Some (c, r) else None
            | _ \<Rightarrow> None)
         else if n < 245 then
           (case bs of
              c1 # c2 # c3 # r \<Rightarrow>
                let c = (n - 240) * 262144 + low6 c1 * 4096 + low6 c2 * 64 + low6 c3
                in if cont c1 \<and> cont c2 \<and> cont c3 \<and> 65536 \<le> c \<and> c < 1114112
                   then Some (c, r) else None
            | _ \<Rightarrow> None)
         else None)"

lemma decode_cp_shorter: "decode_cp bs = Some (c, r) \<Longrightarrow> length r < length bs"
  by (cases bs) (auto simp: Let_def split: if_splits list.splits)

function decode :: "bytes \<Rightarrow> ws_error + pystr" where
  "decode bs =
     (if bs = [] then Inr []
      else case decode_cp bs of
             None \<Rightarrow> Inl UnicodeDecodeError
           | Some (c, r) \<Rightarrow> bind_err (decode r) (\<lambda>s. Inr (c # s)))"
  by auto
termination
  by (relation "measure length") (auto dest: decode_cp_shorter)

declare decode.simps [simp del] decode_cp.simps [simp del] encode_cp.simps [simp del]

lemma decode_Nil [simp]: "decode [] = Inr []"
  by (simp add: decode.simps)

lemma unat_small: "x < 256 \<Longrightarrow> unat (of_nat x :: 8 word) = x"
  by (simp add: unat_of_nat)

lemma cp_split3: "c div 4096 * 4096 + c div 64 mod 64 * 64 + c mod 64 = (c::nat)"
proof -
  have "c div 4096 = c div 64 div 64" by (simp add: div_mult2_eq [symmetric])
  moreover have "c div 64 div 64 * 64 + c div 64 mod 64 = c div 64" "c div 64 * 64 + c mod 64 = c" by simp_all
  ultimately show ?thesis by linarith
qed

lemma cp_split4: "c div 262144 * 262144 + c div 4096 mod 64 * 4096 + c div 64 mod 64 * 64 + c mod 64 = (c::nat)"
proof -
  have "c div 262144 = c div 4096 div 64" by (simp add: div_mult2_eq [symmetric])
  moreover have "c div 4096 div 64 * 64 + c div 4096 mod 64 = c div 4096" by simp
  ultimately show ?thesis using cp_split3 [of c] by linarith
qed

lemma cont_of_nat: "x < 64 \<Longrightarrow> cont (of_nat (128 + x)) \<and> low6 (of_nat (128 + x)) = x"
  using unat_small [of "128 + x"] by (simp add: cont_def low6_def)

lemma encode_cp_roundtrip:
  assumes "encode_cp c = Some b" shows "decode_cp (b @ r) = Some (c, r)"
proof -
  have low: "cont (of_nat (128 + c mod 64))" "low6 (of_nat (128 + c mod 64)) = c mod 64"
    "cont (of_nat (128 + c div 64 mod 64))" "low6 (of_nat (128 + c div 64 mod 64)) = c div 64 mod 64"
    "cont (of_nat (128 + c div 4096 mod 64))" "low6 (of_nat (128 + c div 4096 mod 64)) = c div 4096 mod 64"
    by (simp_all only: cont_of_nat mod_less_divisor zero_less_numeral)
  consider "c < 128" | "128 \<le> c" "c < 2048" | "2048 \<le> c" "c < 65536" "\<not> (55296 \<le> c \<and> c < 57344)" | "65536 \<le> c" "c < 1114112"
    using assms by (auto simp: encode_cp.simps split: if_splits)
  then show ?thesis
  proof cases
    case 1
    with assms have "b = [of_nat c]" by (simp add: encode_cp.simps)
    with 1 show ?thesis by (simp add: decode_cp.simps unat_small)
  next
    case 2
    with assms have b: "b = [of_nat (192 + c div 64), of_nat (128 + c mod 64)]" by (simp only: encode_cp.simps) auto
    have "unat (of_nat (192 + c div 64) :: 8 word) = 192 + c div 64" using 2 by (intro unat_small) linarith
    moreover have "194 \<le> 192 + c div 64" "192 + c div 64 < 224" using 2 by linarith+
    ultimately show ?thesis
      unfolding b by (simp only: decode_cp.simps Let_def append.simps low list.case) simp
  next
    case 3
    with assms have b: "b = [of_nat (224 + c div 4096), of_nat (128 + c div 64 mod 64), of_nat (128 + c mod 64)]"
      by (simp only: encode_cp.simps) auto
    have u: "unat (of_nat (224 + c div 4096) :: 8 word) = 224 + c div 4096" using 3 by (intro unat_small) linarith
    have l: "224 + c div 4096 < 240" using 3 by linarith
    have e: "(224 + c div 4096 - 224) * 4096 + c div 64 mod 64 * 64 + c mod 64 = c" using cp_split3 [of c] by simp
    show ?thesis
      unfolding b decode_cp.simps append.simps Let_def u list.case low e using low 3 l by (simp del: of_nat_add)
  next
    case 4
    with assms have b: "b = [of_nat (240 + c div 262144), of_nat (128 + c div 4096 mod 64),
              of_nat (128 + c div 64 mod 64), of_nat (128 + c mod 64)]"
      by (simp only: encode_cp.simps) auto
    have u: "unat (of_nat (240 + c div 262144) :: 8 word) = 240 + c div 262144" using 4 by (intro unat_small) linarith
    have l: "240 + c div 262144 < 245" using 4 by linarith
    have e: "(240 + c div 262144 - 240) * 262144 + c div 4096 mod 64 * 4096 + c div 64 mod 64 * 64 + c mod 64 = c" using cp_split4 [of c] by simp
    show ?thesis
      unfolding b decode_cp.simps append.simps Let_def u list.case low e using low 4 l by (simp del: of_nat_add)
  qed
qed

lemma encode_cp_nonempty: "encode_cp c = Some b \<Longrightarrow> b \<noteq> []"
  by (auto simp: encode_cp.simps split: if_splits)

lemma decode_encode: "encode s = Inr b \<Longrightarrow> decode b = Inr s"
proof (induction s arbitrary: b)
  case (Cons c s)
  then obtain b1 b2 where b: "encode_cp c = Some b1" "encode s = Inr b2" "b = b1 @ b2"
    by (auto simp: bind_err_def split: option.splits sum.splits)
  have "decode b = bind_err (decode b2) (\<lambda>s. Inr (c # s))"
    using b encode_cp_nonempty [OF b(1)] by (subst decode.simps) (simp add: encode_cp_roundtrip)
  with Cons.IH [OF b(2)] show ?case by (simp add: bind_err_def)
qed simp

lemma unat_word8: "unat (b :: 8 word) < 256"
  using unsigned_less [of b, where 'a = nat] by simp

lemma cont_eq: "cont b \<Longrightarrow> low6 b < 64 \<and> of_nat (128 + low6 b) = b"
  by (auto simp: cont_def low6_def)

lemma dm64: "y < 64 \<Longrightarrow> (x * 64 + y) div 64 = x" "y < 64 \<Longrightarrow> (x * 64 + y) mod 64 = (y::nat)"
  by simp_all

lemma lead_eq: "k \<le> unat b \<Longrightarrow> of_nat (k + (unat b - k)) = (b :: 8 word)"
  by (simp del: of_nat_add)

lemma decode_cp_roundtrip:
  assumes "decode_cp bs = Some (c, r)"
  shows "\<exists>b. encode_cp c = Some b \<and> bs = b @ r"
proof -
  from assms obtain b bs' where bs: "bs = b # bs'" by (cases bs) (auto simp: decode_cp.simps)
  consider "unat b < 128" | "194 \<le> unat b" "unat b < 224" | "224 \<le> unat b" "unat b < 240" | "240 \<le> unat b" "unat b < 245"
    using assms unfolding bs by (auto simp: decode_cp.simps Let_def split: if_splits)
  then show ?thesis
  proof cases
    case 1
    with assms show ?thesis by (auto simp: bs decode_cp.simps encode_cp.simps)
  next
    case 2
    then obtain c1 where d: "bs' = c1 # r" "cont c1" "c = (unat b - 192) * 64 + low6 c1"
      using assms by (auto simp: bs decode_cp.simps split: if_splits list.splits)
    define k where "k = unat b - 192"
    have k: "2 \<le> k" "k < 32" "of_nat (192 + k) = b" using 2 lead_eq [of 192 b] by (auto simp: k_def)
    from cont_eq [OF d(2)] have "c div 64 = k" "c mod 64 = low6 c1" "128 \<le> c" "c < 2048"
      using d(3) k unfolding k_def [symmetric] by auto
    then show ?thesis using cont_eq [OF d(2)] k d(1) by (simp add: bs encode_cp.simps del: of_nat_add)
  next
    case 3
    then obtain c1 c2 where d: "bs' = c1 # c2 # r" "cont c1" "cont c2" "c = (unat b - 224) * 4096 + low6 c1 * 64 + low6 c2"
        "2048 \<le> c" "\<not> (55296 \<le> c \<and> c < 57344)"
      using assms by (auto simp: bs decode_cp.simps Let_def split: if_splits list.splits)
    define k where "k = unat b - 224"
    have k: "k < 16" "of_nat (224 + k) = b" using 3 lead_eq [of 224 b] by (auto simp: k_def)
    have l: "low6 c1 < 64" "low6 c2 < 64" using d(2,3) cont_eq by auto
    have c: "c = (k * 64 + low6 c1) * 64 + low6 c2" using d(4) by (simp add: k_def)
    have c64: "c div 64 = k * 64 + low6 c1" "c mod 64 = low6 c2" unfolding c using dm64 l by blast+
    moreover have "c div 4096 = c div 64 div 64" by (simp add: div_mult2_eq [symmetric])
    ultimately have "c div 4096 = k" "c div 64 mod 64 = low6 c1" using l by simp_all
    moreover have "c < 65536" using l k(1) unfolding c by simp
    ultimately show ?thesis using d k c64(2) cont_eq [OF d(2)] cont_eq [OF d(3)]
      by (simp add: bs encode_cp.simps del: of_nat_add)
  next
    case 4
    then obtain c1 c2 c3 where d: "bs' = c1 # c2 # c3 # r" "cont c1" "cont c2" "cont c3"
        "c = (unat b - 240) * 262144 + low6 c1 * 4096 + low6 c2 * 64 + low6 c3" "65536 \<le> c" "c < 1114112"
      using assms by (auto simp: bs decode_cp.simps Let_def split: if_splits list.splits)
    define k where "k = unat b - 240"
    have k: "of_nat (240 + k) = b" using 4 lead_eq [of 240 b] by (auto simp: k_def)
    have l: "low6 c1 < 64" "low6 c2 < 64" "low6 c3 < 64" using d(2-4) cont_eq by auto
    have c: "c = ((k * 64 + low6 c1) * 64 + low6 c2) * 64 + low6 c3" using d(5) by (simp add: k_def)
    have c64: "c div 64 = (k * 64 + low6 c1) * 64 + low6 c2" "c mod 64 = low6 c3" unfolding c using dm64 l by blast+
    moreover have "c div 4096 = c div 64 div 64" "c div 262144 = c div 64 div 64 div 64" by (simp_all add: div_mult2_eq [symmetric])
    ultimately have "c div 262144 = k" "c div 4096 mod 64 = low6 c1" "c div 64 mod 64 = low6 c2"
      using l by (simp_all only: dm64)
    then show ?thesis using d k c64(2) cont_eq [OF d(2)] cont_eq [OF d(3)] cont_eq [OF d(4)]
      by (simp add: bs encode_cp.simps del: of_nat_add)
  qed
qed

lemma encode_decode: "decode b = Inr s \<Longrightarrow> encode s = Inr b"
proof (induction b arbitrary: s rule: decode.induct)
  case (1 bs)
  show ?case
  proof (cases "bs = []")
    case False
    with 1(2) obtain c r s' where d: "decode_cp bs = Some (c, r)" "decode r = Inr s'" "s = c # s'"
      by (subst (asm) decode.simps) (auto simp: bind_err_eq_Inr split: option.splits)
    from 1(1) [OF False d(1) refl d(2)] have "encode s' = Inr r" .
    with decode_cp_roundtrip [OF d(1)] d(3) show ?thesis by auto
  qed (use 1(2) in simp)
qed

text \<open>A string literal as code points.\<close>

definition lit :: "string \<Rightarrow> pystr" where
  "lit s = map of_char s"

end
