(* ===== verification/WsMessage.thy ===== *)
theory WsMessage
  imports PyBytes
begin

text \<open>
  The binary messages of the websocket proxy, \<^verbatim>\<open>src/gpustack/websocket_proxy/message.py\<close>:
  the registry of message types, packing and parsing of every message with all the
  exceptions they raise, and the theorems that relate the two directions. Compression
  is Python's \<^verbatim>\<open>gzip\<close>, a parameter \<open>gzip_ops\<close> of the definitions.
\<close>

section \<open>Data\<close>

record base_client_info =
  client_id :: uuid
  cidrs :: "pystr list"
  unix_sockets :: "pystr list"

record client_update_info = base_client_info +
  action :: string

datatype binary_type =
    CONNECT_REQUEST | CONNECT_RESPONSE | DATA | DISCONNECT | HEARTBEAT_MSG
  | LIST_CLIENTS | LIST_CLIENTS_RESPONSE | CLIENT_UPDATE

fun binary_type_value :: "binary_type \<Rightarrow> nat" where
  "binary_type_value CONNECT_REQUEST = 1"
| "binary_type_value CONNECT_RESPONSE = 2"
| "binary_type_value DATA = 3"
| "binary_type_value DISCONNECT = 4"
| "binary_type_value HEARTBEAT_MSG = 5"
| "binary_type_value LIST_CLIENTS = 6"
| "binary_type_value LIST_CLIENTS_RESPONSE = 7"
| "binary_type_value CLIENT_UPDATE = 8"

definition binary_types :: "binary_type list" where
  "binary_types = [CONNECT_REQUEST, CONNECT_RESPONSE, DATA, DISCONNECT, HEARTBEAT_MSG,
                   LIST_CLIENTS, LIST_CLIENTS_RESPONSE, CLIENT_UPDATE]"

definition binary_type_of :: "nat \<Rightarrow> binary_type option" where
  "binary_type_of n = find (\<lambda>t. binary_type_value t = n) binary_types"

text \<open>The message classes, each with its dataclass fields.\<close>

datatype message =
    ConnectRequestMessage (session_id: uuid) pystr
  | ConnectResponseMessage (session_id: uuid) bool "pystr option"
  | DataMessage (session_id: uuid) bytes int
  | DisconnectMessage (session_id: uuid) "pystr option"
  | HeartbeatMessage int
  | ListClientsMessage
  | ListClientsResponseMessage "base_client_info list"
  | ClientUpdateMessage uuid "client_update_info list"

section \<open>Protocol names\<close>

definition protocol_to_bytes :: "string \<Rightarrow> nat" where
  "protocol_to_bytes protocol =
     (if protocol = ''tcp'' then 1 else if protocol = ''udp'' then 2
      else if protocol = ''unix'' then 3 else 0)"

definition bytes_to_protocol :: "nat \<Rightarrow> string" where
  "bytes_to_protocol b =
     (if b = 1 then ''tcp'' else if b = 2 then ''udp'' else if b = 3 then ''unix'' else '''')"

section \<open>Registry\<close>

text \<open>
  The two dictionaries the class decorators fill, in the order of the class
  definitions: type string to binary type, and binary type to message class (a class
  is named by its type string).
\<close>

definition registrations :: "(binary_type \<times> string) list" where
  "registrations =
     [(CONNECT_REQUEST, ''connect_request''), (CONNECT_RESPONSE, ''connect_response''), (DATA, ''data''),
      (DISCONNECT, ''disconnect''), (HEARTBEAT_MSG, ''heartbeat''), (LIST_CLIENTS, ''list_clients''),
      (LIST_CLIENTS_RESPONSE, ''list_clients_response''), (CLIENT_UPDATE, ''client_update'')]"

definition message_registry :: "(binary_type, string) dict" where
  "message_registry = fold (\<lambda>(b, t). dput b t) registrations []"

definition type_to_binary :: "(string, binary_type) dict" where
  "type_to_binary = fold (\<lambda>(b, t). dput t b) registrations []"

definition get_message_class :: "binary_type \<Rightarrow> string option" where
  "get_message_class b = dget message_registry b"

definition get_binary_type :: "string \<Rightarrow> binary_type option" where
  "get_binary_type t = dget type_to_binary t"

fun get_type :: "message \<Rightarrow> string" where
  "get_type (ConnectRequestMessage _ _) = ''connect_request''"
| "get_type (ConnectResponseMessage _ _ _) = ''connect_response''"
| "get_type (DataMessage _ _ _) = ''data''"
| "get_type (DisconnectMessage _ _) = ''disconnect''"
| "get_type (HeartbeatMessage _) = ''heartbeat''"
| "get_type ListClientsMessage = ''list_clients''"
| "get_type (ListClientsResponseMessage _) = ''list_clients_response''"
| "get_type (ClientUpdateMessage _ _) = ''client_update''"

section \<open>Strings, string lists and errors\<close>

text \<open>
  The two loop shapes of the file: \<open>for x in xs: result += f(x)\<close>, and
  \<open>for _ in range(n)\<close> that reads one item at the cursor and appends it.
\<close>

fun pack_each :: "('a \<Rightarrow> ws_error + bytes) \<Rightarrow> 'a list \<Rightarrow> ws_error + bytes" where
  "pack_each f [] = Inr []"
| "pack_each f (x # xs) = bind_err (f x) (\<lambda>b. bind_err (pack_each f xs) (\<lambda>r. Inr (b @ r)))"

fun unpack_each ::
  "(bytes \<Rightarrow> nat \<Rightarrow> ws_error + ('a \<times> nat)) \<Rightarrow> nat \<Rightarrow> bytes \<Rightarrow> nat \<Rightarrow> ws_error + ('a list \<times> nat)" where
  "unpack_each f 0 payload pos = Inr ([], pos)"
| "unpack_each f (Suc n) payload pos =
     bind_err (f payload pos) (\<lambda>(x, pos).
     bind_err (unpack_each f n payload pos) (\<lambda>(xs, pos). Inr (x # xs, pos)))"

definition pack_string :: "pystr \<Rightarrow> ws_error + bytes" where
  "pack_string s =
     bind_err (encode s) (\<lambda>encoded.
     bind_err (one_byte (int (length encoded))) (\<lambda>n. Inr (n @ encoded)))"

definition unpack_string :: "bytes \<Rightarrow> nat \<Rightarrow> ws_error + (pystr \<times> nat)" where
  "unpack_string payload pos =
     (if length payload \<le> pos then Inl (ValueError ''Invalid message'')
      else bind_err (byte_at payload pos) (\<lambda>slen.
        if length payload < pos + 1 + slen then Inl (ValueError ''Invalid message'')
        else bind_err (decode (slice payload (pos + 1) (pos + 1 + slen))) (\<lambda>s. Inr (s, pos + 1 + slen))))"

definition pack_string_list :: "pystr list \<Rightarrow> ws_error + bytes" where
  "pack_string_list strings =
     bind_err (struct_pack 2 (int (length strings))) (\<lambda>n.
     bind_err (pack_each pack_string strings) (\<lambda>r. Inr (n @ r)))"

definition unpack_string_list :: "bytes \<Rightarrow> nat \<Rightarrow> ws_error + (pystr list \<times> nat)" where
  "unpack_string_list payload pos =
     bind_err (struct_unpack 2 (slice payload pos (pos + 2))) (\<lambda>count.
     unpack_each unpack_string count payload (pos + 2))"

text \<open>An empty error string is falsy: it is packed like \<open>None\<close>.\<close>

definition pack_error :: "pystr option \<Rightarrow> ws_error + bytes" where
  "pack_error error =
     (case error of
        None \<Rightarrow> Inr [0]
      | Some e \<Rightarrow> if e = [] then Inr [0] else pack_string e)"

definition unpack_error :: "bytes \<Rightarrow> nat \<Rightarrow> ws_error + (pystr option \<times> nat)" where
  "unpack_error payload pos =
     (if length payload \<le> pos then Inr (None, pos)
      else bind_err (byte_at payload pos) (\<lambda>err_len.
        if err_len = 0 then Inr (None, pos + 1)
        else if length payload < pos + 1 + err_len then Inl (ValueError ''Invalid message'')
        else bind_err (decode (slice payload (pos + 1) (pos + 1 + err_len))) (\<lambda>s.
             Inr (Some s, pos + 1 + err_len))))"

section \<open>Client items\<close>

definition pack_client :: "base_client_info \<Rightarrow> ws_error + bytes" where
  "pack_client c =
     bind_err (pack_string_list (cidrs c)) (\<lambda>cs.
     bind_err (pack_string_list (unix_sockets c)) (\<lambda>us. Inr (uuid_bytes (client_id c) @ cs @ us)))"

definition unpack_client :: "bytes \<Rightarrow> nat \<Rightarrow> ws_error + (base_client_info \<times> nat)" where
  "unpack_client payload pos =
     (if length payload < pos + 16 then Inl (ValueError ''Invalid list clients response message'')
      else bind_err (uuid_of_bytes (slice payload pos (pos + 16))) (\<lambda>cid.
        bind_err (unpack_string_list payload (pos + 16)) (\<lambda>(cs, pos).
        bind_err (unpack_string_list payload pos) (\<lambda>(us, pos).
          Inr (\<lparr>client_id = cid, cidrs = cs, unix_sockets = us\<rparr>, pos)))))"

definition pack_update :: "client_update_info \<Rightarrow> ws_error + bytes" where
  "pack_update u =
     bind_err (pack_string_list (cidrs u)) (\<lambda>cs.
     bind_err (pack_string_list (unix_sockets u)) (\<lambda>us.
       Inr (uuid_bytes (client_id u) @ [if action u = ''add'' then 1 else 0] @ cs @ us)))"

definition unpack_update :: "bytes \<Rightarrow> nat \<Rightarrow> ws_error + (client_update_info \<times> nat)" where
  "unpack_update payload pos =
     (if length payload < pos + 16 then Inl (ValueError ''Invalid client update message'')
      else bind_err (uuid_of_bytes (slice payload pos (pos + 16))) (\<lambda>cid.
        bind_err (byte_at payload (pos + 16)) (\<lambda>a.
        bind_err (unpack_string_list payload (pos + 17)) (\<lambda>(cs, pos).
        bind_err (unpack_string_list payload pos) (\<lambda>(us, pos).
          Inr (\<lparr>client_id = cid, cidrs = cs, unix_sockets = us,
                action = (if a = 1 then ''add'' else ''remove'')\<rparr>, pos))))))"

section \<open>Compression\<close>

record gzip_ops =
  compress_gzip :: "bytes \<Rightarrow> bytes"
  decompress_gzip :: "bytes \<Rightarrow> ws_error + bytes"

definition data_compressor :: "gzip_ops \<Rightarrow> int \<Rightarrow> bytes \<Rightarrow> bytes" where
  "data_compressor gz compression = (if compression = 1 then compress_gzip gz else (\<lambda>x. x))"

definition data_decompressor :: "gzip_ops \<Rightarrow> nat \<Rightarrow> bytes \<Rightarrow> ws_error + bytes" where
  "data_decompressor gz compression = (if compression = 1 then decompress_gzip gz else Inr)"

section \<open>Payloads\<close>

fun pack_payload :: "gzip_ops \<Rightarrow> message \<Rightarrow> ws_error + bytes" where
  "pack_payload gz (ConnectRequestMessage sid target_url) =
     bind_err (encode target_url) (\<lambda>url_bytes.
     bind_err (struct_pack 2 (int (length url_bytes))) (\<lambda>n. Inr (uuid_bytes sid @ n @ url_bytes)))"
| "pack_payload gz (ConnectResponseMessage sid success error) =
     bind_err (pack_error error) (\<lambda>e. Inr (uuid_bytes sid @ [if success then 1 else 0] @ e))"
| "pack_payload gz (DataMessage sid d compression) =
     (let compressed = data_compressor gz compression d
      in bind_err (one_byte compression) (\<lambda>c.
         bind_err (struct_pack 4 (int (length compressed))) (\<lambda>n. Inr (uuid_bytes sid @ c @ n @ compressed))))"
| "pack_payload gz (DisconnectMessage sid error) =
     bind_err (pack_error error) (\<lambda>e. Inr (uuid_bytes sid @ e))"
| "pack_payload gz (HeartbeatMessage timestamp) = struct_pack 8 timestamp"
| "pack_payload gz ListClientsMessage = Inr []"
| "pack_payload gz (ListClientsResponseMessage clients) =
     bind_err (struct_pack 2 (int (length clients))) (\<lambda>n.
     bind_err (pack_each pack_client clients) (\<lambda>r. Inr (n @ r)))"
| "pack_payload gz (ClientUpdateMessage server_id updates) =
     bind_err (struct_pack 2 (int (length updates))) (\<lambda>n.
     bind_err (pack_each pack_update updates) (\<lambda>r. Inr (uuid_bytes server_id @ n @ r)))"

definition parse_connect_request :: "bytes \<Rightarrow> ws_error + message" where
  "parse_connect_request payload =
     (if length payload < 18 then Inl (ValueError ''Invalid connect request message'')
      else bind_err (uuid_of_bytes (slice payload 0 16)) (\<lambda>sid.
        bind_err (struct_unpack 2 (slice payload 16 18)) (\<lambda>url_len.
        if length payload < 18 + url_len then Inl (ValueError ''Invalid connect request message'')
        else bind_err (decode (slice payload 18 (18 + url_len))) (\<lambda>url. Inr (ConnectRequestMessage sid url)))))"

definition parse_connect_response :: "bytes \<Rightarrow> ws_error + message" where
  "parse_connect_response payload =
     (if length payload < 17 then Inl (ValueError ''Invalid connect response message'')
      else bind_err (uuid_of_bytes (slice payload 0 16)) (\<lambda>sid.
        bind_err (byte_at payload 16) (\<lambda>b.
        bind_err (unpack_error payload 17) (\<lambda>(e, _). Inr (ConnectResponseMessage sid (b \<noteq> 0) e)))))"

definition parse_data :: "gzip_ops \<Rightarrow> bytes \<Rightarrow> ws_error + message" where
  "parse_data gz payload =
     (if length payload < 21 then Inl (ValueError ''Invalid data message'')
      else bind_err (uuid_of_bytes (slice payload 0 16)) (\<lambda>sid.
        bind_err (byte_at payload 16) (\<lambda>compression.
        bind_err (struct_unpack 4 (slice payload 17 21)) (\<lambda>data_len.
        if length payload < 21 + data_len then Inl (ValueError ''Invalid data message'')
        else bind_err (data_decompressor gz compression (slice payload 21 (21 + data_len))) (\<lambda>d.
             Inr (DataMessage sid d (int compression)))))))"

definition parse_disconnect :: "bytes \<Rightarrow> ws_error + message" where
  "parse_disconnect payload =
     (if length payload < 16 then Inl (ValueError ''Invalid disconnect message'')
      else bind_err (uuid_of_bytes (slice payload 0 16)) (\<lambda>sid.
        bind_err (unpack_error payload 16) (\<lambda>(e, _). Inr (DisconnectMessage sid e))))"

definition parse_heartbeat :: "bytes \<Rightarrow> ws_error + message" where
  "parse_heartbeat payload =
     (if length payload < 8 then Inl (ValueError ''Invalid heartbeat message'')
      else bind_err (struct_unpack 8 (slice payload 0 8)) (\<lambda>t. Inr (HeartbeatMessage (int t))))"

definition parse_list_clients_response :: "bytes \<Rightarrow> ws_error + message" where
  "parse_list_clients_response payload =
     (if length payload < 2 then Inl (ValueError ''Invalid list clients response message'')
      else bind_err (struct_unpack 2 (slice payload 0 2)) (\<lambda>count.
        bind_err (unpack_each unpack_client count payload 2) (\<lambda>(cs, _). Inr (ListClientsResponseMessage cs))))"

definition parse_client_update :: "bytes \<Rightarrow> ws_error + message" where
  "parse_client_update payload =
     (if length payload < 18 then Inl (ValueError ''Invalid client update message'')
      else bind_err (uuid_of_bytes (slice payload 0 16)) (\<lambda>sid.
        bind_err (struct_unpack 2 (slice payload 16 18)) (\<lambda>count.
        bind_err (unpack_each unpack_update count payload 18) (\<lambda>(us, _). Inr (ClientUpdateMessage sid us)))))"

text \<open>\<open>message_cls._parse_payload\<close>: the class a type string names.\<close>

definition parse_payload :: "gzip_ops \<Rightarrow> string \<Rightarrow> bytes \<Rightarrow> ws_error + message" where
  "parse_payload gz cls payload =
     (if cls = ''connect_request'' then parse_connect_request payload
      else if cls = ''connect_response'' then parse_connect_response payload
      else if cls = ''data'' then parse_data gz payload
      else if cls = ''disconnect'' then parse_disconnect payload
      else if cls = ''heartbeat'' then parse_heartbeat payload
      else if cls = ''list_clients'' then Inr ListClientsMessage
      else if cls = ''list_clients_response'' then parse_list_clients_response payload
      else parse_client_update payload)"

section \<open>Messages\<close>

definition pack :: "gzip_ops \<Rightarrow> message \<Rightarrow> ws_error + bytes" where
  "pack gz m =
     (case get_binary_type (get_type m) of
        None \<Rightarrow> Inl TypeError
      | Some b \<Rightarrow> bind_err (pack_payload gz m) (\<lambda>p. Inr ([1, of_nat (binary_type_value b)] @ p)))"

definition parse :: "gzip_ops \<Rightarrow> bytes \<Rightarrow> ws_error + message" where
  "parse gz bs =
     (if length bs < 2 then Inl (ValueError ''Message too short'')
      else bind_err (byte_at bs 0) (\<lambda>version.
        if version \<noteq> 1 then Inl (ValueError ''Unsupported protocol version'')
        else bind_err (byte_at bs 1) (\<lambda>msg_type.
          case binary_type_of msg_type of
            None \<Rightarrow> Inl (ValueError ''Unknown binary message type'')
          | Some b \<Rightarrow>
              (case get_message_class b of
                 None \<Rightarrow> Inl (ValueError ''Unknown binary message type'')
               | Some cls \<Rightarrow> parse_payload gz cls (drop 2 bs)))))"

section \<open>Item codecs\<close>

text \<open>
  What the packer and the unpacker of one item promise each other: an item packed
  anywhere in a payload is read back at its position, up to the normalisation \<open>norm\<close>
  the wire format applies, and the cursor lands behind it. The loops over items are
  proved once from it.
\<close>

locale codec =
  fixes enc :: "'a \<Rightarrow> ws_error + bytes"
    and dec :: "bytes \<Rightarrow> nat \<Rightarrow> ws_error + ('a \<times> nat)"
    and norm :: "'a \<Rightarrow> 'a"
  assumes dec_enc: "enc x = Inr b \<Longrightarrow> dec (pre @ b @ post) (length pre) = Inr (norm x, length pre + length b)"
begin

lemma each_dec_enc:
  "pack_each enc xs = Inr b \<Longrightarrow>
   unpack_each dec (length xs) (pre @ b @ post) (length pre) = Inr (map norm xs, length pre + length b)"
proof (induction xs arbitrary: b pre)
  case (Cons x xs)
  then obtain b1 b2 where b: "enc x = Inr b1" "pack_each enc xs = Inr b2" "b = b1 @ b2"
    by (auto simp: bind_err_eq_Inr)
  from Cons.IH [OF b(2), of "pre @ b1"] dec_enc [OF b(1), of pre "b2 @ post"] show ?case
    by (simp add: b(3))
qed simp

end

text \<open>Whatever the unpacker accepts can be packed again and is already normal.\<close>

locale stable_codec = codec +
  assumes enc_dec: "dec payload pos = Inr (x, pos') \<Longrightarrow> (\<exists>b. enc x = Inr b) \<and> norm x = x"
begin

lemma each_enc_dec:
  "unpack_each dec n payload pos = Inr (xs, pos') \<Longrightarrow>
   length xs = n \<and> (\<exists>b. pack_each enc xs = Inr b) \<and> map norm xs = xs"
proof (induction n arbitrary: pos xs)
  case (Suc n)
  then obtain x p ys where x: "dec payload pos = Inr (x, p)" "unpack_each dec n payload p = Inr (ys, pos')" "xs = x # ys"
    by (auto simp: bind_err_eq_Inr)
  with Suc.IH enc_dec show ?case by fastforce
qed simp

end

lemma slice_mid: "length pre = a \<Longrightarrow> length b = n - a \<Longrightarrow> slice (pre @ b @ post) a n = b"
  by (simp add: slice_def)

lemma length_slice: "b \<le> length bs \<Longrightarrow> length (slice bs a b) = b - a"
  by (simp add: slice_def)

lemma byte_at_mid [simp]: "byte_at (pre @ b # post) (length pre) = Inr (unat b)"
  by (simp add: byte_at_def)

lemma byte_at_Inr: "byte_at bs i = Inr n \<Longrightarrow> i < length bs \<and> n < 256"
  using unat_word8 by (auto simp: byte_at_def split: if_splits)

lemma pack_string_Inr:
  "pack_string s = Inr b \<longleftrightarrow> (\<exists>e. encode s = Inr e \<and> length e < 256 \<and> b = of_nat (length e) # e)"
  by (auto simp: pack_string_def bind_err_eq_Inr one_byte_Inr)

interpretation str: stable_codec pack_string unpack_string "\<lambda>s. s"
proof (unfold_locales, goal_cases)
  case (1 s b pre post)
  then obtain e where e: "encode s = Inr e" "length e < 256" "b = of_nat (length e) # e"
    by (auto simp: pack_string_Inr)
  moreover have "slice (pre @ of_nat (length e) # e @ post) (length pre + 1) (length pre + 1 + length e) = e"
    using slice_mid [of "pre @ [of_nat (length e)]" "length pre + 1" e "length pre + 1 + length e" post] by simp
  ultimately show ?case
    by (simp add: unpack_string_def unat_small decode_encode)
next
  case (2 payload pos s pos')
  then obtain n where n: "byte_at payload pos = Inr n" "pos + 1 + n \<le> length payload"
      "decode (slice payload (pos + 1) (pos + 1 + n)) = Inr s"
    by (auto simp: unpack_string_def bind_err_eq_Inr split: if_splits)
  then have "encode s = Inr (slice payload (pos + 1) (pos + 1 + n))" "length (slice payload (pos + 1) (pos + 1 + n)) < 256"
    using byte_at_Inr by (auto simp: encode_decode length_slice)
  then show ?case by (auto simp: pack_string_Inr)
qed

lemma struct_unpack_mid:
  "struct_pack n x = Inr b \<Longrightarrow> length pre = p \<Longrightarrow> struct_unpack n (slice (pre @ b @ post) p (p + n)) = Inr (nat x)"
  using struct_roundtrip [of n x b] by (simp add: slice_mid)

lemma struct_unpack_Inr: "struct_unpack n (slice bs p q) = Inr x \<Longrightarrow> \<exists>b. struct_pack n (int x) = Inr b"
  using of_be_bound [of "slice bs p q"] by (auto simp: struct_unpack_def struct_pack_def split: if_splits)

interpretation slist: stable_codec pack_string_list unpack_string_list "\<lambda>xs. xs"
proof (unfold_locales, goal_cases)
  case (1 xs b pre post)
  then obtain n r where n: "struct_pack 2 (int (length xs)) = Inr n" "pack_each pack_string xs = Inr r" "b = n @ r"
    by (auto simp: pack_string_list_def bind_err_eq_Inr)
  have "length n = 2" using struct_roundtrip [OF n(1)] by simp
  with str.each_dec_enc [OF n(2), of "pre @ n" post] struct_unpack_mid [OF n(1) refl, of pre "r @ post"] show ?case
    by (simp add: unpack_string_list_def n(3))
next
  case (2 payload pos xs pos')
  then obtain n where n: "struct_unpack 2 (slice payload pos (pos + 2)) = Inr n"
      "unpack_each unpack_string n payload (pos + 2) = Inr (xs, pos')"
    by (auto simp: unpack_string_list_def bind_err_eq_Inr)
  with str.each_enc_dec [OF n(2)] struct_unpack_Inr [OF n(1)] show ?case
    by (auto simp: pack_string_list_def)
qed

lemma uuid_mid: "length pre = p \<Longrightarrow> uuid_of_bytes (slice (pre @ uuid_bytes u @ post) p (p + 16)) = Inr u"
  by (simp add: slice_mid)

interpretation client: stable_codec pack_client unpack_client "\<lambda>c. c"
proof (unfold_locales, goal_cases)
  case (1 c b pre post)
  then obtain cs us where b: "pack_string_list (cidrs c) = Inr cs" "pack_string_list (unix_sockets c) = Inr us"
      "b = uuid_bytes (client_id c) @ cs @ us"
    by (auto simp: pack_client_def bind_err_eq_Inr)
  from slist.dec_enc [OF b(1), of "pre @ uuid_bytes (client_id c)" "us @ post"]
       slist.dec_enc [OF b(2), of "pre @ uuid_bytes (client_id c) @ cs" post]
       uuid_mid [OF refl, of pre "client_id c" "cs @ us @ post"]
  show ?case by (simp add: unpack_client_def b(3) add.assoc)
next
  case (2 payload pos c pos')
  then obtain p1 p2 where u: "unpack_string_list payload (pos + 16) = Inr (cidrs c, p1)"
      "unpack_string_list payload p1 = Inr (unix_sockets c, p2)"
    by (auto simp: unpack_client_def bind_err_eq_Inr split: if_splits)
  from slist.enc_dec [OF u(1)] slist.enc_dec [OF u(2)] show ?case by (auto simp: pack_client_def)
qed

text \<open>An update whose action is not \<open>add\<close> arrives as \<open>remove\<close>, also the default empty action.\<close>

definition norm_update :: "client_update_info \<Rightarrow> client_update_info" where
  "norm_update u = u\<lparr>action := (if action u = ''add'' then ''add'' else ''remove'')\<rparr>"

interpretation upd: stable_codec pack_update unpack_update norm_update
proof (unfold_locales, goal_cases)
  case (1 u b pre post)
  let ?a = "if action u = ''add'' then 1 else 0 :: 8 word"
  from 1 obtain cs us where b: "pack_string_list (cidrs u) = Inr cs" "pack_string_list (unix_sockets u) = Inr us"
      "b = uuid_bytes (client_id u) @ [?a] @ cs @ us"
    by (auto simp: pack_update_def bind_err_eq_Inr)
  from slist.dec_enc [OF b(1), of "pre @ uuid_bytes (client_id u) @ [?a]" "us @ post"]
       slist.dec_enc [OF b(2), of "pre @ uuid_bytes (client_id u) @ [?a] @ cs" post]
       uuid_mid [OF refl, of pre "client_id u" "[?a] @ cs @ us @ post"]
       byte_at_mid [of "pre @ uuid_bytes (client_id u)" ?a "cs @ us @ post"]
  show ?case by (simp add: unpack_update_def b(3) norm_update_def add.assoc)
next
  case (2 payload pos u pos')
  then obtain p1 p2 where u: "unpack_string_list payload (pos + 17) = Inr (cidrs u, p1)"
      "unpack_string_list payload p1 = Inr (unix_sockets u, p2)" "action u = ''add'' \<or> action u = ''remove''"
    by (auto simp: unpack_update_def bind_err_eq_Inr split: if_splits)
  from slist.enc_dec [OF u(1)] slist.enc_dec [OF u(2)] u(3) show ?case by (auto simp: pack_update_def norm_update_def)
qed

section \<open>Whole messages\<close>

text \<open>What a message looks like after the wire: an empty error string becomes \<open>None\<close>.\<close>

definition norm_error :: "pystr option \<Rightarrow> pystr option" where
  "norm_error e = (if e = Some [] then None else e)"

fun norm_message :: "message \<Rightarrow> message" where
  "norm_message (ConnectResponseMessage sid ok e) = ConnectResponseMessage sid ok (norm_error e)"
| "norm_message (DisconnectMessage sid e) = DisconnectMessage sid (norm_error e)"
| "norm_message (ClientUpdateMessage sid us) = ClientUpdateMessage sid (map norm_update us)"
| "norm_message m = m"

lemma encode_Nil_iff: "encode s = Inr [] \<longleftrightarrow> s = []"
  using decode_encode [of s "[]"] by auto

lemma unpack_error_mid:
  assumes "pack_error e = Inr b"
  shows "unpack_error (pre @ b @ post) (length pre) = Inr (norm_error e, length pre + length b)"
proof (cases "e = None \<or> e = Some []")
  case True
  then show ?thesis using assms by (auto simp: pack_error_def unpack_error_def norm_error_def)
next
  case False
  then obtain s where s: "e = Some s" "s \<noteq> []" "pack_string s = Inr b" using assms by (cases e) (auto simp: pack_error_def)
  then obtain en where en: "encode s = Inr en" "length en < 256" "b = of_nat (length en) # en"
    by (auto simp: pack_string_Inr)
  moreover have "en \<noteq> []" using en(1) s(2) encode_Nil_iff by auto
  moreover have "slice (pre @ of_nat (length en) # en @ post) (length pre + 1) (length pre + 1 + length en) = en"
    using slice_mid [of "pre @ [of_nat (length en)]" "length pre + 1" en "length pre + 1 + length en" post] by simp
  ultimately show ?thesis
    using s by (simp add: unpack_error_def unat_small decode_encode norm_error_def)
qed

lemma unpack_error_Inr:
  assumes "unpack_error payload pos = Inr (e, pos')"
  shows "(\<exists>b. pack_error e = Inr b) \<and> norm_error e = e"
proof (cases e)
  case None
  then show ?thesis by (simp add: pack_error_def norm_error_def)
next
  case (Some s)
  with assms obtain n where n: "byte_at payload pos = Inr n" "n \<noteq> 0" "pos + 1 + n \<le> length payload"
      "decode (slice payload (pos + 1) (pos + 1 + n)) = Inr s"
    by (auto simp: unpack_error_def bind_err_eq_Inr split: if_splits)
  let ?sl = "slice payload (pos + 1) (pos + 1 + n)"
  have "encode s = Inr ?sl" "length ?sl = n" using n by (auto simp: encode_decode length_slice)
  moreover from this have "s \<noteq> []" using n(2) by auto
  moreover have "n < 256" using byte_at_Inr [OF n(1)] by simp
  ultimately show ?thesis
    using Some pack_string_Inr [of s] by (auto simp: pack_error_def norm_error_def)
qed

lemma binary_type_of_value [simp]: "binary_type_of (binary_type_value b) = Some b" "binary_type_value b < 256"
  by (cases b; simp add: binary_type_of_def binary_types_def)+

lemma registry_lookup [simp]:
  "get_message_class CONNECT_REQUEST = Some ''connect_request''" "get_message_class CONNECT_RESPONSE = Some ''connect_response''"
  "get_message_class DATA = Some ''data''" "get_message_class DISCONNECT = Some ''disconnect''"
  "get_message_class HEARTBEAT_MSG = Some ''heartbeat''" "get_message_class LIST_CLIENTS = Some ''list_clients''"
  "get_message_class LIST_CLIENTS_RESPONSE = Some ''list_clients_response''" "get_message_class CLIENT_UPDATE = Some ''client_update''"
  "get_binary_type ''connect_request'' = Some CONNECT_REQUEST" "get_binary_type ''connect_response'' = Some CONNECT_RESPONSE"
  "get_binary_type ''data'' = Some DATA" "get_binary_type ''disconnect'' = Some DISCONNECT"
  "get_binary_type ''heartbeat'' = Some HEARTBEAT_MSG" "get_binary_type ''list_clients'' = Some LIST_CLIENTS"
  "get_binary_type ''list_clients_response'' = Some LIST_CLIENTS_RESPONSE" "get_binary_type ''client_update'' = Some CLIENT_UPDATE"
  by (simp_all add: get_message_class_def message_registry_def get_binary_type_def type_to_binary_def registrations_def)

lemma registered: "\<exists>b. get_binary_type (get_type m) = Some b \<and> get_message_class b = Some (get_type m)"
  by (cases m) simp_all

lemma pack_Inr:
  "pack gz m = Inr bs \<longleftrightarrow> (\<exists>b p. get_binary_type (get_type m) = Some b \<and> pack_payload gz m = Inr p \<and>
     bs = 1 # of_nat (binary_type_value b) # p)"
  using registered [of m] by (auto simp: pack_def bind_err_eq_Inr)

lemma parse_tagged:
  "get_binary_type (get_type m) = Some b \<Longrightarrow>
   parse gz (1 # of_nat (binary_type_value b) # p) = parse_payload gz (get_type m) p"
  using registered [of m] by (auto simp: parse_def byte_at_def unat_small)

lemma binary_type_of_Some: "binary_type_of n = Some b \<Longrightarrow> n = binary_type_value b"
  by (auto simp: binary_type_of_def find_Some_iff)

lemma parse_Inr:
  "parse gz bs = Inr m \<Longrightarrow> \<exists>b cls p. get_message_class b = Some cls \<and> bs = 1 # of_nat (binary_type_value b) # p \<and>
     parse_payload gz cls p = Inr m"
proof -
  assume a: "parse gz bs = Inr m"
  then have "2 \<le> length bs" by (auto simp: parse_def split: if_splits)
  then obtain x y p where bs: "bs = x # y # p" by (cases bs; cases "tl bs") auto
  from a obtain b cls where b: "unat x = 1" "unat y = binary_type_value b" "get_message_class b = Some cls" "parse_payload gz cls p = Inr m"
    by (auto simp: parse_def bs byte_at_def split: if_splits option.splits dest: binary_type_of_Some)
  have "of_nat (unat x) = x" "of_nat (unat y) = y" by simp_all
  with b bs show ?thesis by (metis of_nat_1)
qed

named_theorems parse_defs "the parsers of the message classes"

declare parse_connect_request_def [parse_defs] parse_connect_response_def [parse_defs] parse_data_def [parse_defs]
  parse_disconnect_def [parse_defs] parse_heartbeat_def [parse_defs] parse_list_clients_response_def [parse_defs]
  parse_client_update_def [parse_defs]

lemma slice_front [simp]: "length b = n \<Longrightarrow> slice (b @ post) 0 n = b"
  by (simp add: slice_def)

lemma connect_request_roundtrip:
  assumes "pack_payload gz (ConnectRequestMessage sid url) = Inr p"
  shows "parse_connect_request (p @ post) = Inr (ConnectRequestMessage sid url)"
proof -
  from assms obtain u n where u: "encode url = Inr u" "struct_pack 2 (int (length u)) = Inr n" "p = uuid_bytes sid @ n @ u"
    by (auto simp: bind_err_eq_Inr)
  have "length n = 2" using struct_roundtrip [OF u(2)] by simp
  moreover have "slice (uuid_bytes sid @ n @ u @ post) 18 (18 + length u) = u"
    using slice_mid [of "uuid_bytes sid @ n" 18 u "18 + length u" post] \<open>length n = 2\<close> by simp
  moreover have "struct_unpack 2 (slice (uuid_bytes sid @ n @ u @ post) 16 18) = Inr (length u)"
    using struct_unpack_mid [OF u(2), of "uuid_bytes sid" 16 "u @ post"] by simp
  ultimately show ?thesis by (simp add: parse_connect_request_def u decode_encode [OF u(1)])
qed

lemma data_roundtrip:
  assumes "\<forall>x. decompress_gzip gz (compress_gzip gz x) = Inr x"
    and "pack_payload gz (DataMessage sid d z) = Inr p"
  shows "parse_data gz (p @ post) = Inr (DataMessage sid d z)"
proof -
  let ?zd = "data_compressor gz z d"
  from assms(2) obtain n where n: "0 \<le> z" "z < 256" "struct_pack 4 (int (length ?zd)) = Inr n"
      "p = uuid_bytes sid @ [of_int z] @ n @ ?zd"
    by (auto simp: bind_err_eq_Inr one_byte_Inr Let_def)
  have l: "length n = 4" using struct_roundtrip [OF n(3)] by simp
  have "slice (uuid_bytes sid @ of_int z # n @ ?zd @ post) 21 (21 + length ?zd) = ?zd"
    using slice_mid [of "uuid_bytes sid @ [of_int z] @ n" 21 ?zd "21 + length ?zd" post] l by simp
  moreover have "struct_unpack 4 (slice (uuid_bytes sid @ of_int z # n @ ?zd @ post) 17 21) = Inr (length ?zd)"
    using struct_unpack_mid [OF n(3), of "uuid_bytes sid @ [of_int z]" 17 "?zd @ post"] by simp
  moreover have "byte_at (uuid_bytes sid @ of_int z # n @ ?zd @ post) 16 = Inr (nat z)"
    using byte_at_mid [of "uuid_bytes sid" "of_int z" "n @ ?zd @ post"] n(1,2) by (simp add: unat_of_int_byte)
  moreover have "data_decompressor gz (nat z) ?zd = Inr d"
    using assms(1) n(1) by (auto simp: data_decompressor_def data_compressor_def)
  ultimately show ?thesis using l n(1) by (simp add: parse_data_def n(4))
qed

lemma payload_roundtrip:
  assumes "\<forall>x. decompress_gzip gz (compress_gzip gz x) = Inr x" and "pack_payload gz m = Inr p"
  shows "parse_payload gz (get_type m) (p @ post) = Inr (norm_message m)"
proof (cases m)
  case (ConnectRequestMessage sid url)
  then show ?thesis using assms connect_request_roundtrip by (simp add: parse_payload_def)
next
  case (ConnectResponseMessage sid ok e)
  with assms(2) obtain b where b: "pack_error e = Inr b" "p = uuid_bytes sid @ [if ok then 1 else 0] @ b"
    by (auto simp: bind_err_eq_Inr)
  let ?b = "if ok then 1 else 0 :: 8 word"
  from unpack_error_mid [OF b(1), of "uuid_bytes sid @ [?b]" post] byte_at_mid [of "uuid_bytes sid" ?b "b @ post"]
  show ?thesis by (simp add: ConnectResponseMessage parse_payload_def parse_connect_response_def b(2))
next
  case (DataMessage sid d z)
  then show ?thesis using assms data_roundtrip by (simp add: parse_payload_def)
next
  case (DisconnectMessage sid e)
  with assms(2) obtain b where b: "pack_error e = Inr b" "p = uuid_bytes sid @ b"
    by (auto simp: bind_err_eq_Inr)
  from unpack_error_mid [OF b(1), of "uuid_bytes sid" post] show ?thesis
    by (simp add: DisconnectMessage parse_payload_def parse_disconnect_def b(2))
next
  case (HeartbeatMessage t)
  with assms(2) have t: "struct_pack 8 t = Inr p" by simp
  from struct_roundtrip [OF t] struct_pack_Inr [of 8 t p] t show ?thesis
    by (simp add: HeartbeatMessage parse_payload_def parse_heartbeat_def)
next
  case ListClientsMessage
  then show ?thesis by (simp add: parse_payload_def)
next
  case (ListClientsResponseMessage cs)
  with assms(2) obtain n r where n: "struct_pack 2 (int (length cs)) = Inr n" "pack_each pack_client cs = Inr r" "p = n @ r"
    by (auto simp: bind_err_eq_Inr)
  from client.each_dec_enc [OF n(2), of n post] struct_roundtrip [OF n(1)] show ?thesis
    by (simp add: ListClientsResponseMessage parse_payload_def parse_list_clients_response_def n(3))
next
  case (ClientUpdateMessage sid us)
  with assms(2) obtain n r where n: "struct_pack 2 (int (length us)) = Inr n" "pack_each pack_update us = Inr r"
      "p = uuid_bytes sid @ n @ r"
    by (auto simp: bind_err_eq_Inr)
  from upd.each_dec_enc [OF n(2), of "uuid_bytes sid @ n" post] struct_roundtrip [OF n(1)]
       struct_unpack_mid [OF n(1), of "uuid_bytes sid" 16 "r @ post"] show ?thesis
    by (simp add: ClientUpdateMessage parse_payload_def parse_client_update_def n(3))
qed

lemma message_roundtrip:
  assumes "\<forall>x. decompress_gzip gz (compress_gzip gz x) = Inr x" and "pack gz m = Inr bs"
  shows "parse gz (bs @ post) = Inr (norm_message m)"
  using assms payload_roundtrip [OF assms(1)] by (auto simp: pack_Inr parse_tagged)

lemma parse_payload_stable:
  assumes "parse_payload gz cls p = Inr m"
    and "\<And>sid d z. m = DataMessage sid d z \<Longrightarrow> length (data_compressor gz z d) < 2 ^ 32"
  shows "(\<exists>b. pack_payload gz m = Inr b) \<and> norm_message m = m"
proof -
  have comp: "\<exists>b. pack_payload gz (DataMessage sid d (int n)) = Inr b"
    if "m = DataMessage sid d (int n)" "n < 256" for sid d n
    using assms(2) [OF that(1)] that(2) by (auto simp: Let_def one_byte_def struct_pack_def)
  have url: "\<exists>b. pack_payload gz (ConnectRequestMessage sid s) = Inr b"
    if "decode (slice p 18 (18 + n)) = Inr s" "struct_pack 2 (int n) = Inr b" "18 + n \<le> length p" for sid s n b
    using that encode_decode [OF that(1)] by (auto simp: length_slice)
  show ?thesis
    using assms(1) comp url
    by (auto simp: parse_payload_def parse_defs bind_err_eq_Inr split: if_splits
        dest!: unpack_error_Inr client.each_enc_dec upd.each_enc_dec struct_unpack_Inr byte_at_Inr)
qed

section \<open>Properties of the wire format\<close>

text \<open>C17: Round trip. If gzip decompression inverts compression, every message that can be
  packed is parsed back, from any buffer that starts with it, as the same message up to the
  two normalisations of the format (an empty error string is \<open>None\<close>, an update action other
  than \<open>add\<close> is \<open>remove\<close>).\<close>

theorem ws_roundtrip:
  assumes "\<forall>x. decompress_gzip gz (compress_gzip gz x) = Inr x" and "pack gz m = Inr bs"
  shows "parse gz (bs @ post) = Inr (norm_message m)"
  using assms by (rule message_roundtrip)

text \<open>A compressor for the witnesses: the gzip magic bytes before the data.\<close>

definition sample_gzip :: gzip_ops where
  "sample_gzip = \<lparr>compress_gzip = (\<lambda>x. 31 # 139 # x),
     decompress_gzip = (\<lambda>x. if take 2 x = [31, 139] then Inr (drop 2 x) else Inl GzipError)\<rparr>"

definition sample_messages :: "message list" where
  "sample_messages =
     [ConnectRequestMessage 7 (lit ''tcp://10.0.0.1:80''), ConnectResponseMessage 7 False (Some [8364, 32, 55]),
      DataMessage 7 [1, 2, 3] 1,
      ClientUpdateMessage 9 [\<lparr>client_id = 3, cidrs = [lit ''10.0.0.0/8''], unix_sockets = [], action = []\<rparr>]]"

theorem ws_roundtrip_witness:
  "map (\<lambda>m. bind_err (pack sample_gzip m) (parse sample_gzip)) sample_messages = map (\<lambda>m. Inr (norm_message m)) sample_messages"
proof -
  have gz: "\<forall>x. decompress_gzip sample_gzip (compress_gzip sample_gzip x) = Inr x" by (simp add: sample_gzip_def)
  have p: "list_all (\<lambda>m. \<not> isl (pack sample_gzip m)) sample_messages"
    by (simp add: sample_messages_def pack_def sample_gzip_def data_compressor_def lit_def encode_cp.simps one_byte_def
        struct_pack_def pack_error_def pack_string_def pack_string_list_def pack_update_def)
  have "bind_err (pack sample_gzip m) (parse sample_gzip) = Inr (norm_message m)" if "\<not> isl (pack sample_gzip m)" for m
    using that ws_roundtrip [OF gz, of m _ "[]"] by (cases "pack sample_gzip m") auto
  with p show ?thesis by (simp add: list_all_iff)
qed

text \<open>Relaying loses nothing. Whatever \<open>parse\<close> accepts (also from a peer that sends
  non-canonical bytes) is a message that \<open>pack\<close> accepts and that parses to itself, provided a
  recompressed payload still fits the 32-bit length field.\<close>

theorem ws_parse_stable:
  assumes "\<forall>x. decompress_gzip gz (compress_gzip gz x) = Inr x" and "parse gz bs = Inr m"
    and "\<forall>sid d z. m = DataMessage sid d z \<longrightarrow> length (data_compressor gz z d) < 2 ^ 32"
  shows "\<exists>b. pack gz m = Inr b \<and> parse gz b = Inr m"
proof -
  from parse_Inr [OF assms(2)] obtain cls p where p: "parse_payload gz cls p = Inr m" by blast
  from parse_payload_stable [OF p] assms(3) obtain b where b: "pack_payload gz m = Inr b" "norm_message m = m" by blast
  then obtain bs' where bs': "pack gz m = Inr bs'" using registered [of m] by (auto simp: pack_def)
  with message_roundtrip [OF assms(1) bs', of "[]"] b(2) show ?thesis by simp
qed

theorem ws_parse_stable_witness:
  "\<exists>m b. parse sample_gzip [1, 2, 0,0,0,0, 0,0,0,0, 0,0,0,0, 0,0,0,5, 9, 3, 226, 130, 172, 77, 77] = Inr m \<and> m = ConnectResponseMessage 5 True (Some [8364]) \<and>
     pack sample_gzip m = Inr b \<and> parse sample_gzip b = Inr m"
proof -
  let ?bs = "[1, 2, 0,0,0,0, 0,0,0,0, 0,0,0,0, 0,0,0,5, 9, 3, 226, 130, 172, 77, 77]" and ?m = "ConnectResponseMessage 5 True (Some [8364])"
  have "\<forall>x. decompress_gzip sample_gzip (compress_gzip sample_gzip x) = Inr x" by (simp add: sample_gzip_def)
  moreover have p: "parse sample_gzip ?bs = Inr ?m"
    by (simp add: parse_def byte_at_def binary_type_of_def binary_types_def parse_payload_def parse_connect_response_def slice_def
        uuid_of_bytes_def of_be_def unpack_error_def decode.simps decode_cp.simps cont_def low6_def)
  ultimately have "\<exists>b. pack sample_gzip ?m = Inr b \<and> parse sample_gzip b = Inr ?m" by (rule ws_parse_stable) simp
  with p show ?thesis by blast
qed

section \<open>Capacity and truncation\<close>

definition scalar :: "nat \<Rightarrow> bool" where
  "scalar c \<longleftrightarrow> c < 55296 \<or> 57344 \<le> c \<and> c < 1114112"

definition cp_len :: "nat \<Rightarrow> nat" where
  "cp_len c = (if c < 128 then 1 else if c < 2048 then 2 else if c < 65536 then 3 else 4)"

text \<open>A string without surrogates whose UTF-8 form is shorter than \<open>n\<close> bytes.\<close>

definition str_fits :: "nat \<Rightarrow> pystr \<Rightarrow> bool" where
  "str_fits n s \<longleftrightarrow> list_all scalar s \<and> sum_list (map cp_len s) < n"

definition strs_fit :: "pystr list \<Rightarrow> bool" where
  "strs_fit xs \<longleftrightarrow> length xs < 65536 \<and> list_all (str_fits 256) xs"

fun message_fits :: "gzip_ops \<Rightarrow> message \<Rightarrow> bool" where
  "message_fits gz (ConnectRequestMessage _ url) = str_fits 65536 url"
| "message_fits gz (ConnectResponseMessage _ _ e) = pred_option (str_fits 256) e"
| "message_fits gz (DataMessage _ d z) = (0 \<le> z \<and> z < 256 \<and> length (data_compressor gz z d) < 4294967296)"
| "message_fits gz (DisconnectMessage _ e) = pred_option (str_fits 256) e"
| "message_fits gz (HeartbeatMessage t) = (0 \<le> t \<and> t < 18446744073709551616)"
| "message_fits gz ListClientsMessage = True"
| "message_fits gz (ListClientsResponseMessage cs) =
     (length cs < 65536 \<and> list_all (\<lambda>c. strs_fit (cidrs c) \<and> strs_fit (unix_sockets c)) cs)"
| "message_fits gz (ClientUpdateMessage _ us) =
     (length us < 65536 \<and> list_all (\<lambda>c. strs_fit (cidrs c) \<and> strs_fit (unix_sockets c)) us)"

lemma encode_cp_cases: "case encode_cp c of None \<Rightarrow> \<not> scalar c | Some b \<Rightarrow> scalar c \<and> length b = cp_len c"
  by (auto simp: encode_cp.simps scalar_def cp_len_def)

lemma encode_cases:
  "case encode s of Inl _ \<Rightarrow> \<not> list_all scalar s | Inr b \<Rightarrow> list_all scalar s \<and> length b = sum_list (map cp_len s)"
proof (induction s)
  case (Cons c s)
  then show ?case using encode_cp_cases [of c] by (auto split: option.splits sum.splits)
qed simp

lemma encode_fits: "(\<exists>b. encode s = Inr b \<and> length b < n) \<longleftrightarrow> str_fits n s"
  using encode_cases [of s] by (auto simp: str_fits_def split: sum.splits)

lemma pack_string_fits: "(\<exists>b. pack_string s = Inr b) \<longleftrightarrow> str_fits 256 s"
  by (auto simp: pack_string_Inr encode_fits [symmetric])

lemma pack_each_fits: "(\<exists>b. pack_each f xs = Inr b) \<longleftrightarrow> list_all (\<lambda>x. \<exists>b. f x = Inr b) xs"
  by (induction xs) (auto simp: bind_err_eq_Inr)

lemma pack_string_list_fits: "(\<exists>b. pack_string_list xs = Inr b) \<longleftrightarrow> strs_fit xs"
  using pack_each_fits [of pack_string xs]
  by (auto simp: pack_string_list_def bind_err_eq_Inr struct_pack_Inr strs_fit_def pack_string_fits)

lemma pack_client_fits: "(\<exists>b. pack_client c = Inr b) \<longleftrightarrow> strs_fit (cidrs c) \<and> strs_fit (unix_sockets c)"
  by (auto simp: pack_client_def bind_err_eq_Inr pack_string_list_fits [symmetric])

lemma pack_update_fits: "(\<exists>b. pack_update c = Inr b) \<longleftrightarrow> strs_fit (cidrs c) \<and> strs_fit (unix_sockets c)"
  by (auto simp: pack_update_def bind_err_eq_Inr pack_string_list_fits [symmetric])

lemma pack_error_fits: "(\<exists>b. pack_error e = Inr b) \<longleftrightarrow> pred_option (str_fits 256) e"
  by (cases e) (auto simp: pack_error_def pack_string_fits str_fits_def)

text \<open>Exactly what can be sent. Packing succeeds if and only if every string is free of
  surrogates and fits its length byte (255 bytes of UTF-8; 65535 for a target URL), every
  list has at most 65535 entries, the compression code is a byte, the compressed data is
  shorter than 4 GiB and the timestamp is a 64-bit natural number; otherwise it raises.\<close>

theorem ws_pack_capacity:
  "(\<exists>b. pack gz m = Inr b) \<longleftrightarrow> message_fits gz m"
proof -
  have "(\<exists>b. pack gz m = Inr b) \<longleftrightarrow> (\<exists>b. pack_payload gz m = Inr b)"
    using registered [of m] by (auto simp: pack_Inr)
  also have "\<dots> \<longleftrightarrow> message_fits gz m"
  proof (cases m)
    case (ConnectRequestMessage sid url)
    then show ?thesis using encode_fits [of url 65536] by (auto simp: bind_err_eq_Inr struct_pack_Inr)
  next
    case (ConnectResponseMessage sid ok e)
    then show ?thesis using pack_error_fits [of e] by (auto simp: bind_err_eq_Inr)
  next
    case (DataMessage sid d z)
    then show ?thesis by (auto simp: bind_err_eq_Inr struct_pack_Inr one_byte_Inr Let_def)
  next
    case (DisconnectMessage sid e)
    then show ?thesis using pack_error_fits [of e] by (auto simp: bind_err_eq_Inr)
  next
    case (HeartbeatMessage t)
    then show ?thesis by (auto simp: struct_pack_Inr)
  next
    case (ListClientsResponseMessage cs)
    then show ?thesis using pack_each_fits [of pack_client cs] by (auto simp: bind_err_eq_Inr struct_pack_Inr pack_client_fits)
  next
    case (ClientUpdateMessage sid us)
    then show ?thesis using pack_each_fits [of pack_update us] by (auto simp: bind_err_eq_Inr struct_pack_Inr pack_update_fits)
  qed simp
  finally show ?thesis .
qed

lemma slice_take: "b \<le> j \<Longrightarrow> slice (take j p) a b = slice p a b"
  by (simp add: slice_def drop_take)

lemma byte_at_take: "i < j \<Longrightarrow> byte_at (take j p) i = byte_at p i"
  by (simp add: byte_at_def)

text \<open>The messages whose payload carries its own length or has a fixed one.\<close>

fun framed :: "message \<Rightarrow> bool" where
  "framed (ConnectRequestMessage _ _) = True"
| "framed (DataMessage _ _ _) = True"
| "framed (HeartbeatMessage _) = True"
| "framed _ = False"

lemma payload_truncated:
  assumes "framed m" and "pack_payload gz m = Inr p" and "j < length p"
  shows "\<exists>e. parse_payload gz (get_type m) (take j p) = Inl (ValueError e)"
proof (cases m)
  case (ConnectRequestMessage sid url)
  with assms(2) obtain u n where u: "encode url = Inr u" "struct_pack 2 (int (length u)) = Inr n" "p = uuid_bytes sid @ n @ u"
    by (auto simp: bind_err_eq_Inr)
  have l: "length p = 18 + length u" using struct_roundtrip [OF u(2)] u(3) by simp
  have "struct_unpack 2 (slice p 16 18) = Inr (length u)"
    using struct_unpack_mid [OF u(2), of "uuid_bytes sid" 16 u] u(3) by simp
  moreover have "uuid_of_bytes (slice p 0 16) = Inr sid" by (simp add: u(3))
  ultimately show ?thesis
    using l assms(3) ConnectRequestMessage by (auto simp: parse_payload_def parse_connect_request_def slice_take)
next
  case (DataMessage sid d z)
  let ?zd = "data_compressor gz z d"
  from assms(2) obtain c n where n: "one_byte z = Inr c" "struct_pack 4 (int (length ?zd)) = Inr n" "p = uuid_bytes sid @ c @ n @ ?zd"
    by (auto simp: DataMessage bind_err_eq_Inr Let_def)
  have lc: "length c = 1" using n(1) by (auto simp: one_byte_Inr)
  then have l: "length p = 21 + length ?zd" using struct_roundtrip [OF n(2)] n(3) by simp
  have "struct_unpack 4 (slice p 17 21) = Inr (length ?zd)"
    using struct_unpack_mid [OF n(2), of "uuid_bytes sid @ c" 17 ?zd] n(3) lc by simp
  moreover have "uuid_of_bytes (slice p 0 16) = Inr sid" by (simp add: n(3))
  moreover obtain v where "byte_at p 16 = Inr v" using l by (simp add: byte_at_def)
  ultimately show ?thesis
    using l assms(3) DataMessage by (auto simp: parse_payload_def parse_data_def slice_take byte_at_take)
next
  case (HeartbeatMessage t)
  then show ?thesis using assms(2,3) struct_roundtrip [of 8 t p] by (auto simp: parse_payload_def parse_heartbeat_def)
qed (use assms(1) in auto)

text \<open>C30: A connect request, a data message or a heartbeat that was cut short anywhere is
  rejected with a \<open>ValueError\<close>; it is never taken for a shorter message.\<close>

theorem ws_truncation_rejected:
  assumes "framed m" and "pack gz m = Inr bs" and "k < length bs"
  shows "\<exists>e. parse gz (take k bs) = Inl (ValueError e)"
proof (cases "k < 2")
  case True
  then have "length (take k bs) < 2" by simp
  then show ?thesis unfolding parse_def by auto
next
  case False
  from assms(2) obtain b p where b: "get_binary_type (get_type m) = Some b" "pack_payload gz m = Inr p"
      "bs = 1 # of_nat (binary_type_value b) # p"
    by (auto simp: pack_Inr)
  then obtain j where "k = Suc (Suc j)" "j < length p" using False assms(3) by (cases k; cases "k - 1") auto
  then show ?thesis using payload_truncated [OF assms(1) b(2)] b(3) parse_tagged [OF b(1)] by simp
qed

theorem ws_truncation_rejected_witness:
  "\<exists>bs e. pack sample_gzip (HeartbeatMessage 1700000000) = Inr bs \<and> parse sample_gzip (take 9 bs) = Inl (ValueError e)"
proof -
  let ?m = "HeartbeatMessage 1700000000"
  obtain bs where bs: "pack sample_gzip ?m = Inr bs" by (simp add: pack_def struct_pack_def)
  then have "length bs = 10" by (auto simp: pack_Inr struct_pack_Inr)
  then have "9 < length bs" by simp
  from ws_truncation_rejected [OF _ bs this] bs show ?thesis by auto
qed

end
