(* ===== verification/Tunnel.thy ===== *)
theory Tunnel
  imports WsMessage
begin

text \<open>
  Tunnels over a websocket, \<^verbatim>\<open>src/gpustack/websocket_proxy/connection.py\<close> and
  \<^verbatim>\<open>connection_manager.py\<close>: the state of one tunnel connection, the managers on both sides
  and the relay between two connections. Messages to the websocket are collected in
  \<open>outbox\<close>; sending them and opening sockets may fail, which is an argument of the operation.
\<close>

section \<open>One tunnel connection\<close>

text \<open>
  The future a connecting task waits for, and whether the connection still refers to it. The
  error is kept beside the future.
\<close>

datatype connect_future = Unset | ResultSet | ExceptionSet "pystr option"

record tunnel =
  t_future :: connect_future
  t_pending :: bool
  t_error :: "pystr option option"
  t_queue :: "bytes list"

definition new_tunnel :: tunnel where
  "new_tunnel = \<lparr>t_future = Unset, t_pending = True, t_error = None, t_queue = []\<rparr>"

definition is_pending :: "tunnel \<Rightarrow> bool" where
  "is_pending t \<longleftrightarrow> t_pending t \<and> t_future t = Unset"

definition is_connected :: "tunnel \<Rightarrow> bool" where
  "is_connected t \<longleftrightarrow> \<not> t_pending t \<and> t_error t = None"

definition set_connected :: "tunnel \<Rightarrow> tunnel" where
  "set_connected t =
     (if \<not> t_pending t then t
      else t\<lparr>t_future := (if t_future t = Unset then ResultSet else t_future t), t_pending := False\<rparr>)"

definition connect_error :: "pystr option \<Rightarrow> tunnel \<Rightarrow> tunnel" where
  "connect_error e t =
     (if \<not> t_pending t then t
      else t\<lparr>t_future := (if t_future t = Unset then ExceptionSet e else t_future t), t_error := Some e, t_pending := False\<rparr>)"

definition handle_data :: "bytes \<Rightarrow> tunnel \<Rightarrow> tunnel" where
  "handle_data d t = (if is_connected t then t\<lparr>t_queue := t_queue t @ [d]\<rparr> else t)"

text \<open>\<open>close\<close> tells the other side, if the websocket still works, and unblocks readers.\<close>

definition tunnel_close :: "bool \<Rightarrow> uuid \<Rightarrow> tunnel \<Rightarrow> tunnel \<times> message list" where
  "tunnel_close ws_ok sid t = (t\<lparr>t_queue := t_queue t @ [[]]\<rparr>, if ws_ok then [DisconnectMessage sid None] else [])"

text \<open>\<open>None\<close>: the queue is empty, the reader waits.\<close>

definition tunnel_read :: "tunnel \<Rightarrow> (bytes \<times> tunnel) option" where
  "tunnel_read t = (case t_queue t of [] \<Rightarrow> None | d # q \<Rightarrow> Some (d, t\<lparr>t_queue := q\<rparr>))"

section \<open>Managers\<close>

record manager =
  conns :: "(uuid, tunnel) dict"
  outbox :: "message list"

text \<open>\<open>_websocket_connect\<close> up to the wait, and what the wait leads to: the connection (\<open>Inr\<close>), or an
  exception.\<close>

definition connect_start :: "uuid \<Rightarrow> pystr \<Rightarrow> manager \<Rightarrow> manager" where
  "connect_start sid url m =
     m\<lparr>conns := dput sid new_tunnel (conns m), outbox := outbox m @ [ConnectRequestMessage sid url]\<rparr>"

datatype wait_end = Awoken | TimedOut | WaitCancelled

datatype connect_failure = ConnectTimeout | ConnectCancelled | ConnectRefused "pystr option"

definition connect_finish :: "uuid \<Rightarrow> wait_end \<Rightarrow> connect_future \<Rightarrow> manager \<Rightarrow> (connect_failure + unit) \<times> manager" where
  "connect_finish sid how fut m =
     (case how of
        TimedOut \<Rightarrow> (Inl ConnectTimeout, m\<lparr>conns := dpop sid (conns m)\<rparr>)
      | WaitCancelled \<Rightarrow> (Inl ConnectCancelled, m\<lparr>conns := dpop sid (conns m)\<rparr>)
      | Awoken \<Rightarrow> (case fut of ExceptionSet e \<Rightarrow> (Inl (ConnectRefused e), m) | _ \<Rightarrow> (Inr (), m)))"

text \<open>Closing a connection taken out of the table.\<close>

definition close_popped :: "bool \<Rightarrow> uuid \<Rightarrow> manager \<Rightarrow> manager" where
  "close_popped ws_ok sid m =
     (case dget (conns m) sid of
        None \<Rightarrow> m
      | Some t \<Rightarrow> m\<lparr>conns := dpop sid (conns m), outbox := outbox m @ snd (tunnel_close ws_ok sid t)\<rparr>)"

definition on_tunnel :: "uuid \<Rightarrow> (tunnel \<Rightarrow> tunnel) \<Rightarrow> manager \<Rightarrow> manager" where
  "on_tunnel sid f m = (case dget (conns m) sid of None \<Rightarrow> m | Some t \<Rightarrow> m\<lparr>conns := dput sid (f t) (conns m)\<rparr>)"

fun dispatch :: "bool \<Rightarrow> message \<Rightarrow> manager \<Rightarrow> manager" where
  "dispatch ws_ok (ConnectResponseMessage sid ok err) m = on_tunnel sid (if ok then set_connected else connect_error err) m"
| "dispatch ws_ok (DataMessage sid d l) m = on_tunnel sid (handle_data d) m"
| "dispatch ws_ok (DisconnectMessage sid err) m = close_popped ws_ok sid m"
| "dispatch ws_ok _ m = m"

text \<open>The client side: a request opens the target (\<open>opened\<close>: the text of its exception or success)
  and answers.\<close>

definition handle_client_connect_request :: "pystr + unit \<Rightarrow> uuid \<Rightarrow> manager \<Rightarrow> manager" where
  "handle_client_connect_request opened sid m =
     (case opened of
        Inl e \<Rightarrow> m\<lparr>outbox := outbox m @ [ConnectResponseMessage sid False (Some e)]\<rparr>
      | Inr _ \<Rightarrow> m\<lparr>conns := dput sid (set_connected new_tunnel) (conns m), outbox := outbox m @ [ConnectResponseMessage sid True None]\<rparr>)"

fun client_dispatch :: "bool \<Rightarrow> (pystr \<Rightarrow> pystr + unit) \<Rightarrow> message \<Rightarrow> manager \<Rightarrow> manager" where
  "client_dispatch ws_ok open_target (ConnectRequestMessage sid url) m = handle_client_connect_request (open_target url) sid m"
| "client_dispatch ws_ok open_target (DataMessage sid d l) m = on_tunnel sid (handle_data d) m"
| "client_dispatch ws_ok open_target (DisconnectMessage sid err) m = close_popped ws_ok sid m"
| "client_dispatch ws_ok open_target _ m = m"

section \<open>Relay\<close>

text \<open>
  \<open>relay\<close> over what the reader yields: the chunks written, and whether the loop ended and closed
  the writer. Running out of chunks is waiting for more. \<open>Inl ()\<close>: the read raises;
  \<open>accepts\<close>: which writes succeed.
\<close>

fun relay :: "(bytes \<Rightarrow> bool) \<Rightarrow> (unit + bytes) list \<Rightarrow> bytes list \<times> bool" where
  "relay accepts [] = ([], False)"
| "relay accepts (Inl _ # rs) = ([], True)"
| "relay accepts (Inr d # rs) =
     (if d = [] then ([], True)
      else if \<not> accepts d then ([], True)
      else (d # fst (relay accepts rs), snd (relay accepts rs)))"

section \<open>Error responses\<close>

definition pystr_of :: "string \<Rightarrow> pystr" where
  "pystr_of s = map of_char s"

definition reason_phrase :: "nat \<Rightarrow> string" where
  "reason_phrase code =
     (if code = 400 then ''Bad Request'' else if code = 502 then ''Bad Gateway''
      else if code = 503 then ''Service Unavailable'' else ''Error'')"

definition crlf :: string where
  "crlf = [CHR 0x0D, CHR 0x0A]"

definition error_head :: "nat \<Rightarrow> nat \<Rightarrow> string" where
  "error_head code n =
     ''HTTP/1.1 '' @ nat_str code @ '' '' @ reason_phrase code @ crlf @ ''Content-Type: text/plain'' @ crlf @
     ''Content-Length: '' @ nat_str n @ crlf @ ''Connection: close'' @ crlf @ crlf"

definition send_error :: "nat \<Rightarrow> pystr \<Rightarrow> ws_error + bytes" where
  "send_error code msg = encode (pystr_of (error_head code (length msg)) @ msg)"

section \<open>Streams\<close>

text \<open>
  The specification: a session is a stream of chunks that is opening, open or failed. Answers
  open or fail it, data is appended to an open stream, a disconnect ends it, and no message
  touches another session.
\<close>

datatype stream = Opening | Open "bytes list" | Failed

type_synonym streams = "uuid \<Rightarrow> stream option"

fun spec_dispatch :: "message \<Rightarrow> streams \<Rightarrow> streams" where
  "spec_dispatch (ConnectResponseMessage sid ok err) \<sigma> =
     (if \<sigma> sid = Some Opening then \<sigma>(sid \<mapsto> if ok then Open [] else Failed) else \<sigma>)"
| "spec_dispatch (DataMessage sid d l) \<sigma> =
     (case \<sigma> sid of Some (Open q) \<Rightarrow> \<sigma>(sid \<mapsto> Open (q @ [d])) | _ \<Rightarrow> \<sigma>)"
| "spec_dispatch (DisconnectMessage sid err) \<sigma> = \<sigma>(sid := None)"
| "spec_dispatch _ \<sigma> = \<sigma>"

definition stream_of :: "tunnel \<Rightarrow> stream" where
  "stream_of t = (if t_pending t then Opening else if t_error t = None then Open (t_queue t) else Failed)"

definition streams_of :: "manager \<Rightarrow> streams" where
  "streams_of m sid = map_option stream_of (dget (conns m) sid)"

text \<open>A pending tunnel has no data yet; the future, the error and the state agree.\<close>

definition tunnel_ok :: "tunnel \<Rightarrow> bool" where
  "tunnel_ok t \<longleftrightarrow> (t_pending t \<longrightarrow> t_future t = Unset \<and> t_error t = None \<and> t_queue t = []) \<and>
     (\<not> t_pending t \<and> t_error t = None \<longrightarrow> t_future t = ResultSet)"

definition manager_ok :: "manager \<Rightarrow> bool" where
  "manager_ok m \<longleftrightarrow> (\<forall>sid t. dget (conns m) sid = Some t \<longrightarrow> tunnel_ok t)"

text \<open>The contract of an operation on one tunnel: it keeps the tunnel consistent and acts on the
  stream as its specification says.\<close>

locale tunnel_op =
  fixes f :: "tunnel \<Rightarrow> tunnel"
    and g :: "stream \<Rightarrow> stream"
  assumes keeps: "tunnel_ok t \<Longrightarrow> tunnel_ok (f t)"
    and acts: "tunnel_ok t \<Longrightarrow> stream_of (f t) = g (stream_of t)"
begin

lemma manager_keeps: "manager_ok m \<Longrightarrow> manager_ok (on_tunnel sid f m)"
  by (auto simp: manager_ok_def on_tunnel_def dict_simps keeps split: option.splits)

lemma manager_acts: "manager_ok m \<Longrightarrow> streams_of (on_tunnel sid f m) = (streams_of m)(sid := map_option g (streams_of m sid))"
  by (auto simp: manager_ok_def streams_of_def on_tunnel_def dict_simps acts fun_eq_iff split: option.splits)

end

interpretation connected: tunnel_op set_connected "\<lambda>s. if s = Opening then Open [] else s"
  by unfold_locales (auto simp: tunnel_ok_def set_connected_def stream_of_def)

interpretation refused: tunnel_op "connect_error err" "\<lambda>s. if s = Opening then Failed else s"
  by unfold_locales (auto simp: tunnel_ok_def connect_error_def stream_of_def)

interpretation data: tunnel_op "handle_data d" "\<lambda>s. case s of Open q \<Rightarrow> Open (q @ [d]) | _ \<Rightarrow> s"
  by unfold_locales (auto simp: tunnel_ok_def handle_data_def is_connected_def stream_of_def)

lemma manager_ok_pop: "manager_ok m \<Longrightarrow> manager_ok (close_popped ws_ok sid m)"
  by (auto simp: manager_ok_def close_popped_def dict_simps split: option.splits)

lemma streams_pop: "streams_of (close_popped ws_ok sid m) = (streams_of m)(sid := None)"
  by (auto simp: streams_of_def close_popped_def dict_simps fun_eq_iff split: option.splits)

lemma dispatch_ok: "manager_ok m \<Longrightarrow> manager_ok (dispatch ws_ok msg m)"
  by (cases msg) (auto simp: connected.manager_keeps refused.manager_keeps data.manager_keeps manager_ok_pop)

lemma dispatch_refines: "manager_ok m \<Longrightarrow> streams_of (dispatch ws_ok msg m) = spec_dispatch msg (streams_of m)"
  by (cases msg)
     (auto simp: connected.manager_acts refused.manager_acts data.manager_acts streams_pop fun_eq_iff map_option_case
      split: option.splits stream.splits)

lemma connect_start_ok: "manager_ok m \<Longrightarrow> manager_ok (connect_start sid url m)"
  by (auto simp: manager_ok_def connect_start_def dict_simps tunnel_ok_def new_tunnel_def)

lemma connect_start_opens: "streams_of (connect_start sid url m) = (streams_of m)(sid \<mapsto> Opening)"
  by (auto simp: streams_of_def connect_start_def dict_simps stream_of_def new_tunnel_def fun_eq_iff)

text \<open>C22: The server's connection manager implements independent streams. For every sequence of
  messages, what it keeps per session is what the stream specification prescribes.\<close>

theorem tunnel_refines_streams:
  assumes "manager_ok m"
  shows "streams_of (fold (dispatch ws_ok) msgs m) = fold spec_dispatch msgs (streams_of m)"
  using assms by (induction msgs arbitrary: m) (simp_all add: dispatch_refines dispatch_ok)

theorem tunnel_refines_streams_witness:
  "manager_ok (connect_start 7 [104] \<lparr>conns = [], outbox = []\<rparr>) \<and>
   streams_of (fold (dispatch True) [ConnectResponseMessage 7 True None, DataMessage 7 [1, 2] 0] (connect_start 7 [104] \<lparr>conns = [], outbox = []\<rparr>)) =
     fold spec_dispatch [ConnectResponseMessage 7 True None, DataMessage 7 [1, 2] 0] (streams_of (connect_start 7 [104] \<lparr>conns = [], outbox = []\<rparr>))"
proof
  have "manager_ok \<lparr>conns = [], outbox = []\<rparr>" by (simp add: manager_ok_def)
  then show ok: "manager_ok (connect_start 7 [104] \<lparr>conns = [], outbox = []\<rparr>)" by (rule connect_start_ok)
  show "streams_of (fold (dispatch True) [ConnectResponseMessage 7 True None, DataMessage 7 [1, 2] 0] (connect_start 7 [104] \<lparr>conns = [], outbox = []\<rparr>)) =
     fold spec_dispatch [ConnectResponseMessage 7 True None, DataMessage 7 [1, 2] 0] (streams_of (connect_start 7 [104] \<lparr>conns = [], outbox = []\<rparr>))"
    by (rule tunnel_refines_streams [OF ok])
qed

section \<open>Delivery\<close>

fun data_for :: "uuid \<Rightarrow> message list \<Rightarrow> bytes list" where
  "data_for sid [] = []"
| "data_for sid (DataMessage s d l # ms) = (if s = sid then d # data_for sid ms else data_for sid ms)"
| "data_for sid (_ # ms) = data_for sid ms"

lemma spec_open_stream:
  "\<sigma> sid = Some (Open q) \<Longrightarrow> (\<And>err. DisconnectMessage sid err \<notin> set msgs) \<Longrightarrow>
   fold spec_dispatch msgs \<sigma> sid = Some (Open (q @ data_for sid msgs))"
proof (induction msgs arbitrary: \<sigma> q)
  case (Cons msg msgs)
  have rest: "DisconnectMessage sid err \<notin> set msgs" for err using Cons.prems(2) [of err] by simp
  have "spec_dispatch msg \<sigma> sid = Some (Open (q @ data_for sid [msg]))"
    using Cons.prems by (cases msg) (auto split: option.splits stream.splits)
  note Cons.IH [where q = "q @ data_for sid [msg]" and \<sigma> = "spec_dispatch msg \<sigma>", OF this rest]
  moreover have "data_for sid (msg # msgs) = data_for sid [msg] @ data_for sid msgs" by (cases msg) simp_all
  ultimately show ?case by (simp del: spec_dispatch.simps)
qed simp

lemma relay_all: "relay (\<lambda>_. True) (map Inr ds) = (takeWhile (\<lambda>d. d \<noteq> []) ds, [] \<in> set ds)"
  by (induction ds) auto

text \<open>Once a session is connected, its data messages reach the other side in order and without loss
  up to the empty chunk that ends the stream, whatever other sessions do meanwhile.\<close>

lemma tunnel_delivers_in_order:
  assumes "manager_ok m" and "streams_of m sid = Some (Open [])" and "\<And>err. DisconnectMessage sid err \<notin> set msgs"
  shows "\<exists>t. dget (conns (fold (dispatch ws_ok) msgs m)) sid = Some t \<and>
    relay (\<lambda>_. True) (map Inr (t_queue t)) = (takeWhile (\<lambda>d. d \<noteq> []) (data_for sid msgs), [] \<in> set (data_for sid msgs))"
proof -
  have "streams_of (fold (dispatch ws_ok) msgs m) = fold spec_dispatch msgs (streams_of m)"
    using assms(1) by (induction msgs arbitrary: m) (simp_all add: dispatch_refines dispatch_ok)
  then have "streams_of (fold (dispatch ws_ok) msgs m) sid = Some (Open (data_for sid msgs))"
    using spec_open_stream [where \<sigma> = "streams_of m" and q = "[]", OF assms(2,3)] by simp
  then show ?thesis by (auto simp: streams_of_def stream_of_def relay_all split: if_splits)
qed

section \<open>Two defects\<close>

text \<open>A refused connection stays in the table: only time-out and cancellation remove it.\<close>

lemma refused_connect_leaks:
  "let m1 = connect_start sid url m;
       m2 = dispatch ws_ok (ConnectResponseMessage sid False err) m1;
       fut = t_future (the (dget (conns m2) sid))
   in fst (connect_finish sid Awoken fut m2) = Inl (ConnectRefused err) \<and>
      dget (conns (snd (connect_finish sid Awoken fut m2))) sid \<noteq> None \<and>
      dget (conns (snd (connect_finish sid TimedOut fut m2))) sid = None"
  by (simp add: Let_def connect_start_def on_tunnel_def dict_simps connect_error_def new_tunnel_def connect_finish_def)

text \<open>The announced length of an error response counts characters, its body bytes.\<close>

lemma error_length_in_characters:
  "encode [233] = Inr [0xC3, 0xA9] \<and> send_error 502 [233] = encode (pystr_of (error_head 502 1) @ [233])"
  by (simp add: send_error_def encode_cp.simps)

end
