(* ===== verification/Federation.thy ===== *)
theory Federation
  imports Prelude
begin

text \<open>
  The server side of the websocket proxy, \<^verbatim>\<open>src/gpustack/websocket_proxy/message_server.py\<close> and
  \<^verbatim>\<open>patricia_trie.py\<close>: which client serves which address range, the clients learnt from
  federated servers, the generations that tell stale disconnects apart, and the choice of a
  connection manager for an address. The radix tree is an external library: its state is the
  list of assignments made to it since it was created, and its longest-prefix search a
  parameter \<open>best\<close> of that list; \<open>valid\<close> says which ranges it accepts.
\<close>

section \<open>State\<close>

record client_info =
  ci_cidrs :: "string list"
  ci_sockets :: "string list"
  ci_server :: "int option"

record peer =
  pe_address :: string
  pe_listen_port :: int
  pe_proxy_port :: int
  pe_connected :: bool

text \<open>What is sent to a peer: the action and the clients with their ranges.\<close>

type_synonym client_update = "string \<times> int \<times> string list \<times> string list"

record handler =
  h_server :: int
  client_registry :: "(int, client_info) dict"
  connection_managers :: "(int, nat) dict"
  client_cidrs :: "(int, string list) dict"
  tree :: "(string \<times> int) list"
  generations :: "(int, nat) dict"
  peers :: "(int, peer) dict"
  serving_peers :: "(int, peer) dict"
  peer_tasks :: "int set"
  sent :: "(int \<times> client_update list) list"

definition handler_init :: "int \<Rightarrow> handler" where
  "handler_init sid =
     \<lparr>h_server = sid, client_registry = [], connection_managers = [], client_cidrs = [], tree = [], generations = [],
      peers = [], serving_peers = [], peer_tasks = {}, sent = []\<rparr>"

section \<open>Address ranges\<close>

definition cidrs_of :: "handler \<Rightarrow> int \<Rightarrow> string list" where
  "cidrs_of h cid = (case dget (client_cidrs h) cid of None \<Rightarrow> [] | Some xs \<Rightarrow> xs)"

text \<open>\<open>CIDRRegistry.insert\<close> of an accepted range.\<close>

definition cidr_insert :: "string \<Rightarrow> int \<Rightarrow> handler \<Rightarrow> handler" where
  "cidr_insert cidr cid h =
     h\<lparr>tree := tree h @ [(cidr, cid)],
       client_cidrs := dput cid (if cidr \<in> set (cidrs_of h cid) then cidrs_of h cid else cidrs_of h cid @ [cidr]) (client_cidrs h)\<rparr>"

definition rebuilt :: "(int, string list) dict \<Rightarrow> (string \<times> int) list" where
  "rebuilt d = concat (map (\<lambda>(cid, xs). map (\<lambda>x. (x, cid)) xs) d)"

definition remove_client :: "int \<Rightarrow> handler \<Rightarrow> handler" where
  "remove_client cid h = h\<lparr>client_cidrs := dpop cid (client_cidrs h), tree := rebuilt (dpop cid (client_cidrs h))\<rparr>"

definition find_best_match :: "((string \<times> int) list \<Rightarrow> string \<Rightarrow> int option) \<Rightarrow> handler \<Rightarrow> string \<Rightarrow> int option" where
  "find_best_match best h ip = best (tree h) ip"

text \<open>A loop of insertions stops at the first range the tree refuses; the flag tells whether it
  came to its end.\<close>

fun insert_all :: "(string \<Rightarrow> bool) \<Rightarrow> int \<Rightarrow> string list \<Rightarrow> handler \<Rightarrow> handler \<times> bool" where
  "insert_all valid cid [] h = (h, True)"
| "insert_all valid cid (c # cs) h =
     (if valid c then insert_all valid cid cs (cidr_insert c cid h) else (h, False))"

section \<open>Choosing a connection manager\<close>

datatype route = LocalManager nat | RemoteManager string int

definition find_peer_by_server_id :: "handler \<Rightarrow> int option \<Rightarrow> peer option" where
  "find_peer_by_server_id h sid =
     (case Option.bind sid (dget (peers h)) of
        Some p \<Rightarrow> Some p
      | None \<Rightarrow> Option.bind sid (dget (serving_peers h)))"

definition get_connection_manager ::
  "((string \<times> int) list \<Rightarrow> string \<Rightarrow> int option) \<Rightarrow> handler \<Rightarrow> string \<Rightarrow> route option" where
  "get_connection_manager best h ip =
     (case find_best_match best h ip of
        None \<Rightarrow> None
      | Some cid \<Rightarrow>
          (case dget (client_registry h) cid of
             None \<Rightarrow> None
           | Some info \<Rightarrow>
               if ci_server info = Some (h_server h) then map_option LocalManager (dget (connection_managers h) cid)
               else case find_peer_by_server_id h (ci_server info) of
                      None \<Rightarrow> None
                    | Some p \<Rightarrow>
                        if pe_address p \<noteq> [] \<and> pe_proxy_port p \<noteq> 0
                        then Some (RemoteManager (pe_address p) (pe_proxy_port p)) else None))"

section \<open>Messages to peers\<close>

definition connected_ids :: "(int, peer) dict \<Rightarrow> int list" where
  "connected_ids d = map fst (filter (\<lambda>(sid, p). pe_connected p) d)"

definition broadcast_client_update :: "client_update \<Rightarrow> handler \<Rightarrow> handler" where
  "broadcast_client_update u h =
     h\<lparr>sent := sent h @ map (\<lambda>sid. (sid, [u])) (connected_ids (peers h) @ connected_ids (serving_peers h))\<rparr>"

definition own_clients :: "string \<Rightarrow> handler \<Rightarrow> client_update list" where
  "own_clients action h =
     map (\<lambda>(cid, info). (action, cid, ci_cidrs info, ci_sockets info))
       (filter (\<lambda>(cid, info). ci_server info = Some (h_server h)) (client_registry h))"

definition send_client_update_to_peer :: "int \<Rightarrow> string \<Rightarrow> handler \<Rightarrow> handler" where
  "send_client_update_to_peer sid action h =
     (if own_clients action h = [] then h else h\<lparr>sent := sent h @ [(sid, own_clients action h)]\<rparr>)"

section \<open>Clients\<close>

text \<open>Ranges and registry entry of a client go together.\<close>

definition drop_client :: "int \<Rightarrow> handler \<Rightarrow> handler" where
  "drop_client cid h = (remove_client cid h)\<lparr>client_registry := dpop cid (client_registry h)\<rparr>"

text \<open>
  \<open>handle_client_connection\<close> up to the broadcast; \<open>tok\<close> identifies the connection. The flag is
  false when a range was refused: the exception leaves the handler there.
\<close>

definition register_client :: "(string \<Rightarrow> bool) \<Rightarrow> nat \<Rightarrow> int \<Rightarrow> client_info \<Rightarrow> handler \<Rightarrow> handler \<times> bool" where
  "register_client valid tok cid info h =
     (let h1 = h\<lparr>connection_managers := dput cid tok (connection_managers h),
                 client_registry := dput cid (info\<lparr>ci_server := Some (h_server h)\<rparr>) (client_registry h)\<rparr>;
          (h2, ok) = insert_all valid cid (ci_cidrs info) h1
      in if ok then (broadcast_client_update (''add'', cid, ci_cidrs info, ci_sockets info) h2, True) else (h2, False))"

definition get_next_generation :: "int \<Rightarrow> handler \<Rightarrow> nat \<times> handler" where
  "get_next_generation cid h =
     (let gen = dget0 (generations h) cid + 1 in (gen, h\<lparr>generations := dput cid gen (generations h)\<rparr>))"

text \<open>The \<open>finally\<close> part of \<open>handle_client\<close>, and whether the disconnect callback runs after it.\<close>

definition unregister_client :: "int \<Rightarrow> handler \<Rightarrow> handler" where
  "unregister_client cid h =
     (let info = dget (client_registry h) cid;
          cidr_list = (case info of Some i \<Rightarrow> ci_cidrs i | None \<Rightarrow> []);
          socket_list = (case info of Some i \<Rightarrow> ci_sockets i | None \<Rightarrow> []);
          h1 = (if info \<noteq> None then drop_client cid h else h);
          h2 = h1\<lparr>connection_managers := dpop cid (connection_managers h1)\<rparr>
      in broadcast_client_update (''remove'', cid, cidr_list, socket_list) h2)"

definition disconnect_callback_runs :: "int \<Rightarrow> client_info option \<Rightarrow> nat \<Rightarrow> handler \<Rightarrow> bool" where
  "disconnect_callback_runs cid info generation h \<longleftrightarrow> info \<noteq> None \<and> \<not> generation < dget0 (generations h) cid"

section \<open>Peers\<close>

fun handle_peer_client_update :: "(string \<Rightarrow> bool) \<Rightarrow> int \<Rightarrow> client_update list \<Rightarrow> handler \<Rightarrow> handler \<times> bool" where
  "handle_peer_client_update valid sid [] h = (h, True)"
| "handle_peer_client_update valid sid ((action, cid, cs, socks) # us) h =
     (if action = ''add'' then
        (let h1 = h\<lparr>client_registry := dput cid \<lparr>ci_cidrs = cs, ci_sockets = socks, ci_server = Some sid\<rparr> (client_registry h)\<rparr>;
             (h2, ok) = insert_all valid cid cs h1
         in if ok then handle_peer_client_update valid sid us h2 else (h2, False))
      else if action = ''remove'' \<and> dget (client_registry h) cid \<noteq> None then
        handle_peer_client_update valid sid us (drop_client cid h)
      else handle_peer_client_update valid sid us h)"

definition clients_of_peer :: "int \<Rightarrow> handler \<Rightarrow> int list" where
  "clients_of_peer sid h = map fst (filter (\<lambda>(cid, info). ci_server info = Some sid) (client_registry h))"

definition remove_clients_from_peer :: "int \<Rightarrow> handler \<Rightarrow> handler" where
  "remove_clients_from_peer sid h = fold drop_client (clients_of_peer sid h) h"

text \<open>An outgoing connection was accepted; an incoming one from another server or from itself.\<close>

definition peer_connected :: "int \<Rightarrow> peer \<Rightarrow> handler \<Rightarrow> handler" where
  "peer_connected sid p h = h\<lparr>peers := dput sid p (peers h), peer_tasks := insert sid (peer_tasks h)\<rparr>"

definition handle_server_federation :: "int \<Rightarrow> peer \<Rightarrow> handler \<Rightarrow> handler" where
  "handle_server_federation sid p h =
     (if sid = h_server h then h
      else send_client_update_to_peer sid ''add'' (h\<lparr>serving_peers := dput sid p (serving_peers h)\<rparr>))"

text \<open>The \<open>finally\<close> part of \<open>handle_peer\<close>, and an explicit removal with its answer.\<close>

definition peer_disconnected :: "int \<Rightarrow> handler \<Rightarrow> handler" where
  "peer_disconnected sid h =
     remove_clients_from_peer sid
       (h\<lparr>peers := dpop sid (peers h), serving_peers := dpop sid (serving_peers h), peer_tasks := peer_tasks h - {sid}\<rparr>)"

definition remove_peer_impl :: "int \<Rightarrow> handler \<Rightarrow> handler \<times> bool" where
  "remove_peer_impl sid h =
     (if dget (peers h) sid \<noteq> None
      then (h\<lparr>peers := dpop sid (peers h), peer_tasks := peer_tasks h - {sid}\<rparr>, True)
      else if dget (serving_peers h) sid \<noteq> None
      then (h\<lparr>serving_peers := dpop sid (serving_peers h), peer_tasks := peer_tasks h - {sid}\<rparr>, True)
      else (h, False))"

section \<open>Steps\<close>

inductive fed_step :: "(string \<Rightarrow> bool) \<Rightarrow> handler \<Rightarrow> handler \<Rightarrow> bool" for valid where
  Register: "fed_step valid h (fst (register_client valid tok cid info h))"
| Generation: "fed_step valid h (snd (get_next_generation cid h))"
| Unregister: "fed_step valid h (unregister_client cid h)"
| PeerUpdate: "fed_step valid h (fst (handle_peer_client_update valid sid us h))"
| PeerOut: "fed_step valid h (peer_connected sid p h)"
| PeerIn: "fed_step valid h (handle_server_federation sid p h)"
| PeerGone: "fed_step valid h (peer_disconnected sid h)"
| PeerRemoved: "fed_step valid h (fst (remove_peer_impl sid h))"

section \<open>The registry invariant\<close>

text \<open>
  The tree holds exactly the recorded ranges, and only registered clients have ranges.
\<close>

definition reg_inv :: "handler \<Rightarrow> bool" where
  "reg_inv h \<longleftrightarrow>
     set (tree h) = {(x, c). x \<in> set (cidrs_of h c)} \<and> dict_ok (client_cidrs h) \<and>
     fst ` set (client_cidrs h) \<subseteq> fst ` set (client_registry h)"

lemma reg_inv_updates [simp]:
  "reg_inv (h\<lparr>connection_managers := m\<rparr>) = reg_inv h" "reg_inv (h\<lparr>generations := g\<rparr>) = reg_inv h"
  "reg_inv (h\<lparr>peers := p\<rparr>) = reg_inv h" "reg_inv (h\<lparr>serving_peers := p\<rparr>) = reg_inv h"
  "reg_inv (h\<lparr>peer_tasks := t\<rparr>) = reg_inv h" "reg_inv (h\<lparr>sent := o'\<rparr>) = reg_inv h"
  by (simp_all add: reg_inv_def cidrs_of_def)

lemma reg_inv_registry: "reg_inv h \<Longrightarrow> reg_inv (h\<lparr>client_registry := dput cid info (client_registry h)\<rparr>)"
  by (auto simp: reg_inv_def cidrs_of_def dict_simps)

lemma set_rebuilt:
  assumes "dict_ok d"
  shows "set (rebuilt d) = {(x, c). x \<in> set (case dget d c of None \<Rightarrow> [] | Some xs \<Rightarrow> xs)}"
proof -
  have "(x, c) \<in> set (rebuilt d) \<longleftrightarrow> (\<exists>xs. (c, xs) \<in> set d \<and> x \<in> set xs)" for x c
    by (auto simp: rebuilt_def)
  then have "(x, c) \<in> set (rebuilt d) \<longleftrightarrow> x \<in> set (case dget d c of None \<Rightarrow> [] | Some xs \<Rightarrow> xs)" for x c
    using map_of_eq_Some_iff [OF assms, of c] by (cases "dget d c") (auto, metis+)
  then show ?thesis by auto
qed

lemma reg_inv_drop: "reg_inv h \<Longrightarrow> reg_inv (drop_client cid h)"
  by (auto simp: reg_inv_def drop_client_def remove_client_def set_rebuilt cidrs_of_def distinct_delete dict_simps)

lemma reg_inv_insert:
  "reg_inv h \<Longrightarrow> cid \<in> fst ` set (client_registry h) \<Longrightarrow> reg_inv (cidr_insert c cid h)"
  by (auto simp: reg_inv_def cidr_insert_def cidrs_of_def dict_simps split: if_splits)

lemma cidr_insert_registry [simp]: "client_registry (cidr_insert c cid h) = client_registry h"
  by (simp add: cidr_insert_def)

lemma insert_all_frame:
  "reg_inv h \<Longrightarrow> cid \<in> fst ` set (client_registry h) \<Longrightarrow>
   reg_inv (fst (insert_all valid cid cs h)) \<and> client_registry (fst (insert_all valid cid cs h)) = client_registry h"
  by (induction cs arbitrary: h) (auto simp: reg_inv_insert)

text \<open>The contract of an operation on the registry, and what follows for repeated use.\<close>

locale registry_op =
  fixes f :: "'a \<Rightarrow> handler \<Rightarrow> handler"
  assumes keeps: "reg_inv h \<Longrightarrow> reg_inv (f x h)"
begin

lemma fold_keeps: "reg_inv h \<Longrightarrow> reg_inv (fold f xs h)"
  by (induction xs arbitrary: h) (simp_all add: keeps)

end

lemma reg_inv_broadcast [simp]: "reg_inv (broadcast_client_update u h) = reg_inv h"
  by (simp add: broadcast_client_update_def reg_inv_def cidrs_of_def)

interpretation drop: registry_op drop_client
  by unfold_locales (rule reg_inv_drop)

interpretation unregister: registry_op unregister_client
proof
  fix h x
  assume "reg_inv h"
  then have "reg_inv (if dget (client_registry h) x \<noteq> None then drop_client x h else h)" by (simp add: reg_inv_drop)
  then show "reg_inv (unregister_client x h)"
    by (simp add: unregister_client_def Let_def split: if_splits)
qed

interpretation register: registry_op "\<lambda>(tok, cid, info) h. fst (register_client valid tok cid info h)"
proof
  fix h and x :: "nat \<times> int \<times> client_info"
  assume inv: "reg_inv h"
  obtain tok cid info where x: "x = (tok, cid, info)" by (cases x)
  define h1 where "h1 = h\<lparr>connection_managers := dput cid tok (connection_managers h),
    client_registry := dput cid (info\<lparr>ci_server := Some (h_server h)\<rparr>) (client_registry h)\<rparr>"
  have "reg_inv h1" "cid \<in> fst ` set (client_registry h1)"
    using reg_inv_registry [of "h\<lparr>connection_managers := dput cid tok (connection_managers h)\<rparr>"] inv
    by (auto simp: h1_def dict_simps)
  from insert_all_frame [OF this, of valid "ci_cidrs info"]
  have "reg_inv h2" if "insert_all valid cid (ci_cidrs info) h1 = (h2, ok)" for h2 ok by (simp add: that)
  then show "reg_inv ((\<lambda>(tok, cid, info) h. fst (register_client valid tok cid info h)) x h)"
    by (auto simp: x register_client_def Let_def h1_def split: prod.split)
qed

interpretation peer_update: registry_op "\<lambda>(sid, us) h. fst (handle_peer_client_update valid sid us h)"
proof
  fix h and x :: "int \<times> client_update list"
  assume inv: "reg_inv h"
  obtain sid us where x: "x = (sid, us)" by (cases x)
  from inv have "reg_inv (fst (handle_peer_client_update valid sid us h))"
  proof (induction valid sid us h rule: handle_peer_client_update.induct)
    case (2 valid sid action cid cs socks us h)
    define h1 where "h1 = h\<lparr>client_registry := dput cid \<lparr>ci_cidrs = cs, ci_sockets = socks, ci_server = Some sid\<rparr> (client_registry h)\<rparr>"
    obtain h2 ok where ins: "insert_all valid cid cs h1 = (h2, ok)" by (cases "insert_all valid cid cs h1")
    have "reg_inv h1" "cid \<in> fst ` set (client_registry h1)"
      using "2.prems" by (auto simp: h1_def dict_simps reg_inv_registry)
    from insert_all_frame [OF this, of valid cs] have "reg_inv h2" by (simp add: ins)
    with 2 show ?case by (auto simp: h1_def [symmetric] ins Let_def reg_inv_drop)
  qed simp
  then show "reg_inv ((\<lambda>(sid, us) h. fst (handle_peer_client_update valid sid us h)) x h)" by (simp add: x)
qed

lemma reg_inv_step: "fed_step valid h h' \<Longrightarrow> reg_inv h \<Longrightarrow> reg_inv h'"
proof (induction rule: fed_step.induct)
  case (Register h tok cid info)
  then show ?case using register.keeps [of h valid "(tok, cid, info)"] by simp
next
  case (PeerUpdate h sid us)
  then show ?case using peer_update.keeps [of h valid "(sid, us)"] by simp
next
  case (Unregister h cid)
  then show ?case by (rule unregister.keeps)
next
  case (PeerGone h sid)
  then show ?case by (simp add: peer_disconnected_def remove_clients_from_peer_def drop.fold_keeps)
qed (auto simp: get_next_generation_def Let_def peer_connected_def handle_server_federation_def send_client_update_to_peer_def
     remove_peer_impl_def)

lemma reg_inv_run: "(fed_step valid)\<^sup>*\<^sup>* h h' \<Longrightarrow> reg_inv h \<Longrightarrow> reg_inv h'"
  by (induction rule: rtranclp_induct) (auto intro: reg_inv_step)

lemma reg_inv_init: "reg_inv (handler_init sid)"
  by (simp add: reg_inv_def handler_init_def cidrs_of_def)

lemma no_ranges_unregistered: "reg_inv h \<Longrightarrow> dget (client_registry h) c = None \<Longrightarrow> cidrs_of h c = []"
proof -
  assume "reg_inv h" "dget (client_registry h) c = None"
  then have "c \<notin> fst ` set (client_cidrs h)" unfolding reg_inv_def map_of_eq_None_iff by blast
  then show ?thesis by (simp add: cidrs_of_def flip: map_of_eq_None_iff)
qed

lemma unregistered_after: "dget (client_registry (unregister_client c h)) c = None"
  by (simp add: unregister_client_def broadcast_client_update_def drop_client_def Let_def dict_simps)

text \<open>C23: Address lookup and client registry agree in every reachable state, whatever clients and
  federated servers do and even when ranges are refused half-way: the tree holds exactly the
  ranges recorded per client, a lookup only yields registered clients, and never one that has
  just left. The longest-prefix search is only assumed to return what was put into the tree.\<close>

theorem lookup_matches_registry:
  assumes "(fed_step valid)\<^sup>*\<^sup>* (handler_init sid) h" and "\<And>hist c. best hist ip = Some c \<Longrightarrow> c \<in> snd ` set hist"
  shows "set (tree h) = {(x, c). x \<in> set (cidrs_of h c)} \<and>
         (\<forall>c. find_best_match best h ip = Some c \<longrightarrow> dget (client_registry h) c \<noteq> None) \<and>
         (\<forall>c. find_best_match best (unregister_client c h) ip \<noteq> Some c)"
proof -
  have inv: "reg_inv h" using reg_inv_run [OF assms(1) reg_inv_init] .
  have reg: "dget (client_registry g) c \<noteq> None" if "reg_inv g" "find_best_match best g ip = Some c" for g c
    using assms(2) [of "tree g" c] that no_ranges_unregistered [OF that(1), of c]
    by (cases "dget (client_registry g) c") (auto simp: find_best_match_def reg_inv_def)
  have "set (tree h) = {(x, c). x \<in> set (cidrs_of h c)}" using inv by (simp add: reg_inv_def)
  moreover have "find_best_match best (unregister_client c h) ip \<noteq> Some c" for c
    using reg [OF unregister.keeps [OF inv], of c c] unregistered_after [of c h] by blast
  ultimately show ?thesis using reg [OF inv] by blast
qed

definition last_assigned :: "(string \<times> int) list \<Rightarrow> string \<Rightarrow> int option" where
  "last_assigned hist ip = map_option snd (find (\<lambda>(x, c). x = ip) (rev hist))"

theorem lookup_matches_registry_witness:
  "find_best_match last_assigned (fst (register_client (\<lambda>_. True) 1 5 \<lparr>ci_cidrs = [''10.0.0.1''], ci_sockets = [], ci_server = None\<rparr> (handler_init 9))) ''10.0.0.1'' = Some 5 \<and>
   find_best_match last_assigned (unregister_client 5 (fst (register_client (\<lambda>_. True) 1 5 \<lparr>ci_cidrs = [''10.0.0.1''], ci_sockets = [], ci_server = None\<rparr> (handler_init 9)))) ''10.0.0.1'' \<noteq> Some 5"
proof
  let ?h = "fst (register_client (\<lambda>_. True) 1 5 \<lparr>ci_cidrs = [''10.0.0.1''], ci_sockets = [], ci_server = None\<rparr> (handler_init 9))"
  show "find_best_match last_assigned ?h ''10.0.0.1'' = Some 5" by code_simp
  have "(fed_step (\<lambda>_. True))\<^sup>*\<^sup>* (handler_init 9) ?h" by (intro r_into_rtranclp Register)
  moreover have "last_assigned hist ip = Some c \<Longrightarrow> c \<in> snd ` set hist" for hist ip c
    using find_Some_iff [of "\<lambda>(x, c). x = ip" "rev hist"] nth_mem [of _ "rev hist"]
    by (auto simp: last_assigned_def) (metis image_eqI length_rev set_rev snd_conv)
  ultimately show "find_best_match last_assigned (unregister_client 5 ?h) ''10.0.0.1'' \<noteq> Some 5"
    using lookup_matches_registry [where best = last_assigned and ip = "''10.0.0.1''"] by blast
qed

section \<open>A stale disconnect\<close>

text \<open>
  A client that reconnects registers before the clean-up of its first connection has run, for
  instance when it lost the connection without closing it. The generation suppresses the
  callback of the first connection, but its clean-up removes the second registration.
\<close>

text \<open>After a client has reconnected, the clean-up of its previous connection takes the new
  registration away: the client is in no registry and has no connection manager, although its
  connection is open, and the disconnect callback that would tell is suppressed as stale.\<close>

theorem stale_disconnect_unregisters:
  "let h1 = fst (register_client valid tok1 c info1 h);
       (g1, h2) = get_next_generation c h1;
       h3 = fst (register_client valid tok2 c info2 h2);
       (g2, h4) = get_next_generation c h3;
       h5 = unregister_client c h4
   in dget (client_registry h5) c = None \<and> dget (connection_managers h5) c = None \<and>
      \<not> disconnect_callback_runs c (dget (client_registry h4) c) g1 h5"
proof -
  have gens: "generations (fst (insert_all valid cid cs k)) = generations k" for cid cs k
    by (induction cs arbitrary: k) (auto simp: cidr_insert_def)
  have reg: "generations (fst (register_client valid tok cid info k)) = generations k" for tok cid info k
  proof -
    define k1 where "k1 = k\<lparr>connection_managers := dput cid tok (connection_managers k),
      client_registry := dput cid (info\<lparr>ci_server := Some (h_server k)\<rparr>) (client_registry k)\<rparr>"
    obtain k2 ok where e: "insert_all valid cid (ci_cidrs info) k1 = (k2, ok)" by (cases "insert_all valid cid (ci_cidrs info) k1")
    have "generations k2 = generations k" using gens [of cid "ci_cidrs info" k1] e by (simp add: k1_def)
    then show ?thesis by (simp add: register_client_def Let_def e broadcast_client_update_def flip: k1_def)
  qed
  have "generations (unregister_client c k) = generations k" "dget (connection_managers (unregister_client c k)) c = None" for k
    by (simp_all add: unregister_client_def broadcast_client_update_def drop_client_def remove_client_def Let_def dict_simps)
  then show ?thesis
    by (simp add: Let_def get_next_generation_def unregistered_after disconnect_callback_runs_def reg dict_simps)
qed

end
