(* ===== verification/Tenant.thy ===== *)
theory Tenant
  imports Prelude
begin

text \<open>
  Multi-tenant request handling, \<^verbatim>\<open>src/gpustack/api/tenant.py\<close>, and the routes that grant and
  revoke cluster access, \<^verbatim>\<open>src/gpustack/routes/cluster_access.py\<close>: resolution of the tenant
  context of a request, the list filters with SQL's three-valued logic, the row-level
  visibility and write checks, and theorems on isolation between tenants.
\<close>

section \<open>Rows\<close>

datatype principal_type = USER | ORG | GROUP | SYSTEM

datatype org_role = OWNER | MEMBER

text \<open>
  \<open>p_worker\<close> and \<open>p_cluster\<close> are the back-references of a service account: cluster id and
  owner of the worker, id and owner of the cluster. The in-memory principal of the legacy
  server token has no id and neither back-reference.
\<close>

record principal =
  p_id :: "int option"
  p_kind :: principal_type
  p_name :: "string option"
  p_is_admin :: bool
  p_deleted :: bool
  p_worker :: "(int option \<times> int option) option"
  p_cluster :: "(int \<times> int option) option"

record membership =
  m_parent :: int
  m_member :: int
  m_role :: "org_role option"
  m_deleted :: bool

record cluster_row =
  c_id :: int
  c_owner :: "int option"
  c_deleted :: bool

record access_row =
  a_cluster :: int
  a_principal :: int
  a_granted_by :: "int option"

record database =
  db_principals :: "principal list"
  db_memberships :: "membership list"
  db_clusters :: "cluster_row list"
  db_access :: "access_row list"
  db_authenticated :: "int option"

datatype api_error =
    Forbidden string
  | NotFound string
  | Invalid string
  | AlreadyExists string
  | RuntimeError

record tenant_context =
  ctx_user :: principal
  is_platform_admin :: bool
  current_principal_id :: "int option"
  ctx_org_role :: "org_role option"
  accessible_cluster_ids :: "int set"
  accessible_cluster_owner_ids :: "int set"
  current_is_personal_scope :: bool
  scoped_cluster_id :: "int option"
  scoped_cluster_owner_id :: "int option"

text \<open>\<open>req_api_key\<close>: the owner of the API key that authenticated the request, if any.\<close>

record request =
  req_api_key :: "int option option"
  req_context :: "tenant_context option"

section \<open>Database reads\<close>

definition resolve_effective_org_role :: "database \<Rightarrow> int option \<Rightarrow> int \<Rightarrow> org_role option" where
  "resolve_effective_org_role db user org =
     (let direct = [m_role m. m \<leftarrow> db_memberships db,
                      m_parent m = org \<and> Some (m_member m) = user \<and> \<not> m_deleted m];
          via_group = [m_role om. om \<leftarrow> db_memberships db, gm \<leftarrow> db_memberships db, p \<leftarrow> db_principals db,
                         m_parent gm = m_member om \<and> p_id p = Some (m_parent gm) \<and>
                         m_parent om = org \<and> \<not> m_deleted om \<and>
                         Some (m_member gm) = user \<and> \<not> m_deleted gm \<and>
                         p_kind p = GROUP \<and> \<not> p_deleted p];
          roles = List.map_filter (\<lambda>r. r) (direct @ via_group)
      in if roles = [] then None else Some (if OWNER \<in> set roles then OWNER else MEMBER))"

definition user_group_principal_ids :: "database \<Rightarrow> int option \<Rightarrow> int list" where
  "user_group_principal_ids db user =
     [m_parent m. m \<leftarrow> db_memberships db, p \<leftarrow> db_principals db,
        p_id p = Some (m_parent m) \<and> Some (m_member m) = user \<and> \<not> m_deleted m \<and>
        p_kind p = GROUP \<and> \<not> p_deleted p]"

text \<open>The id bound at startup, or the row of that name when startup has not run.\<close>

definition get_authenticated_principal_id :: "database \<Rightarrow> api_error + int" where
  "get_authenticated_principal_id db =
     (case db_authenticated db of
        Some i \<Rightarrow> Inr i
      | None \<Rightarrow>
          (case find (\<lambda>p. p_kind p = GROUP \<and> p_name p = Some ''system/authenticated'') (db_principals db) of
             Some p \<Rightarrow> (case p_id p of Some i \<Rightarrow> Inr i | None \<Rightarrow> Inl RuntimeError)
           | None \<Rightarrow> Inl RuntimeError))"

definition accessible_clusters ::
  "database \<Rightarrow> int option \<Rightarrow> int option \<Rightarrow> int list \<Rightarrow> api_error + int set \<times> int set" where
  "accessible_clusters db user org groups =
     bind_err (get_authenticated_principal_id db) (\<lambda>auth.
       let principal_ids = set (user # map Some groups @ [Some auth] @ (case org of None \<Rightarrow> [] | Some o' \<Rightarrow> [Some o']));
           rows = [c. c \<leftarrow> db_clusters db, a \<leftarrow> db_access db,
                     a_cluster a = c_id c \<and> Some (a_principal a) \<in> principal_ids \<and> \<not> c_deleted c]
       in Inr (set (map c_id rows), set (List.map_filter c_owner rows)))"

definition principal_by_id :: "database \<Rightarrow> int \<Rightarrow> principal option" where
  "principal_by_id db i = find (\<lambda>p. p_id p = Some i) (db_principals db)"

section \<open>The header\<close>

definition resolve_requested_principal_id ::
  "request \<Rightarrow> principal \<Rightarrow> string option \<Rightarrow> api_error + int option" where
  "resolve_requested_principal_id req user header =
     (case req_api_key req of
        Some (Some owner) \<Rightarrow> Inr (Some owner)
      | _ \<Rightarrow>
          if header \<noteq> None \<and> header \<noteq> Some [] then
            (case py_int (the header) of
               Some n \<Rightarrow> Inr (Some n)
             | None \<Rightarrow> Inl (Invalid ''Invalid X-Organization-Id''))
          else if p_is_admin user then Inr None
          else Inr (p_id user))"

section \<open>The context of a request\<close>

definition resolve_scope ::
  "database \<Rightarrow> principal \<Rightarrow> int \<Rightarrow> api_error + org_role option \<times> int set \<times> int set \<times> bool" where
  "resolve_scope db user current =
     (if Some current = p_id user then
        bind_err (accessible_clusters db (p_id user) None (user_group_principal_ids db (p_id user)))
          (\<lambda>(cs, os). Inr (None, cs, os, True))
      else
        let role = resolve_effective_org_role db (p_id user) current
        in if role = None \<and> \<not> p_is_admin user then Inl (Forbidden ''Not a member of organization'')
           else bind_err (accessible_clusters db (p_id user) (Some current) (user_group_principal_ids db (p_id user)))
             (\<lambda>(cs, os).
                case principal_by_id db current of
                  None \<Rightarrow> Inl (NotFound ''Organization not found'')
                | Some row \<Rightarrow>
                    if p_deleted row \<or> p_kind row \<noteq> ORG then Inl (NotFound ''Organization not found'')
                    else Inr (role, cs, os, False)))"

definition scoped_cluster :: "principal \<Rightarrow> int option \<times> int option" where
  "scoped_cluster user =
     (if p_kind user = SYSTEM then
        (case p_worker user of
           Some (cid, owner) \<Rightarrow> (cid, owner)
         | None \<Rightarrow> (case p_cluster user of Some (cid, owner) \<Rightarrow> (Some cid, owner) | None \<Rightarrow> (None, None)))
      else (None, None))"

definition resolve_tenant_context ::
  "database \<Rightarrow> request \<Rightarrow> principal \<Rightarrow> string option \<Rightarrow> (api_error + tenant_context) \<times> request" where
  "resolve_tenant_context db req user header =
     (case req_context req of
        Some ctx \<Rightarrow> (Inr ctx, req)
      | None \<Rightarrow>
          (case bind_err (resolve_requested_principal_id req user header) (\<lambda>current.
             bind_err (case current of
                         Some i \<Rightarrow> if p_kind user \<noteq> SYSTEM then resolve_scope db user i else Inr (None, {}, {}, False)
                       | None \<Rightarrow> Inr (None, {}, {}, False)) (\<lambda>(role, cs, os, personal).
               Inr \<lparr>ctx_user = user, is_platform_admin = p_is_admin user, current_principal_id = current,
                    ctx_org_role = role, accessible_cluster_ids = cs, accessible_cluster_owner_ids = os,
                    current_is_personal_scope = personal,
                    scoped_cluster_id = fst (scoped_cluster user), scoped_cluster_owner_id = snd (scoped_cluster user)\<rparr>))
           of Inl e \<Rightarrow> (Inl e, req)
            | Inr ctx \<Rightarrow> (Inr ctx, req\<lparr>req_context := Some ctx\<rparr>)))"

definition assert_org_role :: "tenant_context \<Rightarrow> org_role list \<Rightarrow> api_error + unit" where
  "assert_org_role ctx allowed =
     (if is_platform_admin ctx then Inr ()
      else case ctx_org_role ctx of
             None \<Rightarrow> Inl (Forbidden ''Insufficient organization role'')
           | Some r \<Rightarrow> if r \<in> set allowed then Inr () else Inl (Forbidden ''Insufficient organization role''))"

definition require_platform_admin :: "tenant_context \<Rightarrow> api_error + tenant_context" where
  "require_platform_admin ctx =
     (if is_platform_admin ctx then Inr ctx else Inl (Forbidden ''Platform admin permission required''))"

definition bypass_tenant_filter :: "tenant_context \<Rightarrow> bool" where
  "bypass_tenant_filter ctx \<longleftrightarrow>
     p_kind (ctx_user ctx) = SYSTEM \<or> is_platform_admin ctx \<and> current_principal_id ctx = None"

definition cluster_scoped_system :: "tenant_context \<Rightarrow> bool" where
  "cluster_scoped_system ctx \<longleftrightarrow> p_kind (ctx_user ctx) = SYSTEM \<and> scoped_cluster_id ctx \<noteq> None"

definition require_org_role :: "org_role list \<Rightarrow> tenant_context \<Rightarrow> api_error + tenant_context" where
  "require_org_role allowed ctx =
     (if bypass_tenant_filter ctx \<or> is_platform_admin ctx then Inr ctx
      else if current_principal_id ctx = None then Inl (Forbidden ''Organization context required'')
      else bind_err (assert_org_role ctx allowed) (\<lambda>_. Inr ctx))"

section \<open>List filters\<close>

text \<open>
  A row of any tenant-scoped table. The outer option of \<open>res_owner\<close> and \<open>res_cluster\<close> says
  whether the model has the column, the inner one is SQL's NULL.
\<close>

record resource =
  res_id :: int
  res_owner :: "int option option"
  res_cluster :: "int option option"

datatype sql_cond =
    OwnerEq int
  | ClusterEq int
  | ClusterIsNull
  | IdEq int
  | IdIn "int set"
  | SqlOr "sql_cond list"

text \<open>SQL truth values: \<open>None\<close> is UNKNOWN, the value of a comparison with NULL.\<close>

definition sql_eq :: "int option \<Rightarrow> int \<Rightarrow> bool option" where
  "sql_eq col v = (case col of None \<Rightarrow> None | Some x \<Rightarrow> Some (x = v))"

definition sql_or :: "bool option list \<Rightarrow> bool option" where
  "sql_or bs = (if Some True \<in> set bs then Some True else if None \<in> set bs then None else Some False)"

fun sql_eval :: "sql_cond \<Rightarrow> resource \<Rightarrow> bool option" where
  "sql_eval (OwnerEq v) r = sql_eq (Option.bind (res_owner r) (\<lambda>x. x)) v"
| "sql_eval (ClusterEq v) r = sql_eq (Option.bind (res_cluster r) (\<lambda>x. x)) v"
| "sql_eval ClusterIsNull r = Some (Option.bind (res_cluster r) (\<lambda>x. x) = None)"
| "sql_eval (IdEq v) r = Some (res_id r = v)"
| "sql_eval (IdIn vs) r = Some (res_id r \<in> vs)"
| "sql_eval (SqlOr cs) r = sql_or (map (\<lambda>c. sql_eval c r) cs)"

text \<open>A \<open>WHERE\<close> clause keeps the rows on which every condition is true.\<close>

definition selected :: "sql_cond list \<Rightarrow> resource \<Rightarrow> bool" where
  "selected conds r \<longleftrightarrow> (\<forall>c \<in> set conds. sql_eval c r = Some True)"

definition scoped_cluster_row_visible :: "tenant_context \<Rightarrow> resource \<Rightarrow> bool" where
  "scoped_cluster_row_visible ctx r =
     (case res_cluster r of
        None \<Rightarrow> True
      | Some cid \<Rightarrow> cid = None \<or> cid = scoped_cluster_id ctx)"

definition scoped_cluster_conditions :: "tenant_context \<Rightarrow> bool \<Rightarrow> sql_cond list" where
  "scoped_cluster_conditions ctx has_cluster =
     (if \<not> has_cluster then []
      else [SqlOr [(case scoped_cluster_id ctx of Some c \<Rightarrow> ClusterEq c | None \<Rightarrow> ClusterIsNull), ClusterIsNull]])"

definition tenant_list_conditions :: "tenant_context \<Rightarrow> bool \<Rightarrow> bool \<Rightarrow> sql_cond list" where
  "tenant_list_conditions ctx has_owner has_cluster =
     (if cluster_scoped_system ctx then scoped_cluster_conditions ctx has_cluster
      else if bypass_tenant_filter ctx then []
      else case current_principal_id ctx of
             Some cur \<Rightarrow> if has_owner then [OwnerEq cur] else []
           | None \<Rightarrow> [])"

definition cluster_visibility_conditions :: "tenant_context \<Rightarrow> sql_cond list" where
  "cluster_visibility_conditions ctx =
     (if cluster_scoped_system ctx then [IdEq (the (scoped_cluster_id ctx))]
      else if bypass_tenant_filter ctx then []
      else let ors = (case current_principal_id ctx of Some cur \<Rightarrow> [OwnerEq cur] | None \<Rightarrow> []) @
                     (if accessible_cluster_ids ctx \<noteq> {} then [IdIn (accessible_cluster_ids ctx)] else [])
           in if ors = [] then [IdEq (- 1)] else [SqlOr ors])"

section \<open>Row checks\<close>

definition assert_cluster_visible :: "tenant_context \<Rightarrow> resource option \<Rightarrow> api_error + unit" where
  "assert_cluster_visible ctx cluster =
     (case cluster of
        None \<Rightarrow> Inl (NotFound ''Cluster not found'')
      | Some r \<Rightarrow>
          if cluster_scoped_system ctx then
            (if Some (res_id r) = scoped_cluster_id ctx then Inr () else Inl (NotFound ''Cluster not found''))
          else if bypass_tenant_filter ctx then Inr ()
          else if current_principal_id ctx \<noteq> None \<and> Option.bind (res_owner r) (\<lambda>x. x) \<noteq> None \<and>
                  Option.bind (res_owner r) (\<lambda>x. x) = current_principal_id ctx then Inr ()
          else if res_id r \<in> accessible_cluster_ids ctx then Inr ()
          else Inl (NotFound ''Cluster not found''))"

definition assert_org_owned_writable :: "tenant_context \<Rightarrow> resource \<Rightarrow> bool \<Rightarrow> api_error + unit" where
  "assert_org_owned_writable ctx r allow_member =
     (if bypass_tenant_filter ctx then Inr ()
      else case Option.bind (res_owner r) (\<lambda>x. x) of
             None \<Rightarrow> Inl (Forbidden ''Only platform admin can modify global resource'')
           | Some owner \<Rightarrow>
               if Some owner \<noteq> current_principal_id ctx
               then Inl (Forbidden ''Resource does not belong to the current organization'')
               else if is_platform_admin ctx \<or> allow_member then Inr ()
               else if current_is_personal_scope ctx \<or> ctx_org_role ctx \<noteq> Some OWNER
               then Inl (Forbidden ''Insufficient organization role to modify this resource'')
               else Inr ())"

definition assert_cluster_writable :: "tenant_context \<Rightarrow> resource \<Rightarrow> api_error + unit" where
  "assert_cluster_writable ctx cluster = assert_org_owned_writable ctx cluster False"

definition validate_owner_principal :: "int option \<Rightarrow> tenant_context \<Rightarrow> bool \<Rightarrow> api_error + unit" where
  "validate_owner_principal owner ctx allow_member =
     (if is_platform_admin ctx then Inr ()
      else if owner = None then Inl (Invalid ''Only platform admin can create global resources'')
      else if current_principal_id ctx = None \<or> owner \<noteq> current_principal_id ctx
      then Inl (Invalid ''owner_principal_id must match the current organization'')
      else if allow_member then Inr ()
      else if current_is_personal_scope ctx \<or> ctx_org_role ctx \<noteq> Some OWNER
      then Inl (Invalid ''Insufficient organization role to create a resource'')
      else Inr ())"

definition assert_resource_visible :: "tenant_context \<Rightarrow> resource option \<Rightarrow> api_error + unit" where
  "assert_resource_visible ctx resource =
     (case resource of
        None \<Rightarrow> Inl (NotFound ''Resource not found'')
      | Some r \<Rightarrow>
          if cluster_scoped_system ctx then
            (if scoped_cluster_row_visible ctx r then Inr () else Inl (NotFound ''Resource not found''))
          else if bypass_tenant_filter ctx then Inr ()
          else (let owner = Option.bind (res_owner r) (\<lambda>x. x)
                in if current_principal_id ctx \<noteq> None \<and> owner \<noteq> None \<and> owner \<noteq> current_principal_id ctx
                   then Inl (NotFound ''Resource not found'') else Inr ()))"

section \<open>Cluster access routes\<close>

definition cluster_resource :: "cluster_row \<Rightarrow> resource" where
  "cluster_resource c = \<lparr>res_id = c_id c, res_owner = Some (c_owner c), res_cluster = None\<rparr>"

definition load_cluster :: "database \<Rightarrow> tenant_context \<Rightarrow> int \<Rightarrow> api_error + cluster_row" where
  "load_cluster db ctx cid =
     (let cluster = find (\<lambda>c. c_id c = cid) (db_clusters db)
      in bind_err (assert_cluster_visible ctx (map_option cluster_resource cluster)) (\<lambda>_. Inr (the cluster)))"

definition validate_principal :: "database \<Rightarrow> principal_type \<Rightarrow> int \<Rightarrow> api_error + principal" where
  "validate_principal db kind i =
     (case principal_by_id db i of
        None \<Rightarrow> Inl (Invalid ''Principal not found'')
      | Some p \<Rightarrow>
          if p_deleted p then Inl (Invalid ''Principal not found'')
          else if p_kind p \<noteq> kind then Inl (Invalid ''Principal has another kind'')
          else Inr p)"

definition list_cluster_access :: "database \<Rightarrow> tenant_context \<Rightarrow> int \<Rightarrow> api_error + access_row list" where
  "list_cluster_access db ctx cid =
     bind_err (load_cluster db ctx cid) (\<lambda>_. Inr (filter (\<lambda>a. a_cluster a = cid) (db_access db)))"

definition grant_cluster_access ::
  "database \<Rightarrow> tenant_context \<Rightarrow> int \<Rightarrow> principal_type \<Rightarrow> int \<Rightarrow> api_error + database" where
  "grant_cluster_access db ctx cid kind pid =
     bind_err (load_cluster db ctx cid) (\<lambda>c.
     bind_err (assert_cluster_writable ctx (cluster_resource c)) (\<lambda>_.
     bind_err (validate_principal db kind pid) (\<lambda>_.
       if find (\<lambda>a. a_cluster a = cid \<and> a_principal a = pid) (db_access db) \<noteq> None
       then Inl (AlreadyExists ''Access already granted'')
       else Inr (db\<lparr>db_access := db_access db @
              [\<lparr>a_cluster = cid, a_principal = pid, a_granted_by = p_id (ctx_user ctx)\<rparr>]\<rparr>))))"

definition revoke_cluster_access :: "database \<Rightarrow> tenant_context \<Rightarrow> int \<Rightarrow> int \<Rightarrow> api_error + database" where
  "revoke_cluster_access db ctx cid pid =
     bind_err (load_cluster db ctx cid) (\<lambda>c.
     bind_err (assert_cluster_writable ctx (cluster_resource c)) (\<lambda>_.
       case find (\<lambda>a. a_cluster a = cid \<and> a_principal a = pid) (db_access db) of
         None \<Rightarrow> Inl (NotFound ''Access grant not found'')
       | Some a \<Rightarrow> Inr (db\<lparr>db_access := remove1 a (db_access db)\<rparr>)))"

section \<open>Lemmas\<close>

lemma in_map_filter: "x \<in> set (List.map_filter f xs) \<longleftrightarrow> (\<exists>y \<in> set xs. f y = Some x)"
  by (induction xs) (auto simp: List.map_filter_simps split: option.splits)

lemma in_select1: "x \<in> set [f a. a \<leftarrow> as, P a] \<longleftrightarrow> (\<exists>a \<in> set as. P a \<and> f a = x)"
  by auto

lemma in_select2: "x \<in> set [f a b. a \<leftarrow> as, b \<leftarrow> bs, P a b] \<longleftrightarrow> (\<exists>a \<in> set as. \<exists>b \<in> set bs. P a b \<and> f a b = x)"
  by auto

lemma in_select3:
  "x \<in> set [f a b c. a \<leftarrow> as, b \<leftarrow> bs, c \<leftarrow> cs, P a b c] \<longleftrightarrow>
   (\<exists>a \<in> set as. \<exists>b \<in> set bs. \<exists>c \<in> set cs. P a b c \<and> f a b c = x)"
  by auto

text \<open>A path that confers role \<open>r\<close>: a direct membership, or one of a live group the user is in.\<close>

definition role_path :: "database \<Rightarrow> int option \<Rightarrow> int \<Rightarrow> org_role \<Rightarrow> bool" where
  "role_path db user org r \<longleftrightarrow>
     (\<exists>m \<in> set (db_memberships db). m_parent m = org \<and> Some (m_member m) = user \<and> \<not> m_deleted m \<and> m_role m = Some r) \<or>
     (\<exists>om \<in> set (db_memberships db). \<exists>gm \<in> set (db_memberships db). \<exists>p \<in> set (db_principals db).
        m_parent om = org \<and> \<not> m_deleted om \<and> m_role om = Some r \<and>
        m_parent gm = m_member om \<and> Some (m_member gm) = user \<and> \<not> m_deleted gm \<and>
        p_id p = Some (m_parent gm) \<and> p_kind p = GROUP \<and> \<not> p_deleted p)"

lemma effective_role_roles:
  "resolve_effective_org_role db user org =
     (if role_path db user org OWNER then Some OWNER
      else if role_path db user org MEMBER then Some MEMBER else None)"
proof -
  define direct where "direct = [m_role m. m \<leftarrow> db_memberships db,
      m_parent m = org \<and> Some (m_member m) = user \<and> \<not> m_deleted m]"
  define via where "via = [m_role om. om \<leftarrow> db_memberships db, gm \<leftarrow> db_memberships db, p \<leftarrow> db_principals db,
      m_parent gm = m_member om \<and> p_id p = Some (m_parent gm) \<and> m_parent om = org \<and> \<not> m_deleted om \<and>
      Some (m_member gm) = user \<and> \<not> m_deleted gm \<and> p_kind p = GROUP \<and> \<not> p_deleted p]"
  define roles where "roles = List.map_filter (\<lambda>r. r) (direct @ via)"
  have "r \<in> set roles \<longleftrightarrow> Some r \<in> set direct \<or> Some r \<in> set via" for r
    by (simp add: roles_def in_map_filter)
  moreover have "Some r \<in> set direct \<longleftrightarrow> (\<exists>m \<in> set (db_memberships db). m_parent m = org \<and> Some (m_member m) = user \<and>
      \<not> m_deleted m \<and> m_role m = Some r)" for r
    unfolding direct_def in_select1 by blast
  moreover have "Some r \<in> set via \<longleftrightarrow> (\<exists>om \<in> set (db_memberships db). \<exists>gm \<in> set (db_memberships db). \<exists>p \<in> set (db_principals db).
      m_parent om = org \<and> \<not> m_deleted om \<and> m_role om = Some r \<and> m_parent gm = m_member om \<and> Some (m_member gm) = user \<and>
      \<not> m_deleted gm \<and> p_id p = Some (m_parent gm) \<and> p_kind p = GROUP \<and> \<not> p_deleted p)" for r
    unfolding via_def in_select3 by (intro bex_cong refl) argo
  ultimately have mem: "r \<in> set roles \<longleftrightarrow> role_path db user org r" for r
    unfolding role_path_def by presburger
  have "roles = [] \<longleftrightarrow> OWNER \<notin> set roles \<and> MEMBER \<notin> set roles"
    by (cases roles; cases "hd roles") auto
  then show ?thesis
    unfolding resolve_effective_org_role_def Let_def direct_def [symmetric] via_def [symmetric] roles_def [symmetric] mem [symmetric] by auto
qed

definition fresh :: "request \<Rightarrow> bool" where
  "fresh req \<longleftrightarrow> req_context req = None"

text \<open>What a successful resolution says about a caller that is not a service account.\<close>

lemma resolved_context:
  assumes "resolve_tenant_context db req user header = (Inr ctx, req')" and "fresh req"
  shows "ctx_user ctx = user \<and> is_platform_admin ctx = p_is_admin user \<and> req_context req' = Some ctx \<and>
    resolve_requested_principal_id req user header = Inr (current_principal_id ctx) \<and>
    (scoped_cluster_id ctx, scoped_cluster_owner_id ctx) = scoped_cluster user \<and>
    (case current_principal_id ctx of
       Some cur \<Rightarrow> p_kind user = SYSTEM \<or>
         resolve_scope db user cur = Inr (ctx_org_role ctx, accessible_cluster_ids ctx, accessible_cluster_owner_ids ctx,
                                          current_is_personal_scope ctx)
     | None \<Rightarrow> ctx_org_role ctx = None \<and> accessible_cluster_ids ctx = {})"
proof -
  let ?mk = "\<lambda>current (role, cs, os, personal).
     \<lparr>ctx_user = user, is_platform_admin = p_is_admin user, current_principal_id = current, ctx_org_role = role,
      accessible_cluster_ids = cs, accessible_cluster_owner_ids = os, current_is_personal_scope = personal,
      scoped_cluster_id = fst (scoped_cluster user), scoped_cluster_owner_id = snd (scoped_cluster user)\<rparr>"
  let ?scope = "\<lambda>current. case current of
      Some i \<Rightarrow> if p_kind user \<noteq> SYSTEM then resolve_scope db user i else Inr (None, {}, {}, False)
    | None \<Rightarrow> Inr (None, {}, {}, False)"
  from assms obtain current where cur: "resolve_requested_principal_id req user header = Inr current"
    by (cases "resolve_requested_principal_id req user header") (auto simp: resolve_tenant_context_def fresh_def)
  with assms obtain sc where sc: "?scope current = Inr sc"
    by (cases "?scope current") (auto simp: resolve_tenant_context_def fresh_def)
  obtain role cs os pers where q: "sc = (role, cs, os, pers)" by (cases sc)
  have "ctx = ?mk current sc" "req' = req\<lparr>req_context := Some ctx\<rparr>"
    using assms sc cur by (auto simp: resolve_tenant_context_def fresh_def q)
  with sc cur show ?thesis by (auto simp: q split: option.splits if_splits)
qed

lemma resolve_scope_Inr:
  assumes "resolve_scope db user cur = Inr (role, cs, os, personal)"
  shows "personal = (Some cur = p_id user) \<and>
    (if personal then role = None
     else role = resolve_effective_org_role db (p_id user) cur \<and> (role \<noteq> None \<or> p_is_admin user) \<and>
       (\<exists>row. principal_by_id db cur = Some row \<and> p_kind row = ORG \<and> \<not> p_deleted row)) \<and>
    accessible_clusters db (p_id user) (if personal then None else Some cur)
      (user_group_principal_ids db (p_id user)) = Inr (cs, os)"
  using assms
  by (auto simp: resolve_scope_def bind_err_eq_Inr Let_def split: if_splits option.splits)

section \<open>Visibility contracts\<close>

text \<open>
  A list filter and a row check that are meant to agree on the rows of a domain. What
  the two routes of a resource show is then the same set of rows.
\<close>

locale visibility =
  fixes dom :: "resource \<Rightarrow> bool"
    and conds :: "tenant_context \<Rightarrow> resource \<Rightarrow> sql_cond list"
    and check :: "tenant_context \<Rightarrow> resource option \<Rightarrow> api_error + unit"
  assumes agree: "dom r \<Longrightarrow> selected (conds ctx r) r \<longleftrightarrow> check ctx (Some r) = Inr ()"
    and missing: "check ctx None \<noteq> Inr ()"
begin

lemma listed_iff_found:
  assumes "list_all dom rows" and "distinct (map res_id rows)"
  shows "(\<exists>r \<in> set rows. res_id r = i \<and> selected (conds ctx r) r) \<longleftrightarrow>
         check ctx (find (\<lambda>r. res_id r = i) rows) = Inr ()"
proof (cases "find (\<lambda>r. res_id r = i) rows")
  case None
  then have "\<not> (\<exists>r \<in> set rows. res_id r = i)" by (simp add: find_None_iff)
  then show ?thesis using missing [of ctx] None by auto
next
  case (Some r)
  then have r: "r \<in> set rows" "res_id r = i" by (auto simp: find_Some_iff)
  moreover have "r' = r" if "r' \<in> set rows" "res_id r' = i" for r'
    using assms(2) r that by (simp add: distinct_map inj_on_def)
  ultimately have "(\<exists>r \<in> set rows. res_id r = i \<and> selected (conds ctx r) r) \<longleftrightarrow> selected (conds ctx r) r" by blast
  moreover have "dom r" using r(1) assms(1) by (simp add: list_all_iff)
  ultimately show ?thesis using Some agree by simp
qed

end

lemma sql_or_True [simp]: "sql_or bs = Some True \<longleftrightarrow> Some True \<in> set bs"
  by (simp add: sql_or_def)

lemma sql_eq_True [simp]: "sql_eq col v = Some True \<longleftrightarrow> col = Some v" "Some True = sql_eq col v \<longleftrightarrow> col = Some v"
  by (auto simp: sql_eq_def split: option.splits)

interpretation cluster_vis: visibility "\<lambda>r. res_id r \<noteq> - 1" "\<lambda>ctx r. cluster_visibility_conditions ctx" assert_cluster_visible
proof (unfold_locales, goal_cases)
  case (1 r ctx)
  then show ?case
    by (auto simp: selected_def cluster_visibility_conditions_def assert_cluster_visible_def Let_def cluster_scoped_system_def
        split: option.splits)
next
  case (2 ctx)
  show ?case by (simp add: assert_cluster_visible_def)
qed

interpretation resource_vis: visibility "\<lambda>r. res_owner r \<noteq> Some None"
  "\<lambda>ctx r. tenant_list_conditions ctx (res_owner r \<noteq> None) (res_cluster r \<noteq> None)" assert_resource_visible
proof (unfold_locales, goal_cases)
  case (1 r ctx)
  then show ?case
    by (cases "res_owner r") (auto simp: selected_def tenant_list_conditions_def scoped_cluster_conditions_def assert_resource_visible_def Let_def
        cluster_scoped_system_def scoped_cluster_row_visible_def split: option.splits)
next
  case (2 ctx)
  show ?case by (simp add: assert_resource_visible_def)
qed

section \<open>Properties of tenancy\<close>

lemma requested_nonadmin:
  "\<not> p_is_admin user \<Longrightarrow> p_id user = Some uid \<Longrightarrow> resolve_requested_principal_id req user header = Inr cur \<Longrightarrow> cur \<noteq> None"
  by (auto simp: resolve_requested_principal_id_def split: option.splits if_splits; metis)

text \<open>A resolved context of an ordinary user: neither platform admin nor service account.\<close>

definition ordinary :: "principal \<Rightarrow> bool" where
  "ordinary user \<longleftrightarrow> \<not> p_is_admin user \<and> p_kind user \<noteq> SYSTEM \<and> p_id user \<noteq> None"

lemma ordinary_context:
  assumes "ordinary user" and "fresh req" and "resolve_tenant_context db req user header = (Inr ctx, req')"
  obtains cur where "current_principal_id ctx = Some cur" "\<not> bypass_tenant_filter ctx" "\<not> is_platform_admin ctx"
    "\<not> cluster_scoped_system ctx" "current_is_personal_scope ctx \<longleftrightarrow> Some cur = p_id user"
    "ctx_org_role ctx = (if Some cur = p_id user then None else resolve_effective_org_role db (p_id user) cur)"
    "Some cur = p_id user \<or> ctx_org_role ctx \<noteq> None \<and>
       (\<exists>row. principal_by_id db cur = Some row \<and> p_kind row = ORG \<and> \<not> p_deleted row)"
proof -
  from assms(1) obtain uid where u: "p_id user = Some uid" "\<not> p_is_admin user" "p_kind user \<noteq> SYSTEM" by (auto simp: ordinary_def)
  note rc = resolved_context [OF assms(3,2)]
  then obtain cur where cur: "current_principal_id ctx = Some cur" using requested_nonadmin [OF u(2,1)] by (metis option.exhaust)
  then have sc: "resolve_scope db user cur = Inr (ctx_org_role ctx, accessible_cluster_ids ctx, accessible_cluster_owner_ids ctx,
      current_is_personal_scope ctx)"
    using rc u(3) by simp
  from resolve_scope_Inr [OF sc] rc u cur show ?thesis
    by (intro that [of cur]) (simp_all add: bypass_tenant_filter_def cluster_scoped_system_def split: if_splits, metis)
qed

text \<open>C21: An ordinary user is always scoped. When the context resolves, it names a principal,
  no filter is bypassed, and either it is the user's own namespace, without any role, or a
  live organisation into which the user has an undeleted membership path; the role is
  OWNER exactly when a path confers it.\<close>

theorem tenant_context_scoped:
  assumes "ordinary user" and "fresh req" and "resolve_tenant_context db req user header = (Inr ctx, req')"
  shows "\<exists>cur. current_principal_id ctx = Some cur \<and> \<not> bypass_tenant_filter ctx \<and>
     (if Some cur = p_id user then current_is_personal_scope ctx \<and> ctx_org_role ctx = None
      else (role_path db (p_id user) cur OWNER \<or> role_path db (p_id user) cur MEMBER) \<and>
           (ctx_org_role ctx = Some OWNER \<longleftrightarrow> role_path db (p_id user) cur OWNER) \<and>
           (\<exists>row. principal_by_id db cur = Some row \<and> p_kind row = ORG \<and> \<not> p_deleted row))"
  by (rule ordinary_context [OF assms]) (auto simp: effective_role_roles split: if_splits)

text \<open>C16: Exactly what an ordinary user may modify: the rows owned by the principal of the
  context, and of these the infrastructure rows only with an OWNER path into it. Global rows
  and rows of other principals are never writable.\<close>

theorem tenant_write_isolation:
  assumes "ordinary user" and "fresh req" and "resolve_tenant_context db req user header = (Inr ctx, req')"
  shows "assert_org_owned_writable ctx r allow_member = Inr () \<longleftrightarrow>
     (\<exists>cur. current_principal_id ctx = Some cur \<and> res_owner r = Some (Some cur) \<and>
        (allow_member \<or> Some cur \<noteq> p_id user \<and> role_path db (p_id user) cur OWNER))"
  by (rule ordinary_context [OF assms])
     (auto simp: assert_org_owned_writable_def effective_role_roles Option.bind_eq_Some_conv split: option.splits if_splits)

text \<open>Sample data for the witnesses: user 7 owns nothing directly, but is in group 20, which is
  OWNER in organisation 30.\<close>

definition sample_principal :: "int \<Rightarrow> principal_type \<Rightarrow> principal" where
  "sample_principal i k = \<lparr>p_id = Some i, p_kind = k, p_name = None, p_is_admin = False, p_deleted = False,
     p_worker = None, p_cluster = None\<rparr>"

definition sample_db :: database where
  "sample_db = \<lparr>db_principals = [sample_principal 7 USER, sample_principal 20 GROUP, sample_principal 30 ORG],
     db_memberships = [\<lparr>m_parent = 30, m_member = 20, m_role = Some OWNER, m_deleted = False\<rparr>,
                       \<lparr>m_parent = 20, m_member = 7, m_role = None, m_deleted = False\<rparr>],
     db_clusters = [\<lparr>c_id = 1, c_owner = Some 30, c_deleted = False\<rparr>, \<lparr>c_id = 2, c_owner = None, c_deleted = False\<rparr>],
     db_access = [\<lparr>a_cluster = 2, a_principal = 3, a_granted_by = None\<rparr>], db_authenticated = Some 3\<rparr>"

definition sample_request :: request where
  "sample_request = \<lparr>req_api_key = None, req_context = None\<rparr>"

definition sample_context :: tenant_context where
  "sample_context = \<lparr>ctx_user = sample_principal 7 USER, is_platform_admin = False, current_principal_id = Some 30,
     ctx_org_role = Some OWNER, accessible_cluster_ids = {2}, accessible_cluster_owner_ids = {},
     current_is_personal_scope = False, scoped_cluster_id = None, scoped_cluster_owner_id = None\<rparr>"

lemmas sample_simps = sample_db_def sample_principal_def sample_request_def sample_context_def

lemma sample_resolves:
  "ordinary (sample_principal 7 USER) \<and> fresh sample_request \<and>
   resolve_tenant_context sample_db sample_request (sample_principal 7 USER) (Some ''30'') =
     (Inr sample_context, sample_request\<lparr>req_context := Some sample_context\<rparr>)"
  by code_simp

theorem tenant_context_scoped_witness:
  "fst (resolve_tenant_context sample_db sample_request (sample_principal 7 USER) (Some ''30'')) = Inr sample_context \<and>
   current_principal_id sample_context = Some 30 \<and>
   (role_path sample_db (Some 7) 30 OWNER \<or> role_path sample_db (Some 7) 30 MEMBER)"
proof -
  note s = sample_resolves [THEN conjunct1] sample_resolves [THEN conjunct2, THEN conjunct1] sample_resolves [THEN conjunct2, THEN conjunct2]
  from tenant_context_scoped [OF s] s(3) show ?thesis by (auto simp: sample_simps)
qed

theorem tenant_write_isolation_witness:
  "fst (resolve_tenant_context sample_db sample_request (sample_principal 7 USER) (Some ''30'')) = Inr sample_context \<and>
   \<not> (assert_org_owned_writable sample_context \<lparr>res_id = 5, res_owner = Some (Some 31), res_cluster = None\<rparr> True = Inr ())"
proof -
  note s = sample_resolves [THEN conjunct1] sample_resolves [THEN conjunct2, THEN conjunct1] sample_resolves [THEN conjunct2, THEN conjunct2]
  from tenant_write_isolation [OF s, of "\<lparr>res_id = 5, res_owner = Some (Some 31), res_cluster = None\<rparr>" True] s(3) show ?thesis
    by (auto simp: sample_simps)
qed



text \<open>The general list filter against the row check, on every row: what can be fetched by id
  is what is listed and, in addition, for a caller with a principal context, the global rows
  (owner NULL), which the list never shows.\<close>

theorem resource_list_vs_detail:
  "assert_resource_visible ctx (Some r) = Inr () \<longleftrightarrow>
     selected (tenant_list_conditions ctx (res_owner r \<noteq> None) (res_cluster r \<noteq> None)) r \<or>
     res_owner r = Some None \<and> \<not> bypass_tenant_filter ctx \<and> current_principal_id ctx \<noteq> None"
proof (cases "res_owner r = Some None")
  case False
  with resource_vis.agree [of r ctx] show ?thesis by simp
next
  case True
  then show ?thesis
    by (auto simp: assert_resource_visible_def selected_def tenant_list_conditions_def scoped_cluster_conditions_def Let_def
        cluster_scoped_system_def bypass_tenant_filter_def scoped_cluster_row_visible_def split: option.splits if_splits)
qed

text \<open>What a caller may create, the caller may also see and modify: for anyone but platform
  admins and service accounts, an owner accepted by \<open>validate_owner_principal\<close> gives a row that
  the visibility check and the write check of the same tier accept and that the list shows.\<close>

theorem create_then_manage:
  assumes "\<not> is_platform_admin ctx" and "p_kind (ctx_user ctx) \<noteq> SYSTEM"
    and "validate_owner_principal owner ctx allow_member = Inr ()" and "res_owner r = Some owner"
  shows "assert_org_owned_writable ctx r allow_member = Inr () \<and> assert_resource_visible ctx (Some r) = Inr () \<and>
         selected (tenant_list_conditions ctx True (res_cluster r \<noteq> None)) r"
  using assms
  by (auto simp: validate_owner_principal_def assert_org_owned_writable_def assert_resource_visible_def bypass_tenant_filter_def
      cluster_scoped_system_def tenant_list_conditions_def selected_def Let_def split: if_splits option.splits)

theorem create_then_manage_witness:
  "validate_owner_principal (Some 30) sample_context False = Inr () \<and>
   assert_org_owned_writable sample_context \<lparr>res_id = 9, res_owner = Some (Some 30), res_cluster = None\<rparr> False = Inr ()"
proof -
  have h: "\<not> is_platform_admin sample_context" "p_kind (ctx_user sample_context) \<noteq> SYSTEM"
    "validate_owner_principal (Some 30) sample_context False = Inr ()" by code_simp+
  from create_then_manage [OF h, of "\<lparr>res_id = 9, res_owner = Some (Some 30), res_cluster = None\<rparr>"] h(3) show ?thesis by simp
qed

text \<open>Revoking undoes granting. When a grant succeeds, the same caller can revoke it, which
  restores the database; in between, the grantee reaches the cluster (unless it is deleted), and
  the caller bypasses the filter or acts as the owner of the cluster.\<close>

theorem grant_revoke_roundtrip:
  assumes "grant_cluster_access db ctx cid kind pid = Inr db'"
  shows "revoke_cluster_access db' ctx cid pid = Inr db \<and>
     (bypass_tenant_filter ctx \<or> (\<exists>c \<in> set (db_clusters db). c_id c = cid \<and> c_owner c \<noteq> None \<and> c_owner c = current_principal_id ctx)) \<and>
     (\<forall>org groups cs os. accessible_clusters db' (Some pid) org groups = Inr (cs, os) \<longrightarrow>
        (\<exists>c \<in> set (db_clusters db). c_id c = cid \<and> (c_deleted c \<or> cid \<in> cs)))"
proof -
  let ?a = "\<lparr>a_cluster = cid, a_principal = pid, a_granted_by = p_id (ctx_user ctx)\<rparr>"
  from assms obtain c where c: "load_cluster db ctx cid = Inr c" "assert_cluster_writable ctx (cluster_resource c) = Inr ()"
      "find (\<lambda>a. a_cluster a = cid \<and> a_principal a = pid) (db_access db) = None"
      "db' = db\<lparr>db_access := db_access db @ [?a]\<rparr>"
    by (auto simp: grant_cluster_access_def bind_err_eq_Inr split: if_splits)
  have "find (\<lambda>c. c_id c = cid) (db_clusters db) = Some c"
    using c(1) by (cases "find (\<lambda>c. c_id c = cid) (db_clusters db)")
      (auto simp: load_cluster_def Let_def bind_err_eq_Inr assert_cluster_visible_def)
  then have cm: "c \<in> set (db_clusters db)" "c_id c = cid" by (auto simp: find_Some_iff)
  have "?a \<notin> set (db_access db)" using c(3) unfolding find_None_iff by (metis access_row.select_convs(1,2))
  moreover have "find (\<lambda>a. a_cluster a = cid \<and> a_principal a = pid) (db_access db @ [?a]) = Some ?a"
    using c(3) by (intro find_snoc) auto
  moreover have "load_cluster db' ctx cid = Inr c" using c(1) by (simp add: load_cluster_def c(4))
  ultimately have "revoke_cluster_access db' ctx cid pid = Inr db"
    using c(2) by (simp add: revoke_cluster_access_def c(4) remove1_append)
  moreover have "bypass_tenant_filter ctx \<or> c_owner c \<noteq> None \<and> c_owner c = current_principal_id ctx"
    using c(2) by (auto simp: assert_cluster_writable_def assert_org_owned_writable_def cluster_resource_def split: if_splits option.splits)
  moreover have "c_deleted c \<or> cid \<in> cs" if "accessible_clusters db' (Some pid) org groups = Inr (cs, os)" for org groups cs os
    using that cm by (auto simp: accessible_clusters_def bind_err_eq_Inr Let_def c(4) intro!: bexI [of _ c])
  ultimately show ?thesis using cm by blast
qed

theorem grant_revoke_roundtrip_witness:
  "\<exists>db'. grant_cluster_access sample_db sample_context 1 USER 7 = Inr db' \<and> length (db_access db') = 2 \<and>
     revoke_cluster_access db' sample_context 1 7 = Inr sample_db"
proof -
  have "\<not> isl (grant_cluster_access sample_db sample_context 1 USER 7)"
    "length (db_access (projr (grant_cluster_access sample_db sample_context 1 USER 7))) = 2" by code_simp+
  then obtain db' where "grant_cluster_access sample_db sample_context 1 USER 7 = Inr db'" "length (db_access db') = 2"
    by (cases "grant_cluster_access sample_db sample_context 1 USER 7") auto
  with grant_revoke_roundtrip show ?thesis by blast
qed

text \<open>A worker's or cluster's service account sees only its own cluster. With the cluster of
  the account known, every row its lists select is in that cluster, in none, or of a model
  without a cluster column, and the only cluster row it can see is its own; the header and the
  API key it presents do not matter.\<close>

theorem scoped_system_isolated:
  assumes "p_kind user = SYSTEM" and "fst (scoped_cluster user) = Some c" and "fresh req"
    and "resolve_tenant_context db req user header = (Inr ctx, req')"
  shows "(selected (tenant_list_conditions ctx (res_owner r \<noteq> None) (res_cluster r \<noteq> None)) r \<longleftrightarrow>
            res_cluster r \<in> {None, Some None, Some (Some c)}) \<and>
         (selected (cluster_visibility_conditions ctx) r \<longleftrightarrow> res_id r = c) \<and>
         (assert_resource_visible ctx (Some r) = Inr () \<longleftrightarrow> res_cluster r \<in> {None, Some None, Some (Some c)})"
proof -
  from resolved_context [OF assms(4,3)] assms(2) have "ctx_user ctx = user" "scoped_cluster_id ctx = Some c"
    by (metis, metis fst_conv)
  then have "cluster_scoped_system ctx" "scoped_cluster_id ctx = Some c" using assms(1) by (simp_all add: cluster_scoped_system_def)
  then show ?thesis
    by (auto simp: selected_def tenant_list_conditions_def scoped_cluster_conditions_def cluster_visibility_conditions_def
        assert_resource_visible_def scoped_cluster_row_visible_def split: option.splits if_splits)
qed

definition sample_worker :: principal where
  "sample_worker = \<lparr>p_id = Some 50, p_kind = SYSTEM, p_name = None, p_is_admin = False, p_deleted = False,
     p_worker = Some (Some 1, Some 30), p_cluster = None\<rparr>"

theorem scoped_system_isolated_witness:
  "\<exists>ctx. fst (resolve_tenant_context sample_db sample_request sample_worker (Some ''99'')) = Inr ctx \<and>
     \<not> selected (cluster_visibility_conditions ctx) \<lparr>res_id = 2, res_owner = Some None, res_cluster = None\<rparr>"
proof -
  let ?r = "resolve_tenant_context sample_db sample_request sample_worker (Some ''99'')"
  have h: "p_kind sample_worker = SYSTEM" "fst (scoped_cluster sample_worker) = Some 1" "fresh sample_request" "\<not> isl (fst ?r)"
    by code_simp+
  then obtain ctx where ctx: "fst ?r = Inr ctx" by (cases "fst ?r") auto
  then have "?r = (Inr ctx, snd ?r)" by (simp add: prod_eq_iff)
  from scoped_system_isolated [OF h(1-3) this, of "\<lparr>res_id = 2, res_owner = Some None, res_cluster = None\<rparr>"] ctx show ?thesis
    by auto
qed

end
