(* ===== verification/Allocation.thy ===== *)
theory Allocation
  imports Events
begin

text \<open>
  Resource accounting of the scheduler, \<^verbatim>\<open>src/gpustack/policies/utils.py\<close>: what the current
  model instances allocate on a worker, what is left to allocate (also with unified memory),
  grouping of GPUs by free memory, grouping of workers by GPU type (on an explicit store, since
  it mutates shared status objects), claims, estimates and the orders used by the selectors.
\<close>

section \<open>Data\<close>

text \<open>What raises: a missing attribute, arithmetic on \<open>None\<close>, a missing key, a bad value, or a
  failure of code outside (file system, network).\<close>

datatype py_error = AttributeError | TypeErr | KeyError | IndexError | ValueErr | ZeroDivisionError | External

record resource_claim =
  cl_ram :: "int option"
  cl_vram :: "(int, int) dict option"
  cl_offload_layers :: "int option"
  cl_total_layers :: "int option"

datatype worker_state =
    WORKER_NOT_READY | WORKER_READY | WORKER_UNREACHABLE | WORKER_PENDING | WORKER_PROVISIONING
  | WORKER_INITIALIZING | WORKER_DELETING | WORKER_ERROR | WORKER_MAINTENANCE

datatype instance_state =
    INITIALIZING | PENDING | STARTING | RUNNING | SCHEDULED | ERROR | DOWNLOADING | ANALYZING | UNREACHABLE

record subordinate_worker =
  sw_worker_id :: "int option"
  sw_gpu_indexes :: "int list option"
  sw_claim :: "resource_claim option"

text \<open>\<open>mi_subs\<close>: \<open>distributed_servers.subordinate_workers\<close>, \<open>None\<close> when either is missing.\<close>

record model_instance =
  mi_model_id :: int
  mi_state :: instance_state
  mi_worker_id :: "int option"
  mi_gpu_type :: "string option"
  mi_gpu_indexes :: "int list option"
  mi_claim :: "resource_claim option"
  mi_subs :: "subordinate_worker list option"

record memory_info =
  mem_total :: "int option"
  mem_allocated :: "int option"
  mem_unified :: bool

record network_info =
  net_status :: string
  net_inet :: string

record gpu_device =
  gpu_index :: "int option"
  gpu_type :: "string option"
  gpu_memory :: "memory_info option"
  gpu_network :: "network_info option"

record worker_status =
  st_memory :: "memory_info option"
  st_gpus :: "gpu_device list option"

record system_reserved =
  rs_ram :: "int option"
  rs_vram :: "int option"

record worker =
  w_id :: int
  w_name :: string
  w_state :: worker_state
  w_status :: "worker_status option"
  w_reserved :: "system_reserved option"

record allocated =
  al_ram :: int
  al_vram :: "(int, int) dict"

text \<open>The keys of \<open>ab_vram\<close> are the \<open>index\<close> attributes of devices, which may be \<open>None\<close>.\<close>

record allocatable =
  ab_ram :: int
  ab_vram :: "(int option, int) dict"

record worker_gpu_info =
  wg_worker_id :: int
  wg_worker_name :: string
  wg_gpu_device :: gpu_device
  wg_vram :: int

abbreviation or0 :: "int option \<Rightarrow> int" where
  "or0 x \<equiv> (case x of None \<Rightarrow> 0 | Some n \<Rightarrow> n)"

abbreviation items :: "'a list option \<Rightarrow> 'a list" where
  "items x \<equiv> (case x of None \<Rightarrow> [] | Some xs \<Rightarrow> xs)"

definition attr :: "'a option \<Rightarrow> py_error + 'a" where
  "attr x = (case x of None \<Rightarrow> Inl AttributeError | Some v \<Rightarrow> Inr v)"

definition operand :: "'a option \<Rightarrow> py_error + 'a" where
  "operand x = (case x of None \<Rightarrow> Inl TypeErr | Some v \<Rightarrow> Inr v)"

section \<open>Allocated resources\<close>

definition add_vram :: "resource_claim \<Rightarrow> (int, int) dict \<Rightarrow> (int, int) dict" where
  "add_vram claim d = fold (\<lambda>(i, v). dincr i v) (items (cl_vram claim)) d"

definition counts_main :: "int \<Rightarrow> string option \<Rightarrow> model_instance \<Rightarrow> bool" where
  "counts_main wid t mi \<longleftrightarrow> mi_worker_id mi = Some wid \<and> (t = None \<or> mi_gpu_type mi = None \<or> mi_gpu_type mi = t)"

definition alloc_main :: "int \<Rightarrow> string option \<Rightarrow> model_instance \<Rightarrow> allocated \<Rightarrow> allocated" where
  "alloc_main wid t mi al =
     (if counts_main wid t mi then
        (case mi_claim mi of
           None \<Rightarrow> al
         | Some c \<Rightarrow>
             al\<lparr>al_ram := al_ram al + or0 (cl_ram c),
                al_vram := (if items (mi_gpu_indexes mi) \<noteq> [] then add_vram c (al_vram al) else al_vram al)\<rparr>)
      else al)"

definition alloc_sub :: "int \<Rightarrow> string option \<Rightarrow> model_instance \<Rightarrow> subordinate_worker \<Rightarrow> allocated \<Rightarrow> allocated" where
  "alloc_sub wid t mi sw al =
     (if sw_worker_id sw \<noteq> Some wid then al
      else case sw_claim sw of
             None \<Rightarrow> al
           | Some c \<Rightarrow> if t = None \<or> mi_gpu_type mi = t then al\<lparr>al_vram := add_vram c (al_vram al)\<rparr> else al)"

definition compute_worker_allocated :: "model_instance list \<Rightarrow> int \<Rightarrow> string option \<Rightarrow> allocated" where
  "compute_worker_allocated mis wid t =
     fold (\<lambda>mi al. fold (alloc_sub wid t mi) (items (mi_subs mi)) (alloc_main wid t mi al)) mis
       \<lparr>al_ram = 0, al_vram = []\<rparr>"

definition get_worker_model_instances :: "model_instance list \<Rightarrow> worker \<Rightarrow> model_instance list" where
  "get_worker_model_instances mis w =
     filter (\<lambda>mi. mi_worker_id mi = Some (w_id w) \<or>
                  (\<exists>sw \<in> set (items (mi_subs mi)). sw_worker_id sw = Some (w_id w))) mis"

section \<open>Allocatable resources\<close>

fun allocatable_vram ::
  "system_reserved option \<Rightarrow> (int, int) dict \<Rightarrow> string option \<Rightarrow> gpu_device list \<Rightarrow>
   (int option, int) dict \<Rightarrow> py_error + (int option, int) dict" where
  "allocatable_vram rs al t [] d = Inr d"
| "allocatable_vram rs al t (g # gs) d =
     (case Option.bind (gpu_memory g) mem_total of
        None \<Rightarrow> allocatable_vram rs al t gs d
      | Some tot \<Rightarrow>
          if t \<noteq> None \<and> gpu_type g \<noteq> t then allocatable_vram rs al t gs d
          else bind_err (attr rs) (\<lambda>r. bind_err (operand (rs_vram r)) (\<lambda>rv.
                 allocatable_vram rs al t gs
                   (dput (gpu_index g)
                      (max (tot - (case gpu_index g of Some i \<Rightarrow> dget0 al i | None \<Rightarrow> 0) - rv) 0) d))))"

text \<open>The unified-memory correction: \<open>vram[0]\<close> raises \<open>KeyError\<close> when device 0 is not there.\<close>

definition unified_adjust :: "int \<Rightarrow> (int, int) dict \<Rightarrow> allocatable \<Rightarrow> py_error + allocatable" where
  "unified_adjust rv al ab =
     (let ram = max (ab_ram ab - rv - sum_list (dvals al)) 0
      in if ab_vram ab = [] then Inr (ab\<lparr>ab_ram := ram\<rparr>)
         else case dget (ab_vram ab) (Some 0) of
                None \<Rightarrow> Inl KeyError
              | Some v \<Rightarrow> Inr (ab\<lparr>ab_ram := ram, ab_vram := dput (Some 0) (min ram v) (ab_vram ab)\<rparr>))"

definition get_worker_allocatable_resource ::
  "model_instance list \<Rightarrow> worker \<Rightarrow> string option \<Rightarrow> py_error + allocatable" where
  "get_worker_allocatable_resource mis w t =
     bind_err (attr (w_status w)) (\<lambda>st.
     bind_err (attr (st_memory st)) (\<lambda>mem.
       let al = compute_worker_allocated (get_worker_model_instances mis w) (w_id w) t
       in bind_err (allocatable_vram (w_reserved w) (al_vram al) t (items (st_gpus st)) []) (\<lambda>vram.
          bind_err (operand (mem_total mem)) (\<lambda>tot.
          bind_err (attr (w_reserved w)) (\<lambda>rs.
          bind_err (operand (rs_ram rs)) (\<lambda>rr.
            let ab = \<lparr>ab_ram = max (tot - al_ram al - rr) 0, ab_vram = vram\<rparr>
            in if mem_unified mem
               then bind_err (operand (rs_vram rs)) (\<lambda>rv. unified_adjust rv (al_vram al) ab)
               else Inr ab))))))"

definition ram_not_enough :: "int \<Rightarrow> allocatable \<Rightarrow> bool" where
  "ram_not_enough ram_claim ab \<longleftrightarrow> \<not> ram_claim \<le> 0 \<and> ab_ram ab < ram_claim"

section \<open>Groups of GPUs of similar free memory\<close>

text \<open>
  The loop both grouping functions contain: the current group is closed as soon as its first
  (smallest) element is below 0.9 times the next one.
\<close>

fun group_loop :: "('a \<Rightarrow> int) \<Rightarrow> 'a list list \<Rightarrow> 'a list \<Rightarrow> 'a list \<Rightarrow> 'a list list" where
  "group_loop f groups cur [] = (if cur = [] then groups else groups @ [cur])"
| "group_loop f groups cur (g # gs) =
     (if cur = [] then group_loop f groups [g] gs
      else if rat_of_int (f (hd cur)) \<ge> rat_of_int (f g) * (9 / 10) then group_loop f groups (cur @ [g]) gs
      else group_loop f (groups @ [cur]) [g] gs)"

definition get_allocatable_memory :: "gpu_device \<Rightarrow> int option" where
  "get_allocatable_memory g =
     (case gpu_memory g of
        None \<Rightarrow> None
      | Some m \<Rightarrow> (case mem_total m of None \<Rightarrow> None | Some tot \<Rightarrow> Some (tot - or0 (mem_allocated m))))"

definition group_gpu_devices_by_memory :: "gpu_device list \<Rightarrow> gpu_device list list" where
  "group_gpu_devices_by_memory gpus =
     (let valid = filter (\<lambda>g. case get_allocatable_memory g of None \<Rightarrow> False | Some m \<Rightarrow> m > 0) gpus;
          key = (\<lambda>g. the (get_allocatable_memory g))
      in group_loop key [] [] (sort_key key valid))"

fun collect_worker_gpus :: "allocatable \<Rightarrow> worker \<Rightarrow> gpu_device list \<Rightarrow> worker_gpu_info list" where
  "collect_worker_gpus ab w [] = []"
| "collect_worker_gpus ab w (g # gs) =
     (if gpu_index g = None then collect_worker_gpus ab w gs
      else if gpu_memory g = None \<or> mem_total (the (gpu_memory g)) = Some 0 then collect_worker_gpus ab w gs
      else let v = dget0 (ab_vram ab) (gpu_index g)
           in (if v > 0 then [\<lparr>wg_worker_id = w_id w, wg_worker_name = w_name w, wg_gpu_device = g, wg_vram = v\<rparr>] else [])
              @ collect_worker_gpus ab w gs)"

fun collect_workers_gpus ::
  "model_instance list \<Rightarrow> int \<Rightarrow> string option \<Rightarrow> worker list \<Rightarrow> py_error + worker_gpu_info list" where
  "collect_workers_gpus mis ram_claim t [] = Inr []"
| "collect_workers_gpus mis ram_claim t (w # ws) =
     (let gpus = (case w_status w of None \<Rightarrow> [] | Some st \<Rightarrow> items (st_gpus st))
      in if gpus = [] then collect_workers_gpus mis ram_claim t ws
         else bind_err (get_worker_allocatable_resource mis w t) (\<lambda>ab.
                if ram_not_enough ram_claim ab then collect_workers_gpus mis ram_claim t ws
                else bind_err (collect_workers_gpus mis ram_claim t ws) (\<lambda>r.
                     Inr (collect_worker_gpus ab w gpus @ r))))"

definition group_worker_gpu_by_memory ::
  "worker list \<Rightarrow> model_instance list \<Rightarrow> int \<Rightarrow> string option \<Rightarrow> py_error + worker_gpu_info list list" where
  "group_worker_gpu_by_memory ws mis ram_claim t =
     bind_err (collect_workers_gpus mis ram_claim t ws) (\<lambda>infos.
       Inr (group_loop wg_vram [] [] (sort_key wg_vram infos)))"

section \<open>Workers by GPU type\<close>

text \<open>
  \<open>model_copy()\<close> is shallow: the copy's \<open>status\<close> is the same object as the original's. A
  worker reference is its id and the address of its status object; the store maps an
  address to the \<open>gpu_devices\<close> of that status (\<open>None\<close>: the worker has no status).
\<close>

record worker_ref =
  wr_id :: int
  wr_status :: "nat option"

type_synonym status_store = "nat \<Rightarrow> gpu_device list"

text \<open>The list \<open>d.setdefault(k, [])\<close> refers to.\<close>

definition entry :: "('k, 'a list) dict \<Rightarrow> 'k \<Rightarrow> 'a list" where
  "entry d k = (case dget d k of None \<Rightarrow> [] | Some xs \<Rightarrow> xs)"

definition gpus_by_type :: "gpu_device list \<Rightarrow> (string option, gpu_device list) dict" where
  "gpus_by_type gpus = fold (\<lambda>g d. dput (gpu_type g) (entry d (gpu_type g) @ [g]) d) gpus []"

fun copy_per_type ::
  "worker_ref \<Rightarrow> nat \<Rightarrow> (string option \<times> gpu_device list) list \<Rightarrow> status_store \<times> (string option, worker_ref list) dict \<Rightarrow>
   status_store \<times> (string option, worker_ref list) dict" where
  "copy_per_type w a [] (st, d) = (st, d)"
| "copy_per_type w a ((t, gpus) # ts) (st, d) =
     copy_per_type w a ts (st(a := gpus), dput t (entry d t @ [w]) d)"

definition group_worker ::
  "worker_ref \<Rightarrow> status_store \<times> (string option, worker_ref list) dict \<Rightarrow> status_store \<times> (string option, worker_ref list) dict" where
  "group_worker w sd =
     (let (st, d) = sd
      in case wr_status w of
           None \<Rightarrow> (st, dput None (entry d None @ [w]) d)
         | Some a \<Rightarrow>
             if st a = [] then (st, dput None (entry d None @ [w]) d)
             else copy_per_type w a (gpus_by_type (st a)) (st, d))"

definition group_workers_by_gpu_type ::
  "worker_ref list \<Rightarrow> status_store \<Rightarrow> status_store \<times> (string option, worker_ref list) dict" where
  "group_workers_by_gpu_type ws st = fold group_worker ws (st, [])"

section \<open>Claims of a model\<close>

datatype category = LLM | EMBEDDING | IMAGE | RERANKER | SPEECH_TO_TEXT | TEXT_TO_SPEECH | UNKNOWN_CATEGORY

datatype model_source = HUGGING_FACE | MODEL_SCOPE | LOCAL_PATH

record extended_kv_cache =
  kv_enabled :: bool
  kv_ram_ratio :: "rat option"
  kv_ram_size :: "int option"

record model =
  md_env :: "(string, string) dict"
  md_gpu_ids :: "string list"
  md_categories :: "category list"
  md_source :: model_source
  md_has_lora :: bool
  md_kv_cache :: "extended_kv_cache option"

definition get_vram_claim_from_model_env :: "model \<Rightarrow> int option" where
  "get_vram_claim_from_model_env m = Option.bind (dget (md_env m) ''GPUSTACK_MODEL_VRAM_CLAIM'') py_int"

definition should_skip_gpu_count_check :: "model \<Rightarrow> bool" where
  "should_skip_gpu_count_check m =
     (if md_gpu_ids m = [] then False
      else case dget (md_env m) ''GPUSTACK_SKIP_GPU_COUNT_CHECK'' of
             None \<Rightarrow> False
           | Some v \<Rightarrow> py_lower (py_strip v) \<in> {''1'', ''true'', ''yes'', ''on''})"

definition is_llm_model :: "model \<Rightarrow> bool" where
  "is_llm_model m \<longleftrightarrow> md_categories m = [] \<or> LLM \<in> set (md_categories m)"

text \<open>
  What the world outside answers while weights are measured: the sizes of ready model files
  in the database (\<open>mf_sizes\<close>: readiness and size), the hub (\<open>Inl\<close>: it raised or timed out),
  the local path, the workers in the order their answers arrive, whether the 15 seconds around
  the image branch expire, and the adapters.
\<close>

record weight_env =
  we_session :: bool
  we_source_index :: string
  we_model_files :: "(bool \<times> int option) list"
  we_hub :: "py_error + int"
  we_diffusion_hub :: "py_error + int"
  we_path :: "(py_error + int) option"
  we_workers :: "int option list"
  we_image_timeout :: bool
  we_lora :: "py_error + int"

definition get_cached_model_size :: "weight_env \<Rightarrow> int option" where
  "get_cached_model_size e =
     (if \<not> we_session e \<or> we_source_index e = [] then None
      else Option.bind (find (\<lambda>(ready, size). ready \<and> or0 size \<noteq> 0) (we_model_files e)) snd)"

text \<open>With workers but no answer, the function ends without \<open>return\<close>: its value is \<open>None\<close>.\<close>

definition get_local_model_weight_size :: "weight_env \<Rightarrow> py_error + int option" where
  "get_local_model_weight_size e =
     (case we_path e of
        Some r \<Rightarrow> bind_err r (\<lambda>n. Inr (Some n))
      | None \<Rightarrow>
          if we_workers e = [] then Inl External
          else Inr (case find (\<lambda>a. a \<noteq> None) (we_workers e) of None \<Rightarrow> None | Some a \<Rightarrow> a))"

definition local_weight :: "weight_env \<Rightarrow> py_error + int option" where
  "local_weight e =
     (case get_cached_model_size e of
        Some n \<Rightarrow> Inr (Some n)
      | None \<Rightarrow> get_local_model_weight_size e)"

text \<open>\<open>Inl\<close> results inside the \<open>try\<close> leave the weight at 0.\<close>

definition swallow :: "py_error + int option \<Rightarrow> int option" where
  "swallow r = (case r of Inl _ \<Rightarrow> Some 0 | Inr v \<Rightarrow> v)"

definition estimate_diffusion_model_vram :: "weight_env \<Rightarrow> model \<Rightarrow> py_error + int option" where
  "estimate_diffusion_model_vram e m =
     (case dget (md_env m) ''GPUSTACK_MODEL_VRAM_CLAIM'' of
        Some s \<Rightarrow> (case py_int s of Some n \<Rightarrow> Inr (Some n) | None \<Rightarrow> Inl ValueErr)
      | None \<Rightarrow>
          Inr (swallow (if md_source m = LOCAL_PATH then local_weight e
                        else bind_err (we_diffusion_hub e) (\<lambda>n. Inr (Some n)))))"

definition vram_formula :: "weight_env \<Rightarrow> model \<Rightarrow> int option \<Rightarrow> py_error + int" where
  "vram_formula e m weight =
     (let factor = (if TEXT_TO_SPEECH \<in> set (md_categories m) then 3 else 12 / 10);
          overhead = (if is_llm_model m then 2 * 1024 ^ 3 else 512 * 1024 ^ 2);
          lora = (if md_has_lora m then (case we_lora e of Inl _ \<Rightarrow> 0 | Inr n \<Rightarrow> n) else 0)
      in bind_err (operand weight) (\<lambda>w. Inr (py_trunc (rat_of_int (w + lora) * factor) + overhead)))"

text \<open>\<open>Inr None\<close>: the image branch returns the \<open>None\<close> it got.\<close>

definition estimate_model_vram :: "weight_env \<Rightarrow> model \<Rightarrow> py_error + int option" where
  "estimate_model_vram e m =
     (case get_vram_claim_from_model_env m of
        Some n \<Rightarrow> Inr (Some n)
      | None \<Rightarrow>
          if IMAGE \<in> set (md_categories m) then
            (case (if we_image_timeout e then Inl External else estimate_diffusion_model_vram e m) of
               Inr v \<Rightarrow> Inr v
             | Inl _ \<Rightarrow> bind_err (vram_formula e m (Some 0)) (\<lambda>n. Inr (Some n)))
          else
            bind_err (vram_formula e m
              (swallow (if md_source m = LOCAL_PATH then local_weight e
                        else bind_err (we_hub e) (\<lambda>n. Inr (Some n))))) (\<lambda>n. Inr (Some n)))"

definition get_model_ram_claim :: "model \<Rightarrow> int" where
  "get_model_ram_claim m =
     (case md_kv_cache m of
        None \<Rightarrow> 0
      | Some kv \<Rightarrow> if kv_enabled kv \<and> or0 (kv_ram_size kv) > 0 then or0 (kv_ram_size kv) * 1024 ^ 3 else 0)"

definition get_computed_ram_claim :: "model \<Rightarrow> (int, int) dict \<Rightarrow> int option \<Rightarrow> int option" where
  "get_computed_ram_claim m vram_claim static_ram =
     (if or0 static_ram \<noteq> 0 then static_ram
      else case md_kv_cache m of
             None \<Rightarrow> None
           | Some kv \<Rightarrow>
               if \<not> kv_enabled kv then None
               else if or0 (kv_ram_size kv) > 0 then Some (or0 (kv_ram_size kv) * 1024 ^ 3)
               else (case kv_ram_ratio kv of
                       None \<Rightarrow> None
                     | Some r \<Rightarrow>
                         if r > 0 \<and> vram_claim \<noteq> [] then Some (py_trunc (rat_of_int (sum_list (dvals vram_claim)) * r)) else None))"

section \<open>Orders\<close>

definition gpu_count :: "worker \<Rightarrow> int" where
  "gpu_count w = (case w_status w of None \<Rightarrow> 0 | Some st \<Rightarrow> int (length (items (st_gpus st))))"

definition sort_workers_by_gpu_count :: "worker list \<Rightarrow> worker list" where
  "sort_workers_by_gpu_count ws = sort_desc gpu_count ws"

definition allocatable_rates ::
  "gpu_device list \<Rightarrow> (int option, int) dict \<Rightarrow> string option \<Rightarrow> (int option, rat) dict" where
  "allocatable_rates gpus ab t =
     fold (\<lambda>g. dput (gpu_index g)
        (let tot = or0 (Option.bind (gpu_memory g) mem_total)
         in if tot \<noteq> 0 \<and> (t = None \<or> gpu_type g = t)
            then rat_of_int (dget0 ab (gpu_index g)) / rat_of_int tot else 0)) gpus []"

definition sort_gpu_indexes_by_allocatable_rate ::
  "worker \<Rightarrow> (int option, int) dict \<Rightarrow> string option \<Rightarrow> py_error + int option list" where
  "sort_gpu_indexes_by_allocatable_rate w ab t =
     bind_err (attr (w_status w)) (\<lambda>st.
     bind_err (operand (st_gpus st)) (\<lambda>gpus.
       let rates = allocatable_rates gpus ab t
       in Inr (sort_desc (dget0 rates) (dkeys rates))))"

fun select_workers ::
  "(worker \<Rightarrow> string option \<Rightarrow> py_error + allocatable) \<Rightarrow> string option \<Rightarrow> (string, int list) dict \<Rightarrow> worker list \<Rightarrow>
   py_error + worker list" where
  "select_workers get_ab t sel [] = Inr []"
| "select_workers get_ab t sel (w # ws) =
     (let gpus = (case w_status w of None \<Rightarrow> [] | Some st \<Rightarrow> items (st_gpus st));
          idxs = items (dget sel (w_name w))
      in if gpus = [] \<or> idxs = [] then select_workers get_ab t sel ws
         else bind_err (get_ab w t) (\<lambda>ab.
              bind_err (sort_gpu_indexes_by_allocatable_rate w (ab_vram ab) None) (\<lambda>order.
                let sorted_idxs = filter (\<lambda>i. i \<in> Some ` set idxs) order;
                    sorted_gpus = [g. i \<leftarrow> sorted_idxs, g \<leftarrow> gpus, gpu_index g = i \<and> (t = None \<or> gpu_type g = t)];
                    w' = w\<lparr>w_status := map_option (\<lambda>st. st\<lparr>st_gpus := Some sorted_gpus\<rparr>) (w_status w)\<rparr>
                in bind_err (select_workers get_ab t sel ws) (\<lambda>r. Inr (w' # r)))))"

fun sort_selected_workers_by_gpu_type_and_resource ::
  "worker list \<Rightarrow> (string option, (string, int list) dict) dict \<Rightarrow>
   (worker \<Rightarrow> string option \<Rightarrow> py_error + allocatable) \<Rightarrow> py_error + (string option, worker list) dict" where
  "sort_selected_workers_by_gpu_type_and_resource ws [] get_ab = Inr []"
| "sort_selected_workers_by_gpu_type_and_resource ws ((t, sel) # sels) get_ab =
     bind_err (select_workers get_ab t sel ws) (\<lambda>sw.
     bind_err (sort_selected_workers_by_gpu_type_and_resource ws sels get_ab) (\<lambda>r.
       Inr ((t, sort_workers_by_gpu_count sw) # r)))"

section \<open>Messages\<close>

text \<open>The first assignment of the constructor is overwritten: \<open>None\<close> gives the list \<open>[None]\<close>.\<close>

definition list_message_builder :: "pyval \<Rightarrow> pyval list" where
  "list_message_builder messages = (case messages of VList xs \<Rightarrow> xs | v \<Rightarrow> [v])"

definition builder_append :: "pyval \<Rightarrow> pyval list \<Rightarrow> pyval list" where
  "builder_append m ms = ms @ [m]"

definition builder_extend :: "pyval list \<Rightarrow> pyval list \<Rightarrow> pyval list" where
  "builder_extend new ms = ms @ new"

section \<open>Attention heads\<close>

text \<open>Truth of a configuration value, and the lookups that accept objects and dictionaries.\<close>

fun py_truth :: "pyval \<Rightarrow> bool" where
  "py_truth VNone = False"
| "py_truth (VInt n) = (n \<noteq> 0)"
| "py_truth (VStr s) = (s \<noteq> [])"
| "py_truth (VList xs) = (xs \<noteq> [])"
| "py_truth (VDict d) = (d \<noteq> [])"
| "py_truth (VObj _) = True"

definition get_heads_from :: "pyval \<Rightarrow> int option" where
  "get_heads_from cfg = (case py_getattr cfg ''num_attention_heads'' of VInt n \<Rightarrow> if n > 0 then Some n else None | _ \<Rightarrow> None)"

fun first_heads :: "pyval list \<Rightarrow> int option" where
  "first_heads [] = None"
| "first_heads (c # cs) =
     (if \<not> py_truth c then first_heads cs
      else case get_heads_from c of Some n \<Rightarrow> Some n | None \<Rightarrow> first_heads cs)"

definition get_model_num_attention_heads :: "pyval \<Rightarrow> int option" where
  "get_model_num_attention_heads cfg =
     (let thinker = py_getattr cfg ''thinker_config'';
          thinker_text = (if py_truth thinker then py_getattr thinker ''text_config'' else VNone)
      in first_heads [py_getattr cfg ''llm_config'', py_getattr cfg ''text_config'', cfg, thinker_text])"

fun get_config_value :: "pyval \<Rightarrow> string \<Rightarrow> pyval" where
  "get_config_value VNone k = VNone"
| "get_config_value (VDict d) k = get_or_none d k"
| "get_config_value v k = py_getattr v k"

definition get_config_int :: "pyval \<Rightarrow> string \<Rightarrow> int option" where
  "get_config_int cfg k = (case get_config_value cfg k of VInt n \<Rightarrow> Some n | _ \<Rightarrow> None)"

definition get_model_vision_num_attention_heads :: "pyval \<Rightarrow> int option" where
  "get_model_vision_num_attention_heads cfg =
     (let vision = get_config_value cfg ''vision_config''
      in if \<not> py_truth vision then None
         else let heads = (case get_config_int vision ''num_attention_heads'' of
                             Some n \<Rightarrow> Some n
                           | None \<Rightarrow> get_config_int vision ''num_heads'')
              in case heads of
                   None \<Rightarrow> None
                 | Some n \<Rightarrow> if n \<le> 0 then None else Some (n + max (or0 (get_config_int vision ''num_dummy_heads'')) 0))"

section \<open>Lemmas on allocated resources\<close>

text \<open>The specification: sums over the claims that concern the worker.\<close>

definition claim_vram :: "resource_claim \<Rightarrow> int \<Rightarrow> int" where
  "claim_vram c i = sum_list (map snd (filter (\<lambda>(j, _). j = i) (items (cl_vram c))))"

definition main_vram :: "int \<Rightarrow> string option \<Rightarrow> model_instance \<Rightarrow> int \<Rightarrow> int" where
  "main_vram wid t mi i =
     (if counts_main wid t mi \<and> items (mi_gpu_indexes mi) \<noteq> []
      then (case mi_claim mi of None \<Rightarrow> 0 | Some c \<Rightarrow> claim_vram c i) else 0)"

definition sub_vram :: "int \<Rightarrow> string option \<Rightarrow> model_instance \<Rightarrow> int \<Rightarrow> subordinate_worker \<Rightarrow> int" where
  "sub_vram wid t mi i sw =
     (if sw_worker_id sw = Some wid \<and> (t = None \<or> mi_gpu_type mi = t)
      then (case sw_claim sw of None \<Rightarrow> 0 | Some c \<Rightarrow> claim_vram c i) else 0)"

definition instance_vram :: "int \<Rightarrow> string option \<Rightarrow> int \<Rightarrow> model_instance \<Rightarrow> int" where
  "instance_vram wid t i mi = main_vram wid t mi i + sum_list (map (sub_vram wid t mi i) (items (mi_subs mi)))"

definition instance_ram :: "int \<Rightarrow> string option \<Rightarrow> model_instance \<Rightarrow> int" where
  "instance_ram wid t mi =
     (if counts_main wid t mi then (case mi_claim mi of None \<Rightarrow> 0 | Some c \<Rightarrow> or0 (cl_ram c)) else 0)"

lemma dget0_add_vram: "dget0 (add_vram c d) i = dget0 d i + claim_vram c i"
proof -
  have "dget0 (fold (\<lambda>(i, v). dincr i v) xs d) i = dget0 d i + sum_list (map snd (filter (\<lambda>(j, _). j = i) xs))"
    for xs :: "(int \<times> int) list"
    by (induction xs arbitrary: d) (auto simp: dict_simps)
  then show ?thesis by (simp add: add_vram_def claim_vram_def)
qed

lemma alloc_main_step:
  "al_ram (alloc_main wid t mi al) = al_ram al + instance_ram wid t mi"
  "dget0 (al_vram (alloc_main wid t mi al)) i = dget0 (al_vram al) i + main_vram wid t mi i"
  by (auto simp: alloc_main_def instance_ram_def main_vram_def dget0_add_vram split: option.splits)

lemma alloc_sub_step:
  "al_ram (alloc_sub wid t mi sw al) = al_ram al"
  "dget0 (al_vram (alloc_sub wid t mi sw al)) i = dget0 (al_vram al) i + sub_vram wid t mi i sw"
  by (auto simp: alloc_sub_def sub_vram_def dget0_add_vram split: option.splits)

lemma alloc_subs_fold:
  "al_ram (fold (alloc_sub wid t mi) sws al) = al_ram al"
  "dget0 (al_vram (fold (alloc_sub wid t mi) sws al)) i = dget0 (al_vram al) i + sum_list (map (sub_vram wid t mi i) sws)"
  by (induction sws arbitrary: al) (simp_all add: alloc_sub_step)

lemma allocated_sums:
  "al_ram (compute_worker_allocated mis wid t) = sum_list (map (instance_ram wid t) mis) \<and>
   dget0 (al_vram (compute_worker_allocated mis wid t)) i = sum_list (map (instance_vram wid t i) mis)"
proof -
  have "al_ram (fold (\<lambda>mi al. fold (alloc_sub wid t mi) (items (mi_subs mi)) (alloc_main wid t mi al)) mis al) =
          al_ram al + sum_list (map (instance_ram wid t) mis) \<and>
        dget0 (al_vram (fold (\<lambda>mi al. fold (alloc_sub wid t mi) (items (mi_subs mi)) (alloc_main wid t mi al)) mis al)) i =
          dget0 (al_vram al) i + sum_list (map (instance_vram wid t i) mis)" for al
    by (induction mis arbitrary: al) (simp_all add: alloc_subs_fold alloc_main_step instance_vram_def)
  then show ?thesis by (simp add: compute_worker_allocated_def)
qed

lemma irrelevant_instance:
  assumes "\<not> (mi_worker_id mi = Some wid \<or> (\<exists>sw \<in> set (items (mi_subs mi)). sw_worker_id sw = Some wid))"
  shows "fold (alloc_sub wid t mi) (items (mi_subs mi)) (alloc_main wid t mi al) = al"
proof -
  have skip: "fold (alloc_sub wid t mi) sws al = al" if "\<forall>sw \<in> set sws. sw_worker_id sw \<noteq> Some wid" for sws
    using that by (induction sws) (auto simp: alloc_sub_def)
  have "alloc_main wid t mi al = al" using assms by (simp add: alloc_main_def counts_main_def)
  moreover have "\<forall>sw \<in> set (items (mi_subs mi)). sw_worker_id sw \<noteq> Some wid" using assms by blast
  ultimately show ?thesis using skip by presburger
qed

lemma allocated_relevant:
  "compute_worker_allocated (get_worker_model_instances mis w) (w_id w) t = compute_worker_allocated mis (w_id w) t"
proof -
  have "fold f (filter P mis) al = fold f mis al" if "\<And>mi al. \<not> P mi \<Longrightarrow> f mi al = al"
    for P and f :: "model_instance \<Rightarrow> allocated \<Rightarrow> allocated" and al
    using that by (induction mis arbitrary: al) auto
  then show ?thesis
    unfolding compute_worker_allocated_def get_worker_model_instances_def using irrelevant_instance by presburger
qed

section \<open>Lemmas on allocatable resources\<close>

lemma allocatable_vram_Inr:
  assumes "allocatable_vram rs al t gs d = Inr d'" and "dget d' i = Some v"
  shows "dget d i = Some v \<or>
    (\<exists>g \<in> set gs. \<exists>tot r rv. gpu_index g = i \<and> (t = None \<or> gpu_type g = t) \<and> Option.bind (gpu_memory g) mem_total = Some tot \<and>
       rs = Some r \<and> rs_vram r = Some rv \<and> v = max (tot - (case i of Some n \<Rightarrow> dget0 al n | None \<Rightarrow> 0) - rv) 0)"
  using assms
proof (induction gs arbitrary: d)
  case (Cons g gs)
  show ?case
  proof (cases "\<exists>tot. Option.bind (gpu_memory g) mem_total = Some tot \<and> (t = None \<or> gpu_type g = t)")
    case False
    with Cons.prems have "allocatable_vram rs al t gs d = Inr d'" by (auto split: option.splits if_splits)
    from Cons.IH [OF this Cons.prems(2)] show ?thesis by auto
  next
    case True
    then obtain tot where g: "Option.bind (gpu_memory g) mem_total = Some tot" "t = None \<or> gpu_type g = t" by blast
    with Cons.prems(1) obtain r rv where r: "rs = Some r" "rs_vram r = Some rv"
        "allocatable_vram rs al t gs (dput (gpu_index g) (max (tot - (case gpu_index g of Some i \<Rightarrow> dget0 al i | None \<Rightarrow> 0) - rv) 0) d) = Inr d'"
      by (auto simp: bind_err_eq_Inr attr_def operand_def split: option.splits if_splits)
    from Cons.IH [OF r(3) Cons.prems(2)] g r(1,2) show ?thesis by (fastforce simp: dict_simps split: if_splits)
  qed
qed simp

lemma get_allocatable_Inr:
  assumes "get_worker_allocatable_resource mis w t = Inr ab"
  obtains st mem vram tot rs rr where
    "w_status w = Some st" "st_memory st = Some mem" "mem_total mem = Some tot" "w_reserved w = Some rs" "rs_ram rs = Some rr"
    "allocatable_vram (Some rs) (al_vram (compute_worker_allocated mis (w_id w) t)) t (items (st_gpus st)) [] = Inr vram"
    "if mem_unified mem
     then \<exists>rv. rs_vram rs = Some rv \<and> unified_adjust rv (al_vram (compute_worker_allocated mis (w_id w) t))
            \<lparr>ab_ram = max (tot - al_ram (compute_worker_allocated mis (w_id w) t) - rr) 0, ab_vram = vram\<rparr> = Inr ab
     else ab = \<lparr>ab_ram = max (tot - al_ram (compute_worker_allocated mis (w_id w) t) - rr) 0, ab_vram = vram\<rparr>"
  using assms
  by (auto simp: get_worker_allocatable_resource_def allocated_relevant bind_err_eq_Inr attr_def operand_def Let_def
      split: option.splits if_splits)

section \<open>Groups of similar memory\<close>

text \<open>Every member is within a factor 0.9 of the first, and a group ends only because the next
  device would break that.\<close>

definition balanced :: "('a \<Rightarrow> int) \<Rightarrow> 'a list \<Rightarrow> bool" where
  "balanced f g \<longleftrightarrow> g \<noteq> [] \<and> (\<forall>y \<in> set g. rat_of_int (f y) * (9 / 10) \<le> rat_of_int (f (hd g)))"

definition separated :: "('a \<Rightarrow> int) \<Rightarrow> 'a list \<Rightarrow> 'a list \<Rightarrow> bool" where
  "separated f g h \<longleftrightarrow> rat_of_int (f (hd g)) < rat_of_int (f (hd h)) * (9 / 10)"

lemma group_loop_concat: "concat (group_loop f gs cur xs) = concat gs @ cur @ xs"
  by (induction f gs cur xs rule: group_loop.induct) auto

lemma balanced_single: "0 \<le> f x \<Longrightarrow> balanced f [x]"
  by (simp add: balanced_def)

lemma successively_snoc: "successively P (xs @ [x]) \<longleftrightarrow> successively P xs \<and> (xs = [] \<or> P (last xs) x)"
  by (auto simp: successively_append_iff)

lemma group_loop_balanced:
  assumes "list_all (balanced f) gs" and "cur = [] \<or> balanced f cur" and "\<forall>x \<in> set xs. 0 \<le> f x"
    and "successively (separated f) gs" and "gs = [] \<or> cur \<noteq> [] \<and> separated f (last gs) cur"
  shows "list_all (balanced f) (group_loop f gs cur xs) \<and> successively (separated f) (group_loop f gs cur xs)"
  using assms
proof (induction f gs cur xs rule: group_loop.induct)
  case (2 f gs cur g xs)
  have one: "balanced f [g]" using 2(6) by (intro balanced_single) simp
  consider "cur = []" | "cur \<noteq> []" "rat_of_int (f g) * (9 / 10) \<le> rat_of_int (f (hd cur))"
    | "cur \<noteq> []" "\<not> rat_of_int (f g) * (9 / 10) \<le> rat_of_int (f (hd cur))" by blast
  then show ?case
  proof cases
    case 1
    with 2 one show ?thesis by auto
  next
    case c2: 2
    then have "balanced f (cur @ [g])" "separated f (last gs) (cur @ [g]) = separated f (last gs) cur"
      using 2(5) by (auto simp: balanced_def separated_def)
    with 2(2) [OF c2(1)] c2 2(4-) show ?thesis by simp
  next
    case 3
    then have "separated f cur [g]" by (simp add: separated_def)
    with 3 2(3) [OF 3(1)] 2(4-) one show ?thesis by (auto simp: successively_snoc)
  qed
qed (auto simp: successively_snoc)

text \<open>
  What a selector relies on when it spreads a model evenly over the devices of one group.
\<close>

locale memory_groups =
  fixes mem :: "'a \<Rightarrow> int"
    and groups :: "'a list \<Rightarrow> 'a list list"
  assumes covers: "concat (groups xs) = sort_key mem xs"
    and ratio: "(\<forall>x \<in> set xs. 0 \<le> mem x) \<Longrightarrow> g \<in> set (groups xs) \<Longrightarrow> balanced mem g"
begin

lemma member_iff: "(\<exists>g \<in> set (groups xs). x \<in> set g) \<longleftrightarrow> x \<in> set xs"
  using arg_cong [OF covers, of set] by auto

text \<open>Using the smallest member's memory on every device wastes at most a tenth of the group.\<close>

lemma even_split:
  assumes "\<forall>x \<in> set xs. 0 \<le> mem x" and "g \<in> set (groups xs)"
  shows "rat_of_int (sum_list (map mem g)) * (9 / 10) \<le> of_nat (length g) * rat_of_int (mem (hd g))"
proof -
  have "\<forall>y \<in> set g. rat_of_int (mem y) * (9 / 10) \<le> rat_of_int (mem (hd g))" using ratio [OF assms] by (simp add: balanced_def)
  then have "rat_of_int (sum_list (map mem ys)) * (9 / 10) \<le> of_nat (length ys) * rat_of_int (mem (hd g))" if "set ys \<subseteq> set g" for ys
    using that by (induction ys) (auto simp: algebra_simps)
  then show ?thesis by simp
qed

end

lemma group_loop_start:
  assumes "\<forall>x \<in> set xs. 0 \<le> f x"
  shows "list_all (balanced f) (group_loop f [] [] (sort_key f xs)) \<and> successively (separated f) (group_loop f [] [] (sort_key f xs))"
  using assms by (intro group_loop_balanced) auto

interpretation worker_gpus: memory_groups wg_vram "\<lambda>xs. group_loop wg_vram [] [] (sort_key wg_vram xs)"
  using group_loop_start [of _ wg_vram] by unfold_locales (auto simp: group_loop_concat list_all_iff)

interpretation gpu_devices: memory_groups "\<lambda>g. the (get_allocatable_memory g)"
  "\<lambda>xs. group_loop (\<lambda>g. the (get_allocatable_memory g)) [] [] (sort_key (\<lambda>g. the (get_allocatable_memory g)) xs)"
  using group_loop_start [of _ "\<lambda>g. the (get_allocatable_memory g)"]
  by unfold_locales (auto simp: group_loop_concat list_all_iff)

lemma collect_worker_gpus_pos: "x \<in> set (collect_worker_gpus ab w gs) \<Longrightarrow> 0 < wg_vram x \<and> wg_worker_id x = w_id w \<and>
   wg_gpu_device x \<in> set gs \<and> wg_vram x = dget0 (ab_vram ab) (gpu_index (wg_gpu_device x))"
  by (induction gs) (auto simp: Let_def split: if_splits)

lemma collect_workers_gpus_Inr:
  "collect_workers_gpus mis rc t ws = Inr infos \<Longrightarrow> x \<in> set infos \<Longrightarrow>
   \<exists>w ab. w \<in> set ws \<and> get_worker_allocatable_resource mis w t = Inr ab \<and> \<not> ram_not_enough rc ab \<and> wg_worker_id x = w_id w \<and>
     0 < wg_vram x \<and> dget (ab_vram ab) (gpu_index (wg_gpu_device x)) = Some (wg_vram x)"
proof (induction ws arbitrary: infos)
  case (Cons w ws)
  show ?case
  proof (cases "\<exists>r. collect_workers_gpus mis rc t ws = Inr r \<and> x \<in> set r")
    case True
    with Cons.IH show ?thesis by (meson list.set_intros(2))
  next
    case False
    with Cons.prems obtain ab gs where "get_worker_allocatable_resource mis w t = Inr ab" "\<not> ram_not_enough rc ab"
        "x \<in> set (collect_worker_gpus ab w gs)"
      by (auto simp: Let_def bind_err_eq_Inr split: if_splits)
    moreover from collect_worker_gpus_pos [OF this(3)]
    have "wg_worker_id x = w_id w" "0 < wg_vram x" "dget (ab_vram ab) (gpu_index (wg_gpu_device x)) = Some (wg_vram x)"
      by (auto simp: dget0_def split: option.splits)
    ultimately show ?thesis by (meson list.set_intros(1))
  qed
qed simp

section \<open>Properties of resource accounting\<close>

text \<open>Allocation is the sum of the claims. The RAM and, per GPU index, the VRAM computed for
  a worker are exactly the sums over all instances of the main worker's and the subordinate
  workers' claims, and restricting to the worker's own instances first changes nothing.\<close>

theorem allocated_exact:
  "al_ram (compute_worker_allocated mis wid t) = sum_list (map (instance_ram wid t) mis) \<and>
   dget0 (al_vram (compute_worker_allocated mis wid t)) i = sum_list (map (instance_vram wid t i) mis) \<and>
   compute_worker_allocated (get_worker_model_instances mis w) (w_id w) t = compute_worker_allocated mis (w_id w) t"
  using allocated_sums allocated_relevant by simp

lemma allocatable_bounds:
  assumes "get_worker_allocatable_resource mis w t = Inr ab" and "w_status w = Some st" and "st_memory st = Some mem"
    and "w_reserved w = Some rs" and "al = compute_worker_allocated mis (w_id w) t"
    and "0 \<le> or0 (rs_vram rs) + sum_list (dvals (al_vram al))"
  shows "0 \<le> ab_ram ab \<and>
    (ab_ram ab = 0 \<or> (\<exists>tot rr. mem_total mem = Some tot \<and> rs_ram rs = Some rr \<and>
       ab_ram ab + al_ram al + rr + (if mem_unified mem then or0 (rs_vram rs) + sum_list (dvals (al_vram al)) else 0) \<le> tot)) \<and>
    (\<forall>i v. dget (ab_vram ab) i = Some v \<longrightarrow> 0 \<le> v \<and>
       (v = 0 \<or> (\<exists>g \<in> set (items (st_gpus st)). \<exists>tot. gpu_index g = i \<and> (t = None \<or> gpu_type g = t) \<and>
          Option.bind (gpu_memory g) mem_total = Some tot \<and>
          v + (case i of Some n \<Rightarrow> dget0 (al_vram al) n | None \<Rightarrow> 0) + or0 (rs_vram rs) \<le> tot)) \<and>
       (mem_unified mem \<and> i = Some 0 \<longrightarrow> v \<le> ab_ram ab))"
proof -
  from assms(1) obtain st' mem' vram tot rs' rr where ab0:
    "w_status w = Some st'" "st_memory st' = Some mem'" "mem_total mem' = Some tot" "w_reserved w = Some rs'" "rs_ram rs' = Some rr"
    "allocatable_vram (Some rs') (al_vram (compute_worker_allocated mis (w_id w) t)) t (items (st_gpus st')) [] = Inr vram"
    "if mem_unified mem'
     then \<exists>rv. rs_vram rs' = Some rv \<and> unified_adjust rv (al_vram (compute_worker_allocated mis (w_id w) t))
            \<lparr>ab_ram = max (tot - al_ram (compute_worker_allocated mis (w_id w) t) - rr) 0, ab_vram = vram\<rparr> = Inr ab
     else ab = \<lparr>ab_ram = max (tot - al_ram (compute_worker_allocated mis (w_id w) t) - rr) 0, ab_vram = vram\<rparr>"
    by (rule get_allocatable_Inr)
  have same: "st' = st" "mem' = mem" "rs' = rs" using ab0(1,2,4) assms(2-4) by auto
  note ab = ab0 [unfolded same assms(5) [symmetric]]
  have dev: "0 \<le> v \<and> (v = 0 \<or> (\<exists>g \<in> set (items (st_gpus st)). \<exists>tot. gpu_index g = i \<and> (t = None \<or> gpu_type g = t) \<and>
          Option.bind (gpu_memory g) mem_total = Some tot \<and> v + (case i of Some n \<Rightarrow> dget0 (al_vram al) n | None \<Rightarrow> 0) + or0 (rs_vram rs) \<le> tot))"
    if "dget vram i = Some v" for i v
    using allocatable_vram_Inr [OF ab(6) that] by (auto simp: max_def split: if_splits)
  show ?thesis
  proof (cases "mem_unified mem")
    case False
    then have "ab = \<lparr>ab_ram = max (tot - al_ram al - rr) 0, ab_vram = vram\<rparr>" using ab(7) by simp
    then show ?thesis using dev ab(3,5) False by (auto simp: max_def)
  next
    case True
    then obtain rv where rv: "rs_vram rs = Some rv"
        "unified_adjust rv (al_vram al) \<lparr>ab_ram = max (tot - al_ram al - rr) 0, ab_vram = vram\<rparr> = Inr ab"
      using ab(7) by auto
    let ?ram = "max (max (tot - al_ram al - rr) 0 - rv - sum_list (dvals (al_vram al))) 0"
    have ram: "ab_ram ab = ?ram" "0 \<le> ?ram" using rv(2) by (auto simp: unified_adjust_def Let_def split: if_splits option.splits)
    have "?ram = 0 \<or> ?ram + al_ram al + rr + (rv + sum_list (dvals (al_vram al))) \<le> tot" using assms(6) rv(1) by (auto simp: max_def)
    moreover have "0 \<le> v \<and> (v = 0 \<or> (\<exists>g \<in> set (items (st_gpus st)). \<exists>tot. gpu_index g = i \<and> (t = None \<or> gpu_type g = t) \<and>
          Option.bind (gpu_memory g) mem_total = Some tot \<and> v + (case i of Some n \<Rightarrow> dget0 (al_vram al) n | None \<Rightarrow> 0) + or0 (rs_vram rs) \<le> tot)) \<and>
        (i = Some 0 \<longrightarrow> v \<le> ?ram)" if v: "dget (ab_vram ab) i = Some v" for i v
    proof (cases "i = Some 0")
      case False
      then have "dget vram i = Some v" using rv(2) v by (auto simp: unified_adjust_def Let_def dict_simps split: if_splits option.splits)
      from dev [OF this] False show ?thesis by blast
    next
      case i0: True
      then obtain v0 where v0: "dget vram (Some 0) = Some v0" "v = min ?ram v0"
        using rv(2) v by (auto simp: unified_adjust_def Let_def dict_simps split: if_splits option.splits)
      from dev [OF v0(1)] ram(2) v0(2) i0 show ?thesis by (auto simp: min_def)
    qed
    ultimately show ?thesis unfolding ram(1) using ram(2) ab(3,5) rv(1) True by auto
  qed
qed

text \<open>C27: What is offered is free. When the allocatable resources of a worker can be computed,
  nothing is negative; positive RAM together with the allocated RAM and the reserve fits
  the worker's memory (with unified memory also together with all allocated VRAM and its
  reserve); positive VRAM of an index fits, with what is allocated there and the reserve, a
  device of that index and of the requested type; and unified VRAM never exceeds the RAM.\<close>

theorem allocatable_sound:
  assumes "get_worker_allocatable_resource mis w t = Inr ab" and "w_status w = Some st" and "st_memory st = Some mem"
    and "w_reserved w = Some rs" and "al = compute_worker_allocated mis (w_id w) t"
    and "0 \<le> or0 (rs_vram rs) + sum_list (dvals (al_vram al))"
  shows "0 \<le> ab_ram ab \<and>
    (ab_ram ab = 0 \<or> (\<exists>tot rr. mem_total mem = Some tot \<and> rs_ram rs = Some rr \<and>
       ab_ram ab + al_ram al + rr + (if mem_unified mem then or0 (rs_vram rs) + sum_list (dvals (al_vram al)) else 0) \<le> tot)) \<and>
    (\<forall>i v. dget (ab_vram ab) i = Some v \<longrightarrow> 0 \<le> v \<and>
       (v = 0 \<or> (\<exists>g \<in> set (items (st_gpus st)). \<exists>tot. gpu_index g = i \<and> (t = None \<or> gpu_type g = t) \<and>
          Option.bind (gpu_memory g) mem_total = Some tot \<and>
          v + (case i of Some n \<Rightarrow> dget0 (al_vram al) n | None \<Rightarrow> 0) + or0 (rs_vram rs) \<le> tot)) \<and>
       (mem_unified mem \<and> i = Some 0 \<longrightarrow> v \<le> ab_ram ab))"
  using assms by (rule allocatable_bounds)

text \<open>Sample data: a worker with unified memory and one busy device.\<close>

definition sample_gpu :: "int \<Rightarrow> string \<Rightarrow> int \<Rightarrow> gpu_device" where
  "sample_gpu i t m = \<lparr>gpu_index = Some i, gpu_type = Some t, gpu_memory = Some \<lparr>mem_total = Some m, mem_allocated = None, mem_unified = False\<rparr>, gpu_network = None\<rparr>"

definition sample_host :: worker where
  "sample_host = \<lparr>w_id = 4, w_name = ''host'', w_state = WORKER_READY,
     w_status = Some \<lparr>st_memory = Some \<lparr>mem_total = Some 64, mem_allocated = None, mem_unified = True\<rparr>,
                      st_gpus = Some [sample_gpu 0 ''cuda'' 48]\<rparr>,
     w_reserved = Some \<lparr>rs_ram = Some 2, rs_vram = Some 1\<rparr>\<rparr>"

definition sample_instances :: "model_instance list" where
  "sample_instances = [\<lparr>mi_model_id = 1, mi_state = RUNNING, mi_worker_id = Some 4, mi_gpu_type = Some ''cuda'', mi_gpu_indexes = Some [0],
     mi_claim = Some \<lparr>cl_ram = Some 5, cl_vram = Some [(0, 20)], cl_offload_layers = Some 30, cl_total_layers = Some 40\<rparr>, mi_subs = None\<rparr>]"

lemmas sample_alloc_simps = sample_gpu_def sample_host_def sample_instances_def

theorem allocatable_sound_witness:
  "\<exists>ab. get_worker_allocatable_resource sample_instances sample_host None = Inr ab \<and> 0 \<le> ab_ram ab \<and> ab_ram ab = 36 \<and>
     dget (ab_vram ab) (Some 0) = Some 27"
proof -
  let ?ab = "\<lparr>ab_ram = 36, ab_vram = [(Some 0, 27)]\<rparr>" and ?al = "compute_worker_allocated sample_instances (w_id sample_host) None"
  have r: "get_worker_allocatable_resource sample_instances sample_host None = Inr ?ab" by code_simp
  let ?st = "the (w_status sample_host)" and ?rs = "the (w_reserved sample_host)"
  have w: "w_status sample_host = Some ?st" "st_memory ?st = Some (the (st_memory ?st))" "w_reserved sample_host = Some ?rs"
    by (simp_all add: sample_host_def)
  have "0 \<le> or0 (rs_vram ?rs) + sum_list (dvals (al_vram ?al))" by code_simp
  from allocatable_sound [OF r w refl this, THEN conjunct1] r show ?thesis by auto
qed

text \<open>The groups a distributed placement chooses from partition the usable GPUs. Every GPU
  of the groups belongs to a worker with enough RAM and is listed with exactly its positive
  allocatable VRAM; the concatenation of the groups is the stable ascending order of all of
  them; inside a group nobody is below 0.9 times another; and a new group starts only when
  the next device would break that.\<close>

theorem gpu_groups_balanced:
  assumes "group_worker_gpu_by_memory ws mis ram_claim t = Inr groups"
  shows "\<exists>infos. collect_workers_gpus mis ram_claim t ws = Inr infos \<and> concat groups = sort_key wg_vram infos \<and>
     (\<forall>x \<in> set infos. \<exists>w ab. w \<in> set ws \<and> get_worker_allocatable_resource mis w t = Inr ab \<and> \<not> ram_not_enough ram_claim ab \<and>
        wg_worker_id x = w_id w \<and> 0 < wg_vram x \<and> dget (ab_vram ab) (gpu_index (wg_gpu_device x)) = Some (wg_vram x)) \<and>
     list_all (\<lambda>g. \<forall>x \<in> set g. \<forall>y \<in> set g. rat_of_int (wg_vram y) * (9 / 10) \<le> rat_of_int (wg_vram x)) groups \<and>
     successively (separated wg_vram) groups"
proof -
  from assms obtain infos where i: "collect_workers_gpus mis ram_claim t ws = Inr infos"
      "groups = group_loop wg_vram [] [] (sort_key wg_vram infos)"
    by (auto simp: group_worker_gpu_by_memory_def bind_err_eq_Inr)
  have nonneg: "\<forall>x \<in> set infos. 0 \<le> wg_vram x" using collect_workers_gpus_Inr [OF i(1)] by fastforce
  have "rat_of_int (wg_vram y) * (9 / 10) \<le> rat_of_int (wg_vram x)" if "g \<in> set groups" "x \<in> set g" "y \<in> set g" for g x y
  proof -
    have b: "balanced wg_vram g" using worker_gpus.ratio [OF nonneg] that(1) i(2) by blast
    have "sorted (map wg_vram (concat groups))" using worker_gpus.covers [of infos] i(2) by simp
    then have "sorted (map wg_vram g)" using that(1) by (auto simp: in_set_conv_decomp map_concat sorted_append)
    then have "wg_vram (hd g) \<le> wg_vram x" using that(2) by (cases g) auto
    with b that(3) show ?thesis unfolding balanced_def by (meson of_int_le_iff order_trans)
  qed
  then show ?thesis
    using i group_loop_start [OF nonneg] worker_gpus.covers [of infos] collect_workers_gpus_Inr [OF i(1)]
    by (intro exI [of _ infos]) (auto simp: list_all_iff)
qed

theorem gpu_groups_balanced_witness:
  "\<exists>groups. group_worker_gpu_by_memory [sample_host] sample_instances 10 None = Inr groups \<and> length groups = 1 \<and>
     successively (separated wg_vram) groups"
proof -
  let ?r = "group_worker_gpu_by_memory [sample_host] sample_instances 10 None"
  have "\<not> isl ?r" "length (projr ?r) = 1" by code_simp+
  then obtain groups where "?r = Inr groups" "length groups = 1" by (cases ?r) auto
  with gpu_groups_balanced show ?thesis by blast
qed

lemma entry_dput [dict_simps]: "entry (dput k v d) k' = (if k' = k then v else entry d k')"
  by (simp add: entry_def dict_simps)

lemma gpus_by_type_dict:
  "dict_ok (gpus_by_type gpus) \<and> set (dkeys (gpus_by_type gpus)) = gpu_type ` set gpus \<and>
   (\<forall>t v. dget (gpus_by_type gpus) t = Some v \<longrightarrow> v = filter (\<lambda>g. gpu_type g = t) gpus)"
proof -
  let ?f = "\<lambda>g d. dput (gpu_type g) (entry d (gpu_type g) @ [g]) d"
  have keys: "dict_ok (fold ?f gs d) \<and> set (dkeys (fold ?f gs d)) = set (dkeys d) \<union> gpu_type ` set gs"
    if "dict_ok d" for gs and d :: "(string option, gpu_device list) dict"
    using that by (induction gs arbitrary: d) (auto simp: dict_simps)
  have cell: "entry (fold ?f gs d) t = entry d t @ filter (\<lambda>g. gpu_type g = t) gs" for gs t
    and d :: "(string option, gpu_device list) dict"
    by (induction gs arbitrary: d) (auto simp: dict_simps)
  have "v = filter (\<lambda>g. gpu_type g = t) gpus" if "dget (fold ?f gpus []) t = Some v" for t v
    using cell [of gpus "[]" t] that by (simp add: entry_def)
  with keys [of "[]" gpus] show ?thesis
    unfolding gpus_by_type_def by simp
qed

lemma copy_per_type_eq:
  "fst (copy_per_type w a ts (st, d)) = (if ts = [] then st else st(a := snd (last ts)))"
  "w' \<in> set (entry (snd (copy_per_type w a ts (st, d))) t) \<longleftrightarrow>
     w' \<in> set (entry d t) \<or> w' = w \<and> t \<in> fst ` set ts"
proof -
  show "fst (copy_per_type w a ts (st, d)) = (if ts = [] then st else st(a := snd (last ts)))"
    by (induction ts arbitrary: st d) auto
  show "w' \<in> set (entry (snd (copy_per_type w a ts (st, d))) t) \<longleftrightarrow>
     w' \<in> set (entry d t) \<or> w' = w \<and> t \<in> fst ` set ts"
  proof (induction ts arbitrary: st d)
    case (Cons p ts)
    obtain t' gs where p: "p = (t', gs)" by (cases p)
    show ?case unfolding p copy_per_type.simps Cons.IH by (auto simp: dict_simps)
  qed simp
qed

text \<open>The type whose first device comes after the first devices of all other types.\<close>

definition last_type :: "gpu_device list \<Rightarrow> string option" where
  "last_type gpus = fst (last (gpus_by_type gpus))"

lemma gpus_by_type_last:
  assumes "gpus \<noteq> []"
  shows "gpus_by_type gpus \<noteq> [] \<and> snd (last (gpus_by_type gpus)) = filter (\<lambda>g. gpu_type g = last_type gpus) gpus"
proof -
  note d = gpus_by_type_dict [of gpus]
  have ne: "gpus_by_type gpus \<noteq> []" using d assms by (metis image_is_empty list.map_disc_iff list.set(1) set_empty)
  then have "last (gpus_by_type gpus) \<in> set (gpus_by_type gpus)" by simp
  then have "dget (gpus_by_type gpus) (last_type gpus) = Some (snd (last (gpus_by_type gpus)))"
    using d by (simp add: last_type_def)
  with d ne show ?thesis by blast
qed

lemma group_worker_frame:
  assumes "wr_status w \<noteq> Some a"
  shows "fst (group_worker w sd) a = fst sd a"
  using assms copy_per_type_eq(1) by (cases sd) (auto simp: group_worker_def Let_def split: option.splits)

lemma group_worker_keeps: "w' \<in> set (entry (snd sd) t) \<Longrightarrow> w' \<in> set (entry (snd (group_worker w sd)) t)"
  by (cases sd) (auto simp: group_worker_def Let_def dict_simps copy_per_type_eq(2) split: option.splits)

lemma group_worker_own:
  assumes "wr_status w = Some a" and "fst sd a \<noteq> []"
  shows "fst (group_worker w sd) a = filter (\<lambda>g. gpu_type g = last_type (fst sd a)) (fst sd a) \<and>
         (\<forall>t \<in> gpu_type ` set (fst sd a). w \<in> set (entry (snd (group_worker w sd)) t))"
proof -
  obtain st d where sd: "sd = (st, d)" by (cases sd)
  have "fst ` set (gpus_by_type (st a)) = gpu_type ` set (st a)" using gpus_by_type_dict [of "st a"] by simp
  then show ?thesis
    using assms gpus_by_type_last [of "st a"] by (simp add: sd group_worker_def copy_per_type_eq)
qed

lemma fold_group_frame:
  "\<forall>w \<in> set ws. wr_status w \<noteq> Some a \<Longrightarrow> fst (fold group_worker ws sd) a = fst sd a"
  by (induction ws arbitrary: sd) (auto simp: group_worker_frame)

lemma fold_group_keeps: "w' \<in> set (entry (snd sd) t) \<Longrightarrow> w' \<in> set (entry (snd (fold group_worker ws sd)) t)"
  by (induction ws arbitrary: sd) (auto simp: group_worker_keeps)

text \<open>Grouping workers by GPU type shares one status object between the copies. For a worker
  with devices, every type of its devices lists it, but afterwards all these references, and
  the original, hold only the devices of the type that first occurs last: under any other type
  the worker is listed without a device of that type.\<close>

theorem gpu_type_groups_share_status:
  assumes "ws = ws1 @ w # ws2" and "wr_status w = Some a" and "st a \<noteq> []"
    and "list_all (\<lambda>v. wr_status v \<noteq> Some a) (ws1 @ ws2)"
  shows "fst (group_workers_by_gpu_type ws st) a = filter (\<lambda>g. gpu_type g = last_type (st a)) (st a) \<and>
     (\<forall>t \<in> gpu_type ` set (st a). w \<in> set (entry (snd (group_workers_by_gpu_type ws st)) t) \<and>
        (t = last_type (st a) \<or> filter (\<lambda>g. gpu_type g = t) (fst (group_workers_by_gpu_type ws st) a) = []))"
proof -
  let ?sd = "fold group_worker ws1 (st, [])"
  have f: "fst ?sd a = st a" using assms(4) by (simp add: fold_group_frame list_all_iff)
  have g: "group_workers_by_gpu_type ws st = fold group_worker ws2 (group_worker w ?sd)"
    by (simp add: group_workers_by_gpu_type_def assms(1))
  from group_worker_own [OF assms(2), of ?sd] f assms(3)
  have own: "fst (group_worker w ?sd) a = filter (\<lambda>g. gpu_type g = last_type (st a)) (st a)"
    "\<forall>t \<in> gpu_type ` set (st a). w \<in> set (entry (snd (group_worker w ?sd)) t)" by simp_all
  have "fst (group_workers_by_gpu_type ws st) a = filter (\<lambda>g. gpu_type g = last_type (st a)) (st a)"
    unfolding g own(1) [symmetric] using assms(4) by (intro fold_group_frame) (auto simp: list_all_iff)
  moreover have "\<forall>t \<in> gpu_type ` set (st a). w \<in> set (entry (snd (group_workers_by_gpu_type ws st)) t)"
    unfolding g using own(2) fold_group_keeps by blast
  ultimately show ?thesis by (auto simp: filter_empty_conv)
qed

theorem gpu_type_groups_share_status_witness:
  "map gpu_type (fst (group_workers_by_gpu_type [\<lparr>wr_id = 1, wr_status = Some 0\<rparr>]
      (\<lambda>_. [sample_gpu 0 ''cuda'' 24, sample_gpu 1 ''rocm'' 24])) 0) = [Some ''rocm''] \<and>
   \<lparr>wr_id = 1, wr_status = Some 0\<rparr> \<in> set (entry (snd (group_workers_by_gpu_type [\<lparr>wr_id = 1, wr_status = Some 0\<rparr>]
      (\<lambda>_. [sample_gpu 0 ''cuda'' 24, sample_gpu 1 ''rocm'' 24]))) (Some ''cuda''))"
proof -
  let ?w = "\<lparr>wr_id = 1, wr_status = Some 0\<rparr>" and ?st = "\<lambda>_::nat. [sample_gpu 0 ''cuda'' 24, sample_gpu 1 ''rocm'' 24]"
  have "last_type (?st 0) = Some ''rocm''" by code_simp
  moreover have "Some ''cuda'' \<in> gpu_type ` set (?st 0)" by (simp add: sample_gpu_def)
  ultimately show ?thesis
    using gpu_type_groups_share_status [of "[?w]" "[]" ?w "[]" 0 ?st] by (simp add: sample_gpu_def)
qed

text \<open>A local model that no worker reports has no estimate. When the path is not on the server,
  nothing is cached, and every worker answers without a size, the estimate of a model that is not
  an image model and has no valid claim of its own raises a \<open>TypeError\<close>.\<close>

theorem local_estimate_type_error:
  assumes "md_source m = LOCAL_PATH" and "get_vram_claim_from_model_env m = None" and "IMAGE \<notin> set (md_categories m)"
    and "get_cached_model_size e = None" and "we_path e = None" and "we_workers e \<noteq> []" and "list_all (\<lambda>a. a = None) (we_workers e)"
  shows "estimate_model_vram e m = Inl TypeErr"
proof -
  have "find (\<lambda>a. a \<noteq> None) (we_workers e) = None" using assms(7) by (simp add: find_None_iff list_all_iff)
  with assms show ?thesis
    by (simp add: estimate_model_vram_def local_weight_def get_local_model_weight_size_def swallow_def vram_formula_def operand_def Let_def)
qed

theorem local_estimate_type_error_witness:
  "estimate_model_vram \<lparr>we_session = False, we_source_index = [], we_model_files = [], we_hub = Inr 0, we_diffusion_hub = Inr 0,
       we_path = None, we_workers = [None], we_image_timeout = False, we_lora = Inr 0\<rparr>
     \<lparr>md_env = [], md_gpu_ids = [], md_categories = [LLM], md_source = LOCAL_PATH, md_has_lora = False, md_kv_cache = None\<rparr> = Inl TypeErr"
  by (rule local_estimate_type_error) (simp_all add: get_vram_claim_from_model_env_def get_cached_model_size_def)

text \<open>The order of \<open>sort_gpu_indexes_by_allocatable_rate\<close> is descending, whatever its comment says.\<close>

lemma allocatable_rate_descending:
  "sort_gpu_indexes_by_allocatable_rate w ab t = Inr idxs \<Longrightarrow>
   \<exists>st gpus. w_status w = Some st \<and> st_gpus st = Some gpus \<and>
     sorted_wrt (\<lambda>i j. dget0 (allocatable_rates gpus ab t) j \<le> dget0 (allocatable_rates gpus ab t) i) idxs"
  using sorted_sort_desc
  by (auto simp: sort_gpu_indexes_by_allocatable_rate_def bind_err_eq_Inr attr_def operand_def Let_def split: option.splits)

end
