(* ===== verification/Placement.thy ===== *)
theory Placement
  imports Allocation
begin

text \<open>
  Scoring of placements, \<^verbatim>\<open>src/gpustack/policies/scorers/\<close>: the placement scorer with its spread
  and binpack strategies, the status, offload-layer and model-file-locality scorers, the two
  score chains, the choice of the best candidate (\<^verbatim>\<open>scheduler/scheduler.py\<close>) and the order in
  which instances are removed on scale-down (\<^verbatim>\<open>server/controllers.py\<close>). Floats are rationals.
\<close>

section \<open>Weights\<close>

record resource_weight =
  rw_vram :: rat
  rw_ram :: rat

record model_weight =
  mw_current :: rat
  mw_others :: rat

record server_type_weight =
  iw_server :: rat
  iw_rpc_server :: rat

record spread_score_weights =
  worker_weight :: rat
  gpu_weight :: rat
  zero_current_base_score :: rat
  zero_current_others_weight :: rat
  has_both_base_score :: rat
  has_both_current_weight :: rat
  has_both_others_weight :: rat
  all_have_current_base_score :: rat
  all_have_current_weight :: rat
  all_have_others_weight :: rat

definition default_resource_weight :: resource_weight where
  "default_resource_weight = \<lparr>rw_vram = 2, rw_ram = 1\<rparr>"

definition default_model_weight :: model_weight where
  "default_model_weight = \<lparr>mw_current = 1, mw_others = 2 / 10\<rparr>"

definition default_server_type_weight :: server_type_weight where
  "default_server_type_weight = \<lparr>iw_server = 5, iw_rpc_server = 1\<rparr>"

definition default_spread_score_weights :: spread_score_weights where
  "default_spread_score_weights =
     \<lparr>worker_weight = 85 / 100, gpu_weight = 15 / 100, zero_current_base_score = 85 / 100, zero_current_others_weight = 15 / 100,
      has_both_base_score = 45 / 100, has_both_current_weight = 35 / 100, has_both_others_weight = 20 / 100,
      all_have_current_base_score = 50 / 100, all_have_current_weight = 25 / 100, all_have_others_weight = 15 / 100\<rparr>"

datatype scale_type = SCALE_UP | SCALE_DOWN

datatype placement_strategy = SPREAD | BINPACK | OtherStrategy

text \<open>The scorer object; \<open>None\<close> weights take the defaults.\<close>

record placement_scorer =
  ps_model_id :: "int option"
  ps_strategy :: placement_strategy
  ps_instances :: "model_instance list"
  ps_scale_type :: scale_type
  ps_resource_weight :: resource_weight
  ps_model_weight :: model_weight
  ps_server_weight :: server_type_weight
  ps_spread_weights :: spread_score_weights
  ps_max_score :: rat

definition make_placement_scorer ::
  "int option \<Rightarrow> placement_strategy \<Rightarrow> model_instance list \<Rightarrow> scale_type \<Rightarrow> rat \<Rightarrow> placement_scorer" where
  "make_placement_scorer mid strategy mis scale mx =
     \<lparr>ps_model_id = mid, ps_strategy = strategy, ps_instances = mis, ps_scale_type = scale,
      ps_resource_weight = default_resource_weight, ps_model_weight = default_model_weight,
      ps_server_weight = default_server_type_weight, ps_spread_weights = default_spread_score_weights,
      ps_max_score = mx\<rparr>"

record candidate =
  cd_worker :: worker
  cd_gpu_indexes :: "int list option"
  cd_claim :: "resource_claim option"
  cd_subs :: "subordinate_worker list option"
  cd_score :: "rat option"

section \<open>Counting instances\<close>

record count_pair =
  cp_current :: int
  cp_others :: int

record count_entry =
  ce_total :: count_pair
  ce_gpu :: "(int, count_pair) dict"

type_synonym count_map = "(int option, count_entry) dict"

definition zero_pair :: count_pair where
  "zero_pair = \<lparr>cp_current = 0, cp_others = 0\<rparr>"

definition zero_entry :: count_entry where
  "zero_entry = \<lparr>ce_total = zero_pair, ce_gpu = []\<rparr>"

definition bump_pair :: "bool \<Rightarrow> count_pair \<Rightarrow> count_pair" where
  "bump_pair is_current p = (if is_current then p\<lparr>cp_current := cp_current p + 1\<rparr> else p\<lparr>cp_others := cp_others p + 1\<rparr>)"

definition get_instance_count_map :: "count_map \<Rightarrow> int option \<Rightarrow> count_entry" where
  "get_instance_count_map m wid = (case dget m wid of None \<Rightarrow> zero_entry | Some e \<Rightarrow> e)"

definition gpu_pair :: "count_entry \<Rightarrow> int \<Rightarrow> count_pair" where
  "gpu_pair e g = (case dget (ce_gpu e) g of None \<Rightarrow> zero_pair | Some p \<Rightarrow> p)"

definition update_count :: "count_map \<Rightarrow> int option \<Rightarrow> int option \<Rightarrow> bool \<Rightarrow> count_map" where
  "update_count m wid gpu is_current =
     (let e = get_instance_count_map m wid;
          e1 = (case gpu of
                  None \<Rightarrow> e
                | Some g \<Rightarrow> e\<lparr>ce_gpu := dput g (bump_pair is_current (gpu_pair e g)) (ce_gpu e)\<rparr>)
      in dput wid (e1\<lparr>ce_total := bump_pair is_current (ce_total e1)\<rparr>) m)"

definition count_gpus :: "int option \<Rightarrow> bool \<Rightarrow> int list \<Rightarrow> count_map \<Rightarrow> count_map" where
  "count_gpus wid is_current gs m = fold (\<lambda>g m. update_count m wid (Some g) is_current) gs m"

fun count_subs :: "bool \<Rightarrow> subordinate_worker list \<Rightarrow> count_map \<Rightarrow> py_error + count_map" where
  "count_subs is_current [] m = Inr m"
| "count_subs is_current (sw # sws) m =
     bind_err (operand (sw_gpu_indexes sw)) (\<lambda>gs. count_subs is_current sws (count_gpus (sw_worker_id sw) is_current gs m))"

fun count_instances :: "int \<Rightarrow> model_instance list \<Rightarrow> count_map \<Rightarrow> py_error + count_map" where
  "count_instances mid [] m = Inr m"
| "count_instances mid (mi # mis) m =
     (case mi_worker_id mi of
        None \<Rightarrow> count_instances mid mis m
      | Some wid \<Rightarrow>
          let is_current = (mi_model_id mi = mid);
              gs = items (mi_gpu_indexes mi);
              m1 = (if gs \<noteq> [] then count_gpus (Some wid) is_current gs m else update_count m (Some wid) None is_current)
          in bind_err (count_subs is_current (items (mi_subs mi)) m1) (count_instances mid mis))"

definition get_worker_model_instance_count :: "placement_scorer \<Rightarrow> py_error + count_map" where
  "get_worker_model_instance_count ps =
     (case ps_model_id ps of None \<Rightarrow> Inr [] | Some mid \<Rightarrow> count_instances mid (ps_instances ps) [])"

section \<open>Spread\<close>

record spread_stats =
  any_zero_current :: bool
  min_current :: int
  max_current :: int
  min_others :: int
  max_others :: int

definition build_spread_stats :: "count_map \<Rightarrow> int list \<Rightarrow> spread_stats" where
  "build_spread_stats m wids =
     (let totals = map (\<lambda>w. ce_total (get_instance_count_map m (Some w))) wids
      in if totals = []
         then \<lparr>any_zero_current = True, min_current = 0, max_current = 0, min_others = 0, max_others = 0\<rparr>
         else \<lparr>any_zero_current = (\<exists>p \<in> set totals. cp_current p = 0),
               min_current = Min (set (map cp_current totals)), max_current = Max (set (map cp_current totals)),
               min_others = Min (set (map cp_others totals)), max_others = Max (set (map cp_others totals))\<rparr>)"

definition inverse_norm :: "int \<Rightarrow> int \<Rightarrow> int \<Rightarrow> rat" where
  "inverse_norm v mn mx = (if mx \<le> mn then 1 else 1 - rat_of_int (v - mn) / rat_of_int (mx - mn))"

definition score_spread_worker_score :: "placement_scorer \<Rightarrow> count_entry \<Rightarrow> spread_stats \<Rightarrow> rat" where
  "score_spread_worker_score ps e st =
     (let cur = cp_current (ce_total e); oth = cp_others (ce_total e); w = ps_spread_weights ps;
          cn = inverse_norm cur (min_current st) (max_current st);
          on = inverse_norm oth (min_others st) (max_others st);
          score = (if any_zero_current st then
                     (if cur = 0 then zero_current_base_score w + zero_current_others_weight w * on
                      else has_both_base_score w + has_both_current_weight w * cn + has_both_others_weight w * on)
                   else all_have_current_base_score w + all_have_current_weight w * cn + all_have_others_weight w * on)
      in score * ps_max_score ps)"

definition per_gpu_score :: "placement_scorer \<Rightarrow> count_entry \<Rightarrow> int \<Rightarrow> rat" where
  "per_gpu_score ps e g =
     1 / (1 + rat_of_int (cp_current (gpu_pair e g)) + rat_of_int (cp_others (gpu_pair e g)) * mw_others (ps_model_weight ps))"

definition score_spread_gpu :: "placement_scorer \<Rightarrow> count_entry \<Rightarrow> int list \<Rightarrow> spread_stats \<Rightarrow> rat" where
  "score_spread_gpu ps e gs st =
     (let scores = map (per_gpu_score ps e) gs;
          gpu_score = (if scores = [] then 1 else sum_list scores / of_nat (length scores)) * ps_max_score ps
      in score_spread_worker_score ps e st * worker_weight (ps_spread_weights ps) + gpu_score * gpu_weight (ps_spread_weights ps))"

definition score_spread_item ::
  "placement_scorer \<Rightarrow> int list option \<Rightarrow> worker option \<Rightarrow> count_map \<Rightarrow> spread_stats \<Rightarrow> rat" where
  "score_spread_item ps gpus w m st =
     (case w of
        None \<Rightarrow> 0
      | Some w \<Rightarrow>
          let e = get_instance_count_map m (Some (w_id w))
          in if items gpus \<noteq> [] then score_spread_gpu ps e (items gpus) st else score_spread_worker_score ps e st)"

definition score_spread :: "placement_scorer \<Rightarrow> candidate list \<Rightarrow> py_error + candidate list" where
  "score_spread ps cs =
     bind_err (get_worker_model_instance_count ps) (\<lambda>m.
       let st = build_spread_stats m (map (w_id \<circ> cd_worker) cs)
       in Inr (map (\<lambda>c. c\<lparr>cd_score := Some (score_spread_item ps (cd_gpu_indexes c) (Some (cd_worker c)) m st)\<rparr>) cs))"

type_synonym worker_map = "(int, worker) dict"

definition make_worker_map :: "worker list \<Rightarrow> worker_map" where
  "make_worker_map ws = fold (\<lambda>w. dput (w_id w) w) ws []"

definition spread_instance_score ::
  "placement_scorer \<Rightarrow> worker_map \<Rightarrow> count_map \<Rightarrow> spread_stats \<Rightarrow> model_instance \<Rightarrow> rat" where
  "spread_instance_score ps wm m st mi =
     (case mi_worker_id mi of
        None \<Rightarrow> 0
      | Some wid \<Rightarrow> score_spread_item ps (mi_gpu_indexes mi) (dget wm wid) m st)"

definition score_spread_instances :: "placement_scorer \<Rightarrow> worker_map \<Rightarrow> model_instance list \<Rightarrow> py_error + rat list" where
  "score_spread_instances ps wm mis =
     bind_err (get_worker_model_instance_count ps) (\<lambda>m.
       let st = build_spread_stats m (map w_id (dvals wm))
       in Inr (map (spread_instance_score ps wm m st) mis))"

section \<open>Binpack\<close>

definition calculate_score :: "placement_scorer \<Rightarrow> int option \<Rightarrow> int \<Rightarrow> int \<Rightarrow> int \<Rightarrow> rat" where
  "calculate_score ps ram_claim ram_ab vram_claim vram_ab =
     (let ram = (case ram_claim of
                   None \<Rightarrow> 0
                 | Some c \<Rightarrow> if ram_ab = 0 then 0
                             else rat_of_int c / rat_of_int ram_ab * ps_max_score ps * rw_ram (ps_resource_weight ps));
          vram = (if vram_ab = 0 then 0
                  else rat_of_int vram_claim / rat_of_int vram_ab * ps_max_score ps * rw_vram (ps_resource_weight ps))
      in (ram + vram) / (rw_ram (ps_resource_weight ps) + rw_vram (ps_resource_weight ps)))"

fun binpack_gpus :: "placement_scorer \<Rightarrow> resource_claim \<Rightarrow> allocatable \<Rightarrow> scale_type \<Rightarrow> int list \<Rightarrow> rat \<Rightarrow> rat" where
  "binpack_gpus ps c ab scale [] score = score"
| "binpack_gpus ps c ab scale (i # is) score =
     (let claim = dget0 (items (cl_vram c)) i;
          avail = dget0 (ab_vram ab) (Some i);
          result = (case scale of
                      SCALE_UP \<Rightarrow> calculate_score ps (cl_ram c) (ab_ram ab) claim avail
                    | SCALE_DOWN \<Rightarrow> calculate_score ps (cl_ram c) (ab_ram ab + or0 (cl_ram c)) claim (avail + claim))
      in binpack_gpus ps c ab scale is (if result > score then result else score))"

definition score_binpack_item ::
  "placement_scorer \<Rightarrow> int list option \<Rightarrow> resource_claim option \<Rightarrow> allocatable \<Rightarrow> scale_type \<Rightarrow> py_error + rat" where
  "score_binpack_item ps gpus claim ab scale =
     bind_err (attr claim) (\<lambda>c.
       if items gpus = [] then
         bind_err (operand (cl_ram c)) (\<lambda>ram.
           let base = (case scale of SCALE_UP \<Rightarrow> ab_ram ab | SCALE_DOWN \<Rightarrow> ab_ram ab + ram)
           in if base = 0 then Inl ZeroDivisionError
              else Inr (rat_of_int ram / rat_of_int base * ps_max_score ps))
       else Inr (binpack_gpus ps c ab scale (items gpus) 0))"

text \<open>The sum over the subordinate workers; a worker that no longer exists raises.\<close>

fun score_binpack_subordinate_workers ::
  "placement_scorer \<Rightarrow> worker_map \<Rightarrow> subordinate_worker list \<Rightarrow> scale_type \<Rightarrow> py_error + rat" where
  "score_binpack_subordinate_workers ps wm [] scale = Inr 0"
| "score_binpack_subordinate_workers ps wm (sw # sws) scale =
     bind_err (attr (Option.bind (sw_worker_id sw) (dget wm))) (\<lambda>w.
     bind_err (get_worker_allocatable_resource (ps_instances ps) w None) (\<lambda>ab.
     bind_err (score_binpack_item ps (sw_gpu_indexes sw) (sw_claim sw) ab scale) (\<lambda>s.
     bind_err (score_binpack_subordinate_workers ps wm sws scale) (\<lambda>r. Inr (s + r)))))"

definition mix_server_scores :: "placement_scorer \<Rightarrow> rat \<Rightarrow> rat \<Rightarrow> nat \<Rightarrow> rat" where
  "mix_server_scores ps score rpc n =
     (score * iw_server (ps_server_weight ps) + rpc * of_nat n * iw_rpc_server (ps_server_weight ps)) /
     (iw_server (ps_server_weight ps) + iw_rpc_server (ps_server_weight ps) * of_nat n)"

definition binpack_score ::
  "placement_scorer \<Rightarrow> worker_map \<Rightarrow> worker \<Rightarrow> int list option \<Rightarrow> resource_claim option \<Rightarrow> subordinate_worker list option \<Rightarrow> py_error + rat" where
  "binpack_score ps wm w gpus claim subs =
     bind_err (get_worker_allocatable_resource (ps_instances ps) w None) (\<lambda>ab.
     bind_err (score_binpack_item ps gpus claim ab (ps_scale_type ps)) (\<lambda>score.
       if items subs = [] then Inr score
       else bind_err (score_binpack_subordinate_workers ps wm (items subs) (ps_scale_type ps)) (\<lambda>rpc.
            Inr (mix_server_scores ps score rpc (length (items subs))))))"

fun score_binpack :: "placement_scorer \<Rightarrow> worker_map \<Rightarrow> candidate list \<Rightarrow> py_error + candidate list" where
  "score_binpack ps wm [] = Inr []"
| "score_binpack ps wm (c # cs) =
     bind_err (binpack_score ps wm (cd_worker c) (cd_gpu_indexes c) (cd_claim c) (cd_subs c)) (\<lambda>s.
     bind_err (score_binpack ps wm cs) (\<lambda>r. Inr (c\<lparr>cd_score := Some s\<rparr> # r)))"

fun score_binpack_instances :: "placement_scorer \<Rightarrow> worker_map \<Rightarrow> model_instance list \<Rightarrow> py_error + rat list" where
  "score_binpack_instances ps wm [] = Inr []"
| "score_binpack_instances ps wm (mi # mis) =
     bind_err (case Option.bind (mi_worker_id mi) (dget wm) of
                 None \<Rightarrow> Inr 0
               | Some w \<Rightarrow> binpack_score ps wm w (mi_gpu_indexes mi) (mi_claim mi) (mi_subs mi)) (\<lambda>s.
     bind_err (score_binpack_instances ps wm mis) (\<lambda>r. Inr (s # r)))"

text \<open>The workers of the database are an argument of both entry points.\<close>

definition placement_score :: "placement_scorer \<Rightarrow> worker list \<Rightarrow> candidate list \<Rightarrow> py_error + candidate list" where
  "placement_score ps ws cs =
     (case ps_strategy ps of
        SPREAD \<Rightarrow> score_spread ps cs
      | BINPACK \<Rightarrow> score_binpack ps (make_worker_map ws) cs
      | OtherStrategy \<Rightarrow> Inl ValueErr)"

definition placement_score_instances :: "placement_scorer \<Rightarrow> worker list \<Rightarrow> model_instance list \<Rightarrow> py_error + rat list" where
  "placement_score_instances ps ws mis =
     (case ps_strategy ps of
        SPREAD \<Rightarrow> score_spread_instances ps (make_worker_map ws) mis
      | BINPACK \<Rightarrow> score_binpack_instances ps (make_worker_map ws) mis
      | OtherStrategy \<Rightarrow> Inl ValueErr)"

section \<open>Status and offload layers\<close>

definition status_score :: "rat \<Rightarrow> worker_map \<Rightarrow> model_instance \<Rightarrow> rat" where
  "status_score mx wm mi =
     (case Option.bind (mi_worker_id mi) (dget wm) of
        None \<Rightarrow> 0
      | Some w \<Rightarrow>
          if w_state w = WORKER_NOT_READY then 0
          else if mi_state mi = ERROR then 0
          else if w_state w = WORKER_READY \<and> mi_state mi = RUNNING then mx
          else mx * (1 / 2))"

definition status_score_instances :: "rat \<Rightarrow> worker list \<Rightarrow> model_instance list \<Rightarrow> py_error + rat list" where
  "status_score_instances mx ws mis = Inr (map (status_score mx (make_worker_map ws)) mis)"

definition offload_score :: "rat \<Rightarrow> model_instance \<Rightarrow> py_error + rat" where
  "offload_score mx mi =
     (case mi_claim mi of
        None \<Rightarrow> Inr 0
      | Some c \<Rightarrow>
          (case (cl_total_layers c, cl_offload_layers c) of
             (Some tot, Some off) \<Rightarrow>
               if tot = off then Inr mx
               else if tot = 0 then Inl ZeroDivisionError
               else Inr (rat_of_int off / rat_of_int tot * mx)
           | _ \<Rightarrow> Inr 0))"

fun offload_score_instances :: "rat \<Rightarrow> model_instance list \<Rightarrow> py_error + rat list" where
  "offload_score_instances mx [] = Inr []"
| "offload_score_instances mx (mi # mis) =
     bind_err (offload_score mx mi) (\<lambda>s. bind_err (offload_score_instances mx mis) (\<lambda>r. Inr (s # r)))"

section \<open>Model file locality\<close>

definition candidate_worker_ids :: "candidate \<Rightarrow> int set" where
  "candidate_worker_ids c = insert (w_id (cd_worker c)) (set (List.map_filter sw_worker_id (items (cd_subs c))))"

definition locality_score :: "rat \<Rightarrow> int set \<Rightarrow> int set \<Rightarrow> candidate \<Rightarrow> rat" where
  "locality_score mx main draft c =
     (let ids = candidate_worker_ids c;
          main_ratio = (if main \<noteq> {} then of_nat (card (ids \<inter> main)) / of_nat (card ids) else 0);
          draft_ratio = (if draft \<noteq> {} then of_nat (card (ids \<inter> draft)) / of_nat (card ids) else 0)
      in if main_ratio = 0 \<and> draft_ratio = 0 then 0
         else let draft_weight = (if draft \<noteq> {} then 1 / 2 else 0)
              in (main_ratio + draft_weight * draft_ratio) / (1 + draft_weight) * mx)"

section \<open>Chains\<close>

text \<open>A scorer of instances: its maximum, and one score per instance in their order.\<close>

record 'i scorer =
  sc_max :: "rat option"
  sc_run :: "'i list \<Rightarrow> py_error + rat list"

definition active_scorers :: "'i scorer list \<Rightarrow> 'i scorer list" where
  "active_scorers scs = filter (\<lambda>s. case sc_max s of None \<Rightarrow> False | Some m \<Rightarrow> m > 0) scs"

definition sum_max_score :: "'i scorer list \<Rightarrow> rat" where
  "sum_max_score scs = sum_list (map (the \<circ> sc_max) scs)"

definition scale_factor :: "rat option \<Rightarrow> 'i scorer list \<Rightarrow> rat" where
  "scale_factor total_max scs =
     (case total_max of None \<Rightarrow> 1 | Some t \<Rightarrow> if sum_max_score scs = 0 then 1 else t / sum_max_score scs)"

fun sum_scores :: "'i scorer list \<Rightarrow> 'i list \<Rightarrow> rat list \<Rightarrow> py_error + rat list" where
  "sum_scores [] xs acc = Inr acc"
| "sum_scores (s # ss) xs acc = bind_err (sc_run s xs) (\<lambda>r. sum_scores ss xs (map2 (+) acc r))"

definition score_chain :: "'i scorer list \<Rightarrow> rat option \<Rightarrow> 'i list \<Rightarrow> py_error + ('i \<times> rat) list" where
  "score_chain scs total_max xs =
     (let act = active_scorers scs
      in if xs = [] then Inr []
         else if act = [] \<or> sum_max_score act = 0 then Inr (map (\<lambda>x. (x, 0)) xs)
         else bind_err (sum_scores act xs (map (\<lambda>_. 0) xs)) (\<lambda>tots.
              Inr (zip xs (map (\<lambda>s. s * scale_factor total_max act) tots))))"

text \<open>A scorer of candidates leaves scores in the candidates; each starts from cleared scores.\<close>

type_synonym candidate_scorer = "candidate list \<Rightarrow> py_error + candidate list"

fun sum_candidate_scores :: "candidate_scorer list \<Rightarrow> candidate list \<Rightarrow> rat list \<Rightarrow> py_error + rat list" where
  "sum_candidate_scores [] cs acc = Inr acc"
| "sum_candidate_scores (s # ss) cs acc =
     bind_err (s (map (\<lambda>c. c\<lparr>cd_score := None\<rparr>) cs)) (\<lambda>r.
       sum_candidate_scores ss cs (map2 (\<lambda>a c. a + (case cd_score c of None \<Rightarrow> 0 | Some v \<Rightarrow> v)) acc r))"

definition candidate_score_chain :: "candidate_scorer list \<Rightarrow> candidate list \<Rightarrow> py_error + candidate list" where
  "candidate_score_chain scs cs =
     (if cs = [] then Inr []
      else bind_err (sum_candidate_scores scs cs (map (\<lambda>_. 0) cs)) (\<lambda>totals.
           Inr (map2 (\<lambda>c t. c\<lparr>cd_score := Some t\<rparr>) cs totals)))"

text \<open>The first candidate of the highest score.\<close>

fun pick_loop :: "candidate \<Rightarrow> candidate list \<Rightarrow> candidate" where
  "pick_loop best [] = best"
| "pick_loop best (c # cs) = pick_loop (if the (cd_score c) > the (cd_score best) then c else best) cs"

definition pick_highest_score_candidate :: "candidate list \<Rightarrow> candidate option" where
  "pick_highest_score_candidate cs = (case cs of [] \<Rightarrow> None | c # r \<Rightarrow> Some (pick_loop c r))"

section \<open>Scale-down\<close>

definition scale_down_scorers ::
  "rat \<Rightarrow> rat \<Rightarrow> rat \<Rightarrow> int option \<Rightarrow> placement_strategy \<Rightarrow> worker list \<Rightarrow> model_instance list \<Rightarrow> model_instance scorer list" where
  "scale_down_scorers ms mo mp mid strategy ws mis =
     [\<lparr>sc_max = Some ms, sc_run = status_score_instances ms ws\<rparr>,
      \<lparr>sc_max = Some mo, sc_run = offload_score_instances mo\<rparr>,
      \<lparr>sc_max = Some mp, sc_run = placement_score_instances (make_placement_scorer mid strategy mis SCALE_DOWN mp) ws\<rparr>]"

text \<open>The maxima default to the environment's 100, 10 and 1; an exception yields no candidates.\<close>

definition find_scale_down_candidates ::
  "rat option \<Rightarrow> rat option \<Rightarrow> rat option \<Rightarrow> rat option \<Rightarrow> int option \<Rightarrow> placement_strategy \<Rightarrow> worker list \<Rightarrow>
   model_instance list \<Rightarrow> (model_instance \<times> rat) list" where
  "find_scale_down_candidates ms mo mp total_max mid strategy ws mis =
     (let ms = (case ms of None \<Rightarrow> 100 | Some x \<Rightarrow> x);
          mo = (case mo of None \<Rightarrow> 10 | Some x \<Rightarrow> x);
          mp = (case mp of None \<Rightarrow> 1 | Some x \<Rightarrow> x)
      in case score_chain (scale_down_scorers ms mo mp mid strategy ws mis) total_max mis of
           Inl _ \<Rightarrow> []
         | Inr r \<Rightarrow> sort_key snd r)"

section \<open>Lemmas on counts and spread scores\<close>

definition pair_ok :: "count_pair \<Rightarrow> bool" where
  "pair_ok p \<longleftrightarrow> 0 \<le> cp_current p \<and> 0 \<le> cp_others p"

definition entry_ok :: "count_entry \<Rightarrow> bool" where
  "entry_ok e \<longleftrightarrow> pair_ok (ce_total e) \<and> (\<forall>g. pair_ok (gpu_pair e g))"

definition map_ok :: "count_map \<Rightarrow> bool" where
  "map_ok m \<longleftrightarrow> (\<forall>w. entry_ok (get_instance_count_map m w))"

lemma zero_pair_ok [simp]: "pair_ok zero_pair"
  by (simp add: pair_ok_def zero_pair_def)

lemma bump_ok: "pair_ok p \<Longrightarrow> pair_ok (bump_pair c p)"
  by (simp add: pair_ok_def bump_pair_def)

lemma update_count_ok: "map_ok m \<Longrightarrow> map_ok (update_count m wid gpu c)"
proof -
  assume m: "map_ok m"
  have "entry_ok (get_instance_count_map (update_count m wid gpu c) w)" for w
    using m [unfolded map_ok_def, rule_format, of w]
    by (auto simp: update_count_def get_instance_count_map_def Let_def dict_simps entry_ok_def gpu_pair_def intro!: bump_ok
        split: option.splits if_splits)
  then show ?thesis by (simp add: map_ok_def)
qed

lemma count_gpus_ok: "map_ok m \<Longrightarrow> map_ok (count_gpus wid c gs m)"
  unfolding count_gpus_def by (induction gs arbitrary: m) (simp_all add: update_count_ok)

lemma count_subs_ok: "count_subs c sws m = Inr m' \<Longrightarrow> map_ok m \<Longrightarrow> map_ok m'"
  by (induction sws arbitrary: m) (auto simp: bind_err_eq_Inr count_gpus_ok)

lemma count_instances_ok: "count_instances mid mis m = Inr m' \<Longrightarrow> map_ok m \<Longrightarrow> map_ok m'"
proof (induction mis arbitrary: m)
  case (Cons mi mis)
  show ?case
  proof (cases "mi_worker_id mi")
    case None
    with Cons show ?thesis by simp
  next
    case (Some wid)
    let ?m1 = "if items (mi_gpu_indexes mi) \<noteq> [] then count_gpus (Some wid) (mi_model_id mi = mid) (items (mi_gpu_indexes mi)) m
        else update_count m (Some wid) None (mi_model_id mi = mid)"
    from Some Cons.prems(1) obtain m2 where "count_subs (mi_model_id mi = mid) (items (mi_subs mi)) ?m1 = Inr m2"
        "count_instances mid mis m2 = Inr m'"
      by (auto simp: Let_def bind_err_eq_Inr)
    moreover have "map_ok ?m1" using Cons.prems(2) by (simp add: count_gpus_ok update_count_ok)
    ultimately show ?thesis using Cons.IH count_subs_ok by blast
  qed
qed simp

lemma instance_count_ok: "get_worker_model_instance_count ps = Inr m \<Longrightarrow> map_ok m"
proof -
  have "map_ok []" by (simp add: map_ok_def get_instance_count_map_def zero_entry_def entry_ok_def pair_ok_def zero_pair_def gpu_pair_def)
  then show "get_worker_model_instance_count ps = Inr m \<Longrightarrow> map_ok m"
    by (auto simp: get_worker_model_instance_count_def intro: count_instances_ok split: option.splits)
qed

lemma inverse_norm_range: "mn \<le> v \<Longrightarrow> v \<le> mx \<Longrightarrow> 0 \<le> inverse_norm v mn mx \<and> inverse_norm v mn mx \<le> 1"
  by (auto simp: inverse_norm_def field_simps)

lemma inverse_norm_antimono: "v \<le> v' \<Longrightarrow> inverse_norm v' mn mx \<le> inverse_norm v mn mx"
  by (auto simp: inverse_norm_def intro!: divide_right_mono)

text \<open>The statistics of a set of workers bracket the counts of each of them.\<close>

definition covered :: "spread_stats \<Rightarrow> count_pair \<Rightarrow> bool" where
  "covered st p \<longleftrightarrow> min_current st \<le> cp_current p \<and> cp_current p \<le> max_current st \<and>
     min_others st \<le> cp_others p \<and> cp_others p \<le> max_others st"

lemma build_spread_stats_covers:
  "w \<in> set wids \<Longrightarrow> covered (build_spread_stats m wids) (ce_total (get_instance_count_map m (Some w)))"
  by (auto simp: build_spread_stats_def covered_def Let_def intro!: Min_le Max_ge)

lemma spread_worker_range:
  assumes "covered st (ce_total e)" and "ps_spread_weights ps = default_spread_score_weights" and "0 \<le> ps_max_score ps"
  shows "0 \<le> score_spread_worker_score ps e st \<and> score_spread_worker_score ps e st \<le> ps_max_score ps"
proof -
  let ?c = "inverse_norm (cp_current (ce_total e)) (min_current st) (max_current st)"
  let ?o = "inverse_norm (cp_others (ce_total e)) (min_others st) (max_others st)"
  have r: "0 \<le> ?c" "?c \<le> 1" "0 \<le> ?o" "?o \<le> 1" using assms(1) inverse_norm_range by (auto simp: covered_def)
  define x where "x = (if any_zero_current st
      then (if cp_current (ce_total e) = 0 then 85 / 100 + 15 / 100 * ?o else 45 / 100 + 35 / 100 * ?c + 20 / 100 * ?o)
      else 50 / 100 + 25 / 100 * ?c + 15 / 100 * ?o)"
  have "score_spread_worker_score ps e st = x * ps_max_score ps"
    by (simp add: score_spread_worker_score_def Let_def assms(2) default_spread_score_weights_def x_def)
  moreover have "0 \<le> x \<and> x \<le> 1" using r unfolding x_def by auto
  ultimately show ?thesis using assms(3) by (simp add: mult_left_le_one_le)
qed

lemma per_gpu_range:
  assumes "entry_ok e" and "ps_model_weight ps = default_model_weight"
  shows "0 \<le> per_gpu_score ps e g \<and> per_gpu_score ps e g \<le> 1"
proof -
  have "0 \<le> rat_of_int (cp_current (gpu_pair e g)) + rat_of_int (cp_others (gpu_pair e g)) / 5"
    using assms(1) by (simp add: entry_ok_def pair_ok_def)
  then have "1 \<le> 1 + rat_of_int (cp_current (gpu_pair e g)) + rat_of_int (cp_others (gpu_pair e g)) / 5" by linarith
  then show ?thesis by (simp add: per_gpu_score_def assms(2) default_model_weight_def divide_le_eq_1)
qed

lemma sum_list_range: "\<forall>x \<in> set xs. 0 \<le> f x \<and> f x \<le> (1::rat) \<Longrightarrow> 0 \<le> sum_list (map f xs) \<and> sum_list (map f xs) \<le> of_nat (length xs)"
  by (induction xs) auto

definition default_weights :: "placement_scorer \<Rightarrow> bool" where
  "default_weights ps \<longleftrightarrow> ps_spread_weights ps = default_spread_score_weights \<and> ps_model_weight ps = default_model_weight \<and> 0 \<le> ps_max_score ps"

lemma spread_item_range:
  assumes "default_weights ps" and "map_ok m" and "covered st (ce_total (get_instance_count_map m (Some (w_id w))))"
  shows "0 \<le> score_spread_item ps gpus (Some w) m st \<and> score_spread_item ps gpus (Some w) m st \<le> ps_max_score ps"
proof -
  let ?e = "get_instance_count_map m (Some (w_id w))" and ?gs = "items gpus" and ?mx = "ps_max_score ps"
  have d: "ps_spread_weights ps = default_spread_score_weights" "ps_model_weight ps = default_model_weight" "0 \<le> ?mx"
    using assms(1) by (simp_all add: default_weights_def)
  note worker = spread_worker_range [OF assms(3) d(1,3)]
  have e: "entry_ok ?e" using assms(2) by (simp add: map_ok_def)
  show ?thesis
  proof (cases "?gs = []")
    case True
    then show ?thesis using worker by (simp add: score_spread_item_def)
  next
    case False
    define avg where "avg = sum_list (map (per_gpu_score ps ?e) ?gs) / of_nat (length ?gs)"
    have "0 < length ?gs" using False by simp
    then have avg: "0 \<le> avg" "avg \<le> 1"
      unfolding avg_def using sum_list_range [of ?gs "per_gpu_score ps ?e"] per_gpu_range [OF e d(2)]
      by (simp_all add: divide_le_eq_1 zero_le_divide_iff)
    have "score_spread_item ps gpus (Some w) m st = score_spread_worker_score ps ?e st * (85 / 100) + avg * ?mx * (15 / 100)"
      using False by (simp add: score_spread_item_def score_spread_gpu_def d(1) default_spread_score_weights_def Let_def avg_def)
    moreover have "0 \<le> avg * ?mx" "avg * ?mx \<le> ?mx" using avg d(3) by (simp_all add: mult_left_le_one_le)
    ultimately show ?thesis using worker by linarith
  qed
qed

section \<open>Bounded scorers\<close>

text \<open>
  The contract of a scorer of instances: with a positive maximum, whatever it returns is one
  score per instance, between 0 and that maximum, on the instances of its domain. The chains
  rely on nothing else.
\<close>

locale bounded_scorer =
  fixes s :: "'i scorer"
    and dom :: "'i \<Rightarrow> bool"
  assumes run_range: "sc_max s = Some m \<Longrightarrow> 0 < m \<Longrightarrow> list_all dom xs \<Longrightarrow> sc_run s xs = Inr r \<Longrightarrow>
      length r = length xs \<and> list_all (\<lambda>v. 0 \<le> v \<and> v \<le> m) r"
begin

lemma added_range:
  assumes "sc_max s = Some m" and "0 < m" and "list_all dom xs" and "sc_run s xs = Inr r"
    and "length acc = length xs" and "list_all (\<lambda>v. 0 \<le> v \<and> v \<le> b) acc"
  shows "length (map2 (+) acc r) = length xs \<and> list_all (\<lambda>v. 0 \<le> v \<and> v \<le> b + m) (map2 (+) acc r)"
  using run_range [OF assms(1-4)] assms(5,6) by (auto simp: list_all_length add_mono)

end

interpretation status: bounded_scorer "\<lparr>sc_max = Some mx, sc_run = status_score_instances mx ws\<rparr>" "\<lambda>_. True"
  by unfold_locales
    (auto simp: status_score_instances_def status_score_def list_all_iff split: option.splits if_splits)

definition layers_ok :: "model_instance \<Rightarrow> bool" where
  "layers_ok mi = (case mi_claim mi of
      None \<Rightarrow> True
    | Some c \<Rightarrow> (case (cl_total_layers c, cl_offload_layers c) of
        (Some tot, Some off) \<Rightarrow> 0 \<le> off \<and> off \<le> tot | _ \<Rightarrow> True))"

lemma offload_score_range:
  "0 < mx \<Longrightarrow> layers_ok mi \<Longrightarrow> \<exists>v. offload_score mx mi = Inr v \<and> 0 \<le> v \<and> v \<le> mx"
proof -
  have "0 \<le> rat_of_int off / rat_of_int tot * mx \<and> rat_of_int off / rat_of_int tot * mx \<le> mx"
    if "0 < mx" "0 \<le> off" "off \<le> tot" "off \<noteq> tot" for off tot
  proof -
    have "0 \<le> rat_of_int off / rat_of_int tot" "rat_of_int off / rat_of_int tot \<le> 1" using that by (simp_all add: divide_le_eq_1)
    then show ?thesis using that(1) mult_left_le_one_le [of mx] by (metis less_imp_le mult_nonneg_nonneg)
  qed
  then show "0 < mx \<Longrightarrow> layers_ok mi \<Longrightarrow> \<exists>v. offload_score mx mi = Inr v \<and> 0 \<le> v \<and> v \<le> mx"
    by (auto simp: offload_score_def layers_ok_def split: option.splits if_splits)
qed

lemma offload_instances_range:
  "0 < mx \<Longrightarrow> list_all layers_ok mis \<Longrightarrow>
   \<exists>r. offload_score_instances mx mis = Inr r \<and> length r = length mis \<and> list_all (\<lambda>v. 0 \<le> v \<and> v \<le> mx) r"
proof (induction mis)
  case (Cons mi mis)
  with offload_score_range [of mx mi] show ?case by auto
qed simp

interpretation offload: bounded_scorer "\<lparr>sc_max = Some mx, sc_run = offload_score_instances mx\<rparr>" layers_ok
  using offload_instances_range by unfold_locales fastforce

lemma worker_map_wid:
  assumes "dget (make_worker_map ws) wid = Some w"
  shows "w_id w = wid \<and> w \<in> set (dvals (make_worker_map ws))"
proof -
  have "dget (fold (\<lambda>w. dput (w_id w) w) ws d) wid = Some w \<Longrightarrow> (\<forall>i w. dget d i = Some w \<longrightarrow> w_id w = i) \<Longrightarrow> w_id w = wid" for d
    by (induction ws arbitrary: d) (auto simp: dict_simps split: if_splits)
  from this [of "[]"] assms have "w_id w = wid" by (simp add: make_worker_map_def)
  with dget_mem [OF assms] show ?thesis by force
qed

lemma spread_instances_range:
  assumes "default_weights ps" and "score_spread_instances ps (make_worker_map ws) mis = Inr r"
  shows "length r = length mis \<and> list_all (\<lambda>v. 0 \<le> v \<and> v \<le> ps_max_score ps) r"
proof -
  let ?wm = "make_worker_map ws"
  from assms(2) obtain m where m: "get_worker_model_instance_count ps = Inr m"
      "r = map (spread_instance_score ps ?wm m (build_spread_stats m (map w_id (dvals ?wm)))) mis"
    by (auto simp: score_spread_instances_def bind_err_eq_Inr Let_def)
  have mx: "0 \<le> ps_max_score ps" using assms(1) by (simp add: default_weights_def)
  have "0 \<le> spread_instance_score ps ?wm m (build_spread_stats m (map w_id (dvals ?wm))) mi \<and>
        spread_instance_score ps ?wm m (build_spread_stats m (map w_id (dvals ?wm))) mi \<le> ps_max_score ps" for mi
  proof (cases "Option.bind (mi_worker_id mi) (dget ?wm)")
    case None
    then show ?thesis using mx by (auto simp: spread_instance_score_def score_spread_item_def Option.bind_eq_None_conv split: option.splits)
  next
    case (Some w)
    then obtain wid where wid: "mi_worker_id mi = Some wid" "dget ?wm wid = Some w" by (auto simp: Option.bind_eq_Some_conv)
    then have "covered (build_spread_stats m (map w_id (dvals ?wm))) (ce_total (get_instance_count_map m (Some (w_id w))))"
      using worker_map_wid [OF wid(2)] by (intro build_spread_stats_covers) auto
    from spread_item_range [OF assms(1) instance_count_ok [OF m(1)] this] show ?thesis by (simp add: spread_instance_score_def wid)
  qed
  then show ?thesis by (simp add: m(2) list_all_iff)
qed

interpretation spread: bounded_scorer
  "\<lparr>sc_max = Some mx, sc_run = placement_score_instances (make_placement_scorer mid SPREAD insts scale mx) ws\<rparr>" "\<lambda>_. True"
proof
  fix m xs r
  assume h: "sc_max \<lparr>sc_max = Some mx, sc_run = placement_score_instances (make_placement_scorer mid SPREAD insts scale mx) ws\<rparr> = Some m"
    "0 < m" "sc_run \<lparr>sc_max = Some mx, sc_run = placement_score_instances (make_placement_scorer mid SPREAD insts scale mx) ws\<rparr> xs = Inr r"
  then have "default_weights (make_placement_scorer mid SPREAD insts scale mx)" by (simp add: default_weights_def make_placement_scorer_def)
  from spread_instances_range [OF this, of ws xs r] h show "length r = length xs \<and> list_all (\<lambda>v. 0 \<le> v \<and> v \<le> m) r"
    by (simp add: placement_score_instances_def make_placement_scorer_def)
qed

lemma sum_scores_range:
  assumes "list_all (\<lambda>s. bounded_scorer s D) scs" and "list_all (\<lambda>s. \<exists>m. sc_max s = Some m \<and> 0 < m) scs" and "list_all D xs"
    and "length acc = length xs" and "list_all (\<lambda>v. 0 \<le> v \<and> v \<le> b) acc" and "sum_scores scs xs acc = Inr r"
  shows "length r = length xs \<and> list_all (\<lambda>v. 0 \<le> v \<and> v \<le> b + sum_max_score scs) r"
  using assms
proof (induction scs arbitrary: acc b)
  case (Cons s scs)
  then obtain m r1 where m: "sc_max s = Some m" "0 < m" "sc_run s xs = Inr r1" "sum_scores scs xs (map2 (+) acc r1) = Inr r" "bounded_scorer s D"
    by (auto simp: bind_err_eq_Inr)
  have "length (map2 (+) acc r1) = length xs" "list_all (\<lambda>v. 0 \<le> v \<and> v \<le> b + m) (map2 (+) acc r1)"
    using bounded_scorer.added_range [OF m(5) m(1,2) Cons.prems(3) m(3) Cons.prems(4,5)] by simp_all
  from Cons.IH [OF _ _ Cons.prems(3) this m(4)] Cons.prems(1,2) m(1) show ?case by (simp add: sum_max_score_def add.assoc)
qed (simp add: sum_max_score_def)

lemma active_positive: "list_all (\<lambda>s. \<exists>m. sc_max s = Some m \<and> 0 < m) (active_scorers scs)"
  by (auto simp: active_scorers_def list_all_iff split: option.splits)

lemma sum_max_pos: "list_all (\<lambda>s. \<exists>m. sc_max s = Some m \<and> 0 < m) scs \<Longrightarrow> 0 \<le> sum_max_score scs \<and> (scs \<noteq> [] \<longrightarrow> 0 < sum_max_score scs)"
  by (induction scs) (auto simp: sum_max_score_def add_pos_nonneg)

section \<open>Properties of scoring\<close>

text \<open>The chain keeps to its scale. If every scorer of the chain keeps its contract on the
  instances, the chain returns every instance once, in order, with a score between 0 and the
  requested total (or, without one, the sum of the active maxima).\<close>

theorem score_chain_bounded:
  assumes "list_all (\<lambda>s. bounded_scorer s D) scs" and "list_all D xs" and "score_chain scs total_max xs = Inr r"
    and "0 \<le> (case total_max of None \<Rightarrow> sum_max_score (active_scorers scs) | Some t \<Rightarrow> t)"
  shows "map fst r = xs \<and>
    list_all (\<lambda>(_, v). 0 \<le> v \<and> v \<le> (case total_max of None \<Rightarrow> sum_max_score (active_scorers scs) | Some t \<Rightarrow> t)) r"
proof (cases "xs = [] \<or> active_scorers scs = []")
  case True
  then show ?thesis using assms(3,4) by (auto simp: score_chain_def Let_def list_all_iff comp_def split: if_splits)
next
  case False
  let ?act = "active_scorers scs" and ?b = "case total_max of None \<Rightarrow> sum_max_score (active_scorers scs) | Some t \<Rightarrow> t"
  have pos: "0 < sum_max_score ?act" using sum_max_pos [OF active_positive, of scs] False by blast
  with assms(3) False obtain ts where ts: "sum_scores ?act xs (map (\<lambda>_. 0) xs) = Inr ts"
      "r = zip xs (map (\<lambda>s. s * scale_factor total_max ?act) ts)"
    by (auto simp: score_chain_def Let_def bind_err_eq_Inr)
  have "list_all (\<lambda>s. bounded_scorer s D) ?act" using assms(1) by (auto simp: active_scorers_def list_all_iff)
  from sum_scores_range [OF this active_positive assms(2) _ _ ts(1), of 0]
  have l: "length ts = length xs" "list_all (\<lambda>v. 0 \<le> v \<and> v \<le> sum_max_score ?act) ts" by (simp_all add: list_all_iff)
  have "0 \<le> v * scale_factor total_max ?act \<and> v * scale_factor total_max ?act \<le> ?b" if "0 \<le> v" "v \<le> sum_max_score ?act" for v
  proof (cases total_max)
    case None
    then show ?thesis using that by (simp add: scale_factor_def)
  next
    case (Some t)
    have q: "0 \<le> v / sum_max_score ?act" "v / sum_max_score ?act \<le> 1" using that pos by (simp_all add: divide_le_eq_1)
    have "v * scale_factor total_max ?act = v / sum_max_score ?act * t" using Some pos by (simp add: scale_factor_def)
    moreover have "0 \<le> t" using assms(4) Some by simp
    moreover from this q have "0 \<le> v / sum_max_score ?act * t" "v / sum_max_score ?act * t \<le> t"
      using mult_left_le_one_le [of t "v / sum_max_score ?act"] mult_nonneg_nonneg [of "v / sum_max_score ?act" t] by blast+
    ultimately show ?thesis using Some by simp
  qed
  with l show ?thesis by (auto simp: ts(2) list_all_length)
qed

definition healthy :: "worker list \<Rightarrow> model_instance \<Rightarrow> bool" where
  "healthy ws mi \<longleftrightarrow> (\<exists>w. Option.bind (mi_worker_id mi) (dget (make_worker_map ws)) = Some w \<and>
     w_state w = WORKER_READY \<and> mi_state mi = RUNNING)"

definition broken :: "worker list \<Rightarrow> model_instance \<Rightarrow> bool" where
  "broken ws mi \<longleftrightarrow> (case Option.bind (mi_worker_id mi) (dget (make_worker_map ws)) of
      None \<Rightarrow> True | Some w \<Rightarrow> w_state w = WORKER_NOT_READY \<or> mi_state mi = ERROR)"

definition subs_known :: "model_instance \<Rightarrow> bool" where
  "subs_known mi \<longleftrightarrow> list_all (\<lambda>sw. sw_gpu_indexes sw \<noteq> None) (items (mi_subs mi))"

lemma count_subs_total: "list_all (\<lambda>sw. sw_gpu_indexes sw \<noteq> None) sws \<Longrightarrow> \<exists>m'. count_subs c sws m = Inr m'"
  by (induction sws arbitrary: m) (auto simp: operand_def split: option.splits)

lemma count_instances_total: "list_all subs_known mis \<Longrightarrow> \<exists>m'. count_instances mid mis m = Inr m'"
proof (induction mis arbitrary: m)
  case (Cons mi mis)
  show ?case
  proof (cases "mi_worker_id mi")
    case None
    with Cons show ?thesis by simp
  next
    case (Some wid)
    have "\<exists>m'. count_subs c (items (mi_subs mi)) m1 = Inr m'" for c m1
      using Cons.prems by (intro count_subs_total) (simp add: subs_known_def)
    then obtain m2 where m2: "count_subs (mi_model_id mi = mid) (items (mi_subs mi))
        (if items (mi_gpu_indexes mi) \<noteq> [] then count_gpus (Some wid) (mi_model_id mi = mid) (items (mi_gpu_indexes mi)) m
         else update_count m (Some wid) None (mi_model_id mi = mid)) = Inr m2" by blast
    moreover obtain m3 where "count_instances mid mis m2 = Inr m3" using Cons by auto
    ultimately show ?thesis using Some by (simp add: Let_def)
  qed
qed simp

lemma spread_instances_total:
  "list_all subs_known insts \<Longrightarrow> \<exists>r. placement_score_instances (make_placement_scorer mid SPREAD insts scale mx) ws xs = Inr r"
  using count_instances_total [of insts "the mid" "[]"]
  by (cases mid) (auto simp: placement_score_instances_def make_placement_scorer_def score_spread_instances_def
      get_worker_model_instance_count_def Let_def)

lemma scale_down_sums:
  assumes "list_all layers_ok mis" and "list_all subs_known mis" and "mis \<noteq> []"
  obtains off pl where
    "score_chain (scale_down_scorers 100 10 1 mid SPREAD ws mis) None mis =
       Inr (zip mis (map2 (+) (map2 (+) (map (status_score 100 (make_worker_map ws)) mis) off) pl))"
    "length off = length mis" "length pl = length mis" "list_all (\<lambda>v. 0 \<le> v \<and> v \<le> 10) off" "list_all (\<lambda>v. 0 \<le> v \<and> v \<le> 1) pl"
proof -
  let ?st = "map (status_score 100 (make_worker_map ws)) mis"
  obtain off where off: "offload_score_instances 10 mis = Inr off" "length off = length mis" "list_all (\<lambda>v. 0 \<le> v \<and> v \<le> 10) off"
    using offload_instances_range [of 10 mis] assms(1) by auto
  obtain pl where pl: "placement_score_instances (make_placement_scorer mid SPREAD mis SCALE_DOWN 1) ws mis = Inr pl"
    using spread_instances_total [OF assms(2)] by blast
  have plr: "length pl = length mis" "list_all (\<lambda>v. 0 \<le> v \<and> v \<le> 1) pl"
    using spread.run_range [of 1 mid mis SCALE_DOWN ws 1 mis pl] pl by (simp_all add: list_all_iff)
  have "map2 (+) (map (\<lambda>_. 0) mis) ?st = ?st" by (simp add: map_equality_iff)
  with off(1) pl have "score_chain (scale_down_scorers 100 10 1 mid SPREAD ws mis) None mis = Inr (zip mis (map2 (+) (map2 (+) ?st off) pl))"
    using assms(3) by (simp add: score_chain_def scale_down_scorers_def active_scorers_def sum_max_score_def scale_factor_def
        status_score_instances_def Let_def)
  with off(2,3) plr that show ?thesis by blast
qed

text \<open>Unhealthy instances are removed first. With the default maxima and the spread strategy,
  sane layer numbers and known GPU indexes, scale-down orders all instances by ascending score,
  and every instance in ERROR, without an existing worker, or on a worker that is not ready
  scores strictly less than every running instance on a ready worker.\<close>

theorem scale_down_broken_first:
  assumes "list_all layers_ok mis" and "list_all subs_known mis"
  shows "\<exists>scores. length scores = length mis \<and>
     find_scale_down_candidates None None None None mid SPREAD ws mis = sort_key snd (zip mis scores) \<and>
     (\<forall>i < length mis. \<forall>j < length mis. broken ws (mis ! i) \<and> healthy ws (mis ! j) \<longrightarrow> scores ! i < scores ! j)"
proof (cases "mis = []")
  case True
  then show ?thesis by (simp add: find_scale_down_candidates_def score_chain_def Let_def)
next
  case False
  obtain off pl where r: "score_chain (scale_down_scorers 100 10 1 mid SPREAD ws mis) None mis =
       Inr (zip mis (map2 (+) (map2 (+) (map (status_score 100 (make_worker_map ws)) mis) off) pl))"
    "length off = length mis" "length pl = length mis" "list_all (\<lambda>v. 0 \<le> v \<and> v \<le> 10) off" "list_all (\<lambda>v. 0 \<le> v \<and> v \<le> 1) pl"
    by (rule scale_down_sums [OF assms False])
  let ?s = "map2 (+) (map2 (+) (map (status_score 100 (make_worker_map ws)) mis) off) pl"
  have nth: "?s ! k = status_score 100 (make_worker_map ws) (mis ! k) + off ! k + pl ! k" "0 \<le> off ! k" "off ! k \<le> 10" "0 \<le> pl ! k" "pl ! k \<le> 1"
    if "k < length mis" for k
    using that r(2-5) by (auto simp: list_all_length)
  have "?s ! i < ?s ! j" if "i < length mis" "j < length mis" "broken ws (mis ! i)" "healthy ws (mis ! j)" for i j
  proof -
    have "status_score 100 (make_worker_map ws) (mis ! i) = 0" using that(3) by (auto simp: broken_def status_score_def split: option.splits)
    moreover have "status_score 100 (make_worker_map ws) (mis ! j) = 100" using that(4) by (auto simp: healthy_def status_score_def)
    ultimately show ?thesis using nth [OF that(1)] nth [OF that(2)] by linarith
  qed
  with r show ?thesis by (intro exI [of _ ?s]) (simp add: find_scale_down_candidates_def Let_def)
qed

text \<open>Sample data: two instances, one failed and one running, on a ready worker.\<close>

definition sample_mi :: "instance_state \<Rightarrow> model_instance" where
  "sample_mi st = (hd sample_instances)\<lparr>mi_state := st\<rparr>"

theorem scale_down_broken_first_witness:
  "broken [sample_host] (sample_mi ERROR) \<and> healthy [sample_host] (sample_mi RUNNING) \<and>
   (\<exists>scores. find_scale_down_candidates None None None None (Some 1) SPREAD [sample_host] [sample_mi RUNNING, sample_mi ERROR] =
      sort_key snd (zip [sample_mi RUNNING, sample_mi ERROR] scores) \<and> scores ! 1 < scores ! 0)"
proof -
  have h: "list_all layers_ok [sample_mi RUNNING, sample_mi ERROR]" "list_all subs_known [sample_mi RUNNING, sample_mi ERROR]" by code_simp+
  have b: "broken [sample_host] (sample_mi ERROR)" by code_simp
  have g: "healthy [sample_host] (sample_mi RUNNING)"
    by (simp add: healthy_def make_worker_map_def sample_mi_def sample_instances_def sample_host_def)
  from scale_down_broken_first [OF h, of "Some 1" "[sample_host]"] obtain scores where
    "find_scale_down_candidates None None None None (Some 1) SPREAD [sample_host] [sample_mi RUNNING, sample_mi ERROR] =
       sort_key snd (zip [sample_mi RUNNING, sample_mi ERROR] scores)"
    "\<forall>i < 2. \<forall>j < 2. broken [sample_host] ([sample_mi RUNNING, sample_mi ERROR] ! i) \<and>
       healthy [sample_host] ([sample_mi RUNNING, sample_mi ERROR] ! j) \<longrightarrow> scores ! i < scores ! j"
    by (auto simp: numeral_2_eq_2)
  moreover from this(2) b g have "scores ! 1 < scores ! 0" by (metis nth_Cons_0 nth_Cons_Suc One_nat_def one_less_numeral_iff semiring_norm(76) zero_less_numeral)
  ultimately show ?thesis using b g by blast
qed

theorem score_chain_bounded_witness:
  "\<exists>r. score_chain [\<lparr>sc_max = Some 100, sc_run = status_score_instances 100 [sample_host]\<rparr>] (Some 5) [sample_mi RUNNING] = Inr r \<and>
     list_all (\<lambda>(_, v). 0 \<le> v \<and> v \<le> 5) r \<and> length r = 1"
proof -
  let ?s = "\<lparr>sc_max = Some 100, sc_run = status_score_instances 100 [sample_host]\<rparr>"
  have b: "list_all (\<lambda>s. bounded_scorer s (\<lambda>_. True)) [?s]" using status.bounded_scorer_axioms by simp
  obtain r where r: "score_chain [?s] (Some 5) [sample_mi RUNNING] = Inr r"
    by (simp add: score_chain_def active_scorers_def sum_max_score_def status_score_instances_def)
  from score_chain_bounded [OF b _ r] have "map fst r = [sample_mi RUNNING]" "list_all (\<lambda>(_, v). 0 \<le> v \<and> v \<le> 5) r"
    by simp_all
  moreover from this(1) have "length r = 1" by (metis length_Cons length_map list.size(3) One_nat_def)
  ultimately show ?thesis using r by blast
qed

text \<open>Spreading prefers emptier workers. With the default weights and fixed statistics, a worker
  with at most as many instances of the model, and at most as many of other models, gets at
  least the score of another, provided both or neither of the two host the model.\<close>

theorem spread_prefers_emptier:
  assumes "ps_spread_weights ps = default_spread_score_weights" and "0 \<le> ps_max_score ps"
    and "cp_current (ce_total e) \<le> cp_current (ce_total e')" and "cp_others (ce_total e) \<le> cp_others (ce_total e')"
    and "cp_current (ce_total e) = 0 \<longleftrightarrow> cp_current (ce_total e') = 0"
  shows "score_spread_worker_score ps e' st \<le> score_spread_worker_score ps e st"
proof -
  note a = inverse_norm_antimono [OF assms(3), of "min_current st" "max_current st"]
    inverse_norm_antimono [OF assms(4), of "min_others st" "max_others st"]
  show ?thesis
    using a assms(5) unfolding score_spread_worker_score_def Let_def
    by (intro mult_right_mono assms(2)) (auto simp: assms(1) default_spread_score_weights_def)
qed

theorem spread_prefers_emptier_witness:
  "score_spread_worker_score (make_placement_scorer None SPREAD [] SCALE_UP 100) \<lparr>ce_total = \<lparr>cp_current = 2, cp_others = 3\<rparr>, ce_gpu = []\<rparr>
     \<lparr>any_zero_current = False, min_current = 1, max_current = 2, min_others = 0, max_others = 4\<rparr> \<le>
   score_spread_worker_score (make_placement_scorer None SPREAD [] SCALE_UP 100) \<lparr>ce_total = \<lparr>cp_current = 1, cp_others = 3\<rparr>, ce_gpu = []\<rparr>
     \<lparr>any_zero_current = False, min_current = 1, max_current = 2, min_others = 0, max_others = 4\<rparr>"
  by (rule spread_prefers_emptier) (simp_all add: make_placement_scorer_def)

text \<open>Binpack can exceed its maximum. The scores of subordinate workers are summed and then
  multiplied by their number again: with two fully used subordinate workers, a candidate
  whose every part scores the maximum of 100 gets 900/7, about 128.6.\<close>

theorem binpack_exceeds_max:
  "\<exists>ws c c'. placement_score (make_placement_scorer None BINPACK [] SCALE_UP 100) ws [c] = Inr [c'] \<and>
     list_all (\<lambda>sw. \<exists>w ab. dget (make_worker_map ws) (the (sw_worker_id sw)) = Some w \<and>
        get_worker_allocatable_resource [] w None = Inr ab \<and>
        score_binpack_item (make_placement_scorer None BINPACK [] SCALE_UP 100) (sw_gpu_indexes sw) (sw_claim sw) ab SCALE_UP = Inr 100)
       (items (cd_subs c)) \<and>
     cd_score c' = Some (900 / 7) \<and> 900 / 7 > (100 :: rat)"
proof -
  let ?w = "\<lambda>i. \<lparr>w_id = i, w_name = ''w'', w_state = WORKER_READY,
     w_status = Some \<lparr>st_memory = Some \<lparr>mem_total = Some 8, mem_allocated = None, mem_unified = False\<rparr>,
                      st_gpus = Some [sample_gpu 0 ''cuda'' 16]\<rparr>,
     w_reserved = Some \<lparr>rs_ram = Some 0, rs_vram = Some 0\<rparr>\<rparr>"
  let ?cl = "Some \<lparr>cl_ram = Some 8, cl_vram = Some [(0, 16)], cl_offload_layers = None, cl_total_layers = None\<rparr>"
  let ?sub = "\<lambda>i. \<lparr>sw_worker_id = Some i, sw_gpu_indexes = Some [0], sw_claim = ?cl\<rparr>"
  let ?c = "\<lparr>cd_worker = ?w 1, cd_gpu_indexes = Some [0], cd_claim = ?cl, cd_subs = Some [?sub 2, ?sub 3], cd_score = None\<rparr>"
  let ?ws = "[?w 1, ?w 2, ?w 3]" and ?ps = "make_placement_scorer None BINPACK [] SCALE_UP 100"
  have "placement_score ?ps ?ws [?c] = Inr [?c\<lparr>cd_score := Some (900 / 7)\<rparr>]" by code_simp
  moreover have "get_worker_allocatable_resource [] (?w i) None = Inr \<lparr>ab_ram = 8, ab_vram = [(Some 0, 16)]\<rparr>" for i
    by (simp add: get_worker_allocatable_resource_def get_worker_model_instances_def compute_worker_allocated_def attr_def operand_def
        sample_gpu_def Let_def dget0_def)
  moreover have "score_binpack_item ?ps (Some [0]) ?cl \<lparr>ab_ram = 8, ab_vram = [(Some 0, 16)]\<rparr> SCALE_UP = Inr 100" by code_simp
  ultimately show ?thesis
    by (intro exI [of _ ?ws] exI [of _ ?c] exI [of _ "?c\<lparr>cd_score := Some (900 / 7)\<rparr>"]) (simp add: make_worker_map_def)
qed

text \<open>The picked candidate has the highest score.\<close>

lemma pick_loop_max: "pick_loop b cs \<in> insert b (set cs) \<and> (\<forall>c \<in> insert b (set cs). the (cd_score c) \<le> the (cd_score (pick_loop b cs)))"
  by (induction cs arbitrary: b) (auto, (metis insert_iff linorder_le_cases linorder_not_le order_trans)+)

lemma pick_highest: "pick_highest_score_candidate cs = Some c \<Longrightarrow> c \<in> set cs \<and> (\<forall>d \<in> set cs. the (cd_score d) \<le> the (cd_score c))"
  using pick_loop_max by (cases cs) (auto simp: pick_highest_score_candidate_def)

end
