(* ===== verification/WorkerFilters.thy ===== *)
theory WorkerFilters
  imports Allocation
begin

text \<open>
  Which workers a model may be placed on, \<^verbatim>\<open>src/gpustack/policies/worker_filters/\<close> and the filter
  chain of \<^verbatim>\<open>policies/base.py\<close> as \<^verbatim>\<open>scheduler/scheduler.py\<close> builds it, with the GPU identifiers
  of \<^verbatim>\<open>utils/gpu.py\<close>. The backend filter, which queries the database, is an argument; so are the
  answers of the workers to the path check.
\<close>

section \<open>GPU identifiers\<close>

definition make_gpu_id :: "string \<Rightarrow> string \<Rightarrow> nat \<Rightarrow> string" where
  "make_gpu_id w dev i = w @ '':'' @ dev @ '':'' @ nat_str i"

text \<open>Split at the last colon.\<close>

definition rsplit_colon :: "string \<Rightarrow> (string \<times> string) option" where
  "rsplit_colon s =
     (case dropWhile (\<lambda>c. c \<noteq> CHR '':'') (rev s) of
        [] \<Rightarrow> None
      | _ # r \<Rightarrow> Some (rev r, rev (takeWhile (\<lambda>c. c \<noteq> CHR '':'') (rev s))))"

text \<open>
  The regular expression: a worker name without line breaks, a device without colons, digits;
  the dollar also matches before one final line break.
\<close>

definition parse_gpu_id :: "string \<Rightarrow> (string \<times> string \<times> string) option" where
  "parse_gpu_id s =
     (let t = (if s \<noteq> [] \<and> last s = CHR ''\<newline>'' then butlast s else s)
      in case rsplit_colon t of
           None \<Rightarrow> None
         | Some (a, idx) \<Rightarrow>
             (case rsplit_colon a of
                None \<Rightarrow> None
              | Some (w, dev) \<Rightarrow>
                  if idx \<noteq> [] \<and> list_all (\<lambda>c. py_digit c \<noteq> None) idx \<and> dev \<noteq> [] \<and> w \<noteq> [] \<and> CHR ''\<newline>'' \<notin> set w
                  then Some (w, dev, idx) else None))"

fun group_ids :: "string list \<Rightarrow> (string, string list) dict \<Rightarrow> py_error + (string, string list) dict" where
  "group_ids [] d = Inr d"
| "group_ids (g # gs) d =
     (case parse_gpu_id g of
        None \<Rightarrow> Inl ValueErr
      | Some (w, _, _) \<Rightarrow> group_ids gs (dput w (entry d w @ [g]) d))"

text \<open>The lists are sorted as strings, by \<open>lexord\<close> on code points.\<close>

fun str_less_eq :: "string \<Rightarrow> string \<Rightarrow> bool" where
  "str_less_eq [] t = True"
| "str_less_eq (a # s) [] = False"
| "str_less_eq (a # s) (b # t) =
     ((of_char a :: nat) < of_char b \<or> (of_char a :: nat) = of_char b \<and> str_less_eq s t)"

fun insert_str :: "string \<Rightarrow> string list \<Rightarrow> string list" where
  "insert_str x [] = [x]"
| "insert_str x (y # ys) = (if str_less_eq x y then x # y # ys else y # insert_str x ys)"

definition sort_strs :: "string list \<Rightarrow> string list" where
  "sort_strs xs = foldr insert_str xs []"

definition group_gpu_ids_by_worker :: "string list \<Rightarrow> py_error + (string, string list) dict" where
  "group_gpu_ids_by_worker ids = bind_err (group_ids ids []) (\<lambda>d. Inr (map (\<lambda>(w, gs). (w, sort_strs gs)) d))"

section \<open>Filters\<close>

record candidate_worker = worker +
  w_cluster_id :: "int option"
  w_labels :: "(string, string) dict"

text \<open>\<open>fm_cluster\<close>: outer \<open>None\<close> when the model has no \<open>cluster_id\<close> attribute.\<close>

record filter_model =
  fm_cluster :: "int option option"
  fm_gpu_ids :: "string list"
  fm_selector :: "(string, string) dict option"
  fm_local_path :: bool

datatype filter_message =
    MatchedCluster nat
  | MatchedGpu nat "string list"
  | MatchedLabels nat nat
  | MatchedStatus nat nat
  | PathMissing "string list"
  | BackendMessage string

type_synonym filter_result = "py_error + candidate_worker list \<times> filter_message list"

definition cluster_filter :: "filter_model \<Rightarrow> candidate_worker list \<Rightarrow> filter_result" where
  "cluster_filter m ws =
     (case fm_cluster m of
        None \<Rightarrow> Inr (ws, [])
      | Some cid \<Rightarrow>
          let cs = filter (\<lambda>w. w_cluster_id w = cid) ws in Inr (cs, [MatchedCluster (length cs)]))"

definition gpu_matching_filter :: "filter_model \<Rightarrow> candidate_worker list \<Rightarrow> filter_result" where
  "gpu_matching_filter m ws =
     (if fm_gpu_ids m = [] then Inr (ws, [])
      else bind_err (group_gpu_ids_by_worker (fm_gpu_ids m)) (\<lambda>by_worker.
             let cs = filter (\<lambda>w. w_name w \<in> set (dkeys by_worker)) ws;
                 missing = (if length cs < length by_worker
                            then filter (\<lambda>n. n \<notin> w_name ` set cs) (dkeys by_worker) else [])
             in Inr (cs, [MatchedGpu (length cs) missing])))"

definition label_matching :: "(string, string) dict \<Rightarrow> (string, string) dict \<Rightarrow> bool" where
  "label_matching required current = list_all (\<lambda>(k, v). dget current k = Some v) required"

definition label_matching_filter :: "filter_model \<Rightarrow> candidate_worker list \<Rightarrow> filter_result" where
  "label_matching_filter m ws =
     (case fm_selector m of
        None \<Rightarrow> Inr (ws, [])
      | Some sel \<Rightarrow>
          let cs = filter (\<lambda>w. label_matching sel (w_labels w)) ws
          in Inr (cs, if length cs \<noteq> length ws then [MatchedLabels (length cs) (length ws)] else []))"

definition status_filter :: "candidate_worker list \<Rightarrow> filter_result" where
  "status_filter ws =
     (let cs = filter (\<lambda>w. w_state w = WORKER_READY) ws
      in Inr (cs, if length cs \<noteq> length ws then [MatchedStatus (length cs) (length ws)] else []))"

text \<open>\<open>path\<close>: what a worker answers; a failing request counts as a missing path.\<close>

definition local_path_filter ::
  "(candidate_worker \<Rightarrow> py_error + bool) \<Rightarrow> filter_model \<Rightarrow> candidate_worker list \<Rightarrow> filter_result" where
  "local_path_filter path m ws =
     (if \<not> fm_local_path m \<or> fm_gpu_ids m = [] then Inr (ws, [])
      else let bad = sort_strs (map w_name (filter (\<lambda>w. path w \<noteq> Inr True) ws))
           in Inr (filter (\<lambda>w. path w = Inr True) ws, if bad \<noteq> [] then [PathMissing bad] else []))"

fun filter_chain ::
  "(candidate_worker list \<Rightarrow> filter_result) list \<Rightarrow> candidate_worker list \<Rightarrow> filter_message list \<Rightarrow> filter_result" where
  "filter_chain [] ws msgs = Inr (ws, msgs)"
| "filter_chain (f # fs) ws msgs =
     bind_err (f ws) (\<lambda>(ws', new).
       if ws' = [] then Inr (ws', msgs @ new) else filter_chain fs ws' (msgs @ new))"

definition filter_workers ::
  "(candidate_worker list \<Rightarrow> filter_result) \<Rightarrow> (candidate_worker \<Rightarrow> py_error + bool) \<Rightarrow> filter_model \<Rightarrow>
   candidate_worker list \<Rightarrow> filter_result" where
  "filter_workers backend path m ws =
     filter_chain [cluster_filter m, gpu_matching_filter m, label_matching_filter m, status_filter, backend,
                   local_path_filter path m] ws []"

section \<open>Lemmas on identifiers\<close>

lemma rsplit_colon_append:
  assumes "CHR '':'' \<notin> set t"
  shows "rsplit_colon (s @ '':'' @ t) = Some (s, t)"
proof -
  have "dropWhile (\<lambda>c. c \<noteq> CHR '':'') (rev t @ CHR '':'' # rev s) = CHR '':'' # rev s"
    "takeWhile (\<lambda>c. c \<noteq> CHR '':'') (rev t @ CHR '':'' # rev s) = rev t"
    using assms by (auto simp: dropWhile_append takeWhile_append)
  then show ?thesis by (simp add: rsplit_colon_def)
qed

text \<open>Formatting and parsing an identifier are inverse.\<close>

lemma gpu_id_roundtrip:
  assumes "w \<noteq> []" and "CHR ''\<newline>'' \<notin> set w" and "dev \<noteq> []" and "CHR '':'' \<notin> set dev"
  shows "parse_gpu_id (make_gpu_id w dev i) = Some (w, dev, nat_str i)"
proof -
  note d = nat_str_digits [of i]
  have "py_digit CHR '':'' = None" "py_digit CHR ''\<newline>'' = None" by (simp_all add: py_digit_def)
  with d have colon: "CHR '':'' \<notin> set (nat_str i)" and "CHR ''\<newline>'' \<notin> set (nat_str i)" by (auto simp: list_all_iff)
  with d have nl: "last (nat_str i) \<noteq> CHR ''\<newline>''" using last_in_set [of "nat_str i"] by force
  have "last (make_gpu_id w dev i) = last (nat_str i)" using d by (simp add: make_gpu_id_def)
  moreover have "rsplit_colon (make_gpu_id w dev i) = Some (w @ '':'' @ dev, nat_str i)"
    using rsplit_colon_append [OF colon, of "w @ '':'' @ dev"] by (simp add: make_gpu_id_def)
  ultimately show ?thesis
    using d nl rsplit_colon_append [OF assms(4), of w] assms by (simp add: parse_gpu_id_def)
qed

section \<open>Filters as selections\<close>

text \<open>
  The contract of a filter: what it returns are the workers that satisfy its criterion, in their
  order. The chain relies on nothing else.
\<close>

definition chain_selects ::
  "(candidate_worker list \<Rightarrow> filter_result) list \<Rightarrow> (candidate_worker \<Rightarrow> bool) \<Rightarrow> bool" where
  "chain_selects fs P \<longleftrightarrow> (\<forall>ws msgs r out. filter_chain fs ws msgs = Inr (r, out) \<longrightarrow> r = filter P ws)"

lemma chain_selects_Nil: "chain_selects [] (\<lambda>_. True)"
  by (simp add: chain_selects_def)

locale worker_filter =
  fixes f :: "candidate_worker list \<Rightarrow> filter_result"
    and keep :: "candidate_worker \<Rightarrow> bool"
  assumes selects: "f ws = Inr (r, msgs) \<Longrightarrow> r = filter keep ws"
begin

lemma chain_step:
  assumes rest: "chain_selects fs P"
  shows "chain_selects (f # fs) (\<lambda>w. keep w \<and> P w)"
  unfolding chain_selects_def
proof (intro allI impI)
  fix ws msgs r out
  assume a: "filter_chain (f # fs) ws msgs = Inr (r, out)"
  then obtain ws' new where f: "f ws = Inr (ws', new)" by (auto simp: bind_err_eq_Inr)
  from selects [OF this] have k: "ws' = filter keep ws" .
  show "r = filter (\<lambda>w. keep w \<and> P w) ws"
  proof (cases "ws' = []")
    case True
    then show ?thesis using a f k by (auto simp: filter_empty_conv)
  next
    case False
    then have "filter_chain fs ws' (msgs @ new) = Inr (r, out)" using a f by simp
    with rest have "r = filter P ws'" by (auto simp: chain_selects_def)
    then show ?thesis by (simp add: k conj_commute)
  qed
qed

end

definition keep_cluster :: "filter_model \<Rightarrow> candidate_worker \<Rightarrow> bool" where
  "keep_cluster m w \<longleftrightarrow> (case fm_cluster m of None \<Rightarrow> True | Some cid \<Rightarrow> w_cluster_id w = cid)"

definition keep_gpu :: "filter_model \<Rightarrow> candidate_worker \<Rightarrow> bool" where
  "keep_gpu m w \<longleftrightarrow> fm_gpu_ids m = [] \<or> (\<exists>g \<in> set (fm_gpu_ids m). \<exists>dev i. parse_gpu_id g = Some (w_name w, dev, i))"

definition keep_label :: "filter_model \<Rightarrow> candidate_worker \<Rightarrow> bool" where
  "keep_label m w \<longleftrightarrow> (case fm_selector m of None \<Rightarrow> True | Some sel \<Rightarrow> \<forall>(k, v) \<in> set sel. dget (w_labels w) k = Some v)"

definition keep_path :: "(candidate_worker \<Rightarrow> py_error + bool) \<Rightarrow> filter_model \<Rightarrow> candidate_worker \<Rightarrow> bool" where
  "keep_path path m w \<longleftrightarrow> \<not> fm_local_path m \<or> fm_gpu_ids m = [] \<or> path w = Inr True"

lemma group_ids_keys:
  "group_ids gs d = Inr d' \<Longrightarrow> set (dkeys d') = set (dkeys d) \<union> {w. \<exists>g \<in> set gs. \<exists>dev i. parse_gpu_id g = Some (w, dev, i)}"
proof (induction gs arbitrary: d)
  case Nil
  then show ?case by simp
next
  case (Cons g gs)
  from Cons.prems obtain w dev i where p: "parse_gpu_id g = Some (w, dev, i)"
    and r: "group_ids gs (dput w (entry d w @ [g]) d) = Inr d'"
    by (auto split: option.splits)
  show ?case unfolding Cons.IH [OF r] by (auto simp: p keys_dput simp del: set_map) (auto simp: keys_dput)
qed

lemma dkeys_map_values: "dkeys (map (\<lambda>(k, v). (k, f v)) d) = dkeys d"
  by (induction d) auto

interpretation cluster: worker_filter "cluster_filter m" "keep_cluster m"
  by unfold_locales (auto simp: cluster_filter_def keep_cluster_def [abs_def] Let_def split: option.splits)

interpretation gpu: worker_filter "gpu_matching_filter m" "keep_gpu m"
proof
  fix ws r msgs
  assume a: "gpu_matching_filter m ws = Inr (r, msgs)"
  show "r = filter (keep_gpu m) ws"
  proof (cases "fm_gpu_ids m = []")
    case True
    then show ?thesis using a by (simp add: gpu_matching_filter_def keep_gpu_def)
  next
    case False
    with a obtain d where d: "group_ids (fm_gpu_ids m) [] = Inr d" "r = filter (\<lambda>w. w_name w \<in> set (dkeys d)) ws"
      by (auto simp: gpu_matching_filter_def group_gpu_ids_by_worker_def bind_err_eq_Inr Let_def dkeys_map_values simp del: map_map set_map)
    from group_ids_keys [OF d(1)] False show ?thesis by (simp add: d(2) keep_gpu_def [abs_def])
  qed
qed

interpretation label: worker_filter "label_matching_filter m" "keep_label m"
  by unfold_locales
    (auto simp: label_matching_filter_def label_matching_def list_all_iff keep_label_def [abs_def] Let_def split: option.splits)

interpretation ready: worker_filter status_filter "\<lambda>w. w_state w = WORKER_READY"
  by unfold_locales (auto simp: status_filter_def Let_def)

interpretation path: worker_filter "local_path_filter p m" "keep_path p m"
  by unfold_locales (auto simp: local_path_filter_def keep_path_def [abs_def] Let_def split: if_splits)

definition eligible ::
  "(candidate_worker \<Rightarrow> bool) \<Rightarrow> (candidate_worker \<Rightarrow> py_error + bool) \<Rightarrow> filter_model \<Rightarrow> candidate_worker \<Rightarrow> bool" where
  "eligible keep path m w \<longleftrightarrow>
     keep_cluster m w \<and> keep_gpu m w \<and> keep_label m w \<and> w_state w = WORKER_READY \<and> keep w \<and> keep_path path m w"

lemma filter_workers_eligible:
  assumes "worker_filter backend keep" and "filter_workers backend path m ws = Inr (r, msgs)"
  shows "r = filter (eligible keep path m) ws"
proof -
  note tail = worker_filter.chain_step [OF assms(1) path.chain_step [OF chain_selects_Nil]]
  note chain = cluster.chain_step [OF gpu.chain_step [OF label.chain_step [OF ready.chain_step [OF tail]]]]
  from assms(2) show ?thesis
    using chain [of m m m path m] by (auto simp: chain_selects_def filter_workers_def eligible_def [abs_def])
qed

text \<open>C28: The filter chain selects exactly the eligible workers. If the backend filter is a
  selection by some criterion, the workers that remain are, in their order, those of the
  model's cluster, named by its GPU selector, matching its labels, READY, accepted by the
  backend filter and, for local models with selected GPUs, having the path; ending the chain
  early changes nothing.\<close>

theorem filter_workers_exact:
  assumes "worker_filter backend keep" and "filter_workers backend path m ws = Inr (r, msgs)"
  shows "r = filter (\<lambda>w. keep_cluster m w \<and> keep_gpu m w \<and> keep_label m w \<and> w_state w = WORKER_READY \<and> keep w \<and> keep_path path m w) ws"
  using filter_workers_eligible [OF assms] by (simp add: eligible_def [abs_def])

definition sample_candidate :: "int \<Rightarrow> worker_state \<Rightarrow> candidate_worker" where
  "sample_candidate i st = \<lparr>w_id = i, w_name = ''host'', w_state = st, w_status = None, w_reserved = None,
     w_cluster_id = Some 1, w_labels = [(''zone'', ''a'')]\<rparr>"

theorem filter_workers_exact_witness:
  "\<exists>r msgs. filter_workers (\<lambda>ws. Inr (ws, [])) (\<lambda>_. Inr True)
      \<lparr>fm_cluster = Some (Some 1), fm_gpu_ids = [''host:cuda:0''], fm_selector = Some [(''zone'', ''a'')], fm_local_path = True\<rparr>
      [sample_candidate 1 WORKER_READY, sample_candidate 2 WORKER_PENDING] = Inr (r, msgs) \<and>
    map w_id r = [1]"
proof -
  let ?m = "\<lparr>fm_cluster = Some (Some 1), fm_gpu_ids = [''host:cuda:0''], fm_selector = Some [(''zone'', ''a'')], fm_local_path = True\<rparr>"
  let ?ws = "[sample_candidate 1 WORKER_READY, sample_candidate 2 WORKER_PENDING]"
  let ?r = "filter_workers (\<lambda>ws. Inr (ws, [])) (\<lambda>_. Inr True) ?m ?ws"
  have b: "worker_filter (\<lambda>ws. Inr (ws, [])) (\<lambda>_. True)" by unfold_locales simp
  have "\<not> isl ?r" by code_simp
  then obtain r msgs where r: "?r = Inr (r, msgs)" by (cases ?r) auto
  have p: "parse_gpu_id ''host:cuda:0'' = Some (''host'', ''cuda'', ''0'')" by code_simp
  from filter_workers_exact [OF b r] have "map w_id r = [1]"
    by (auto simp: keep_cluster_def keep_gpu_def keep_label_def keep_path_def label_matching_def sample_candidate_def p)
  with r show ?thesis by (intro exI conjI)
qed

end
