(* ===== verification/Scheduler.thy ===== *)
theory Scheduler
  imports Placement WorkerFilters "HOL-Library.Multiset"
begin

text \<open>
  The scheduler, \<^verbatim>\<open>src/gpustack/scheduler/scheduler.py\<close> and \<^verbatim>\<open>src/gpustack/scheduler/queue.py\<close>:
  which instances are due, their evaluation, the unique queue, and the scheduling of one
  instance. The tasks of the event loop are kept apart at their awaits: an instance under
  evaluation and the instance being scheduled are part of the state, so that every
  interleaving with each other and with the rest of the system is a sequence of steps. Times
  are in microseconds. Evaluation of a model's files and the search for a candidate are
  parameters of the steps that wait for them.
\<close>

section \<open>Data\<close>

datatype coordinate_mode = DELEGATED | INITIALIZE_LATER | RUN_FIRST

record distributed_servers =
  ds_mode :: coordinate_mode
  ds_subs :: "subordinate_worker list option"

datatype backend = VLLM | VOX_BOX | ASCEND_MINDIE | SGLANG | CUSTOM | OtherBackend string

text \<open>The columns of an instance row the scheduler reads or writes; worker address, interface and
  GPU addresses follow the worker and are left out.\<close>

record inst =
  in_id :: int
  in_model_id :: int
  in_state :: instance_state
  in_message :: string
  in_worker_id :: "int option"
  in_claim :: "resource_claim option"
  in_gpu_indexes :: "int list option"
  in_servers :: "distributed_servers option"
  in_created :: int
  in_updated :: int

record sched_model =
  sm_backend :: "backend option"
  sm_gguf :: bool
  sm_distributable :: bool
  sm_gpu_ids :: "string list"
  sm_across_workers :: bool
  sm_categories :: "category list"
  sm_gpus_per_replica :: "int option"
  sm_replicas :: int

text \<open>\<open>evaluating\<close>: rows whose evaluation waits; \<open>scheduling\<close>: the row being scheduled as it was read,
  with the model read beside it.\<close>

record sched =
  db_instances :: "(int, inst) dict"
  db_models :: "(int, sched_model) dict"
  q_items :: "inst list"
  q_set :: "inst set"
  evaluating :: "inst list"
  scheduling :: "(inst \<times> sched_model option) option"
  clock :: int

section \<open>Unique queue\<close>

definition queue_put :: "inst \<Rightarrow> sched \<Rightarrow> sched" where
  "queue_put item s =
     (if item \<notin> q_set s then s\<lparr>q_set := insert item (q_set s), q_items := q_items s @ [item]\<rparr> else s)"

definition queue_get :: "sched \<Rightarrow> (inst \<times> sched) option" where
  "queue_get s =
     (case q_items s of
        [] \<Rightarrow> None
      | item # rest \<Rightarrow> Some (item, s\<lparr>q_items := rest, q_set := q_set s - {item}\<rparr>))"

section \<open>Which instances are due\<close>

definition seconds :: "int \<Rightarrow> int" where
  "seconds n = n * 1000000"

definition should_schedule :: "int \<Rightarrow> inst \<Rightarrow> bool" where
  "should_schedule now i \<longleftrightarrow>
     (let newly_created = in_updated i - in_created i < seconds 1;
          update_delta = now - in_updated i
      in in_worker_id i = None \<and> in_state i = PENDING \<and> (newly_created \<or> update_delta > seconds 90) \<or>
         in_worker_id i = None \<and> in_state i = ANALYZING \<and> update_delta > seconds 180 \<or>
         in_worker_id i \<noteq> None \<and> in_state i = SCHEDULED \<and> update_delta > seconds 180)"

section \<open>Evaluation\<close>

text \<open>An update through the session writes the assigned columns of the row as it is then; the
  update time changes when some column does.\<close>

definition write_row :: "int \<Rightarrow> (inst \<Rightarrow> inst) \<Rightarrow> sched \<Rightarrow> sched" where
  "write_row iid f s =
     (case dget (db_instances s) iid of
        None \<Rightarrow> s
      | Some r \<Rightarrow> if f r = r then s else s\<lparr>db_instances := dput iid ((f r)\<lparr>in_updated := clock s\<rparr>) (db_instances s)\<rparr>)"

definition set_error :: "string \<Rightarrow> inst \<Rightarrow> inst" where
  "set_error msg i = i\<lparr>in_state := ERROR, in_message := msg\<rparr>"

definition set_analyzing :: "int \<Rightarrow> inst \<Rightarrow> inst" where
  "set_analyzing now i =
     (if in_state i \<noteq> ANALYZING
      then i\<lparr>in_state := ANALYZING, in_message := ''Evaluating resource requirements'', in_updated := now\<rparr> else i)"

text \<open>\<open>_evaluate\<close> up to the evaluation of the model.\<close>

definition evaluate_start :: "int \<Rightarrow> sched \<Rightarrow> sched" where
  "evaluate_start iid s =
     (case dget (db_instances s) iid of
        None \<Rightarrow> s
      | Some i \<Rightarrow>
          if \<not> should_schedule (clock s) i then s
          else case dget (db_models s) (in_model_id i) of
                 None \<Rightarrow> write_row iid (set_error ''Model not found.'') s
               | Some m \<Rightarrow>
                   let i' = set_analyzing (clock s) i
                   in s\<lparr>db_instances := dput iid i' (db_instances s), evaluating := evaluating s @ [i']\<rparr>)"

text \<open>
  The two triggers: the periodic scan over all rows, and a creation event, whose payload only
  serves the first check. \<open>None\<close>: the event carries no instance with an id.
\<close>

definition enqueue_pending_instances :: "sched \<Rightarrow> sched" where
  "enqueue_pending_instances s =
     fold evaluate_start (map fst (filter (\<lambda>(k, i). should_schedule (clock s) i) (db_instances s))) s"

definition enqueue_event_instance :: "inst option \<Rightarrow> sched \<Rightarrow> sched" where
  "enqueue_event_instance payload s =
     (case payload of
        None \<Rightarrow> s
      | Some i \<Rightarrow> if should_schedule (clock s) i then evaluate_start (in_id i) s else s)"

text \<open>Workers that have the model's files come first; \<open>files\<close>: the worker and readiness of each.\<close>

definition prioritize_workers_with_model_files :: "string \<Rightarrow> (int option \<times> bool) list \<Rightarrow> worker list \<Rightarrow> worker list" where
  "prioritize_workers_with_model_files source_index files ws =
     (if ws = [] \<or> source_index = [] \<or> files = [] then ws
      else sort_key (\<lambda>w. if Some (w_id w) \<in> fst ` {f \<in> set files. snd f} then 0 else (1::nat)) ws)"

definition not_distributable :: "sched_model \<Rightarrow> py_error + bool" where
  "not_distributable m =
     (if \<not> sm_distributable m \<and> sm_gpu_ids m \<noteq> []
      then bind_err (group_gpu_ids_by_worker (sm_gpu_ids m)) (\<lambda>d. Inr (length d > 1))
      else Inr False)"

text \<open>
  What the inner \<open>try\<close> of \<open>_evaluate\<close> leaves: whether to update the model, the model, and whether
  the instance was rejected. \<open>ev\<close>: the result of reading the model's files; any exception lets
  the deployment proceed.
\<close>

definition evaluate_model :: "(sched_model \<Rightarrow> py_error + sched_model \<times> bool) \<Rightarrow> sched_model \<Rightarrow> sched_model \<times> bool \<times> bool" where
  "evaluate_model ev m =
     (case ev m of
        Inl _ \<Rightarrow> (m, False, False)
      | Inr (m', upd) \<Rightarrow>
          if sm_gguf m then (m', upd, not_distributable m' = Inr True) else (m', upd, False))"

text \<open>\<open>_evaluate\<close> from there on. \<open>Inl msg\<close>: an exception outside the inner \<open>try\<close>. A changed model is
  flushed with whatever the session commits next.\<close>

definition evaluate_finish ::
  "string + (sched_model \<Rightarrow> py_error + sched_model \<times> bool) \<Rightarrow> sched_model \<Rightarrow> inst \<Rightarrow> sched \<Rightarrow> sched" where
  "evaluate_finish ev m i s0 =
     (let s = s0\<lparr>evaluating := remove1 i (evaluating s0)\<rparr>
      in case ev of
           Inl msg \<Rightarrow> write_row (in_id i) (set_error msg) s
         | Inr read \<Rightarrow>
             let (m', upd, rejected) = evaluate_model read m;
                 s1 = (if upd \<and> dget (db_models s) (in_model_id i) \<noteq> None
                       then s\<lparr>db_models := dput (in_model_id i) m' (db_models s)\<rparr> else s)
             in if rejected
                then write_row (in_id i) (set_error ''The model is not distributable to multiple workers.'') s1
                else queue_put i s1)"

section \<open>Scheduling one instance\<close>

text \<open>The cycle takes an item and reads the row and the model again.\<close>

definition schedule_start :: "sched \<Rightarrow> sched" where
  "schedule_start s =
     (if scheduling s \<noteq> None then s
      else case queue_get s of
             None \<Rightarrow> s
           | Some (item, s') \<Rightarrow>
               (case dget (db_instances s') (in_id item) of
                  None \<Rightarrow> s'
                | Some row \<Rightarrow> s'\<lparr>scheduling := Some (row, dget (db_models s') (in_model_id item))\<rparr>))"

definition get_backend :: "sched_model \<Rightarrow> backend" where
  "get_backend m = (case sm_backend m of Some b \<Rightarrow> b | None \<Rightarrow> if sm_gguf m then CUSTOM else VLLM)"

definition servers_for :: "sched_model \<Rightarrow> candidate \<Rightarrow> distributed_servers" where
  "servers_for m c =
     \<lparr>ds_mode = (if get_backend m \<in> {VLLM, ASCEND_MINDIE, SGLANG} then INITIALIZE_LATER else DELEGATED),
      ds_subs = cd_subs c\<rparr>"

definition place :: "sched_model \<Rightarrow> candidate \<Rightarrow> inst \<Rightarrow> inst" where
  "place m c i =
     i\<lparr>in_state := SCHEDULED, in_message := [], in_worker_id := Some (w_id (cd_worker c)), in_claim := cd_claim c,
       in_gpu_indexes := cd_gpu_indexes c, in_servers := Some (servers_for m c)\<rparr>"

definition unplaced_message :: "string list \<Rightarrow> string" where
  "unplaced_message messages = ''No suitable workers.'' @ [CHR 0x0A] @ ''Details:'' @ [CHR 0x0A] @ concat messages"

definition set_unplaced :: "instance_state \<Rightarrow> string \<Rightarrow> string list \<Rightarrow> inst \<Rightarrow> inst" where
  "set_unplaced seen state_message messages i =
     (let i1 = (if seen \<in> {SCHEDULED, ANALYZING}
                then i\<lparr>in_state := PENDING, in_message := unplaced_message messages\<rparr> else i)
      in if state_message \<noteq> [] then i1\<lparr>in_message := state_message\<rparr> else i1)"

text \<open>
  \<open>_schedule_one\<close> after the reads. \<open>has_workers\<close>: whether there are workers at all;
  \<open>search m\<close>: what \<open>find_candidate\<close> returns or the text of its exception.
\<close>

definition schedule_finish ::
  "bool \<Rightarrow> (sched_model \<Rightarrow> string + candidate option \<times> string list) \<Rightarrow> sched \<Rightarrow> sched" where
  "schedule_finish has_workers search s0 =
     (case scheduling s0 of
        None \<Rightarrow> s0
      | Some (row, mo) \<Rightarrow>
          let s = s0\<lparr>scheduling := None\<rparr>;
              base = (if mo = None then ''Model not found'' else if has_workers then [] else ''No available workers'')
          in case (if has_workers then map_option search mo else None) of
               None \<Rightarrow> write_row (in_id row) (set_unplaced (in_state row) base []) s
             | Some (Inl e) \<Rightarrow> write_row (in_id row) (set_unplaced (in_state row) (''Failed to find candidate: '' @ e) []) s
             | Some (Inr (None, messages)) \<Rightarrow> write_row (in_id row) (set_unplaced (in_state row) base messages) s
             | Some (Inr (Some c, messages)) \<Rightarrow> write_row (in_id row) (place (the mo) c) s)"

section \<open>Finding a candidate\<close>

datatype find_message =
    FilterMessages "filter_message list"
  | InitFailed
  | ResourceFit string
  | NoWorkersMeet

text \<open>
  \<open>find_candidate\<close>. The candidate selector is a parameter: \<open>Inl\<close> when its construction fails,
  otherwise what it selects from the workers that remain, or its exception, and its messages.
\<close>

type_synonym selector = "py_error + (candidate_worker list \<Rightarrow> py_error + candidate list \<times> string list)"

definition find_candidate ::
  "(candidate_worker list \<Rightarrow> filter_result) \<Rightarrow> selector \<Rightarrow> (candidate \<Rightarrow> bool) \<Rightarrow> candidate_scorer list \<Rightarrow>
   candidate_worker list \<Rightarrow> py_error + candidate option \<times> find_message list" where
  "find_candidate chain selector overcommit scorers workers =
     bind_err (chain workers) (\<lambda>(ws, fmsgs).
       let messages = (if fmsgs \<noteq> [] then [FilterMessages fmsgs] else [])
       in if ws = [] then Inr (None, messages)
          else case selector of
                 Inl _ \<Rightarrow> Inr (None, [InitFailed])
               | Inr select \<Rightarrow>
                   bind_err (select ws) (\<lambda>(cs, smsgs).
                   bind_err (candidate_score_chain scorers cs) (\<lambda>scored.
                     case pick_highest_score_candidate scored of
                       None \<Rightarrow> Inr (None, messages @ (if smsgs = [] then [NoWorkersMeet] else map ResourceFit smsgs))
                     | Some c \<Rightarrow> Inr (Some c, messages @ (if overcommit c then map ResourceFit smsgs else [])))))"

section \<open>Steps of the system\<close>

text \<open>
  One step: the clock advances; the periodic scan or an event starts an evaluation; an
  evaluation ends; the cycle takes an item; the cycle ends with one; or something else in the
  system creates, changes or deletes a row or a model.
\<close>

inductive sched_step :: "sched \<Rightarrow> sched \<Rightarrow> bool" where
  Tick: "clock s \<le> t \<Longrightarrow> sched_step s (s\<lparr>clock := t\<rparr>)"
| Evaluate: "sched_step s (evaluate_start iid s)"
| Evaluated: "i \<in> set (evaluating s) \<Longrightarrow> sched_step s (evaluate_finish ev m i s)"
| Take: "sched_step s (schedule_start s)"
| Placed: "sched_step s (schedule_finish has_workers search s)"

inductive system_step :: "sched \<Rightarrow> sched \<Rightarrow> bool" where
  Scheduler: "sched_step s s' \<Longrightarrow> system_step s s'"
| Others: "system_step s (s\<lparr>db_instances := rows, db_models := models\<rparr>)"

definition initial_sched :: "(int, inst) dict \<Rightarrow> (int, sched_model) dict \<Rightarrow> int \<Rightarrow> sched" where
  "initial_sched rows models now =
     \<lparr>db_instances = rows, db_models = models, q_items = [], q_set = {}, evaluating = [], scheduling = None, clock = now\<rparr>"

inductive_cases sched_stepE: "sched_step s s'"

text \<open>Both triggers are sequences of steps.\<close>

lemma fold_evaluate_steps: "sched_step\<^sup>*\<^sup>* s (fold evaluate_start ks s)"
proof (induction ks arbitrary: s)
  case (Cons k ks)
  have "sched_step\<^sup>*\<^sup>* (evaluate_start k s) (fold evaluate_start ks (evaluate_start k s))" by (rule Cons)
  then show ?case using Evaluate [of s k] by (simp add: converse_rtranclp_into_rtranclp)
qed simp

lemma enqueue_steps:
  "sched_step\<^sup>*\<^sup>* s (enqueue_pending_instances s)" "sched_step\<^sup>*\<^sup>* s (enqueue_event_instance payload s)"
  using fold_evaluate_steps by (auto simp: enqueue_pending_instances_def enqueue_event_instance_def intro: Evaluate split: option.split)

lemma prioritized_workers: "mset (prioritize_workers_with_model_files src files ws) = mset ws"
  by (simp add: prioritize_workers_with_model_files_def)

section \<open>Invariants\<close>

lemma write_row_frame [simp]:
  "q_items (write_row k f s) = q_items s" "q_set (write_row k f s) = q_set s"
  "evaluating (write_row k f s) = evaluating s" "scheduling (write_row k f s) = scheduling s"
  "clock (write_row k f s) = clock s" "db_models (write_row k f s) = db_models s"
  by (simp_all add: write_row_def split: option.split)

lemma write_row_lookup:
  "dget (db_instances (write_row k f s)) k' =
     (if k' = k then map_option (\<lambda>r. if f r = r then r else (f r)\<lparr>in_updated := clock s\<rparr>) (dget (db_instances s) k)
      else dget (db_instances s) k')"
  by (auto simp: write_row_def dict_simps split: option.split)

lemma queue_put_frame [simp]:
  "db_instances (queue_put i s) = db_instances s" "evaluating (queue_put i s) = evaluating s"
  "scheduling (queue_put i s) = scheduling s" "clock (queue_put i s) = clock s"
  by (simp_all add: queue_put_def)

text \<open>The queue holds each item once, and its set is what it holds.\<close>

definition queue_ok :: "sched \<Rightarrow> bool" where
  "queue_ok s \<longleftrightarrow> distinct (q_items s) \<and> q_set s = set (q_items s)"

lemma queue_ok_cong: "q_items s = q_items t \<Longrightarrow> q_set s = q_set t \<Longrightarrow> queue_ok s = queue_ok t"
  by (simp add: queue_ok_def)

lemma queue_ok_put: "queue_ok s \<Longrightarrow> queue_ok (queue_put i s)"
  by (auto simp: queue_ok_def queue_put_def)

lemma queue_ok_evaluate_start: "queue_ok s \<Longrightarrow> queue_ok (evaluate_start k s)"
  by (auto simp: evaluate_start_def Let_def queue_ok_def split: option.split)

lemma queue_ok_evaluate_finish: "queue_ok s \<Longrightarrow> queue_ok (evaluate_finish ev m i s)"
proof -
  assume ok: "queue_ok s"
  have "queue_ok (s\<lparr>evaluating := e, db_models := d\<rparr>)" "queue_ok (s\<lparr>evaluating := e\<rparr>)" for e d
    using ok by (simp_all add: queue_ok_def)
  then show ?thesis
    by (auto simp: evaluate_finish_def Let_def queue_ok_put split: sum.split prod.split)
       (simp_all add: queue_ok_def)
qed

lemma queue_ok_schedule_start: "queue_ok s \<Longrightarrow> queue_ok (schedule_start s)"
  by (auto simp: schedule_start_def queue_get_def queue_ok_def split: option.split list.splits)

lemma queue_ok_schedule_finish: "queue_ok s \<Longrightarrow> queue_ok (schedule_finish hw search s)"
  by (auto simp: schedule_finish_def Let_def queue_ok_def split: option.split sum.split prod.split)

lemma queue_ok_step: "system_step s s' \<Longrightarrow> queue_ok s \<Longrightarrow> queue_ok s'"
  by (auto simp: queue_ok_evaluate_start queue_ok_evaluate_finish queue_ok_schedule_start queue_ok_schedule_finish
      elim!: system_step.cases sched_stepE)
     (simp_all add: queue_ok_def)

text \<open>
  Typing of the tables: a row is stored under its id, a scheduled row names its worker and how
  its servers coordinate, and the queue is consistent.
\<close>

definition row_ok :: "int \<Rightarrow> inst \<Rightarrow> bool" where
  "row_ok k r \<longleftrightarrow> in_id r = k \<and> (in_state r = SCHEDULED \<longrightarrow> in_worker_id r \<noteq> None \<and> in_servers r \<noteq> None)"

definition well_typed :: "sched \<Rightarrow> bool" where
  "well_typed s \<longleftrightarrow> queue_ok s \<and> (\<forall>k r. dget (db_instances s) k = Some r \<longrightarrow> row_ok k r)"

text \<open>What every write of the scheduler promises of the row it changes.\<close>

locale row_write =
  fixes f :: "inst \<Rightarrow> inst"
  assumes keeps: "row_ok k r \<Longrightarrow> row_ok k (f r)"
begin

lemma typed: "well_typed s \<Longrightarrow> well_typed (write_row k f s)"
  using keeps by (auto simp: well_typed_def queue_ok_def write_row_lookup row_ok_def)

end

interpretation error_write: row_write "set_error msg"
  by unfold_locales (simp add: row_ok_def set_error_def)

interpretation unplaced_write: row_write "set_unplaced seen sm messages"
  by unfold_locales (simp add: row_ok_def set_unplaced_def Let_def)

interpretation place_write: row_write "place m c"
  by unfold_locales (simp add: row_ok_def place_def)

interpretation analyzing_write: row_write "set_analyzing now"
  by unfold_locales (simp add: row_ok_def set_analyzing_def)

lemma well_typed_frame: "well_typed s \<Longrightarrow> queue_ok t \<Longrightarrow> db_instances t = db_instances s \<Longrightarrow> well_typed t"
  by (simp add: well_typed_def)

lemma typed_evaluate_start: "well_typed s \<Longrightarrow> well_typed (evaluate_start k s)"
proof (unfold evaluate_start_def, cases "dget (db_instances s) k")
  case (Some i)
  assume t: "well_typed s"
  then have "row_ok k (set_analyzing (clock s) i)"
    using Some analyzing_write.keeps by (simp add: well_typed_def)
  then show "well_typed (case dget (db_instances s) k of None \<Rightarrow> s | Some i \<Rightarrow> if \<not> should_schedule (clock s) i then s
      else case dget (db_models s) (in_model_id i) of None \<Rightarrow> write_row k (set_error ''Model not found.'') s
      | Some m \<Rightarrow> let i' = set_analyzing (clock s) i in s\<lparr>db_instances := dput k i' (db_instances s), evaluating := evaluating s @ [i']\<rparr>)"
    using t Some error_write.typed
    by (auto simp: Let_def well_typed_def queue_ok_def dict_simps split: option.split)
qed simp

lemma typed_evaluate_finish: "well_typed s \<Longrightarrow> well_typed (evaluate_finish ev m i s)"
proof -
  assume t: "well_typed s"
  then have base: "well_typed (s\<lparr>evaluating := e, db_models := d\<rparr>)" "well_typed (s\<lparr>evaluating := e\<rparr>)" for e d
    by (simp_all add: well_typed_def queue_ok_def)
  have put: "well_typed u \<Longrightarrow> well_typed (queue_put j u)" for u j
    using queue_ok_put by (simp add: well_typed_def)
  show ?thesis
    using base by (auto simp: evaluate_finish_def Let_def put error_write.typed split: sum.split prod.split)
qed

lemma schedule_start_rows [simp]: "db_instances (schedule_start s) = db_instances s"
  by (auto simp: schedule_start_def queue_get_def split: option.split list.splits)

lemma typed_schedule_finish: "well_typed s \<Longrightarrow> well_typed (schedule_finish hw search s)"
proof -
  assume t: "well_typed s"
  then have base: "well_typed (s\<lparr>scheduling := None\<rparr>)" by (simp add: well_typed_def queue_ok_def)
  then show ?thesis
    using t
    by (auto simp: schedule_finish_def Let_def unplaced_write.typed place_write.typed split: option.split sum.split prod.split)
qed

lemma typed_step: "sched_step s s' \<Longrightarrow> well_typed s \<Longrightarrow> well_typed s'"
proof (induction rule: sched_step.induct)
  case (Tick s t)
  then show ?case by (simp add: well_typed_def queue_ok_def)
next
  case (Take s)
  then show ?case by (simp add: well_typed_def queue_ok_schedule_start)
qed (simp_all add: typed_evaluate_start typed_evaluate_finish typed_schedule_finish)

lemma typed_run: "sched_step\<^sup>*\<^sup>* s s' \<Longrightarrow> well_typed s \<Longrightarrow> well_typed s'"
  by (induction rule: rtranclp_induct) (auto intro: typed_step)

text \<open>C26: The scheduler keeps its tables well typed in every interleaving of its tasks: each row under
  its own id, no scheduled row without worker and coordination mode, no item twice in the queue,
  and the queue's set equal to its contents.\<close>

theorem sched_types_preserved:
  assumes "sched_step\<^sup>*\<^sup>* s s'" and "well_typed s"
  shows "queue_ok s' \<and> (\<forall>k r. dget (db_instances s') k = Some r \<longrightarrow>
           in_id r = k \<and> (in_state r = SCHEDULED \<longrightarrow> in_worker_id r \<noteq> None \<and> in_servers r \<noteq> None))"
  using typed_run [OF assms] by (simp add: well_typed_def row_ok_def)

definition sample_inst :: "instance_state \<Rightarrow> int option \<Rightarrow> inst" where
  "sample_inst st w =
     \<lparr>in_id = 1, in_model_id = 1, in_state = st, in_message = [], in_worker_id = w, in_claim = None, in_gpu_indexes = None,
      in_servers = map_option (\<lambda>_. \<lparr>ds_mode = DELEGATED, ds_subs = None\<rparr>) w, in_created = 0, in_updated = 0\<rparr>"

definition sample_sm :: sched_model where
  "sample_sm =
     \<lparr>sm_backend = Some VLLM, sm_gguf = False, sm_distributable = False, sm_gpu_ids = [], sm_across_workers = False,
      sm_categories = [LLM], sm_gpus_per_replica = None, sm_replicas = 1\<rparr>"

theorem sched_types_preserved_witness:
  "\<exists>r. queue_ok (evaluate_start 1 (initial_sched [(1, sample_inst PENDING None)] [(1, sample_sm)] 5)) \<and>
     dget (db_instances (evaluate_start 1 (initial_sched [(1, sample_inst PENDING None)] [(1, sample_sm)] 5))) 1 = Some r \<and>
     in_state r = ANALYZING \<and> in_id r = 1"
proof -
  let ?s = "initial_sched [(1, sample_inst PENDING None)] [(1, sample_sm)] 5"
  have "sched_step\<^sup>*\<^sup>* ?s (evaluate_start 1 ?s)" by (intro r_into_rtranclp Evaluate)
  moreover have "well_typed ?s"
    by (simp add: well_typed_def queue_ok_def initial_sched_def row_ok_def sample_inst_def split: if_splits)
  ultimately have "queue_ok (evaluate_start 1 ?s)"
    and ids: "\<And>k r. dget (db_instances (evaluate_start 1 ?s)) k = Some r \<Longrightarrow> in_id r = k"
    using sched_types_preserved by blast+
  moreover obtain r where "dget (db_instances (evaluate_start 1 ?s)) 1 = Some r" "in_state r = ANALYZING"
    by (simp add: evaluate_start_def initial_sched_def sample_inst_def should_schedule_def seconds_def set_analyzing_def Let_def)
  ultimately show ?thesis using ids by blast
qed

section \<open>One instance through the scheduler\<close>

text \<open>Nothing queued, evaluated or scheduled.\<close>

definition idle :: "sched \<Rightarrow> bool" where
  "idle s \<longleftrightarrow> q_items s = [] \<and> q_set s = {} \<and> evaluating s = [] \<and> scheduling s = None"

definition evaluated_model :: "(sched_model \<Rightarrow> py_error + sched_model \<times> bool) \<Rightarrow> sched_model \<Rightarrow> sched_model" where
  "evaluated_model ev m = (if fst (snd (evaluate_model ev m)) then fst (evaluate_model ev m) else m)"

text \<open>From an idle scheduler, a due row of a known model that is not rejected goes through
  evaluation and the queue to the search for a candidate.\<close>

definition until_search :: "int \<Rightarrow> (sched_model \<Rightarrow> py_error + sched_model \<times> bool) \<Rightarrow> sched_model \<Rightarrow> inst \<Rightarrow> sched \<Rightarrow> sched" where
  "until_search k ev m i s =
     schedule_start (evaluate_finish (Inr ev) m (set_analyzing (clock s) i) (evaluate_start k s))"

lemma set_analyzing_id [simp]: "in_id (set_analyzing now i) = in_id i" "in_model_id (set_analyzing now i) = in_model_id i"
  "in_worker_id (set_analyzing now i) = in_worker_id i" "in_state (set_analyzing now i) = ANALYZING"
  by (simp_all add: set_analyzing_def)

lemma until_search_run:
  assumes row: "dget (db_instances s) k = Some i" "in_id i = k" and due: "should_schedule (clock s) i"
    and model: "dget (db_models s) (in_model_id i) = Some m" and idle: "idle s"
    and ok: "\<not> snd (snd (evaluate_model ev m))"
  shows "db_instances (until_search k ev m i s) = dput k (set_analyzing (clock s) i) (db_instances s)"
    and "scheduling (until_search k ev m i s) = Some (set_analyzing (clock s) i, Some (evaluated_model ev m))"
    and "clock (until_search k ev m i s) = clock s" and "q_items (until_search k ev m i s) = []"
    and "evaluating (until_search k ev m i s) = []"
proof -
  let ?i = "set_analyzing (clock s) i"
  obtain m' upd where e: "evaluate_model ev m = (m', upd, False)" using ok by (cases "evaluate_model ev m") auto
  have start: "evaluate_start k s = s\<lparr>db_instances := dput k ?i (db_instances s), evaluating := [?i]\<rparr>"
    using row due model idle by (simp add: evaluate_start_def idle_def Let_def)
  note defs = until_search_def start evaluate_finish_def Let_def e queue_put_def schedule_start_def queue_get_def idle_def
    evaluated_model_def
  show "db_instances (until_search k ev m i s) = dput k ?i (db_instances s)"
    and "scheduling (until_search k ev m i s) = Some (?i, Some (evaluated_model ev m))"
    and "clock (until_search k ev m i s) = clock s" and "q_items (until_search k ev m i s) = []"
    and "evaluating (until_search k ev m i s) = []"
    using row model idle by (auto simp: defs dict_simps)
qed

lemma until_search_steps:
  assumes "dget (db_instances s) k = Some i" "should_schedule (clock s) i" "dget (db_models s) (in_model_id i) = Some m"
  shows "sched_step\<^sup>*\<^sup>* s (until_search k ev m i s)"
proof -
  have "set_analyzing (clock s) i \<in> set (evaluating (evaluate_start k s))"
    using assms by (simp add: evaluate_start_def Let_def)
  then show ?thesis unfolding until_search_def
    by (meson Evaluate Evaluated Take rtranclp.rtrancl_into_rtrancl rtranclp.rtrancl_refl)
qed

lemma place_differs: "in_state i \<noteq> SCHEDULED \<Longrightarrow> place m c i \<noteq> i"
  by (auto dest!: arg_cong [of _ _ in_state] simp: place_def)

lemma due_instance_run:
  assumes "dget (db_instances s) k = Some i" "in_id i = k" and "should_schedule (clock s) i"
    and "dget (db_models s) (in_model_id i) = Some m" and "idle s" and "\<not> snd (snd (evaluate_model ev m))"
    and "search (evaluated_model ev m) = Inr (Some c, msgs)"
  shows "sched_step\<^sup>*\<^sup>* s (schedule_finish True search (until_search k ev m i s)) \<and>
         (\<exists>r. dget (db_instances (schedule_finish True search (until_search k ev m i s))) k = Some r \<and>
              in_state r = SCHEDULED \<and> in_worker_id r = Some (w_id (cd_worker c)) \<and> in_claim r = cd_claim c \<and>
              in_gpu_indexes r = cd_gpu_indexes c \<and> in_servers r = Some (servers_for (evaluated_model ev m) c))"
proof
  let ?u = "until_search k ev m i s" and ?m = "evaluated_model ev m"
  note run = until_search_run [OF assms(1-6)]
  show "sched_step\<^sup>*\<^sup>* s (schedule_finish True search ?u)"
    using until_search_steps [OF assms(1,3,4), of ev] Placed by (rule rtranclp.rtrancl_into_rtrancl)
  have "schedule_finish True search ?u = write_row k (place ?m c) (?u\<lparr>scheduling := None\<rparr>)"
    using assms(2,7) run(2) by (simp add: schedule_finish_def Let_def)
  then show "\<exists>r. dget (db_instances (schedule_finish True search ?u)) k = Some r \<and>
              in_state r = SCHEDULED \<and> in_worker_id r = Some (w_id (cd_worker c)) \<and> in_claim r = cd_claim c \<and>
              in_gpu_indexes r = cd_gpu_indexes c \<and> in_servers r = Some (servers_for ?m c)"
    using run(1) place_differs [of "set_analyzing (clock s) i" ?m c]
    by (simp add: write_row_lookup dict_simps) (simp add: place_def)
qed

text \<open>C2: An instance that is due is placed when a candidate exists. Starting from an idle scheduler,
  evaluation, queue and search end with the row SCHEDULED on the candidate's worker with its claim,
  GPUs and subordinate workers, and the coordination mode of the model's backend.\<close>

theorem due_instance_placed:
  assumes "dget (db_instances s) k = Some i" "in_id i = k" and "should_schedule (clock s) i"
    and "dget (db_models s) (in_model_id i) = Some m" and "idle s" and "\<not> snd (snd (evaluate_model ev m))"
    and "search (evaluated_model ev m) = Inr (Some c, msgs)"
  shows "sched_step\<^sup>*\<^sup>* s (schedule_finish True search (until_search k ev m i s)) \<and>
         (\<exists>r. dget (db_instances (schedule_finish True search (until_search k ev m i s))) k = Some r \<and>
              in_state r = SCHEDULED \<and> in_worker_id r = Some (w_id (cd_worker c)) \<and> in_claim r = cd_claim c \<and>
              in_gpu_indexes r = cd_gpu_indexes c \<and> in_servers r = Some (servers_for (evaluated_model ev m) c))"
  by (rule due_instance_run [OF assms(1-6), of search c msgs, OF assms(7)])

definition sample_host_worker :: "int \<Rightarrow> worker" where
  "sample_host_worker n = \<lparr>w_id = n, w_name = ''host'', w_state = WORKER_READY, w_status = None, w_reserved = None\<rparr>"

definition sample_cand :: "int \<Rightarrow> candidate" where
  "sample_cand n = \<lparr>cd_worker = sample_host_worker n, cd_gpu_indexes = Some [0], cd_claim = None, cd_subs = None, cd_score = Some 1\<rparr>"

lemmas sample_simps = sample_inst_def sample_sm_def sample_cand_def sample_host_worker_def initial_sched_def

theorem due_instance_placed_witness:
  "\<exists>s'. sched_step\<^sup>*\<^sup>* (initial_sched [(1, sample_inst PENDING None)] [(1, sample_sm)] 5) s' \<and>
     (\<exists>r. dget (db_instances s') 1 = Some r \<and> in_state r = SCHEDULED \<and> in_worker_id r = Some 7)"
proof -
  let ?s = "initial_sched [(1, sample_inst PENDING None)] [(1, sample_sm)] 5"
  let ?ev = "\<lambda>m. Inl ValueErr" and ?search = "\<lambda>m. Inr (Some (sample_cand 7), [])"
  from due_instance_placed [of ?s 1 "sample_inst PENDING None" sample_sm ?ev ?search "sample_cand 7" "[]"]
  have "sched_step\<^sup>*\<^sup>* ?s (schedule_finish True ?search (until_search 1 ?ev sample_sm (sample_inst PENDING None) ?s)) \<and>
    (\<exists>r. dget (db_instances (schedule_finish True ?search (until_search 1 ?ev sample_sm (sample_inst PENDING None) ?s))) 1 = Some r \<and>
       in_state r = SCHEDULED \<and> in_worker_id r = Some (w_id (cd_worker (sample_cand 7))))"
    by (simp add: sample_simps should_schedule_def seconds_def idle_def evaluate_model_def) blast
  moreover have "w_id (cd_worker (sample_cand 7)) = 7" by (simp add: sample_simps)
  ultimately show ?thesis by (metis (no_types, lifting))
qed

section \<open>An instance the scheduler abandons\<close>

text \<open>A PENDING row that still names a worker and that no task of the scheduler holds.\<close>

definition held :: "int \<Rightarrow> sched \<Rightarrow> bool" where
  "held k s \<longleftrightarrow> k \<in> in_id ` (set (evaluating s) \<union> set (q_items s)) \<or>
     (case scheduling s of None \<Rightarrow> False | Some (row, mo) \<Rightarrow> in_id row = k)"

definition stranded :: "int \<Rightarrow> inst \<Rightarrow> sched \<Rightarrow> bool" where
  "stranded k r s \<longleftrightarrow> dget (db_instances s) k = Some r \<and> in_state r = PENDING \<and> in_worker_id r \<noteq> None \<and> \<not> held k s"

lemma stranded_not_due: "stranded k r s \<Longrightarrow> \<not> should_schedule now r"
  by (auto simp: stranded_def should_schedule_def Let_def)

lemma held_write [simp]: "held k (write_row j f s) = held k s"
  by (simp add: held_def)

lemma stranded_write: "stranded k r s \<Longrightarrow> j \<noteq> k \<Longrightarrow> stranded k r (write_row j f s)"
  by (simp add: stranded_def write_row_lookup)

lemma stranded_evaluate_start:
  assumes "well_typed s" and "stranded k r s"
  shows "stranded k r (evaluate_start j s)"
proof (cases "j = k")
  case True
  then show ?thesis using stranded_not_due [OF assms(2)] assms(2) by (simp add: evaluate_start_def stranded_def)
next
  case False
  have "dget (db_instances s) j = Some i \<Longrightarrow> in_id i = j" for i using assms(1) by (simp add: well_typed_def row_ok_def)
  then show ?thesis
    using False assms(2) stranded_write [OF assms(2) False]
    by (auto simp: evaluate_start_def Let_def stranded_def held_def dict_simps split: option.split)
qed

lemma stranded_evaluate_finish:
  assumes "stranded k r s" and "i \<in> set (evaluating s)"
  shows "stranded k r (evaluate_finish ev m i s)"
proof -
  have i: "in_id i \<noteq> k" using assms by (auto simp: stranded_def held_def)
  have rest: "k \<notin> in_id ` set (remove1 i (evaluating s))"
    using assms set_remove1_subset [of i "evaluating s"] by (auto simp: stranded_def held_def)
  have base: "stranded k r (s\<lparr>evaluating := remove1 i (evaluating s)\<rparr>)"
    "stranded k r (s\<lparr>evaluating := remove1 i (evaluating s), db_models := d\<rparr>)" for d
    using assms(1) rest by (auto simp: stranded_def held_def)
  have put: "stranded k r u \<Longrightarrow> stranded k r (queue_put i u)" for u
    using i by (auto simp: stranded_def held_def queue_put_def)
  show ?thesis
    using base i by (auto simp: evaluate_finish_def Let_def put stranded_write split: sum.split prod.split)
qed

lemma stranded_schedule_start:
  assumes "well_typed s" and "stranded k r s"
  shows "stranded k r (schedule_start s)"
proof -
  have "dget (db_instances s) j = Some i \<Longrightarrow> in_id i = j" for i j using assms(1) by (simp add: well_typed_def row_ok_def)
  then show ?thesis
    using assms(2)
    by (auto simp: schedule_start_def queue_get_def stranded_def held_def split: option.splits list.splits)
qed

lemma stranded_schedule_finish:
  assumes "stranded k r s"
  shows "stranded k r (schedule_finish hw search s)"
proof -
  have "stranded k r (s\<lparr>scheduling := None\<rparr>)" using assms by (auto simp: stranded_def held_def split: option.splits)
  moreover have "scheduling s = Some (row, mo) \<Longrightarrow> in_id row \<noteq> k" for row mo
    using assms by (auto simp: stranded_def held_def)
  ultimately show ?thesis
    using assms by (auto simp: schedule_finish_def Let_def stranded_write split: option.split sum.split prod.split)
qed

lemma stranded_step: "sched_step s s' \<Longrightarrow> well_typed s \<Longrightarrow> stranded k r s \<Longrightarrow> stranded k r s'"
proof (induction rule: sched_step.induct)
  case (Tick s t)
  then show ?case by (simp add: stranded_def held_def)
qed (simp_all add: stranded_evaluate_start stranded_evaluate_finish stranded_schedule_start stranded_schedule_finish)

lemma stranded_run: "sched_step\<^sup>*\<^sup>* s s' \<Longrightarrow> well_typed s \<Longrightarrow> stranded k r s \<Longrightarrow> stranded k r s'"
proof (induction rule: rtranclp_induct)
  case (step y z)
  then show ?case using stranded_step typed_run by blast
qed

lemma unplaced_strands:
  assumes "dget (db_instances s) k = Some i" "in_id i = k" and "should_schedule (clock s) i"
    and "dget (db_models s) (in_model_id i) = Some m" and "idle s" and "\<not> snd (snd (evaluate_model ev m))"
    and "search (evaluated_model ev m) = Inr (None, msgs)" and "in_worker_id i = Some w"
  shows "\<exists>r. stranded k r (schedule_finish True search (until_search k ev m i s)) \<and> in_worker_id r = Some w"
proof -
  let ?u = "until_search k ev m i s" and ?f = "set_unplaced ANALYZING [] msgs"
  note run = until_search_run [OF assms(1-6)]
  define j where "j = set_analyzing (clock s) i"
  have fin: "schedule_finish True search ?u = write_row k ?f (?u\<lparr>scheduling := None\<rparr>)"
    using assms(2,7) run(2) by (simp add: schedule_finish_def Let_def)
  have f: "in_state (?f j) = PENDING" "in_worker_id (?f j) = Some w"
    using assms(8) by (simp_all add: set_unplaced_def Let_def j_def)
  then have "?f j \<noteq> j" by (auto simp: j_def dest!: arg_cong [of _ _ in_state])
  then have "dget (db_instances (schedule_finish True search ?u)) k = Some ((?f j)\<lparr>in_updated := clock s\<rparr>)"
    using run(1,3) by (simp add: fin write_row_lookup dict_simps j_def)
  moreover have "\<not> held k (schedule_finish True search ?u)" using run(4,5) by (simp add: fin held_def)
  ultimately show ?thesis using f by (intro exI [of _ "(?f j)\<lparr>in_updated := clock s\<rparr>"]) (simp add: stranded_def)
qed

text \<open>An instance that stayed SCHEDULED for more than three minutes and for which no other
  candidate is found is never scheduled again: it becomes PENDING but keeps its worker id, and no
  sequence of steps of the scheduler, however long, changes its row after that.\<close>

theorem stuck_instance_abandoned:
  assumes "well_typed s" and "dget (db_instances s) k = Some i" and "in_state i = SCHEDULED" and "in_worker_id i = Some w"
    and "clock s - in_updated i > seconds 180"
    and "dget (db_models s) (in_model_id i) = Some m" and "idle s" and "\<not> snd (snd (evaluate_model ev m))"
    and "search (evaluated_model ev m) = Inr (None, msgs)"
  shows "\<exists>r. in_state r = PENDING \<and> in_worker_id r = Some w \<and>
          (\<forall>s'. sched_step\<^sup>*\<^sup>* (schedule_finish True search (until_search k ev m i s)) s' \<longrightarrow>
                 dget (db_instances s') k = Some r)"
proof -
  let ?t = "schedule_finish True search (until_search k ev m i s)"
  have i: "in_id i = k" "should_schedule (clock s) i"
    using assms(1-5) by (auto simp: well_typed_def row_ok_def should_schedule_def Let_def)
  have "sched_step\<^sup>*\<^sup>* s ?t"
    using until_search_steps [OF assms(2) i(2) assms(6), of ev] Placed by (rule rtranclp.rtrancl_into_rtrancl)
  then have "well_typed ?t" using typed_run assms(1) by blast
  moreover obtain r where r: "stranded k r ?t" "in_worker_id r = Some w"
    using unplaced_strands [where search = search, OF assms(2) i assms(6-9) assms(4)] by blast
  ultimately have "\<forall>s'. sched_step\<^sup>*\<^sup>* ?t s' \<longrightarrow> stranded k r s'" using stranded_run by blast
  then show ?thesis using r by (auto simp: stranded_def)
qed

theorem stuck_instance_abandoned_witness:
  "\<exists>r t. in_state r = PENDING \<and> in_worker_id r = Some 3 \<and> dget (db_instances t) 1 = Some r \<and>
     t = schedule_finish True (\<lambda>m. Inr (None, [])) (until_search 1 (\<lambda>m. Inl ValueErr) sample_sm (sample_inst SCHEDULED (Some 3))
           (initial_sched [(1, sample_inst SCHEDULED (Some 3))] [(1, sample_sm)] (seconds 200)))"
proof -
  let ?s = "initial_sched [(1, sample_inst SCHEDULED (Some 3))] [(1, sample_sm)] (seconds 200)"
  have t: "well_typed ?s" "idle ?s"
    by (auto simp: well_typed_def queue_ok_def row_ok_def idle_def sample_simps split: if_splits)
  from stuck_instance_abandoned [OF t(1) _ _ _ _ _ t(2), where k = 1 and i = "sample_inst SCHEDULED (Some 3)" and w = 3
      and m = sample_sm and ev = "\<lambda>m. Inl ValueErr" and search = "\<lambda>m. Inr (None, [])" and msgs = "[]"]
  obtain r where "in_state r = PENDING" "in_worker_id r = Some 3"
    and all: "\<And>s'. sched_step\<^sup>*\<^sup>* (schedule_finish True (\<lambda>m. Inr (None, [])) (until_search 1 (\<lambda>m. Inl ValueErr) sample_sm (sample_inst SCHEDULED (Some 3)) ?s)) s'
      \<Longrightarrow> dget (db_instances s') 1 = Some r"
    by (auto simp: sample_simps seconds_def evaluate_model_def)
  then show ?thesis using all [OF rtranclp.rtrancl_refl] by blast
qed

section \<open>A running instance is moved\<close>

text \<open>
  The cycle does not look at the state of the row it reads. When a search takes longer than three
  minutes, the periodic scan puts the instance into the queue again; by the time the second item
  is taken, the instance may be running.
\<close>

definition slow_search_run :: "sched" where
  "slow_search_run =
     (let s0 = initial_sched [(1, sample_inst PENDING None)] [(1, sample_sm)] 5;
          ev = (\<lambda>m. Inl ValueErr);
          i = sample_inst PENDING None;
          s1 = until_search 1 ev sample_sm i s0;
          s2 = s1\<lparr>clock := seconds 200\<rparr>;
          s3 = evaluate_start 1 s2;
          s4 = evaluate_finish (Inr ev) sample_sm (set_analyzing 5 i) s3
      in schedule_finish True (\<lambda>m. Inr (Some (sample_cand 1), [])) s4)"

definition running_again :: sched where
  "running_again =
     slow_search_run\<lparr>db_instances := [(1, (place sample_sm (sample_cand 1) (sample_inst PENDING None))\<lparr>in_state := RUNNING\<rparr>)],
                     db_models := [(1, sample_sm)]\<rparr>"

definition moved :: sched where
  "moved = schedule_finish True (\<lambda>m. Inr (Some (sample_cand 2), [])) (schedule_start running_again)"

lemmas sched_eval = until_search_def evaluate_start_def evaluate_finish_def schedule_start_def schedule_finish_def
  queue_put_def queue_get_def write_row_def should_schedule_def seconds_def set_analyzing_def evaluate_model_def place_def
  servers_for_def get_backend_def Let_def sample_simps

lemma slow_search_reached: "sched_step\<^sup>*\<^sup>* (initial_sched [(1, sample_inst PENDING None)] [(1, sample_sm)] 5) slow_search_run"
proof -
  let ?s0 = "initial_sched [(1, sample_inst PENDING None)] [(1, sample_sm)] 5" and ?ev = "\<lambda>m::sched_model. Inl ValueErr"
  let ?i = "sample_inst PENDING None"
  let ?s1 = "until_search 1 ?ev sample_sm ?i ?s0"
  let ?s3 = "evaluate_start 1 (?s1\<lparr>clock := seconds 200\<rparr>)"
  have 1: "sched_step\<^sup>*\<^sup>* ?s0 ?s1"
    by (rule until_search_steps) (simp_all add: should_schedule_def seconds_def sample_simps)
  have c: "clock ?s1 \<le> seconds 200" by (simp add: sched_eval)
  have e: "set_analyzing 5 ?i \<in> set (evaluating ?s3)" by (simp add: sched_eval)
  have "sched_step\<^sup>*\<^sup>* ?s0 ?s3" using 1 Tick [OF c] Evaluate by (meson rtranclp.rtrancl_into_rtrancl)
  then show ?thesis unfolding slow_search_run_def Let_def
    using Evaluated [OF e] Placed by (meson rtranclp.rtrancl_into_rtrancl)
qed

lemma slow_search_queue:
  "q_items slow_search_run = [set_analyzing 5 (sample_inst PENDING None)]" "scheduling slow_search_run = None"
proof -
  let ?s0 = "initial_sched [(1, sample_inst PENDING None)] [(1, sample_sm)] 5" and ?ev = "\<lambda>m::sched_model. Inl ValueErr"
  let ?i = "sample_inst PENDING None"
  define s1 where "s1 = until_search 1 ?ev sample_sm ?i ?s0"
  define j where "j = set_analyzing 5 ?i"
  have ev: "evaluate_model ?ev m = (m, False, False)" for m by (simp add: evaluate_model_def)
  have "should_schedule 5 ?i" by (simp add: should_schedule_def seconds_def sample_inst_def)
  then have run: "db_instances s1 = dput 1 j (db_instances ?s0)" "scheduling s1 = Some (j, Some sample_sm)" "q_items s1 = []"
    "evaluating s1 = []"
    using until_search_run [of ?s0 1 ?i sample_sm ?ev]
    by (simp_all add: s1_def j_def ev evaluated_model_def idle_def sample_inst_def initial_sched_def)
  have "sched_step\<^sup>*\<^sup>* ?s0 s1"
    unfolding s1_def by (rule until_search_steps) (simp_all add: should_schedule_def seconds_def sample_simps)
  moreover have "well_typed ?s0" by (simp add: well_typed_def queue_ok_def row_ok_def sample_simps split: if_splits)
  ultimately have "queue_ok s1" using typed_run by (auto simp: well_typed_def)
  then have qset: "q_set s1 = {}" using run(3) by (simp add: queue_ok_def)
  have models: "db_models s1 = [(1, sample_sm)]" by (simp add: s1_def sched_eval)
  have j: "in_id j = 1" "in_model_id j = 1" "in_state j = ANALYZING" "in_worker_id j = None" "in_updated j = 5"
    by (simp_all add: j_def set_analyzing_def sample_inst_def)
  then have due: "should_schedule (seconds 200) j" "set_analyzing (seconds 200) j = j"
    by (simp_all add: should_schedule_def seconds_def set_analyzing_def)
  have "evaluate_start 1 (s1\<lparr>clock := seconds 200\<rparr>) = s1\<lparr>clock := seconds 200, evaluating := [j], db_instances := dput 1 j (db_instances s1)\<rparr>"
    using run models j due by (simp add: evaluate_start_def dict_simps Let_def)
  then have "evaluate_finish (Inr ?ev) sample_sm j (evaluate_start 1 (s1\<lparr>clock := seconds 200\<rparr>)) =
      s1\<lparr>clock := seconds 200, evaluating := [], db_instances := dput 1 j (db_instances s1), q_items := [j], q_set := {j}\<rparr>"
    using run qset by (simp add: evaluate_finish_def Let_def ev queue_put_def)
  then show "q_items slow_search_run = [set_analyzing 5 (sample_inst PENDING None)]" "scheduling slow_search_run = None"
    using run(2) by (simp_all add: slow_search_run_def Let_def schedule_finish_def flip: s1_def j_def)
qed

lemma running_can_be_moved:
  "\<exists>s t r r'. system_step\<^sup>*\<^sup>* (initial_sched [(1, sample_inst PENDING None)] [(1, sample_sm)] 5) s \<and> sched_step\<^sup>*\<^sup>* s t \<and>
     dget (db_instances s) 1 = Some r \<and> in_state r = RUNNING \<and> in_worker_id r = Some 1 \<and>
     dget (db_instances t) 1 = Some r' \<and> in_state r' = SCHEDULED \<and> in_worker_id r' = Some 2"
proof -
  let ?s0 = "initial_sched [(1, sample_inst PENDING None)] [(1, sample_sm)] 5"
  have "sched_step \<le> system_step" by (auto intro: Scheduler)
  then have "system_step\<^sup>*\<^sup>* ?s0 slow_search_run"
    using slow_search_reached rtranclp_mono by blast
  then have reach: "system_step\<^sup>*\<^sup>* ?s0 running_again"
    unfolding running_again_def by (rule rtranclp.rtrancl_into_rtrancl) (rule Others)
  have run: "sched_step\<^sup>*\<^sup>* running_again moved"
    unfolding moved_def by (meson Placed Take rtranclp.rtrancl_into_rtrancl rtranclp.rtrancl_refl)
  have r: "dget (db_instances running_again) 1 = Some ((place sample_sm (sample_cand 1) (sample_inst PENDING None))\<lparr>in_state := RUNNING\<rparr>)"
    by (simp add: running_again_def)
  note q = slow_search_queue
  define row where "row = (place sample_sm (sample_cand 1) (sample_inst PENDING None))\<lparr>in_state := RUNNING\<rparr>"
  have row: "in_id row = 1" "in_state row = RUNNING" "in_worker_id row = Some 1"
    by (simp_all add: row_def place_def sample_simps)
  have "scheduling (schedule_start running_again) = Some (row, Some sample_sm)"
    using q by (simp add: schedule_start_def queue_get_def running_again_def row_def) (simp add: sample_inst_def)
  then have m: "moved = write_row 1 (place sample_sm (sample_cand 2)) ((schedule_start running_again)\<lparr>scheduling := None\<rparr>)"
    using row by (simp add: moved_def schedule_finish_def Let_def)
  obtain r' where r': "dget (db_instances moved) 1 = Some r'" "in_state r' = SCHEDULED" "in_worker_id r' = Some 2"
    using r row place_differs [of row sample_sm "sample_cand 2"]
    by (simp add: m write_row_lookup flip: row_def) (simp add: place_def sample_cand_def sample_host_worker_def)
  from reach run r [folded row_def] row(2,3) r' show ?thesis by blast
qed

section \<open>Candidates are eligible\<close>

lemma chain_workers:
  "candidate_score_chain scs cs = Inr r \<Longrightarrow> cd_worker ` set r \<subseteq> cd_worker ` set cs"
  by (auto simp: candidate_score_chain_def bind_err_eq_Inr dest!: set_zip_leftD split: if_splits)

text \<open>What the scheduler relies on in a candidate selector: it proposes only workers it was given, up to their
  status, since selectors hand out copies with some of the GPUs.\<close>

definition same_host :: "worker \<Rightarrow> candidate_worker \<Rightarrow> bool" where
  "same_host v w \<longleftrightarrow> v\<lparr>w_status := w_status w\<rparr> = worker.truncate w"

definition selects_given :: "(candidate_worker list \<Rightarrow> py_error + candidate list \<times> string list) \<Rightarrow> bool" where
  "selects_given select \<longleftrightarrow>
     (\<forall>ws cs msgs. select ws = Inr (cs, msgs) \<longrightarrow> (\<forall>c \<in> set cs. \<exists>w \<in> set ws. same_host (cd_worker c) w))"

lemma find_candidate_parts:
  assumes "find_candidate chain selector overcommit scorers ws = Inr (Some c, msgs)"
  obtains select ws' fmsgs cs smsgs scored
  where "selector = Inr select" "chain ws = Inr (ws', fmsgs)" "select ws' = Inr (cs, smsgs)"
    "candidate_score_chain scorers cs = Inr scored" "pick_highest_score_candidate scored = Some c"
  using assms
  by (auto simp: find_candidate_def bind_err_eq_Inr Let_def split: if_splits sum.splits option.splits)

text \<open>C19: The worker chosen for an instance is eligible. Whatever the selector for the model's
  backend proposes, the candidate picked is on one of the given workers that passes every filter:
  cluster, selected GPUs, labels, READY, backend and local path; and no scored candidate is better.\<close>

theorem chosen_worker_eligible:
  assumes "worker_filter backend keep" and "selects_given select"
    and "find_candidate (filter_workers backend path m) (Inr select) overcommit scorers ws = Inr (Some c, msgs)"
  shows "\<exists>w \<in> set ws. eligible keep path m w \<and> w_state w = WORKER_READY \<and> same_host (cd_worker c) w"
proof -
  from assms(3) obtain ws' fmsgs cs smsgs scored where p: "filter_workers backend path m ws = Inr (ws', fmsgs)"
    "select ws' = Inr (cs, smsgs)" "candidate_score_chain scorers cs = Inr scored" "pick_highest_score_candidate scored = Some c"
    by (elim find_candidate_parts) auto
  have "cd_worker c \<in> cd_worker ` set cs" using pick_highest [OF p(4)] chain_workers [OF p(3)] by blast
  then have "\<exists>w \<in> set ws'. same_host (cd_worker c) w" using assms(2) p(2) unfolding selects_given_def by force
  then show ?thesis using filter_workers_eligible [OF assms(1) p(1)] by (auto simp: eligible_def)
qed

definition sample_select :: "candidate_worker list \<Rightarrow> py_error + candidate list \<times> string list" where
  "sample_select ws =
     Inr (map (\<lambda>w. \<lparr>cd_worker = worker.truncate w, cd_gpu_indexes = None, cd_claim = None, cd_subs = None, cd_score = None\<rparr>) ws, [])"

definition sample_filter_model :: filter_model where
  "sample_filter_model =
     \<lparr>fm_cluster = Some (Some 1), fm_gpu_ids = [], fm_selector = Some [(''zone'', ''a'')], fm_local_path = False\<rparr>"

theorem chosen_worker_eligible_witness:
  "\<exists>c msgs. find_candidate (filter_workers (\<lambda>ws. Inr (ws, [])) (\<lambda>_. Inr True) sample_filter_model) (Inr sample_select) (\<lambda>_. False) []
       [sample_candidate 1 WORKER_PENDING, sample_candidate 2 WORKER_READY] = Inr (Some c, msgs) \<and>
     (\<exists>w \<in> set [sample_candidate 1 WORKER_PENDING, sample_candidate 2 WORKER_READY].
        eligible (\<lambda>_. True) (\<lambda>_. Inr True) sample_filter_model w \<and> w_state w = WORKER_READY \<and> same_host (cd_worker c) w)"
proof -
  let ?ws = "[sample_candidate 1 WORKER_PENDING, sample_candidate 2 WORKER_READY]"
  let ?r = "find_candidate (filter_workers (\<lambda>ws. Inr (ws, [])) (\<lambda>_. Inr True) sample_filter_model) (Inr sample_select) (\<lambda>_. False) [] ?ws"
  have b: "worker_filter (\<lambda>ws. Inr (ws, [])) (\<lambda>_. True)" by unfold_locales simp
  have sel: "selects_given sample_select"
    by (auto simp: selects_given_def sample_select_def same_host_def worker.defs)
  have "\<exists>c msgs. ?r = Inr (Some c, msgs)"
    by (simp add: find_candidate_def filter_workers_def cluster_filter_def gpu_matching_filter_def label_matching_filter_def
        status_filter_def local_path_filter_def label_matching_def sample_filter_model_def sample_candidate_def sample_select_def
        candidate_score_chain_def pick_highest_score_candidate_def Let_def)
  then obtain c msgs where "?r = Inr (Some c, msgs)" by blast
  with chosen_worker_eligible [OF b sel this] show ?thesis by (intro exI conjI)
qed

end
