(* ===== verification/Command.thy ===== *)
theory Command
  imports Prelude "HOL-Library.Multiset"
begin

text \<open>
  Command lines of inference backends, \<^verbatim>\<open>src/gpustack/utils/command.py\<close> and the format
  normalisation of \<^verbatim>\<open>src/gpustack/worker/backends/base.py\<close>: splitting of pasted parameter
  strings (JSON masking, line continuations, \<open>shlex.split\<close>), lookup, merging, extraction,
  redaction and formatting of flags. Strings are over Latin-1 characters. A position in a
  token list is the rest of the list from there on, except in the JSON scanner, whose nested
  index loops are kept as such.
\<close>

section \<open>Tokens\<close>

abbreviation dash :: char where "dash \<equiv> CHR ''-''"

abbreviation eq_sign :: char where "eq_sign \<equiv> CHR ''=''"

abbreviation backslash :: char where "backslash \<equiv> CHR 0x5C"

abbreviation dquote :: char where "dquote \<equiv> CHR 0x22"

abbreviation unit_sep :: char where "unit_sep \<equiv> CHR 0x1F"

text \<open>
  Which strings \<open>float(s)\<close> accepts: digit groups with single underscores between digits, a
  fraction, an exponent, or the names of infinity and not-a-number.
\<close>

definition is_digit :: "char \<Rightarrow> bool" where
  "is_digit c \<longleftrightarrow> py_digit c \<noteq> None"

fun digit_part :: "string \<Rightarrow> string option" where
  "digit_part [] = None"
| "digit_part (c # s) =
     (if is_digit c then
        (case digit_part s of
           Some r \<Rightarrow> Some r
         | None \<Rightarrow>
             (if take 1 s = ''_'' then
                (case digit_part (drop 1 s) of Some r \<Rightarrow> Some r | None \<Rightarrow> Some s)
              else Some s))
      else None)"

definition exponent_ok :: "string \<Rightarrow> bool" where
  "exponent_ok s \<longleftrightarrow>
     (case s of
        [] \<Rightarrow> True
      | e # r \<Rightarrow>
          (e = CHR ''e'' \<or> e = CHR ''E'') \<and>
          digit_part (if take 1 r = ''+'' \<or> take 1 r = ''-'' then drop 1 r else r) = Some [])"

definition unsigned_float :: "string \<Rightarrow> bool" where
  "unsigned_float s \<longleftrightarrow>
     py_lower s \<in> {''inf'', ''infinity'', ''nan''} \<or>
     (case digit_part s of
        Some r \<Rightarrow>
          if take 1 r = ''.'' then
            (case digit_part (drop 1 r) of Some q \<Rightarrow> exponent_ok q | None \<Rightarrow> exponent_ok (drop 1 r))
          else exponent_ok r
      | None \<Rightarrow> take 1 s = ''.'' \<and> (case digit_part (drop 1 s) of Some q \<Rightarrow> exponent_ok q | None \<Rightarrow> False))"

definition py_float_ok :: "string \<Rightarrow> bool" where
  "py_float_ok s \<longleftrightarrow>
     (let t = strip_of num_space s
      in unsigned_float (if take 1 t = ''-'' \<or> take 1 t = ''+'' then drop 1 t else t))"

definition is_parameter_key :: "string \<Rightarrow> bool" where
  "is_parameter_key token \<longleftrightarrow>
     take 1 token = ''-'' \<and> 1 < length token \<and> token \<noteq> ''--'' \<and> \<not> py_float_ok token"

definition looks_like_parameter :: "string \<Rightarrow> bool" where
  "looks_like_parameter value \<longleftrightarrow> take 1 value = ''-'' \<and> \<not> py_float_ok value"

text \<open>\<open>key, sep, value = s.partition("=")\<close>, and \<open>s.lstrip("-")\<close>.\<close>

definition eq_key :: "string \<Rightarrow> string" where
  "eq_key s = takeWhile (\<lambda>c. c \<noteq> eq_sign) s"

definition eq_sep :: "string \<Rightarrow> bool" where
  "eq_sep s \<longleftrightarrow> eq_sign \<in> set s"

definition eq_value :: "string \<Rightarrow> string" where
  "eq_value s = tl (dropWhile (\<lambda>c. c \<noteq> eq_sign) s)"

definition lstrip_dash :: "string \<Rightarrow> string" where
  "lstrip_dash s = dropWhile (\<lambda>c. c = dash) s"

section \<open>Redaction\<close>

definition sensitive_keys :: "string list" where
  "sensitive_keys = [''--progress-auth'']"

definition redacted :: string where
  "redacted = ''***''"

fun sanitize_loop :: "bool \<Rightarrow> string list \<Rightarrow> string list" where
  "sanitize_loop redact_next [] = []"
| "sanitize_loop redact_next (text # args) =
     (if redact_next then redacted # sanitize_loop False args
      else if eq_key text \<in> set sensitive_keys then
        (if eq_sep text then (eq_key text @ ''='' @ redacted) # sanitize_loop False args
         else text # sanitize_loop True args)
      else text # sanitize_loop False args)"

definition sanitize_args :: "string list \<Rightarrow> string list" where
  "sanitize_args args = sanitize_loop False args"

section \<open>Splitting a pasted command line\<close>

subsection \<open>JSON segments\<close>

text \<open>
  The two nested loops of \<open>_mask_json_segments\<close>, over indices of the text. \<open>None\<close> is a loop
  that does not end.
\<close>

definition open_bracket :: "char \<Rightarrow> bool" where
  "open_bracket c \<longleftrightarrow> c = CHR ''{'' \<or> c = CHR ''[''"

definition close_bracket :: "char \<Rightarrow> bool" where
  "close_bracket c \<longleftrightarrow> c = CHR ''}'' \<or> c = CHR '']''"

partial_function (option) scan_json :: "string \<Rightarrow> nat \<Rightarrow> int \<Rightarrow> bool \<Rightarrow> bool \<Rightarrow> nat option" where
  "scan_json text j depth in_string escape =
     (if j < length text then
        (let c = text ! j in
         if escape then scan_json text (j + 1) depth in_string False
         else if c = backslash then scan_json text (j + 1) depth in_string True
         else if c = dquote then scan_json text (j + 1) depth (\<not> in_string) False
         else if \<not> in_string \<and> open_bracket c then scan_json text (j + 1) (depth + 1) in_string False
         else if \<not> in_string \<and> close_bracket c then
           (if depth - 1 = 0 then Some (j + 1) else scan_json text (j + 1) (depth - 1) in_string False)
         else scan_json text (j + 1) depth in_string False)
      else Some j)"

definition placeholder :: "nat \<Rightarrow> string" where
  "placeholder n = [unit_sep] @ ''JSON_'' @ nat_str n @ [unit_sep]"

definition slice :: "string \<Rightarrow> nat \<Rightarrow> nat \<Rightarrow> string" where
  "slice s i j = take (j - i) (drop i s)"

partial_function (option) mask_loop ::
  "string \<Rightarrow> nat \<Rightarrow> nat \<Rightarrow> string \<Rightarrow> (string, string) dict \<Rightarrow> (string \<times> (string, string) dict) option" where
  "mask_loop text i json_id result mapping =
     (if i < length text then
        (if text ! i = eq_sign \<and> i + 1 < length text \<and> open_bracket (text ! (i + 1)) then
           Option.bind (scan_json text (i + 1) 0 False False) (\<lambda>j.
             mask_loop text j (json_id + 1) (result @ [eq_sign] @ placeholder json_id)
               (dput (placeholder json_id) (slice text (i + 1) j) mapping))
         else mask_loop text (i + 1) json_id (result @ [text ! i]) mapping)
      else Some (result, mapping))"

declare scan_json.simps [code] mask_loop.simps [code]

definition mask_json_segments :: "string \<Rightarrow> (string \<times> (string, string) dict) option" where
  "mask_json_segments text = mask_loop text 0 0 [] []"

text \<open>\<open>k in t\<close> and \<open>t.replace(k, v)\<close>; the strings replaced are placeholders, never empty.\<close>

definition starts_with :: "string \<Rightarrow> string \<Rightarrow> bool" where
  "starts_with k t \<longleftrightarrow> take (length k) t = k"

fun py_in :: "string \<Rightarrow> string \<Rightarrow> bool" where
  "py_in k [] = (k = [])"
| "py_in k (c # t) = (starts_with k (c # t) \<or> py_in k t)"

function py_replace :: "string \<Rightarrow> string \<Rightarrow> string \<Rightarrow> string" where
  "py_replace k v t =
     (if k = [] then t
      else if t = [] then []
      else if starts_with k t then v @ py_replace k v (drop (length k) t)
      else hd t # py_replace k v (tl t))"
  by auto
termination by (relation "measure (\<lambda>(k, v, t). length t)") auto

declare py_replace.simps [simp del]

definition unmask_token :: "(string, string) dict \<Rightarrow> string \<Rightarrow> string" where
  "unmask_token mapping t = fold (\<lambda>(k, v) t. if py_in k t then py_replace k v t else t) mapping t"

definition unmask_json :: "string list \<Rightarrow> (string, string) dict \<Rightarrow> string list" where
  "unmask_json tokens mapping = map (unmask_token mapping) tokens"

subsection \<open>Line continuations\<close>

abbreviation newline :: char where "newline \<equiv> CHR 0x0A"

abbreviation return_char :: char where "return_char \<equiv> CHR 0x0D"

function join_lines :: "string \<Rightarrow> string" where
  "join_lines s =
     (if s = [] then []
      else if starts_with [backslash, newline] s then CHR '' '' # join_lines (drop 2 s)
      else if starts_with [backslash, return_char, newline] s then CHR '' '' # join_lines (drop 3 s)
      else hd s # join_lines (tl s))"
  by auto
termination by (relation "measure length") auto

declare join_lines.simps [simp del]

definition rstrip_of :: "(char \<Rightarrow> bool) \<Rightarrow> string \<Rightarrow> string" where
  "rstrip_of P s = rev (dropWhile P (rev s))"

definition normalize_continuations :: "string \<Rightarrow> string" where
  "normalize_continuations s =
     (let text = join_lines s;
          stripped = rstrip_of py_space text;
          trailing = length stripped - length (rstrip_of (\<lambda>c. c = backslash) stripped)
      in if odd trailing then butlast stripped else text)"

subsection \<open>Shell words\<close>

text \<open>
  \<open>shlex.split\<close>: POSIX mode, split at white space only, no comments. The state is that of
  \<open>shlex.read_token\<close>; an escape remembers the quote it is in.
\<close>

datatype shlex_error = NoClosingQuotation | NoEscapedCharacter

datatype lex_state = Blank | InWord | InQuote char | Escaped "char option"

definition shlex_white :: "char \<Rightarrow> bool" where
  "shlex_white c \<longleftrightarrow> c = CHR '' '' \<or> c = CHR 0x09 \<or> c = return_char \<or> c = newline"

definition shlex_quote :: "char \<Rightarrow> bool" where
  "shlex_quote c \<longleftrightarrow> c = CHR 0x27 \<or> c = dquote"

definition emit :: "string \<Rightarrow> bool \<Rightarrow> string list" where
  "emit token quoted = (if token \<noteq> [] \<or> quoted then [token] else [])"

fun shlex :: "lex_state \<Rightarrow> string \<Rightarrow> bool \<Rightarrow> string \<Rightarrow> shlex_error + string list" where
  "shlex Blank token quoted [] = Inr (emit token quoted)"
| "shlex InWord token quoted [] = Inr (emit token quoted)"
| "shlex (InQuote q) token quoted [] = Inl NoClosingQuotation"
| "shlex (Escaped e) token quoted [] = Inl NoEscapedCharacter"
| "shlex Blank token quoted (c # s) =
     (if shlex_white c then
        (if token \<noteq> [] \<or> quoted then map_sum id ((#) token) (shlex Blank [] False s) else shlex Blank token quoted s)
      else if c = backslash then shlex (Escaped None) token quoted s
      else if shlex_quote c then shlex (InQuote c) token quoted s
      else shlex InWord [c] quoted s)"
| "shlex InWord token quoted (c # s) =
     (if shlex_white c then
        (if token \<noteq> [] \<or> quoted then map_sum id ((#) token) (shlex Blank [] False s) else shlex Blank token quoted s)
      else if shlex_quote c then shlex (InQuote c) token quoted s
      else if c = backslash then shlex (Escaped None) token quoted s
      else shlex InWord (token @ [c]) quoted s)"
| "shlex (InQuote q) token quoted (c # s) =
     (if c = q then shlex InWord token True s
      else if c = backslash \<and> q = dquote then shlex (Escaped (Some q)) token True s
      else shlex (InQuote q) (token @ [c]) True s)"
| "shlex (Escaped e) token quoted (c # s) =
     (case e of
        None \<Rightarrow> shlex InWord (token @ [c]) quoted s
      | Some q \<Rightarrow>
          shlex (InQuote q) (if c \<noteq> backslash \<and> c \<noteq> q then token @ [backslash, c] else token @ [c]) quoted s)"

definition shlex_split :: "string \<Rightarrow> shlex_error + string list" where
  "shlex_split s = shlex Blank [] False s"

text \<open>\<open>None\<close>: the masking loop does not end.\<close>

definition safe_split :: "string \<Rightarrow> (shlex_error + string list) option" where
  "safe_split expr =
     map_option (\<lambda>(masked, mapping).
       bind_err (shlex_split (normalize_continuations masked)) (\<lambda>tokens. Inr (unmask_json tokens mapping)))
       (mask_json_segments expr)"

definition first_word :: "string \<Rightarrow> string" where
  "first_word s = takeWhile (\<lambda>c. \<not> py_space c) s"

text \<open>Entries may be \<open>None\<close>; the caller treats a missing list as an empty one.\<close>

fun flatten_to_argv :: "string option list \<Rightarrow> (shlex_error + string list) option" where
  "flatten_to_argv [] = Some (Inr [])"
| "flatten_to_argv (None # ps) = flatten_to_argv ps"
| "flatten_to_argv (Some entry # ps) =
     (let stripped = py_strip entry
      in if stripped = [] then flatten_to_argv ps
         else Option.bind (if is_parameter_key (first_word stripped) then safe_split stripped else Some (Inr [stripped])) (\<lambda>r.
           case r of
             Inl e \<Rightarrow> Some (Inl e)
           | Inr tokens \<Rightarrow> map_option (map_sum id (\<lambda>rest. tokens @ rest)) (flatten_to_argv ps)))"

section \<open>Reading parameters\<close>

text \<open>\<open>_iter_param_pairs\<close> after flattening.\<close>

fun param_pairs :: "string list \<Rightarrow> (string \<times> string option) list" where
  "param_pairs [] = []"
| "param_pairs (tok # ts) =
     (if \<not> is_parameter_key tok then param_pairs ts
      else if eq_sep tok then (lstrip_dash (eq_key tok), Some (eq_value tok)) # param_pairs ts
      else case ts of
             v # ts' \<Rightarrow>
               if \<not> is_parameter_key v then (lstrip_dash tok, Some v) # param_pairs ts'
               else (lstrip_dash tok, None) # param_pairs ts
           | [] \<Rightarrow> [(lstrip_dash tok, None)])"

fun first_value :: "string list \<Rightarrow> (string \<times> string option) list \<Rightarrow> string option" where
  "first_value names [] = None"
| "first_value names ((k, v) # ps) = (if k \<in> set names \<and> v \<noteq> None then v else first_value names ps)"

type_synonym 'a read_result = "(shlex_error + 'a) option"

definition find_parameter :: "string option list option \<Rightarrow> string list \<Rightarrow> string option read_result" where
  "find_parameter parameters names =
     (case parameters of
        None \<Rightarrow> Some (Inr None)
      | Some ps \<Rightarrow> map_option (map_sum id (\<lambda>ts. first_value names (param_pairs ts))) (flatten_to_argv ps))"

definition find_int_parameter :: "string option list option \<Rightarrow> string list \<Rightarrow> int option read_result" where
  "find_int_parameter parameters names =
     map_option (map_sum id (\<lambda>v. Option.bind v py_int)) (find_parameter parameters names)"

definition falsy_values :: "string list" where
  "falsy_values = [''0'', ''false'', ''no'', ''off'', ''f'', ''n'']"

fun first_bool :: "string list \<Rightarrow> (string \<times> string option) list \<Rightarrow> bool" where
  "first_bool names [] = False"
| "first_bool names ((k, v) # ps) =
     (if k \<notin> set names then first_bool names ps
      else case v of None \<Rightarrow> True | Some s \<Rightarrow> py_lower s \<notin> set falsy_values)"

definition find_bool_parameter :: "string option list option \<Rightarrow> string list \<Rightarrow> bool read_result" where
  "find_bool_parameter parameters names =
     (case parameters of
        None \<Rightarrow> Some (Inr False)
      | Some ps \<Rightarrow> map_option (map_sum id (\<lambda>ts. first_bool names (param_pairs ts))) (flatten_to_argv ps))"

text \<open>\<open>compare\<close>: whether \<open>compare_versions\<close> of gpustack-runtime puts the version before 0.18.0;
  \<open>None\<close> when it raises.\<close>

definition should_default_to_ray :: "(string \<Rightarrow> bool option) \<Rightarrow> string option \<Rightarrow> bool" where
  "should_default_to_ray before_0_18 backend_version =
     (case backend_version of
        None \<Rightarrow> True
      | Some v \<Rightarrow>
          if v = [] \<or> \<not> py_in ''-custom'' v then True
          else case before_0_18 v of Some b \<Rightarrow> b | None \<Rightarrow> True)"

datatype executor_backend = Ray | Mp

definition resolve_executor_backend ::
  "(string \<Rightarrow> bool option) \<Rightarrow> string option list option \<Rightarrow> string option \<Rightarrow> executor_backend read_result" where
  "resolve_executor_backend before_0_18 parameters version =
     map_option (map_sum id (\<lambda>v.
       case v of
         Some s \<Rightarrow> if s = ''mp'' then Mp else Ray
       | None \<Rightarrow> if should_default_to_ray before_0_18 version then Ray else Mp))
       (find_parameter parameters [''distributed-executor-backend''])"

section \<open>Editing argument lists\<close>

definition get_versioned_command :: "string \<Rightarrow> string \<Rightarrow> string" where
  "get_versioned_command name version =
     (if 4 \<le> length name \<and> drop (length name - 4) name = ''.exe''
      then take (length name - 4) name @ ''_'' @ version @ ''.exe''
      else name @ ''_'' @ version)"

datatype extra_arg = KeyValue string string | Flag string

fun extend_args_no_exist :: "string list \<Rightarrow> extra_arg list \<Rightarrow> string list" where
  "extend_args_no_exist arguments [] = arguments"
| "extend_args_no_exist arguments (KeyValue key value # args) =
     extend_args_no_exist
       (if list_ex (\<lambda>a. a = key \<or> starts_with (key @ ''='') a) arguments then arguments else arguments @ [key, value]) args"
| "extend_args_no_exist arguments (Flag f # args) =
     extend_args_no_exist (if f \<in> set arguments then arguments else arguments @ [f]) args"

function drop_empty_flag_values :: "string list \<Rightarrow> string list" where
  "drop_empty_flag_values [] = []"
| "drop_empty_flag_values (token # ts) =
     (if is_parameter_key token then
        (if eq_sep token \<and> eq_value token = [] then drop_empty_flag_values ts
         else if \<not> eq_sep token \<and> ts \<noteq> [] \<and> hd ts = [] then drop_empty_flag_values (tl ts)
         else token # drop_empty_flag_values ts)
      else if token = [] then drop_empty_flag_values ts
      else token # drop_empty_flag_values ts)"
  by pat_completeness auto
termination by (relation "measure length") auto

text \<open>The inner loops: the value tokens after a flag, and what follows them.\<close>

definition values_of :: "string list \<Rightarrow> string list" where
  "values_of ts = takeWhile (\<lambda>t. \<not> is_parameter_key t) ts"

definition after_values :: "string list \<Rightarrow> string list" where
  "after_values ts = dropWhile (\<lambda>t. \<not> is_parameter_key t) ts"

lemma length_after_values [simp]: "length (after_values ts) \<le> length ts"
  by (simp add: after_values_def length_dropWhile_le)

lemma length_after_values_less [simp]: "length (after_values ts) < Suc (length ts)"
  by (simp add: le_imp_less_Suc)

definition override_keys :: "string list \<Rightarrow> string list" where
  "override_keys overrides = map (\<lambda>t. lstrip_dash (eq_key t)) (filter is_parameter_key overrides)"

function remove_flags :: "string list \<Rightarrow> string list \<Rightarrow> string list" where
  "remove_flags keys [] = []"
| "remove_flags keys (token # ts) =
     (if is_parameter_key token \<and> lstrip_dash (eq_key token) \<in> set keys
      then remove_flags keys (if eq_sep token then ts else after_values ts)
      else token # remove_flags keys ts)"
  by pat_completeness auto
termination by (relation "measure (\<lambda>(keys, ts). length ts)") auto

definition merge_flag_arguments :: "string list \<Rightarrow> string list \<Rightarrow> string list" where
  "merge_flag_arguments base overrides = remove_flags (override_keys overrides) base @ overrides"

function extract_loop :: "string \<Rightarrow> string list \<Rightarrow> string list \<Rightarrow> string list \<Rightarrow> string list \<times> string list" where
  "extract_loop key [] remaining extracted = (remaining, extracted)"
| "extract_loop key (token # ts) remaining extracted =
     (if is_parameter_key token \<and> lstrip_dash (eq_key token) = key then
        (if eq_sep token then extract_loop key ts remaining (extracted @ [token])
         else extract_loop key (after_values ts) remaining (extracted @ [token] @ values_of ts))
      else extract_loop key ts (remaining @ [token]) extracted)"
  by pat_completeness auto
termination by (relation "measure (\<lambda>(key, ts, remaining, extracted). length ts)") auto

definition extract_flag_arguments :: "string list \<Rightarrow> string \<Rightarrow> string list \<times> string list" where
  "extract_flag_arguments args flag = extract_loop (eq_key (lstrip_dash flag)) args [] []"

function format_backend_parameters :: "string list \<Rightarrow> string list" where
  "format_backend_parameters [] = []"
| "format_backend_parameters (p # ps) =
     (if take 1 p \<noteq> ''-'' \<or> eq_sep p then p # format_backend_parameters ps
      else (let values = takeWhile (\<lambda>t. \<not> looks_like_parameter t) ps;
                rest = dropWhile (\<lambda>t. \<not> looks_like_parameter t) ps
            in (case values of
                  [] \<Rightarrow> [p]
                | [v] \<Rightarrow> [p @ ''='' @ v]
                | _ \<Rightarrow> p # values) @ format_backend_parameters rest))"
  by pat_completeness auto
termination by (relation "measure length") (auto simp: le_imp_less_Suc length_dropWhile_le)

datatype parameter_format = SPACE | EQUAL

definition cluster :: "parameter_format \<Rightarrow> string \<Rightarrow> string list \<Rightarrow> string list" where
  "cluster target key values =
     (case values of
        [] \<Rightarrow> [key]
      | [v] \<Rightarrow> (if target = EQUAL then [key @ ''='' @ v] else [key, v])
      | _ \<Rightarrow> key # values)"

function normalize_param_format :: "parameter_format \<Rightarrow> string list \<Rightarrow> string list" where
  "normalize_param_format target [] = []"
| "normalize_param_format target (tok # ts) =
     (if \<not> is_parameter_key tok then tok # normalize_param_format target ts
      else if eq_sep tok then cluster target (eq_key tok) [eq_value tok] @ normalize_param_format target ts
      else cluster target tok (values_of ts) @ normalize_param_format target (after_values ts))"
  by pat_completeness auto
termination by (relation "measure (\<lambda>(target, ts). length ts)") auto

section \<open>Masking and unmasking\<close>

lemma scan_json_returns:
  "\<exists>k. scan_json text j depth in_string escape = Some k \<and> j \<le> k \<and> k \<le> max j (length text) \<and> (j < length text \<longrightarrow> j < k)"
proof (induction "length text - j" arbitrary: j depth in_string escape rule: less_induct)
  case less
  show ?case
  proof (cases "j < length text")
    case True
    have "length text - (j + 1) < length text - j" using True by simp
    from less [OF this] have step: "\<exists>k. scan_json text (Suc j) d s e = Some k \<and> j \<le> k \<and> k \<le> length text \<and> j < k" for d s e
      using True by (metis Suc_eq_plus1 Suc_leI Suc_le_lessD max.absorb2 less_imp_le_nat)
    have "max j (length text) = length text" using True by simp
    then show ?thesis using True step by (subst scan_json.simps) (simp add: Let_def split: if_split)
  next
    case False
    then show ?thesis by (subst scan_json.simps) simp
  qed
qed

text \<open>
  What the loop has read, as pieces: a character kept (\<open>Inl\<close>) or, after an equality sign, a
  JSON text (\<open>Inr\<close>).
\<close>

fun original :: "(char + string) list \<Rightarrow> string" where
  "original [] = []"
| "original (Inl c # segs) = c # original segs"
| "original (Inr s # segs) = eq_sign # s @ original segs"

fun render :: "nat \<Rightarrow> (char + string) list \<Rightarrow> string" where
  "render n [] = []"
| "render n (Inl c # segs) = c # render n segs"
| "render n (Inr s # segs) = eq_sign # placeholder n @ render (Suc n) segs"

fun mask_map :: "nat \<Rightarrow> (char + string) list \<Rightarrow> (string, string) dict" where
  "mask_map n [] = []"
| "mask_map n (Inl c # segs) = mask_map n segs"
| "mask_map n (Inr s # segs) = (placeholder n, s) # mask_map (Suc n) segs"

lemma placeholder_inj: "placeholder n = placeholder m \<Longrightarrow> n = m"
  using nat_str_inj by (simp add: placeholder_def)

lemma dput_fresh: "k \<notin> fst ` set d \<Longrightarrow> dput k v d = d @ [(k, v)]"
  by (induction d) auto

lemma drop_slice: "i \<le> j \<Longrightarrow> drop i s = slice s i j @ drop j s"
  by (metis append_take_drop_id drop_drop le_add_diff_inverse2 slice_def)

lemma mask_loop_segments:
  "set (dkeys mapping) \<subseteq> placeholder ` {..<n} \<Longrightarrow>
   \<exists>segs. mask_loop text i n result mapping = Some (result @ render n segs, mapping @ mask_map n segs) \<and>
          original segs = drop i text"
proof (induction "length text - i" arbitrary: i n result mapping rule: less_induct)
  case less
  show ?case
  proof (cases "i < length text")
    case False
    then show ?thesis by (subst mask_loop.simps) (intro exI [of _ "[]"], simp)
  next
    case True
    note cons = Cons_nth_drop_Suc [OF True, symmetric]
    show ?thesis
    proof (cases "text ! i = eq_sign \<and> i + 1 < length text \<and> open_bracket (text ! (i + 1))")
      case j_case: True
      obtain j where j: "scan_json text (i + 1) 0 False False = Some j" "i + 1 \<le> j"
        using scan_json_returns by blast
      let ?s = "slice text (i + 1) j"
      have fresh: "placeholder n \<notin> fst ` set mapping"
        using less.prems by (metis imageE lessThan_iff less_irrefl placeholder_inj set_map subsetD)
      have "set (dkeys (mapping @ [(placeholder n, ?s)])) \<subseteq> placeholder ` {..<Suc n}"
        using less.prems by (auto simp: lessThan_Suc)
      moreover have "length text - j < length text - i" using True j(2) by simp
      ultimately obtain segs where
        "mask_loop text j (Suc n) (result @ [eq_sign] @ placeholder n) (mapping @ [(placeholder n, ?s)]) =
           Some ((result @ [eq_sign] @ placeholder n) @ render (Suc n) segs, (mapping @ [(placeholder n, ?s)]) @ mask_map (Suc n) segs)"
        "original segs = drop j text"
        using less.hyps by blast
      then show ?thesis
        using True j_case j cons drop_slice [OF j(2), of "text"]
        by (subst mask_loop.simps) (intro exI [of _ "Inr ?s # segs"], simp add: dput_fresh [OF fresh])
    next
      case plain: False
      have "length text - Suc i < length text - i" using True by simp
      from less.hyps [OF this less.prems] obtain segs where
        "mask_loop text (Suc i) n (result @ [text ! i]) mapping = Some ((result @ [text ! i]) @ render n segs, mapping @ mask_map n segs)"
        "original segs = drop (Suc i) text" by blast
      then show ?thesis
        using True cons by (subst mask_loop.simps, unfold if_not_P [OF plain]) (intro exI [of _ "Inl (text ! i) # segs"], simp)
    qed
  qed
qed

lemma mask_json_segments_exist:
  "\<exists>segs. mask_json_segments text = Some (render 0 segs, mask_map 0 segs) \<and> original segs = text"
  using mask_loop_segments [of "[]" 0 "text" 0 "[]"] by (simp add: mask_json_segments_def)

subsection \<open>Replacing placeholders\<close>

lemma starts_with_append [simp]: "starts_with k (k @ t)"
  by (simp add: starts_with_def)

lemma starts_with_Cons [simp]: "starts_with (a # k) (c # t) \<longleftrightarrow> a = c \<and> starts_with k t"
  by (auto simp: starts_with_def)

lemma starts_with_Nil [simp]: "starts_with [] t" "starts_with (a # k) [] = False"
  by (simp_all add: starts_with_def)

lemma py_in_append: "py_in k t \<Longrightarrow> py_in k (u @ t)"
  by (induction u) auto

lemma py_replace_absent: "\<not> py_in k t \<Longrightarrow> py_replace k v t = t"
proof (induction t)
  case (Cons c t)
  then show ?case by (subst py_replace.simps) simp
qed (simp add: py_replace.simps)

lemma replace_if_present: "(if py_in k t then py_replace k v t else t) = py_replace k v t"
  by (simp add: py_replace_absent)

lemma py_replace_skip: "a \<notin> set u \<Longrightarrow> py_replace (a # k) v (u @ t) = u @ py_replace (a # k) v t"
proof (induction u)
  case (Cons c u)
  then show ?case by (subst py_replace.simps) simp
qed simp

lemma py_replace_here: "k \<noteq> [] \<Longrightarrow> py_replace k v (k @ t) = v @ py_replace k v t"
  by (subst py_replace.simps) simp

lemma py_in_skip: "a \<notin> set u \<Longrightarrow> py_in (a # k) (u @ t) = py_in (a # k) t"
  by (induction u) auto

lemma placeholder_Cons: "placeholder n = unit_sep # ''JSON_'' @ nat_str n @ [unit_sep]"
  by (simp add: placeholder_def)

lemma placeholder_not_Nil: "placeholder n \<noteq> []"
  by (simp add: placeholder_def)

lemma unit_sep_not_digit: "unit_sep \<notin> set (nat_str n)"
  using nat_str_chars [of unit_sep n] by (auto simp: py_digit_def)

lemma takeWhile_sep [simp]: "unit_sep \<notin> set u \<Longrightarrow> takeWhile (\<lambda>c. c \<noteq> unit_sep) (u @ unit_sep # t) = u"
  by (induction u) auto

lemma starts_with_decompose: "starts_with k t \<Longrightarrow> \<exists>u. t = k @ u"
  by (metis append_take_drop_id starts_with_def)

text \<open>In a masked text every separator is preceded by an equality sign or closes a placeholder.\<close>

lemma render_first_sep:
  "unit_sep \<notin> set (original segs) \<Longrightarrow> render n segs = u @ unit_sep # t \<Longrightarrow> unit_sep \<notin> set u \<Longrightarrow>
   u \<noteq> [] \<and> last u = eq_sign"
proof (induction n segs arbitrary: u rule: render.induct)
  case (2 n c segs)
  then show ?case by (cases u) (auto split: if_splits)
next
  case (3 n s segs)
  then show ?case
    by (cases u) (auto simp: placeholder_def Cons_eq_append_conv)
qed simp

lemma placeholder_absent:
  "unit_sep \<notin> set (original segs) \<Longrightarrow> n < m \<Longrightarrow> \<not> py_in (placeholder n) (render m segs)"
proof (induction m segs rule: render.induct)
  case (1 m)
  then show ?case by (simp add: placeholder_def)
next
  case (2 m c segs)
  then show ?case by (simp add: placeholder_Cons)
next
  case (3 m s segs)
  let ?r = "render (Suc m) segs"
  have inner: "unit_sep \<notin> set (''JSON_'' @ nat_str m)" for m using unit_sep_not_digit by simp
  have no_head: "\<not> starts_with (placeholder n) (placeholder m @ ?r)"
  proof
    assume "starts_with (placeholder n) (placeholder m @ ?r)"
    then obtain u where "(''JSON_'' @ nat_str n) @ unit_sep # u = (''JSON_'' @ nat_str m) @ unit_sep # ?r"
      by (auto simp: placeholder_Cons dest!: starts_with_decompose)
    from arg_cong [OF this, of "takeWhile (\<lambda>c. c \<noteq> unit_sep)"] have "nat_str n = nat_str m"
      using inner by (subst (asm) (1 2) takeWhile_sep) auto
    with 3 show False using nat_str_inj by blast
  qed
  have no_tail: "\<not> starts_with (placeholder n) (unit_sep # ?r)"
  proof
    assume "starts_with (placeholder n) (unit_sep # ?r)"
    then obtain u where "?r = (''JSON_'' @ nat_str n) @ unit_sep # u"
      by (auto simp: placeholder_Cons dest!: starts_with_decompose)
    moreover have "unit_sep \<notin> set (original segs)" using 3 by simp
    ultimately have "last (''JSON_'' @ nat_str n) = eq_sign" using render_first_sep inner by blast
    then have "eq_sign \<in> set (nat_str n)" using nat_str_digits [of n] by (metis last_appendR last_in_set)
    from nat_str_chars [OF this] show False by (simp add: py_digit_def)
  qed
  have "py_in (placeholder n) (placeholder m @ ?r) =
        (starts_with (placeholder n) (placeholder m @ ?r) \<or> py_in (placeholder n) ((''JSON_'' @ nat_str m) @ unit_sep # ?r))"
    by (simp add: placeholder_Cons)
  also have "py_in (placeholder n) ((''JSON_'' @ nat_str m) @ unit_sep # ?r) = py_in (placeholder n) (unit_sep # ?r)"
    unfolding placeholder_Cons [of n] using inner by (rule py_in_skip)
  finally show ?case using 3 no_head no_tail by (simp add: placeholder_Cons [of n] del: placeholder_def)
qed

lemma unmask_render:
  "unit_sep \<notin> set (original segs) \<Longrightarrow> unit_sep \<notin> set pre \<Longrightarrow>
   unmask_token (mask_map n segs) (pre @ render n segs) = pre @ original segs"
proof (induction n segs arbitrary: pre rule: render.induct)
  case (1 n)
  then show ?case by (simp add: unmask_token_def)
next
  case (2 n c segs)
  then show ?case using "2.IH" [of "pre @ [c]"] by simp
next
  case (3 n s segs)
  have clean: "unit_sep \<notin> set (pre @ [eq_sign])" and absent: "\<not> py_in (placeholder n) (render (Suc n) segs)"
    using 3 placeholder_absent by auto
  have "py_replace (placeholder n) s (pre @ eq_sign # placeholder n @ render (Suc n) segs) =
        (pre @ [eq_sign]) @ py_replace (placeholder n) s (placeholder n @ render (Suc n) segs)"
    using py_replace_skip [OF clean, of _ s "placeholder n @ render (Suc n) segs"] by (simp add: placeholder_Cons)
  also have "\<dots> = (pre @ [eq_sign] @ s) @ render (Suc n) segs"
    using py_replace_here [of "placeholder n"] by (simp add: py_replace_absent [OF absent] placeholder_not_Nil)
  finally show ?case
    using "3.IH" [of "pre @ [eq_sign] @ s"] "3.prems" by (simp add: unmask_token_def replace_if_present)
qed

text \<open>C25: Masking ends on every text, and unmasking what it returns restores the text, unless the
  text itself contains the control character that delimits placeholders.\<close>

theorem mask_json_total:
  "\<exists>masked mapping. mask_json_segments text = Some (masked, mapping) \<and>
     (unit_sep \<in> set text \<or> unmask_json [masked] mapping = [text])"
proof -
  obtain segs where "mask_json_segments text = Some (render 0 segs, mask_map 0 segs)" "original segs = text"
    using mask_json_segments_exist by blast
  then show ?thesis using unmask_render [of segs "[]" 0] by (auto simp: unmask_json_def)
qed

section \<open>JSON values survive splitting\<close>

lemma scan_json_shift:
  "scan_json (pre @ s) (length pre + j) d i e = map_option ((+) (length pre)) (scan_json s j d i e)"
proof (induction "length s - j" arbitrary: j d i e rule: less_induct)
  case less
  show ?case
  proof (cases "j < length s")
    case True
    then have "length s - Suc j < length s - j" by simp
    note IH = less [OF this]
    show ?thesis
      using True IH
      by (subst (1 2) scan_json.simps) (simp add: Let_def nth_append split: if_split)
  next
    case False
    then show ?thesis by (subst (1 2) scan_json.simps) simp
  qed
qed

lemma mask_loop_prefix:
  "eq_sign \<notin> set key \<Longrightarrow> i \<le> length key \<Longrightarrow>
   mask_loop (key @ rest) i n result mapping = mask_loop (key @ rest) (length key) n (result @ drop i key) mapping"
proof (induction "length key - i" arbitrary: i result rule: less_induct)
  case less
  show ?case
  proof (cases "i = length key")
    case True
    then show ?thesis by simp
  next
    case False
    then have i: "i < length key" using less by simp
    then have "key ! i \<noteq> eq_sign" using less.prems by (metis nth_mem)
    moreover have "length key - Suc i < length key - i" using i by simp
    note less.hyps [OF this less.prems(1), of "result @ [key ! i]"]
    ultimately show ?thesis
      using i by (subst mask_loop.simps) (simp add: nth_append Cons_nth_drop_Suc Suc_leI)
  qed
qed

lemma join_lines_id: "backslash \<notin> set s \<Longrightarrow> join_lines s = s"
proof (induction s)
  case (Cons c s)
  then show ?case by (subst join_lines.simps) simp
qed (simp add: join_lines.simps)

lemma set_rstrip: "set (rstrip_of P s) \<subseteq> set s"
  unfolding rstrip_of_def by (metis set_dropWhileD set_rev subsetI)

lemma rstrip_absent: "(\<And>c. c \<in> set s \<Longrightarrow> \<not> P c) \<Longrightarrow> rstrip_of P s = s"
  using dropWhile_eq_self_iff [of P "rev s"] hd_in_set [of "rev s"] by (auto simp: rstrip_of_def)

lemma normalize_id:
  assumes "backslash \<notin> set s"
  shows "normalize_continuations s = s"
proof -
  have "rstrip_of (\<lambda>c. c = backslash) (rstrip_of py_space s) = rstrip_of py_space s"
    using assms set_rstrip by (intro rstrip_absent) blast
  then show ?thesis using assms by (simp add: normalize_continuations_def join_lines_id Let_def)
qed

definition word_char :: "char \<Rightarrow> bool" where
  "word_char c \<longleftrightarrow> \<not> shlex_white c \<and> \<not> shlex_quote c \<and> c \<noteq> backslash"

lemma shlex_word: "list_all word_char s \<Longrightarrow> shlex InWord token quoted s = Inr (emit (token @ s) quoted)"
  by (induction s arbitrary: token) (auto simp: word_char_def)

lemma shlex_split_word: "list_all word_char s \<Longrightarrow> s \<noteq> [] \<Longrightarrow> shlex_split s = Inr [s]"
  by (cases s) (auto simp: shlex_split_def shlex_word emit_def word_char_def)

lemma word_char_digit: "list_all word_char (nat_str n)"
  using nat_str_digits [of n]
  by (auto simp: list_all_iff word_char_def shlex_white_def shlex_quote_def py_digit_def Let_def split: if_splits)

lemma word_char_placeholder: "list_all word_char (placeholder n)"
  using word_char_digit by (simp add: placeholder_def) (simp add: word_char_def shlex_white_def shlex_quote_def)

text \<open>A parameter \<open>key=json\<close> whose JSON text is balanced comes out of splitting as one token,
  unchanged, whatever blanks, quotes and backslashes the JSON text contains.\<close>

theorem json_value_one_token:
  assumes "list_all word_char key" and "eq_sign \<notin> set key" and "unit_sep \<notin> set key" and "unit_sep \<notin> set json"
    and "json \<noteq> []" and "open_bracket (hd json)" and "scan_json json 0 0 False False = Some (length json)"
  shows "safe_split (key @ ''='' @ json) = Some (Inr [key @ ''='' @ json])"
proof -
  let ?t = "key @ eq_sign # json" and ?m = "key @ eq_sign # placeholder 0"
  have at: "?t ! length key = eq_sign" "Suc (length key) < length ?t" "?t ! Suc (length key) = hd json"
    using assms(5) by (auto simp: nth_append hd_conv_nth)
  have scan: "scan_json ?t (Suc (length key)) 0 False False = Some (length ?t)"
    using scan_json_shift [of "key @ [eq_sign]" json 0] assms(7) by simp
  have json: "slice ?t (Suc (length key)) (length ?t) = json" by (simp add: slice_def)
  have "mask_json_segments ?t = mask_loop ?t (length key) 0 key []"
    unfolding mask_json_segments_def using mask_loop_prefix [OF assms(2), of 0] by simp
  also have "\<dots> = Some (?m, [(placeholder 0, json)])"
    using at scan json assms(6) by (subst mask_loop.simps, subst mask_loop.simps) simp
  finally have mask: "mask_json_segments ?t = Some (?m, [(placeholder 0, json)])" .
  have word: "list_all word_char ?m"
    using assms(1) word_char_placeholder by (simp add: word_char_def shlex_white_def shlex_quote_def)
  then have "backslash \<notin> set ?m" by (auto simp: list_all_iff word_char_def)
  then have "shlex_split (normalize_continuations ?m) = Inr [?m]" using shlex_split_word [OF word] normalize_id by simp
  moreover have "unmask_json [?m] [(placeholder 0, json)] = [?t]"
    using unmask_render [of "[Inr json]" key 0] assms(3,4) by (simp add: unmask_json_def)
  ultimately show ?thesis by (simp add: safe_split_def mask)
qed

theorem json_value_one_token_witness:
  "safe_split (''--rope-scaling'' @ ''='' @ ''{'' @ [dquote] @ ''a } b'' @ [dquote] @ '': [1, 2]}'') =
     Some (Inr [''--rope-scaling'' @ ''='' @ ''{'' @ [dquote] @ ''a } b'' @ [dquote] @ '': [1, 2]}''])"
  by (rule json_value_one_token) code_simp+

section \<open>Argument lists as maps\<close>

text \<open>
  The abstract view of an argument list: which keys it sets, and to what (\<open>Some None\<close> is a
  bare flag). A list is tidy when no positional token follows a flag in \<open>key=value\<close> form.
\<close>

definition arg_map :: "string list \<Rightarrow> string \<Rightarrow> string option option" where
  "arg_map ts = map_of (param_pairs ts)"

definition at_key :: "string list \<Rightarrow> bool" where
  "at_key ts \<longleftrightarrow> ts = [] \<or> is_parameter_key (hd ts)"

fun tidy :: "string list \<Rightarrow> bool" where
  "tidy [] = True"
| "tidy (t # ts) = ((is_parameter_key t \<and> eq_sep t \<longrightarrow> at_key ts) \<and> tidy ts)"

lemma at_key_simps [simp]: "at_key []" "at_key (t # ts) = is_parameter_key t"
  by (simp_all add: at_key_def)

lemma at_key_after [simp]: "at_key (after_values ts)"
  unfolding after_values_def at_key_def by (metis hd_dropWhile)

lemma tidy_after [simp]: "tidy ts \<Longrightarrow> tidy (after_values ts)"
  by (induction ts) (auto simp: after_values_def)

lemma after_values_Cons [simp]:
  "after_values (t # ts) = (if is_parameter_key t then t # ts else after_values ts)"
  by (simp add: after_values_def)

lemma values_of_Cons [simp]:
  "values_of (t # ts) = (if is_parameter_key t then [] else t # values_of ts)"
  by (simp add: values_of_def)

lemma values_of_Nil [simp]: "values_of [] = []" "after_values [] = []"
  by (simp_all add: values_of_def after_values_def)

lemma values_idem [simp]: "values_of (values_of ts) = values_of ts" "after_values (values_of ts) = []"
  by (induction ts) auto

lemma values_after: "values_of ts @ after_values ts = ts"
  by (simp add: values_of_def after_values_def)

lemma eq_key_no_sep: "\<not> eq_sep t \<Longrightarrow> eq_key t = t"
  by (auto simp: eq_sep_def eq_key_def takeWhile_eq_all_conv)

lemma param_pairs_after: "param_pairs (after_values ts) = param_pairs ts"
  by (induction ts) auto

text \<open>A bare flag takes the first of its values.\<close>

lemma param_pairs_bare:
  "is_parameter_key t \<Longrightarrow> \<not> eq_sep t \<Longrightarrow>
   param_pairs (t # ts) =
     (lstrip_dash t, if values_of ts = [] then None else Some (hd (values_of ts))) # param_pairs (after_values ts)"
  by (cases ts) (auto simp: param_pairs_after)

lemma param_pairs_key [simp]:
  "\<not> is_parameter_key t \<Longrightarrow> param_pairs (t # ts) = param_pairs ts"
  "is_parameter_key t \<Longrightarrow> eq_sep t \<Longrightarrow> param_pairs (t # ts) = (lstrip_dash (eq_key t), Some (eq_value t)) # param_pairs ts"
  by simp_all

declare param_pairs.simps(2) [simp del]

lemma values_at_key: "at_key ys \<Longrightarrow> values_of ys = [] \<and> after_values ys = ys"
  by (cases ys) auto

lemma values_append [simp]:
  assumes "at_key ys"
  shows "values_of (us @ ys) = values_of us" "after_values (us @ ys) = after_values us @ ys"
  using values_at_key [OF assms] by (induction us) auto

lemma param_pairs_append: "at_key ys \<Longrightarrow> param_pairs (xs @ ys) = param_pairs xs @ param_pairs ys"
proof (induction "length xs" arbitrary: xs rule: less_induct)
  case less
  show ?case
  proof (cases xs)
    case (Cons t us)
    note IH = less.hyps [of us] less.hyps [of "after_values us"]
    consider "\<not> is_parameter_key t" | "is_parameter_key t" "eq_sep t" | "is_parameter_key t" "\<not> eq_sep t" by blast
    then show ?thesis using IH less.prems by cases (simp_all add: Cons param_pairs_bare)
  qed simp
qed

lemma param_pairs_values: "param_pairs (values_of ts @ ys) = param_pairs ys"
  by (induction ts) auto

lemma override_keys_after: "override_keys (after_values ts) = override_keys ts"
  by (induction ts) (auto simp: override_keys_def)

lemma override_keys_pairs: "set (override_keys ts) = fst ` set (param_pairs ts)"
proof (induction "length ts" arbitrary: ts rule: less_induct)
  case less
  show ?case
  proof (cases ts)
    case (Cons t us)
    have key: "override_keys (t # us) = (if is_parameter_key t then [lstrip_dash (eq_key t)] else []) @ override_keys us"
      by (simp add: override_keys_def)
    note IH = less.hyps [of us] less.hyps [of "after_values us"]
    consider "\<not> is_parameter_key t" | "is_parameter_key t" "eq_sep t" | "is_parameter_key t" "\<not> eq_sep t" by blast
    then show ?thesis
      using IH by cases (simp_all add: Cons key param_pairs_bare override_keys_after eq_key_no_sep)
  qed (simp add: override_keys_def)
qed

lemma remove_flags_at_key: "tidy ts \<Longrightarrow> at_key ts \<Longrightarrow> at_key (remove_flags ks ts)"
  by (induction ks ts rule: remove_flags.induct) auto

lemma remove_flags_values:
  "remove_flags ks ts = values_of ts @ remove_flags ks (after_values ts)"
  by (induction ts) auto

lemma param_pairs_remove:
  "tidy ts \<Longrightarrow> param_pairs (remove_flags ks ts) = filter (\<lambda>(k, v). k \<notin> set ks) (param_pairs ts)"
proof (induction "length ts" arbitrary: ts rule: less_induct)
  case less
  show ?case
  proof (cases ts)
    case (Cons t us)
    have tidy: "tidy us" "tidy (after_values us)" using less.prems Cons by simp_all
    note IH = less.hyps [of us] less.hyps [of "after_values us"]
    show ?thesis
    proof (cases "is_parameter_key t \<and> \<not> eq_sep t")
      case True
      define r where "r = remove_flags ks (after_values us)"
      have r: "param_pairs r = filter (\<lambda>(k, v). k \<notin> set ks) (param_pairs (after_values us))" "at_key r"
        using IH tidy remove_flags_at_key by (simp_all add: r_def Cons)
      have "values_of (values_of us @ r) = values_of us" "after_values (values_of us @ r) = r"
        using values_append [OF r(2), of "values_of us"] by simp_all
      then show ?thesis
        using True r(1) Cons remove_flags_values [of ks us] param_pairs_bare [of t]
        by (simp add: eq_key_no_sep flip: r_def)
    next
      case False
      then show ?thesis using IH tidy Cons by (cases "is_parameter_key t") auto
    qed
  qed simp
qed

lemma map_of_filter_keys: "map_of (filter (\<lambda>(k, v). P k) xs) k = (if P k then map_of xs k else None)"
  by (induction xs) auto

text \<open>C18: Merging refines map override. On tidy base arguments, with overrides that start with a flag,
  the merged command line sets exactly what the base sets, overridden by what the user sets.\<close>

theorem merge_refines_override:
  assumes "tidy base" and "at_key overrides"
  shows "arg_map (merge_flag_arguments base overrides) = arg_map base ++ arg_map overrides"
proof
  fix k
  have "k \<in> set (override_keys overrides) \<longleftrightarrow> arg_map overrides k \<noteq> None"
    by (simp add: arg_map_def override_keys_pairs map_of_eq_None_iff)
  then show "arg_map (merge_flag_arguments base overrides) k = (arg_map base ++ arg_map overrides) k"
    using assms
    by (auto simp: arg_map_def merge_flag_arguments_def param_pairs_append param_pairs_remove map_of_filter_keys
        map_add_def split: option.splits)
qed

theorem merge_refines_override_witness:
  "arg_map (merge_flag_arguments [''serve'', ''--tp'', ''2'', ''--verbose'', ''--port=80''] [''--tp=4''])
     = arg_map [''serve'', ''--tp'', ''2'', ''--verbose'', ''--port=80''] ++ arg_map [''--tp=4'']"
proof (rule merge_refines_override)
  show "tidy [''serve'', ''--tp'', ''2'', ''--verbose'', ''--port=80'']" "at_key [''--tp=4'']" by code_simp+
qed

section \<open>Formats\<close>

text \<open>
  What a rewriting of argument lists promises: on the lists it is meant for, every reader of
  parameters sees the same keys and values as before.
\<close>

locale pair_preserving =
  fixes rewrite :: "string list \<Rightarrow> string list"
    and meant :: "string list \<Rightarrow> bool"
  assumes pairs: "meant ts \<Longrightarrow> param_pairs (rewrite ts) = param_pairs ts"
begin

lemma same_value: "meant ts \<Longrightarrow> first_value names (param_pairs (rewrite ts)) = first_value names (param_pairs ts)"
  by (simp add: pairs)

lemma same_bool: "meant ts \<Longrightarrow> first_bool names (param_pairs (rewrite ts)) = first_bool names (param_pairs ts)"
  by (simp add: pairs)

lemma same_map: "meant ts \<Longrightarrow> arg_map (rewrite ts) = arg_map ts"
  by (simp add: arg_map_def pairs)

end

text \<open>Which lists survive the space format: the part before an equality sign is a flag, the part
  after it is not.\<close>

definition space_safe :: "string list \<Rightarrow> bool" where
  "space_safe ts \<longleftrightarrow>
     list_all (\<lambda>t. is_parameter_key t \<and> eq_sep t \<longrightarrow> is_parameter_key (eq_key t) \<and> \<not> is_parameter_key (eq_value t)) ts"

lemma eq_sep_append: "eq_sep (k @ ''='' @ v)"
  by (simp add: eq_sep_def)

lemma eq_parts: "\<not> eq_sep k \<Longrightarrow> eq_key (k @ ''='' @ v) = k \<and> eq_value (k @ ''='' @ v) = v"
  by (induction k) (auto simp: eq_sep_def eq_key_def eq_value_def)

lemma eq_split: "eq_sep t \<Longrightarrow> t = eq_key t @ ''='' @ eq_value t"
proof -
  assume "eq_sep t"
  then have "dropWhile (\<lambda>c. c \<noteq> eq_sign) t \<noteq> []" by (auto simp: eq_sep_def dropWhile_eq_Nil_conv)
  then have "dropWhile (\<lambda>c. c \<noteq> eq_sign) t = eq_sign # eq_value t"
    using hd_dropWhile [of "\<lambda>c. c \<noteq> eq_sign" t] by (cases "dropWhile (\<lambda>c. c \<noteq> eq_sign) t") (auto simp: eq_value_def)
  then show ?thesis unfolding eq_key_def by (metis append_Cons append_Nil takeWhile_dropWhile_id)
qed

lemma eq_key_clean: "\<not> eq_sep (eq_key t)"
  by (auto simp: eq_sep_def eq_key_def dest: set_takeWhileD)

text \<open>A number contains no equality sign.\<close>

lemma digit_part_rest:
  "digit_part s = Some r \<Longrightarrow> eq_sign \<in> set s \<Longrightarrow> eq_sign \<in> set r"
proof (induction s arbitrary: r rule: digit_part.induct)
  case (2 c s)
  have c: "is_digit c" using "2.prems"(1) by (auto split: if_splits)
  then have "c \<noteq> eq_sign" by (auto simp: is_digit_def py_digit_def)
  then have s: "eq_sign \<in> set s" using "2.prems"(2) by auto
  show ?case
  proof (cases "digit_part s")
    case (Some q)
    then show ?thesis using "2.IH"(1) [OF c] s "2.prems"(1) c by simp
  next
    case None
    show ?thesis
    proof (cases "take 1 s = ''_''")
      case True
      then obtain s' where "s = CHR ''_'' # s'" by (cases s) auto
      then show ?thesis using "2.IH"(2) [OF c None True] s "2.prems"(1) c None True by (auto split: option.splits)
    next
      case False
      then show ?thesis using s "2.prems"(1) c None by simp
    qed
  qed
qed simp

lemma exponent_no_eq: "exponent_ok s \<Longrightarrow> eq_sign \<notin> set s"
proof (cases s)
  case (Cons e r)
  assume ok: "exponent_ok s"
  let ?r = "if take 1 r = ''+'' \<or> take 1 r = ''-'' then drop 1 r else r"
  from ok have "e \<noteq> eq_sign" "digit_part ?r = Some []" by (auto simp: exponent_ok_def Cons)
  then have "eq_sign \<notin> set ?r" using digit_part_rest by fastforce
  then have "eq_sign \<notin> set r" by (cases r) (auto split: if_splits)
  then show ?thesis using Cons \<open>e \<noteq> eq_sign\<close> by simp
qed simp

lemma lower_eq: "eq_sign \<in> set s \<Longrightarrow> eq_sign \<in> set (py_lower s)"
  by (force simp: py_lower_def image_iff)

lemma fraction_no_eq: "take 1 r = ''.'' \<Longrightarrow> eq_sign \<notin> set (drop 1 r) \<Longrightarrow> eq_sign \<notin> set r"
  by (cases r) auto

lemma unsigned_float_no_eq: "unsigned_float s \<Longrightarrow> eq_sign \<notin> set s"
proof
  assume f: "unsigned_float s" and e: "eq_sign \<in> set s"
  then have "py_lower s \<notin> {''inf'', ''infinity'', ''nan''}" using lower_eq by force
  with f show False
    unfolding unsigned_float_def
    using e digit_part_rest exponent_no_eq fraction_no_eq
    by (auto split: option.splits if_splits) metis+
qed

lemma strip_keeps: "c \<in> set s \<Longrightarrow> \<not> P c \<Longrightarrow> c \<in> set (strip_of P s)"
proof -
  have d: "c \<in> set t \<Longrightarrow> \<not> P c \<Longrightarrow> c \<in> set (dropWhile P t)" for t by (induction t) auto
  assume "c \<in> set s" "\<not> P c"
  then show ?thesis using d [of s] d [of "rev (dropWhile P s)"] by (simp add: strip_of_def)
qed

lemma float_no_eq: "eq_sep s \<Longrightarrow> \<not> py_float_ok s"
proof
  assume "eq_sep s" and f: "py_float_ok s"
  define u where "u = strip_of num_space s"
  have u: "eq_sign \<in> set u"
    unfolding u_def using \<open>eq_sep s\<close> by (intro strip_keeps) (auto simp: eq_sep_def num_space_def)
  from f have "unsigned_float (if take 1 u = ''-'' \<or> take 1 u = ''+'' then drop 1 u else u)"
    by (simp only: py_float_ok_def u_def Let_def)
  from unsigned_float_no_eq [OF this] u show False by (cases u) (auto split: if_splits)
qed

lemma key_with_value: "is_parameter_key k \<Longrightarrow> is_parameter_key (k @ ''='' @ v)"
  using float_no_eq [OF eq_sep_append, of k v] by (cases k) (auto simp: is_parameter_key_def append_eq_Cons_conv)

definition format_safe :: "parameter_format \<Rightarrow> string list \<Rightarrow> bool" where
  "format_safe target ts \<longleftrightarrow> target = EQUAL \<or> space_safe ts"

lemma format_safe_Cons:
  "format_safe target (t # ts) \<Longrightarrow> format_safe target ts"
  "format_safe target ts \<Longrightarrow> format_safe target (after_values ts)"
  unfolding format_safe_def space_safe_def list_all_iff after_values_def by (auto dest: set_dropWhileD)

lemma cluster_bare:
  assumes "is_parameter_key k" and "\<not> eq_sep k" and "at_key r"
  shows "param_pairs (cluster target k (values_of vs) @ r) =
         (lstrip_dash k, if values_of vs = [] then None else Some (hd (values_of vs))) # param_pairs r"
proof -
  have bare: "param_pairs (k # values_of vs @ r) = (lstrip_dash k, if values_of vs = [] then None else Some (hd (values_of vs))) # param_pairs r"
    using assms by (simp add: param_pairs_bare)
  show ?thesis
  proof (cases "target = EQUAL \<and> length (values_of vs) = 1")
    case True
    then obtain v where "values_of vs = [v]" by (cases "values_of vs") auto
    then show ?thesis
      using True assms key_with_value [of k v] eq_sep_append [of k v] eq_parts [of k v] by (simp add: cluster_def)
  next
    case False
    then have "cluster target k (values_of vs) = k # values_of vs" by (auto simp: cluster_def split: list.splits)
    then show ?thesis using bare by simp
  qed
qed

lemma cluster_eq:
  assumes "is_parameter_key t" and "eq_sep t" and "format_safe target (t # ts)"
  shows "param_pairs (cluster target (eq_key t) [eq_value t] @ r) = (lstrip_dash (eq_key t), Some (eq_value t)) # param_pairs r"
proof (cases "target = EQUAL")
  case True
  then show ?thesis using assms eq_split [of t] by (simp add: cluster_def)
next
  case False
  then have "is_parameter_key (eq_key t)" "\<not> is_parameter_key (eq_value t)" "target = SPACE"
    using assms by (auto simp: format_safe_def space_safe_def intro: parameter_format.exhaust)
  then show ?thesis using eq_key_clean [of t] by (simp add: cluster_def param_pairs_bare param_pairs_after)
qed

lemma normalize_at_key:
  assumes "format_safe target ts" and "at_key ts"
  shows "at_key (normalize_param_format target ts)"
proof (cases ts)
  case (Cons t us)
  show ?thesis
  proof (cases "eq_sep t")
    case True
    then have "is_parameter_key (hd (cluster target (eq_key t) [eq_value t]))"
      using assms eq_split [of t]
      by (cases target) (auto simp: cluster_def format_safe_def space_safe_def Cons simp del: append_Cons append_Nil)
    then show ?thesis using True assms by (auto simp: Cons at_key_def hd_append cluster_def split: if_splits)
  next
    case False
    then show ?thesis
      using assms key_with_value [of t] by (auto simp: Cons at_key_def cluster_def split: list.splits)
  qed
qed simp

lemma normalize_pairs:
  "format_safe target ts \<Longrightarrow> param_pairs (normalize_param_format target ts) = param_pairs ts"
proof (induction target ts rule: normalize_param_format.induct)
  case (2 target tok ts)
  have safe: "format_safe target ts" "format_safe target (after_values ts)" using "2.prems" format_safe_Cons by blast+
  show ?case
  proof (cases "is_parameter_key tok \<and> \<not> eq_sep tok")
    case True
    then show ?thesis
      using "2.IH"(3) safe normalize_at_key [OF safe(2)] cluster_bare [of tok "normalize_param_format target (after_values ts)" target ts]
      by (simp add: param_pairs_bare)
  next
    case False
    then show ?thesis using "2.IH"(1,2) "2.prems" safe by (cases "is_parameter_key tok") (auto simp: cluster_eq)
  qed
qed simp

interpretation equal_format: pair_preserving "normalize_param_format EQUAL" "\<lambda>_. True"
  by unfold_locales (simp add: normalize_pairs format_safe_def)

interpretation space_format: pair_preserving "normalize_param_format SPACE" space_safe
  by unfold_locales (simp add: normalize_pairs format_safe_def)



text \<open>Outside this condition the space format loses a value: \<open>--opt=-O3\<close> becomes two flags.\<close>

lemma space_format_splits_flag_value:
  "param_pairs [''--opt=-O3''] = [(''opt'', Some ''-O3'')] \<and>
   param_pairs (normalize_param_format SPACE [''--opt=-O3'']) = [(''opt'', None), (''O3'', None)]"
  by code_simp

section \<open>Redaction hides credentials\<close>

text \<open>Whether the arguments so far end with a sensitive flag that waits for its value.\<close>

fun awaits :: "bool \<Rightarrow> string list \<Rightarrow> bool" where
  "awaits r [] = r"
| "awaits r (t # ts) = awaits (\<not> r \<and> eq_key t \<in> set sensitive_keys \<and> \<not> eq_sep t) ts"

lemma sanitize_append: "sanitize_loop r (xs @ ys) = sanitize_loop r xs @ sanitize_loop (awaits r xs) ys"
  by (induction xs arbitrary: r) auto

text \<open>A logged command line shows \<open>***\<close> for the value of a credential flag, in both forms, and
  the rest of the command line as it is logged without it; the secret occurs nowhere.\<close>

theorem sanitize_hides:
  assumes "\<not> awaits False pre" and "key \<in> set sensitive_keys"
  shows "sanitize_args (pre @ [key, secret] @ post) = sanitize_args pre @ [key, redacted] @ sanitize_args post \<and>
         sanitize_args (pre @ [key @ ''='' @ secret] @ post) = sanitize_args pre @ [key @ ''='' @ redacted] @ sanitize_args post"
proof -
  have "\<not> eq_sep key" using assms(2) by (auto simp: sensitive_keys_def eq_sep_def)
  moreover have "eq_key key = key" using eq_key_no_sep [OF calculation] .
  ultimately show ?thesis
    using assms eq_parts [of key secret] eq_sep_append [of key secret] by (simp add: sanitize_args_def sanitize_append)
qed

theorem sanitize_hides_witness:
  "sanitize_args ([''run'', ''--host=h''] @ [''--progress-auth'', ''tok''] @ [''-v'']) = sanitize_args [''run'', ''--host=h''] @ [''--progress-auth'', redacted] @ sanitize_args [''-v''] \<and>
   sanitize_args ([''run'', ''--host=h''] @ [''--progress-auth'' @ ''='' @ ''tok''] @ [''-v'']) = sanitize_args [''run'', ''--host=h''] @ [''--progress-auth'' @ ''='' @ redacted] @ sanitize_args [''-v'']"
proof (rule sanitize_hides)
  show "\<not> awaits False [''run'', ''--host=h'']" "''--progress-auth'' \<in> set sensitive_keys" by code_simp+
qed

section \<open>Extraction\<close>

text \<open>Extraction splits the arguments without loss, and leaves no setting of the flag behind.\<close>

lemma extract_loop_spec:
  "extract_loop key ts remaining extracted = (r, e) \<Longrightarrow>
   r = remaining @ remove_flags [key] ts \<and> mset r + mset e = mset remaining + mset extracted + mset ts"
proof (induction key ts remaining extracted rule: extract_loop.induct)
  case (2 key token ts remaining extracted)
  have "mset (values_of ts) + mset (after_values ts) = mset ts"
    using values_after [of ts] by (metis mset_append)
  with 2 show ?case by (auto split: if_splits)
qed simp

lemma extract_flag_exact:
  assumes "tidy args" and "extract_flag_arguments args flag = (r, e)"
  shows "mset r + mset e = mset args \<and> arg_map r (eq_key (lstrip_dash flag)) = None"
  using assms extract_loop_spec [of "eq_key (lstrip_dash flag)" args "[]" "[]" r e]
  by (auto simp: extract_flag_arguments_def arg_map_def param_pairs_remove map_of_filter_keys)

end
