(* ===== verification/Topology.thy ===== *)
theory Topology
  imports Allocation Command
begin

text \<open>
  Parallel layouts of vLLM. \<open>parse_user_parallelism\<close> and \<open>validate_multinode_topology\<close>
  (\<^verbatim>\<open>utils/vllm_topology.py\<close>), the world size of a deployment (\<^verbatim>\<open>vllm_resource_fit_selector.py\<close>),
  the layout from one node's side and the arguments derived from it (\<^verbatim>\<open>worker/backends/vllm.py\<close>,
  \<^verbatim>\<open>worker/backends/base.py\<close>). Shown: in an accepted layout every data-parallel rank has exactly
  the GPUs it needs, and no node is asked for more than it has.
\<close>

section \<open>User parameters\<close>

record user_parallelism =
  up_tp :: "int option"
  up_pp :: "int option"
  up_dp :: "int option"
  up_dpl :: "int option"
  up_pcp :: "int option"

definition no_parallelism :: user_parallelism where
  "no_parallelism = \<lparr>up_tp = None, up_pp = None, up_dp = None, up_dpl = None, up_pcp = None\<rparr>"

text \<open>A parameter lookup inside a function that can raise: an unclosed quotation is a \<open>ValueError\<close>.\<close>

definition read_param :: "'a read_result \<Rightarrow> py_error + 'a" where
  "read_param r = (case r of None \<Rightarrow> Inl External | Some (Inl _) \<Rightarrow> Inl ValueErr | Some (Inr v) \<Rightarrow> Inr v)"

definition parse_user_parallelism :: "string option list option \<Rightarrow> py_error + user_parallelism" where
  "parse_user_parallelism ps =
     bind_err (read_param (find_int_parameter ps [''tensor-parallel-size'', ''tp''])) (\<lambda>tp.
     bind_err (read_param (find_int_parameter ps [''pipeline-parallel-size'', ''pp''])) (\<lambda>pp.
     bind_err (read_param (find_int_parameter ps [''data-parallel-size'', ''dp''])) (\<lambda>dp.
     bind_err (read_param (find_int_parameter ps [''data-parallel-size-local'', ''dpl''])) (\<lambda>dpl.
     bind_err (read_param (find_int_parameter ps [''prefill-context-parallel-size'', ''pcp''])) (\<lambda>pcp.
       Inr \<lparr>up_tp = tp, up_pp = pp, up_dp = dp, up_dpl = dpl, up_pcp = pcp\<rparr>)))))"

definition positive :: "int option \<Rightarrow> bool" where
  "positive v \<longleftrightarrow> (case v of None \<Rightarrow> True | Some n \<Rightarrow> n > 0)"

text \<open>\<open>value or 1\<close>.\<close>

definition or1 :: "int option \<Rightarrow> int" where
  "or1 v = (case v of None \<Rightarrow> 1 | Some n \<Rightarrow> if n = 0 then 1 else n)"

definition get_world_size_from_backend_parameters ::
  "string option list option \<Rightarrow> py_error + (int \<times> string list) option" where
  "get_world_size_from_backend_parameters ps =
     bind_err (parse_user_parallelism ps) (\<lambda>u.
       if \<not> (positive (up_tp u) \<and> positive (up_pp u) \<and> positive (up_pcp u) \<and> positive (up_dp u) \<and> positive (up_dpl u))
       then Inl ValueErr
       else bind_err (read_param (find_bool_parameter ps [''data-parallel-hybrid-lb''])) (\<lambda>hybrid_lb.
         if hybrid_lb \<and> up_dpl u = None then Inr None
         else let dp = (if hybrid_lb then up_dpl u else up_dp u);
                  dims = filter (\<lambda>(_, v). or0 v \<noteq> 0) [(''tp'', up_tp u), (''pp'', up_pp u), (''pcp'', up_pcp u), (''dp'', dp)]
              in if dims = [] then Inr None
                 else Inr (Some (prod_list (map (or0 \<circ> snd) dims),
                                 map fst dims @ (if or0 (up_dpl u) \<noteq> 0 \<and> \<not> hybrid_lb then [''dpl''] else [])))))"

section \<open>Validation of a cluster layout\<close>

datatype shape = DpOnly | MpOnly | Nested

record validated_topology =
  vt_shape :: shape
  vt_tp :: int
  vt_pp :: int
  vt_dp :: int
  vt_dpl_per_node :: "int list"
  vt_nnodes_within_dp :: int

text \<open>\<open>reduce(gcd, [])\<close> raises \<open>TypeError\<close>, \<open>min([])\<close> raises \<open>ValueError\<close>.\<close>

definition gcd_all :: "int list \<Rightarrow> py_error + int" where
  "gcd_all gs = (case gs of [] \<Rightarrow> Inl TypeErr | g # r \<Rightarrow> Inr (fold (\<lambda>x a. gcd a x) r g))"

definition min_all :: "int list \<Rightarrow> py_error + int" where
  "min_all gs = (case gs of [] \<Rightarrow> Inl ValueErr | g # r \<Rightarrow> Inr (fold (\<lambda>x a. min a x) r g))"

definition derive_tp :: "int list \<Rightarrow> user_parallelism \<Rightarrow> py_error + int" where
  "derive_tp gs u =
     (case up_tp u of
        Some tp \<Rightarrow> Inr tp
      | None \<Rightarrow>
          case up_dp u of
            Some dp \<Rightarrow>
              let denom = dp * or1 (up_pp u) * or1 (up_pcp u)
              in if denom = 0 \<or> sum_list gs mod denom \<noteq> 0 then Inl ValueErr else Inr (sum_list gs div denom)
          | None \<Rightarrow> gcd_all gs)"

definition dp_only_layout :: "int list \<Rightarrow> user_parallelism \<Rightarrow> int \<Rightarrow> int \<Rightarrow> py_error + validated_topology" where
  "dp_only_layout gs u tp wpd =
     (let dpl = map (\<lambda>g. g div wpd) gs
      in if up_dp u \<noteq> None \<and> up_dp u \<noteq> Some (sum_list dpl) then Inl ValueErr
         else if up_dpl u \<noteq> None \<and> (\<exists>d \<in> set dpl. Some d \<noteq> up_dpl u) then Inl ValueErr
         else Inr \<lparr>vt_shape = DpOnly, vt_tp = tp, vt_pp = or1 (up_pp u), vt_dp = sum_list dpl,
                   vt_dpl_per_node = dpl, vt_nnodes_within_dp = 1\<rparr>)"

definition cross_node_layout :: "int list \<Rightarrow> user_parallelism \<Rightarrow> int \<Rightarrow> int \<Rightarrow> py_error + validated_topology" where
  "cross_node_layout gs u tp wpd =
     (if card (set gs) \<noteq> 1 then Inl ValueErr
      else if hd gs = 0 then Inl ZeroDivisionError
      else if wpd mod hd gs \<noteq> 0 then Inl ValueErr
      else let nspan = wpd div hd gs
           in if nspan = 0 then Inl ZeroDivisionError
              else if int (length gs) mod nspan \<noteq> 0 then Inl ValueErr
              else let dp = int (length gs) div nspan
                   in if up_dp u \<noteq> None \<and> up_dp u \<noteq> Some dp then Inl ValueErr
                      else if up_dpl u \<noteq> None \<and> up_dpl u \<noteq> Some 1 then Inl ValueErr
                      else Inr \<lparr>vt_shape = (if dp = 1 then MpOnly else Nested), vt_tp = tp, vt_pp = or1 (up_pp u), vt_dp = dp,
                                vt_dpl_per_node = replicate (length gs) 1, vt_nnodes_within_dp = nspan\<rparr>)"

definition validate_multinode_topology :: "int list \<Rightarrow> user_parallelism \<Rightarrow> py_error + validated_topology" where
  "validate_multinode_topology gs u =
     (if \<not> (positive (up_pp u) \<and> positive (up_pcp u) \<and> positive (up_dp u) \<and> positive (up_dpl u)) then Inl ValueErr
      else bind_err (derive_tp gs u) (\<lambda>tp.
        if tp \<le> 0 then Inl ValueErr
        else let wpd = tp * or1 (up_pp u) * or1 (up_pcp u)
             in bind_err (min_all gs) (\<lambda>m.
                  if wpd \<le> m then dp_only_layout gs u tp wpd else cross_node_layout gs u tp wpd)))"

section \<open>The layout from one node's side\<close>

text \<open>What \<open>ModelInstanceDeploymentMetadata\<close> says of the node: a follower and its index, or the leader.\<close>

record deployment_metadata =
  dm_follower :: bool
  dm_follower_index :: "nat option"

record multinode_topology =
  mt_shape :: shape
  mt_tp :: int
  mt_pp :: int
  mt_dp :: int
  mt_dpl :: int
  mt_nnodes :: nat
  mt_node_rank :: nat
  mt_start_rank :: int
  mt_is_follower :: bool

definition gpu_per_node :: "model_instance \<Rightarrow> int list" where
  "gpu_per_node mi =
     (if items (mi_gpu_indexes mi) \<noteq> [] then int (length (items (mi_gpu_indexes mi))) else 1)
     # map (\<lambda>s. int (length (items (sw_gpu_indexes s)))) (items (mi_subs mi))"

definition my_index :: "deployment_metadata \<Rightarrow> nat" where
  "my_index md = (if dm_follower md then (case dm_follower_index md of None \<Rightarrow> 0 | Some i \<Rightarrow> i) + 1 else 0)"

definition cal_multinode_topology ::
  "model_instance \<Rightarrow> deployment_metadata \<Rightarrow> user_parallelism \<Rightarrow> py_error + multinode_topology" where
  "cal_multinode_topology mi md u =
     (let gs = gpu_per_node mi; k = my_index md
      in if k \<ge> length gs then Inl ValueErr
         else bind_err (validate_multinode_topology gs u) (\<lambda>v.
           Inr \<lparr>mt_shape = vt_shape v, mt_tp = vt_tp v, mt_pp = vt_pp v, mt_dp = vt_dp v,
                mt_dpl = vt_dpl_per_node v ! k, mt_nnodes = length gs, mt_node_rank = k,
                mt_start_rank = (if vt_shape v = DpOnly then sum_list (take k (vt_dpl_per_node v))
                                 else int k div vt_nnodes_within_dp v),
                mt_is_follower = dm_follower md\<rparr>))"

text \<open>\<open>cal_distributed_parallelism_arguments\<close>, for an instance that has subordinate workers.\<close>

definition cal_distributed_parallelism_arguments :: "model_instance \<Rightarrow> py_error + int \<times> int" where
  "cal_distributed_parallelism_arguments mi =
     bind_err (attr (mi_subs mi)) (\<lambda>subs.
       if \<exists>s \<in> set subs. sw_gpu_indexes s = None then Inl TypeErr
       else let tp = (if items (mi_gpu_indexes mi) \<noteq> [] then int (length (items (mi_gpu_indexes mi))) else 1);
                counts = map (\<lambda>s. int (length (items (sw_gpu_indexes s)))) subs
            in if \<exists>n \<in> set counts. n \<noteq> tp then Inr (1, fold (\<lambda>n a. a + n) counts tp)
               else Inr (tp, int (length subs) + 1))"

definition int_str :: "int \<Rightarrow> string" where
  "int_str n = (if n < 0 then ''-'' @ nat_str (nat (- n)) else nat_str (nat n))"

definition derived_arguments :: "user_parallelism \<Rightarrow> multinode_topology \<Rightarrow> string list" where
  "derived_arguments u t =
     (if up_tp u = None then [''--tensor-parallel-size'', int_str (mt_tp t)] else []) @
     (if up_pp u = None \<and> mt_pp t > 1 then [''--pipeline-parallel-size'', int_str (mt_pp t)] else []) @
     (if mt_shape t = DpOnly \<or> mt_shape t = Nested then
        (if up_dp u = None then [''--data-parallel-size'', int_str (mt_dp t)] else []) @
        (if up_dpl u = None then [''--data-parallel-size-local'', int_str (mt_dpl t)] else [])
      else [])"

definition get_auto_parallelism_arguments ::
  "(string \<Rightarrow> bool option) \<Rightarrow> string option list option \<Rightarrow> model_instance \<Rightarrow> bool \<Rightarrow> deployment_metadata option \<Rightarrow>
   string option \<Rightarrow> py_error + string list" where
  "get_auto_parallelism_arguments before_0_18 ps mi is_distributed md version =
     bind_err (if is_distributed \<and> md \<noteq> None
               then bind_err (read_param (resolve_executor_backend before_0_18 ps version)) (\<lambda>e. Inr (e = Mp))
               else Inr False) (\<lambda>mp.
       if mp then
         bind_err (parse_user_parallelism ps) (\<lambda>u.
         bind_err (cal_multinode_topology mi (the md) u) (\<lambda>t. Inr (derived_arguments u t)))
       else
         bind_err (read_param (find_parameter ps
           [''tensor-parallel-size'', ''tp'', ''pipeline-parallel-size'', ''pp'', ''data-parallel-size'', ''dp''])) (\<lambda>v.
           if v \<noteq> None then Inr []
           else if is_distributed then
             bind_err (cal_distributed_parallelism_arguments mi) (\<lambda>(tp, pp).
               Inr [''--tensor-parallel-size'', int_str tp, ''--pipeline-parallel-size'', int_str pp])
           else if length (items (mi_gpu_indexes mi)) > 1
           then Inr [''--tensor-parallel-size'', int_str (int (length (items (mi_gpu_indexes mi))))]
           else Inr []))"

section \<open>Ranks and GPUs\<close>

text \<open>A rank below the sum of a list of counts falls into exactly one of its consecutive intervals.\<close>

lemma interval_exists:
  fixes r :: int
  assumes "0 \<le> r" and "r < sum_list ds"
  shows "\<exists>k < length ds. sum_list (take k ds) \<le> r \<and> r < sum_list (take k ds) + ds ! k"
  using assms
proof (induction ds arbitrary: r)
  case (Cons d ds)
  show ?case
  proof (cases "r < d")
    case True
    then show ?thesis using Cons.prems(1) by (intro exI [of _ 0]) simp
  next
    case False
    then obtain k where "k < length ds" "sum_list (take k ds) \<le> r - d" "r - d < sum_list (take k ds) + ds ! k"
      using Cons.IH [of "r - d"] Cons.prems by auto
    then show ?thesis by (intro exI [of _ "Suc k"]) auto
  qed
qed simp

lemma sum_take_mono:
  assumes "list_all (\<lambda>d. 0 \<le> d) ds" and "j < k" and "k \<le> length ds"
  shows "sum_list (take j ds) + ds ! j \<le> sum_list (take k (ds :: int list))"
proof -
  have "0 \<le> sum_list (drop (Suc j) (take k ds))"
    using assms(1) by (intro sum_list_nonneg) (auto simp: list_all_iff dest!: in_set_dropD in_set_takeD)
  moreover have "take k ds = take j ds @ ds ! j # drop (Suc j) (take k ds)"
    using assms(2,3) id_take_nth_drop [of j "take k ds"] by simp
  ultimately show ?thesis by (metis add_left_mono sum_list.Cons sum_list.append le_add_same_cancel1 add.assoc)
qed

lemma interval_unique:
  fixes ds :: "int list"
  assumes "list_all (\<lambda>d. 0 \<le> d) ds" and "j < length ds" and "k < length ds"
    and "sum_list (take j ds) \<le> r" "r < sum_list (take j ds) + ds ! j"
    and "sum_list (take k ds) \<le> r" "r < sum_list (take k ds) + ds ! k"
  shows "j = k"
  using sum_take_mono [OF assms(1), of j k] sum_take_mono [OF assms(1), of k j] assms(2-)
  by (cases j k rule: linorder_cases) auto

lemma interval_set:
  fixes ds :: "int list"
  assumes "list_all (\<lambda>d. 0 \<le> d) ds" and "0 \<le> r" and "r < sum_list ds"
  shows "card {k. k < length ds \<and> sum_list (take k ds) \<le> r \<and> r < sum_list (take k ds) + ds ! k} = 1"
proof -
  obtain k where k: "k < length ds" "sum_list (take k ds) \<le> r" "r < sum_list (take k ds) + ds ! k"
    using interval_exists [OF assms(2,3)] by blast
  have "{k. k < length ds \<and> sum_list (take k ds) \<le> r \<and> r < sum_list (take k ds) + ds ! k} = {k}"
    using k interval_unique [OF assms(1) _ k(1) _ _ k(2,3)] by blast
  then show ?thesis by simp
qed

text \<open>Nodes grouped by division: every group below the number of groups is full.\<close>

lemma block_set:
  assumes "0 < s" and "0 \<le> r" and "r < int n div s" and "int n mod s = 0"
  shows "card {k. k < n \<and> int k div s = r} = nat s"
proof -
  have n: "int n = int n div s * s" using assms(4) by (metis add.right_neutral div_mult_mod_eq)
  have le: "(r + 1) * s \<le> int n" using assms(1,3) n by (metis mult_right_mono less_imp_le zless_imp_add1_zle)
  have iff: "int k div s = r \<longleftrightarrow> r * s \<le> int k \<and> int k < (r + 1) * s" for k
  proof -
    have q: "int k = int k div s * s + int k mod s" "0 \<le> int k mod s" "int k mod s < s" using assms(1) by simp_all
    have "int k div s = r" if "r * s \<le> int k" "int k < (r + 1) * s"
      using that assms(1) by (intro int_div_pos_eq [of _ _ _ "int k - r * s"]) (simp_all add: algebra_simps)
    moreover have "r * s \<le> int k \<and> int k < (r + 1) * s" if "int k div s = r"
      using q(1) [unfolded that] q(2,3) unfolding distrib_right by linarith
    ultimately show ?thesis by blast
  qed
  have b: "0 \<le> r * s" "r * s \<le> (r + 1) * s" using assms(1,2) by (simp_all add: distrib_right)
  have "{k. k < n \<and> int k div s = r} = {nat (r * s)..<nat ((r + 1) * s)}" (is "?L = ?R")
  proof (rule set_eqI)
    fix k
    have "k \<in> ?R \<longleftrightarrow> r * s \<le> int k \<and> int k < (r + 1) * s"
      unfolding atLeastLessThan_iff nat_le_iff zless_nat_eq_int_zless ..
    moreover have "k < n" if "int k < (r + 1) * s" using that le by simp
    ultimately show "k \<in> ?L \<longleftrightarrow> k \<in> ?R" unfolding mem_Collect_eq iff by blast
  qed
  then show ?thesis using b by (simp add: nat_diff_distrib [symmetric] distrib_right)
qed

text \<open>GPUs one data-parallel rank needs.\<close>

definition gpus_per_rank :: "validated_topology \<Rightarrow> user_parallelism \<Rightarrow> int" where
  "gpus_per_rank v u = vt_tp v * vt_pp v * or1 (up_pcp u)"

lemma or1_pos: "positive v \<Longrightarrow> 0 < or1 v"
  by (auto simp: positive_def or1_def split: option.splits)

lemma validate_parts:
  assumes "validate_multinode_topology gs u = Inr v"
  obtains tp m where "derive_tp gs u = Inr tp" "0 < tp * or1 (up_pp u) * or1 (up_pcp u)" "min_all gs = Inr m"
    "(if tp * or1 (up_pp u) * or1 (up_pcp u) \<le> m then dp_only_layout gs u tp (tp * or1 (up_pp u) * or1 (up_pcp u))
      else cross_node_layout gs u tp (tp * or1 (up_pp u) * or1 (up_pcp u))) = Inr v"
  using assms
  by (auto simp: validate_multinode_topology_def Let_def bind_err_eq_Inr or1_pos split: if_splits)

lemma dp_only_layout_facts:
  assumes "dp_only_layout gs u tp wpd = Inr v"
  shows "vt_shape v = DpOnly" "vt_tp v = tp" "vt_pp v = or1 (up_pp u)" "vt_dpl_per_node v = map (\<lambda>g. g div wpd) gs"
    "vt_dp v = sum_list (vt_dpl_per_node v)" "up_dp u = None \<or> up_dp u = Some (vt_dp v)"
  using assms by (auto simp: dp_only_layout_def Let_def split: if_splits)

lemma cross_node_layout_facts:
  assumes "cross_node_layout gs u tp wpd = Inr v"
  shows "vt_shape v \<noteq> DpOnly" "vt_tp v = tp" "vt_pp v = or1 (up_pp u)" "vt_dpl_per_node v = replicate (length gs) 1"
    "vt_dp v = int (length gs) div vt_nnodes_within_dp v" "int (length gs) mod vt_nnodes_within_dp v = 0"
    "vt_nnodes_within_dp v * hd gs = wpd" "\<exists>g. set gs = {g}" "up_dp u = None \<or> up_dp u = Some (vt_dp v)"
  using assms by (auto simp: cross_node_layout_def Let_def card_1_singleton_iff split: if_splits)

lemma validate_cases:
  assumes "validate_multinode_topology gs u = Inr v"
  shows "0 < gpus_per_rank v u \<and>
    (dp_only_layout gs u (vt_tp v) (gpus_per_rank v u) = Inr v \<or> cross_node_layout gs u (vt_tp v) (gpus_per_rank v u) = Inr v)"
proof -
  obtain tp m where p: "0 < tp * or1 (up_pp u) * or1 (up_pcp u)"
    and l: "dp_only_layout gs u tp (tp * or1 (up_pp u) * or1 (up_pcp u)) = Inr v \<or>
      cross_node_layout gs u tp (tp * or1 (up_pp u) * or1 (up_pcp u)) = Inr v"
    using assms by (elim validate_parts) (auto split: if_splits)
  have "vt_tp v = tp" "vt_pp v = or1 (up_pp u)" using l dp_only_layout_facts(2,3) cross_node_layout_facts(2,3) by blast+
  then show ?thesis using p l by (simp add: gpus_per_rank_def)
qed

lemma validate_dp_only:
  assumes "validate_multinode_topology gs u = Inr v" and "vt_shape v = DpOnly"
  shows "dp_only_layout gs u (vt_tp v) (gpus_per_rank v u) = Inr v"
  using validate_cases [OF assms(1)] assms(2) cross_node_layout_facts(1) by blast

lemma validate_cross_node:
  assumes "validate_multinode_topology gs u = Inr v" and "vt_shape v \<noteq> DpOnly"
  shows "cross_node_layout gs u (vt_tp v) (gpus_per_rank v u) = Inr v"
  using validate_cases [OF assms(1)] assms(2) dp_only_layout_facts(1) by blast

text \<open>The node with a given rank, and the ranks a node takes part in.\<close>

definition node_at :: "nat \<Rightarrow> deployment_metadata" where
  "node_at k = \<lparr>dm_follower = (k > 0), dm_follower_index = Some (k - 1)\<rparr>"

lemma my_index_node_at [simp]: "my_index (node_at k) = k"
  by (simp add: my_index_def node_at_def)

definition hosts :: "multinode_topology \<Rightarrow> int \<Rightarrow> bool" where
  "hosts t r \<longleftrightarrow>
     (if mt_shape t = DpOnly then mt_start_rank t \<le> r \<and> r < mt_start_rank t + mt_dpl t else mt_start_rank t = r)"

text \<open>GPUs a node gives to a rank it hosts: a rank inside one node takes its own; a rank over several nodes
  takes the whole node.\<close>

definition rank_share :: "model_instance \<Rightarrow> user_parallelism \<Rightarrow> multinode_topology \<Rightarrow> int" where
  "rank_share mi u t =
     (if mt_shape t = DpOnly then mt_tp t * mt_pp t * or1 (up_pcp u) else gpu_per_node mi ! mt_node_rank t)"

lemma node_topology:
  assumes "cal_multinode_topology mi (node_at k) u = Inr t"
  obtains v where "k < length (gpu_per_node mi)" "validate_multinode_topology (gpu_per_node mi) u = Inr v"
    "mt_shape t = vt_shape v" "mt_dp t = vt_dp v" "mt_tp t = vt_tp v" "mt_pp t = vt_pp v" "mt_node_rank t = k"
    "mt_dpl t = vt_dpl_per_node v ! k"
    "mt_start_rank t = (if vt_shape v = DpOnly then sum_list (take k (vt_dpl_per_node v)) else int k div vt_nnodes_within_dp v)"
  using assms by (auto simp: cal_multinode_topology_def Let_def bind_err_eq_Inr split: if_splits)

lemma gpu_per_node_pos: "0 < hd (gpu_per_node mi)" "gpu_per_node mi \<noteq> []" "list_all (\<lambda>g. 0 \<le> g) (gpu_per_node mi)"
  by (auto simp: gpu_per_node_def list_all_iff)

lemma hosting_nodes_dp_only:
  assumes v: "validate_multinode_topology gs u = Inr v" "vt_shape v = DpOnly" and gs: "list_all (\<lambda>g. 0 \<le> g) gs"
    and r: "0 \<le> r" "r < vt_dp v"
  shows "card {k. k < length gs \<and> sum_list (take k (vt_dpl_per_node v)) \<le> r \<and>
    r < sum_list (take k (vt_dpl_per_node v)) + vt_dpl_per_node v ! k} = 1"
proof -
  note f = dp_only_layout_facts [OF validate_dp_only [OF v]]
  have "0 < gpus_per_rank v u" using validate_cases [OF v(1)] by blast
  then have "list_all (\<lambda>d. 0 \<le> d) (vt_dpl_per_node v)"
    using gs by (auto simp: f(4) list_all_iff pos_imp_zdiv_nonneg_iff)
  then show ?thesis using interval_set [of "vt_dpl_per_node v" r] r by (simp add: f(4,5))
qed

lemma hosting_nodes_cross:
  assumes v: "validate_multinode_topology gs u = Inr v" "vt_shape v \<noteq> DpOnly" and gs: "0 < hd gs"
    and r: "0 \<le> r" "r < vt_dp v"
  shows "int (card {k. k < length gs \<and> int k div vt_nnodes_within_dp v = r}) * hd gs = gpus_per_rank v u"
proof -
  note f = cross_node_layout_facts [OF validate_cross_node [OF v]]
  have "0 < gpus_per_rank v u" using validate_cases [OF v(1)] by blast
  then have "0 < vt_nnodes_within_dp v" using f(7) gs by (metis zero_less_mult_pos2)
  then show ?thesis using block_set [of "vt_nnodes_within_dp v" r "length gs"] r f(5-7) by simp
qed

lemma rank_gpus:
  assumes t: "\<forall>k < length (gpu_per_node mi). cal_multinode_topology mi (node_at k) u = Inr (t k)"
    and r: "0 \<le> r" "r < mt_dp (t 0)"
  shows "(\<Sum>k | k < length (gpu_per_node mi) \<and> hosts (t k) r. rank_share mi u (t k)) = mt_tp (t 0) * mt_pp (t 0) * or1 (up_pcp u)"
proof -
  let ?gs = "gpu_per_node mi"
  obtain v where v: "validate_multinode_topology ?gs u = Inr v" and v0: "mt_dp (t 0) = vt_dp v" "mt_tp (t 0) = vt_tp v" "mt_pp (t 0) = vt_pp v"
    using t gpu_per_node_pos(2) [of mi] by (metis length_greater_0_conv node_topology)
  have k: "mt_shape (t k) = vt_shape v \<and> mt_tp (t k) = vt_tp v \<and> mt_pp (t k) = vt_pp v \<and> mt_node_rank (t k) = k \<and> mt_dpl (t k) = vt_dpl_per_node v ! k \<and>
    mt_start_rank (t k) = (if vt_shape v = DpOnly then sum_list (take k (vt_dpl_per_node v)) else int k div vt_nnodes_within_dp v)"
    if "k < length ?gs" for k using node_topology [OF t [rule_format, OF that]] v by (metis Inr_inject)
  show ?thesis
  proof (cases "vt_shape v = DpOnly")
    case True
    have "{k. k < length ?gs \<and> hosts (t k) r} = {k. k < length ?gs \<and> sum_list (take k (vt_dpl_per_node v)) \<le> r \<and>
      r < sum_list (take k (vt_dpl_per_node v)) + vt_dpl_per_node v ! k}" using k True by (auto simp: hosts_def)
    moreover have "rank_share mi u (t k) = gpus_per_rank v u" if "k < length ?gs" for k
      using k [OF that] True by (simp add: rank_share_def gpus_per_rank_def)
    ultimately show ?thesis
      using hosting_nodes_dp_only [OF v True gpu_per_node_pos(3)] r v0 by (simp add: gpus_per_rank_def)
  next
    case False
    have eq: "{k. k < length ?gs \<and> hosts (t k) r} = {k. k < length ?gs \<and> int k div vt_nnodes_within_dp v = r}"
      using k False by (auto simp: hosts_def)
    have "rank_share mi u (t k) = hd ?gs" if "k < length ?gs" for k
    proof -
      obtain g where "set ?gs = {g}" using cross_node_layout_facts(8) [OF validate_cross_node [OF v False]] by blast
      then have "?gs ! k = g" "hd ?gs = g" using that nth_mem [OF that] hd_in_set [OF gpu_per_node_pos(2) [of mi]] by auto
      then show ?thesis using k [OF that] False by (simp add: rank_share_def)
    qed
    then show ?thesis unfolding eq
      using hosting_nodes_cross [OF v False gpu_per_node_pos(1)] r v0 by (simp add: gpus_per_rank_def)
  qed
qed

lemma node_capacity:
  assumes "cal_multinode_topology mi (node_at k) u = Inr t"
  shows "(\<Sum>r | 0 \<le> r \<and> r < mt_dp t \<and> hosts t r. rank_share mi u t) \<le> gpu_per_node mi ! k"
proof -
  let ?gs = "gpu_per_node mi"
  obtain v where p: "k < length ?gs" "validate_multinode_topology ?gs u = Inr v"
    "mt_shape t = vt_shape v" "mt_dp t = vt_dp v" "mt_tp t = vt_tp v" "mt_pp t = vt_pp v" "mt_node_rank t = k" "mt_dpl t = vt_dpl_per_node v ! k"
    "mt_start_rank t = (if vt_shape v = DpOnly then sum_list (take k (vt_dpl_per_node v)) else int k div vt_nnodes_within_dp v)"
    using assms by (rule node_topology)
  have pos: "0 < gpus_per_rank v u" "0 \<le> ?gs ! k"
    using validate_cases [OF p(2)] gpu_per_node_pos(3) [of mi] p(1) by (auto simp: list_all_length)
  let ?R = "{r. 0 \<le> r \<and> r < mt_dp t \<and> hosts t r}"
  show ?thesis
  proof (cases "vt_shape v = DpOnly")
    case True
    have d: "mt_dpl t = ?gs ! k div gpus_per_rank v u" using dp_only_layout_facts(4) [OF validate_dp_only [OF p(2) True]] p(1,8) by simp
    have "?R \<subseteq> {mt_start_rank t..<mt_start_rank t + mt_dpl t}" using True p(3) by (auto simp: hosts_def)
    then have "card ?R \<le> nat (mt_dpl t)" using card_mono [of "{mt_start_rank t..<mt_start_rank t + mt_dpl t}"] by force
    moreover have "0 \<le> mt_dpl t" using d pos by (simp add: pos_imp_zdiv_nonneg_iff)
    ultimately have "int (card ?R) * gpus_per_rank v u \<le> mt_dpl t * gpus_per_rank v u"
      using pos(1) by (intro mult_right_mono) auto
    also have "\<dots> \<le> ?gs ! k" using d pos(1) by (simp add: minus_mod_eq_div_mult [symmetric])
    finally show ?thesis using True p(3,5,6) by (simp add: rank_share_def gpus_per_rank_def)
  next
    case False
    have "?R \<subseteq> {mt_start_rank t}" using False p(3) by (auto simp: hosts_def)
    then have "card ?R \<le> 1" using card_mono [of "{mt_start_rank t}"] by force
    then show ?thesis using False p(3,7) pos(2) mult_right_mono [of "int (card ?R)" 1 "?gs ! k"] by (simp add: rank_share_def)
  qed
qed

text \<open>C15: A layout vLLM is started with adds up. When every node of a distributed instance computes its own
  view of the layout, each data-parallel rank is given exactly the tensor, pipeline and context parallel
  GPUs it needs by the nodes that host it, and no node hosts ranks that need more GPUs than it has.\<close>

theorem multinode_layout_adds_up:
  assumes "\<forall>k < length (gpu_per_node mi). cal_multinode_topology mi (node_at k) u = Inr (t k)"
  shows "(\<forall>r. 0 \<le> r \<and> r < mt_dp (t 0) \<longrightarrow>
      (\<Sum>k | k < length (gpu_per_node mi) \<and> hosts (t k) r. rank_share mi u (t k)) = mt_tp (t 0) * mt_pp (t 0) * or1 (up_pcp u)) \<and>
    (\<forall>k < length (gpu_per_node mi).
      (\<Sum>r | 0 \<le> r \<and> r < mt_dp (t k) \<and> hosts (t k) r. rank_share mi u (t k)) \<le> gpu_per_node mi ! k)"
  using rank_gpus [OF assms] node_capacity assms by blast

definition layout_instance :: model_instance where
  "layout_instance = \<lparr>mi_model_id = 1, mi_state = RUNNING, mi_worker_id = Some 4, mi_gpu_type = Some ''cuda'',
     mi_gpu_indexes = Some [0, 1, 2, 3], mi_claim = None,
     mi_subs = Some [\<lparr>sw_worker_id = Some 5, sw_gpu_indexes = Some [0, 1], sw_claim = None\<rparr>]\<rparr>"

definition layout_view :: "nat \<Rightarrow> multinode_topology" where
  "layout_view k = \<lparr>mt_shape = DpOnly, mt_tp = 2, mt_pp = 1, mt_dp = 3, mt_dpl = (if k = 0 then 2 else 1), mt_nnodes = 2,
     mt_node_rank = k, mt_start_rank = (if k = 0 then 0 else 2), mt_is_follower = (k > 0)\<rparr>"

theorem multinode_layout_adds_up_witness:
  "(\<Sum>k | k < length (gpu_per_node layout_instance) \<and> hosts (layout_view k) 2. rank_share layout_instance no_parallelism (layout_view k)) = 2 \<and>
   (\<Sum>r | 0 \<le> r \<and> r < mt_dp (layout_view 1) \<and> hosts (layout_view 1) r. rank_share layout_instance no_parallelism (layout_view 1)) \<le> gpu_per_node layout_instance ! 1"
proof -
  have "cal_multinode_topology layout_instance (node_at 0) no_parallelism = Inr (layout_view 0)"
    "cal_multinode_topology layout_instance (node_at 1) no_parallelism = Inr (layout_view 1)" by code_simp+
  moreover have l: "length (gpu_per_node layout_instance) = 2" by code_simp
  ultimately have "\<forall>k < length (gpu_per_node layout_instance). cal_multinode_topology layout_instance (node_at k) no_parallelism = Inr (layout_view k)"
    by (auto simp: less_2_cases_iff)
  note ok = multinode_layout_adds_up [OF this]
  have v: "mt_dp (layout_view 0) = 3" "mt_tp (layout_view 0) * mt_pp (layout_view 0) * or1 (up_pcp no_parallelism) = 2"
    by (simp_all add: layout_view_def no_parallelism_def or1_def)
  show ?thesis
    using ok [THEN conjunct1, rule_format, of 2] ok [THEN conjunct2, rule_format, of 1] unfolding v l by simp
qed

text \<open>The Ray path splits evenly or falls back to pipeline stages; either way its world size is the number of GPUs.\<close>

lemma fold_add: "fold (\<lambda>n a. a + n) ns (x :: int) = x + sum_list ns"
  by (induction ns arbitrary: x) simp_all

lemma sum_list_constant: "\<forall>n \<in> set ns. n = c \<Longrightarrow> sum_list ns = int (length ns) * c"
  by (induction ns) (simp_all add: algebra_simps)

lemma distributed_world_size:
  assumes "cal_distributed_parallelism_arguments mi = Inr (tp, pp)"
  shows "tp * pp = sum_list (gpu_per_node mi)"
proof -
  obtain subs where subs: "mi_subs mi = Some subs"
    using assms by (cases "mi_subs mi") (auto simp: cal_distributed_parallelism_arguments_def attr_def)
  define g where "g = (if items (mi_gpu_indexes mi) \<noteq> [] then int (length (items (mi_gpu_indexes mi))) else 1)"
  define ns where "ns = map (\<lambda>s. int (length (items (sw_gpu_indexes s)))) subs"
  have len: "length subs = length ns" by (simp add: ns_def)
  have gn: "gpu_per_node mi = g # ns" unfolding gpu_per_node_def g_def ns_def subs by simp
  have "(if \<exists>n \<in> set ns. n \<noteq> g then Inr (1, fold (\<lambda>n a. a + n) ns g) else Inr (g, int (length ns) + 1)) = (Inr (tp, pp) :: py_error + int \<times> int)"
    using assms
    unfolding cal_distributed_parallelism_arguments_def subs attr_def Let_def option.case bind_err_simps g_def [symmetric] ns_def [symmetric] len
    by (cases "\<exists>s \<in> set subs. sw_gpu_indexes s = None") (simp_all only: if_True if_False sum.distinct)
  then have "tp * pp = g + sum_list ns"
    using sum_list_constant [of ns g] by (cases "\<exists>n \<in> set ns. n \<noteq> g") (auto simp: fold_add distrib_left)
  then show ?thesis by (simp add: gn)
qed

end
