(* ===== verification/Selector.thy ===== *)
theory Selector
  imports Scheduler Topology
begin

text \<open>
  What all candidate selectors share (\<^verbatim>\<open>policies/candidate_selectors/base_candidate_selector.py\<close>) and the
  rest of \<^verbatim>\<open>utils/gpu.py\<close>: the number of GPUs a model needs, claims on the GPUs of a worker, manual
  selection on one and on several workers, and the check for overcommitment. Texts of messages are
  left out; events are a datatype. Worker addresses and interfaces follow the worker and are left out.
\<close>

section \<open>GPU indexes by type and worker\<close>

fun group_indexes ::
  "string list \<Rightarrow> (string option, (string, int list) dict) dict \<Rightarrow> py_error + (string option, (string, int list) dict) dict" where
  "group_indexes [] d = Inr d"
| "group_indexes (g # gs) d =
     (case parse_gpu_id g of
        None \<Rightarrow> Inl ValueErr
      | Some (w, t, ds) \<Rightarrow>
          case py_int ds of
            None \<Rightarrow> Inl ValueErr
          | Some i \<Rightarrow>
              let by_worker = (case dget d (Some t) of None \<Rightarrow> [] | Some ws \<Rightarrow> ws)
              in group_indexes gs (dput (Some t) (dput w (entry by_worker w @ [i]) by_worker) d))"

definition group_gpu_indexes_by_gpu_type_and_worker ::
  "string list \<Rightarrow> py_error + (string option, (string, int list) dict) dict" where
  "group_gpu_indexes_by_gpu_type_and_worker ids =
     bind_err (group_indexes ids []) (\<lambda>d. Inr (map (\<lambda>(t, ws). (t, map (\<lambda>(w, ixs). (w, sort ixs)) ws)) d))"

section \<open>Predicates on the GPUs of workers\<close>

definition worker_gpus :: "worker \<Rightarrow> gpu_device list" where
  "worker_gpus w = (case w_status w of None \<Rightarrow> [] | Some st \<Rightarrow> items (st_gpus st))"

definition all_gpu_match_one :: "(gpu_device \<Rightarrow> bool) \<Rightarrow> worker \<Rightarrow> bool" where
  "all_gpu_match_one P w \<longleftrightarrow> worker_gpus w \<noteq> [] \<and> list_all P (worker_gpus w)"

definition all_gpu_match :: "(gpu_device \<Rightarrow> bool) \<Rightarrow> worker list \<Rightarrow> bool" where
  "all_gpu_match P ws \<longleftrightarrow> ws \<noteq> [] \<and> list_all (all_gpu_match_one P) ws"

definition any_gpu_match :: "(gpu_device \<Rightarrow> bool) \<Rightarrow> worker list \<Rightarrow> bool" where
  "any_gpu_match P ws \<longleftrightarrow> list_ex (\<lambda>w. list_ex P (worker_gpus w)) ws"

fun find_one_gpu :: "worker list \<Rightarrow> gpu_device option" where
  "find_one_gpu [] = None"
| "find_one_gpu (w # ws) = (case worker_gpus w of g # _ \<Rightarrow> Some g | [] \<Rightarrow> find_one_gpu ws)"

text \<open>\<open>cc.split('.', 1)\<close>: \<open>None\<close> when there is no dot.\<close>

definition split_dot :: "string \<Rightarrow> (string \<times> string) option" where
  "split_dot s = (case dropWhile (\<lambda>c. c \<noteq> CHR ''.'') s of [] \<Rightarrow> None | _ # r \<Rightarrow> Some (takeWhile (\<lambda>c. c \<noteq> CHR ''.'') s, r))"

definition parse_cc :: "string option \<Rightarrow> (int \<times> int) option" where
  "parse_cc cc =
     (case cc of
        None \<Rightarrow> None
      | Some s \<Rightarrow>
          if py_strip s = [] then None
          else case split_dot (py_strip s) of
                 None \<Rightarrow> None
               | Some (a, b) \<Rightarrow>
                   case (py_int a, py_int b) of
                     (Some major, Some minor) \<Rightarrow> if major < 0 \<or> minor < 0 then None else Some (major, minor)
                   | _ \<Rightarrow> None)"

definition compare_compute_capability :: "string option \<Rightarrow> string option \<Rightarrow> int" where
  "compare_compute_capability current target =
     (case (parse_cc current, parse_cc target) of
        (None, None) \<Rightarrow> 0
      | (None, Some _) \<Rightarrow> -1
      | (Some _, None) \<Rightarrow> 1
      | (Some (a, b), Some (c, d)) \<Rightarrow>
          if a > c then 1 else if a < c then -1 else if b > d then 1 else if b < d then -1 else 0)"

section \<open>Attention\<close>

datatype attention_type = UNK | MHA | GQA | MQA | MLA

record model_parameters =
  mp_num_attention_heads :: "int option"
  mp_num_key_value_heads :: int
  mp_q_lora_rank :: "int option"
  mp_kv_lora_rank :: "int option"
  mp_vocab_size :: "int option"
  mp_vision_heads :: "int option"
  mp_architectures :: "string list"

definition get_attention_type :: "model_parameters \<Rightarrow> attention_type" where
  "get_attention_type p =
     (let heads = or0 (mp_num_attention_heads p); kv = mp_num_key_value_heads p
      in if heads = 0 then UNK
         else if kv = 1 then MQA
         else if 1 < kv \<and> kv < heads \<and> heads mod kv = 0 then GQA
         else if kv = heads then (if or0 (mp_q_lora_rank p) \<noteq> 0 \<and> or0 (mp_kv_lora_rank p) \<noteq> 0 then MLA else MHA)
         else UNK)"

section \<open>State of a selector\<close>

record fit_selector =
  fs_model :: model
  fs_gpus_per_replica :: "int option"
  fs_backend :: "backend option"
  fs_replicas :: int
  fs_across_workers :: bool
  fs_instances :: "model_instance list"
  fs_models :: "(int, backend option) dict"
  fs_params :: model_parameters
  fs_gpu_count :: int
  fs_selected_workers :: "string list option"
  fs_selected :: "(string option, (string, int list) dict) dict"

record request_estimate =
  rq_ram :: int
  rq_vram :: int

record fit_claim =
  fc_vram :: "(int, int) dict"
  fc_ram :: "int option"
  fc_utilization :: "rat option"

record fit_sub =
  su_worker_id :: int
  su_worker_name :: string
  su_total_gpus :: nat
  su_gpu_type :: "string option"
  su_gpu_indexes :: "int list"
  su_gpu_addresses :: "string list"
  su_claim :: fit_claim

record fit_candidate =
  fd_worker :: worker
  fd_gpu_type :: "string option"
  fd_gpu_indexes :: "int list"
  fd_gpu_addresses :: "string list"
  fd_claim :: fit_claim
  fd_subs :: "fit_sub list"
  fd_overcommit :: bool

text \<open>
  \<open>_set_gpu_count\<close>. The skipped check keeps the selected count; a world size that differs from the
  selected count is an error otherwise.
\<close>

definition select_gpus :: "fit_selector \<Rightarrow> py_error + fit_selector" where
  "select_gpus S =
     (let ids = md_gpu_ids (fs_model S)
      in if ids = [] then Inr S
         else bind_err (group_gpu_indexes_by_gpu_type_and_worker ids) (\<lambda>sel.
              bind_err (group_gpu_ids_by_worker ids) (\<lambda>by_worker.
                Inr (S\<lparr>fs_selected_workers := Some (dkeys by_worker), fs_selected := sel,
                       fs_gpu_count := (if or0 (fs_gpus_per_replica S) \<noteq> 0 then or0 (fs_gpus_per_replica S) else int (length ids))\<rparr>))))"

definition set_gpu_count :: "int option \<Rightarrow> fit_selector \<Rightarrow> py_error + fit_selector" where
  "set_gpu_count world_size S0 =
     bind_err (select_gpus S0) (\<lambda>S.
       if or0 world_size > 0 then
         (if fs_gpu_count S \<noteq> 0 \<and> fs_gpu_count S \<noteq> or0 world_size then
            (if should_skip_gpu_count_check (fs_model S) then Inr S else Inl ValueErr)
          else Inr (S\<lparr>fs_gpu_count := or0 world_size\<rparr>))
       else Inr S)"

section \<open>Cached lookups\<close>

text \<open>
  \<open>get_worker_allocatable_resource\<close> of a selector remembers its results by GPU type and worker id (the two
  nested dictionaries are one dictionary with pairs as keys). A selector asks first with the workers it
  was given and later also with copies that have fewer GPUs: the copies get the remembered value.
\<close>

type_synonym allocatable_cache = "(string option \<times> int, allocatable) dict"

definition cached_allocatable ::
  "model_instance list \<Rightarrow> worker \<Rightarrow> string option \<Rightarrow> allocatable_cache \<Rightarrow> py_error + allocatable \<times> allocatable_cache" where
  "cached_allocatable mis w t c =
     (case dget c (t, w_id w) of
        Some a \<Rightarrow> Inr (a, c)
      | None \<Rightarrow> bind_err (get_worker_allocatable_resource mis w t) (\<lambda>a. Inr (a, dput (t, w_id w) a c)))"

text \<open>The value a lookup returns once the cache holds the worker of the list that has the id.\<close>

definition allocatable_of :: "fit_selector \<Rightarrow> worker list \<Rightarrow> worker \<Rightarrow> string option \<Rightarrow> py_error + allocatable" where
  "allocatable_of S ws w t =
     get_worker_allocatable_resource (fs_instances S) (case find (\<lambda>v. w_id v = w_id w) ws of Some v \<Rightarrow> v | None \<Rightarrow> w) t"

definition total_of :: "gpu_device \<Rightarrow> int" where
  "total_of g = or0 (Option.bind (gpu_memory g) mem_total)"

definition note_total :: "string option \<Rightarrow> gpu_device \<Rightarrow> (int, int) dict \<Rightarrow> (int, int) dict" where
  "note_total t g d =
     (case gpu_index g of None \<Rightarrow> d | Some i \<Rightarrow> if t = None \<or> gpu_type g = t then dput i (total_of g) d else d)"

definition vram_totals :: "worker \<Rightarrow> string option \<Rightarrow> (int, int) dict" where
  "vram_totals w t = fold (note_total t) (worker_gpus w) []"

section \<open>Claims on a worker\<close>

definition gpu_claim :: "int list \<Rightarrow> rat \<Rightarrow> request_estimate \<Rightarrow> gpu_device \<Rightarrow> py_error + int" where
  "gpu_claim idxs gmu req g =
     (if gmu > 0 then
        bind_err (attr (gpu_memory g)) (\<lambda>m. bind_err (operand (mem_total m)) (\<lambda>tot. Inr (py_trunc (rat_of_int tot * gmu))))
      else Inr (py_trunc (rat_of_int (rq_vram req) / rat_of_int (int (length idxs)))))"

definition claim_gpu ::
  "int list \<Rightarrow> rat \<Rightarrow> request_estimate \<Rightarrow> string option \<Rightarrow> gpu_device \<Rightarrow> (int, int) dict \<Rightarrow> py_error + (int, int) dict" where
  "claim_gpu idxs gmu req t g d =
     (case gpu_index g of
        None \<Rightarrow> Inr d
      | Some i \<Rightarrow>
          if i \<notin> set idxs \<or> (t \<noteq> None \<and> gpu_type g \<noteq> t) then Inr d
          else bind_err (gpu_claim idxs gmu req g) (\<lambda>c. Inr (dput i c d)))"

text \<open>The devices a loop over \<open>worker.status.gpu_devices\<close> visits; \<open>None\<close> cannot be iterated.\<close>

definition devices :: "worker \<Rightarrow> py_error + gpu_device list" where
  "devices w = bind_err (attr (w_status w)) (\<lambda>st. operand (st_gpus st))"

definition get_worker_resource_claim ::
  "worker \<Rightarrow> int list \<Rightarrow> rat \<Rightarrow> request_estimate \<Rightarrow> string option \<Rightarrow> py_error + (int, int) dict" where
  "get_worker_resource_claim w idxs gmu req t =
     bind_err (devices w) (\<lambda>gpus. fold_err (claim_gpu idxs gmu req t) gpus [])"

text \<open>The condition joins its parts with \<open>and\<close>: a device is left out only when its index was not asked for
  \<^emph>\<open>and\<close> its type is another.\<close>

definition gpu_address :: "gpu_device \<Rightarrow> string" where
  "gpu_address g =
     (case gpu_network g of
        None \<Rightarrow> ''-.-.-.-''
      | Some n \<Rightarrow> if net_status n = ''up'' \<and> net_inet n \<noteq> [] then net_inet n else ''-.-.-.-'')"

definition get_worker_gpu_addresses ::
  "backend option \<Rightarrow> worker \<Rightarrow> int list \<Rightarrow> string option \<Rightarrow> py_error + string list" where
  "get_worker_gpu_addresses backend w idxs t =
     (if backend \<noteq> Some ASCEND_MINDIE then Inr []
      else bind_err (devices w) (\<lambda>gpus.
        Inr (map gpu_address (filter (\<lambda>g. \<not> (gpu_index g \<notin> Some ` set idxs \<and> t \<noteq> None \<and> gpu_type g \<noteq> t)) gpus))))"

text \<open>Whether no distributed instance of the same backend runs on the worker.\<close>

definition validate_distributed_limit_per_worker :: "fit_selector \<Rightarrow> worker \<Rightarrow> bool" where
  "validate_distributed_limit_per_worker S w \<longleftrightarrow>
     \<not> list_ex (\<lambda>i. items (mi_subs i) \<noteq> [] \<and>
                    (case dget (fs_models S) (mi_model_id i) of Some (Some b) \<Rightarrow> fs_backend S = Some b | _ \<Rightarrow> False))
       (get_worker_model_instances (fs_instances S) w)"

section \<open>Manual selection on one worker\<close>

text \<open>The loop that sorts the GPUs into those with enough free memory and the others, until there are enough.\<close>

fun pick_gpus ::
  "int \<Rightarrow> rat \<Rightarrow> allocatable \<Rightarrow> (int, int) dict \<Rightarrow> int list \<Rightarrow> int list \<Rightarrow> int list \<Rightarrow> int list \<times> int list" where
  "pick_gpus n gmu ab totals [] yes no = (yes, no)"
| "pick_gpus n gmu ab totals (i # ixs) yes no =
     (let ok = (gmu > 0 \<longrightarrow> dget0 totals i > 0 \<and>
                 rat_of_int (dget0 (ab_vram ab) (Some i)) / rat_of_int (dget0 totals i) \<ge> gmu);
          yes' = (if ok then yes @ [i] else yes); no' = (if ok then no else no @ [i])
      in if int (length yes') \<ge> n then (yes', no') else pick_gpus n gmu ab totals ixs yes' no')"

definition used_gpus :: "int \<Rightarrow> int list \<times> int list \<Rightarrow> int list" where
  "used_gpus n p = fst p @ take (nat (n - int (length (fst p)))) (snd p)"

definition manual_select_single_worker_multi_gpu_candidates ::
  "fit_selector \<Rightarrow> (worker \<Rightarrow> string option \<Rightarrow> py_error + allocatable) \<Rightarrow> worker \<Rightarrow> int list \<Rightarrow> rat \<Rightarrow> request_estimate \<Rightarrow>
   string option \<Rightarrow> py_error + fit_candidate list" where
  "manual_select_single_worker_multi_gpu_candidates S get_ab w idxs gmu req t =
     (if int (length idxs) < fs_gpu_count S then Inr []
      else bind_err (get_ab w t) (\<lambda>ab.
        let used = used_gpus (fs_gpu_count S) (pick_gpus (fs_gpu_count S) gmu ab (vram_totals w t) idxs [] [])
        in bind_err (get_worker_resource_claim w used gmu req t) (\<lambda>claims.
           bind_err (get_worker_gpu_addresses (fs_backend S) w used t) (\<lambda>addrs.
             Inr [\<lparr>fd_worker = w, fd_gpu_type = t, fd_gpu_indexes = used, fd_gpu_addresses = addrs,
                   fd_claim = \<lparr>fc_vram = claims, fc_ram = get_computed_ram_claim (fs_model S) claims (Some (rq_ram req)),
                               fc_utilization = Some gmu\<rparr>,
                   fd_subs = [], fd_overcommit = False\<rparr>]))))"

section \<open>Manual selection on several workers\<close>

definition selected_indexes :: "fit_selector \<Rightarrow> string option \<Rightarrow> string \<Rightarrow> int list option" where
  "selected_indexes S t name = Option.bind (dget (fs_selected S) t) (\<lambda>ws. dget ws name)"

text \<open>The fields of the schema are integers: \<open>None\<close> among the indexes is refused.\<close>

definition int_indexes :: "int option list \<Rightarrow> py_error + int list" where
  "int_indexes ixs = (if None \<in> set ixs then Inl ValueErr else Inr (map the ixs))"

definition count_subs :: "fit_sub list \<Rightarrow> int" where
  "count_subs subs = sum_list (map (\<lambda>s. int (length (su_gpu_indexes s))) subs)"

definition subordinate ::
  "fit_selector \<Rightarrow> int \<Rightarrow> worker \<Rightarrow> int list \<Rightarrow> rat \<Rightarrow> request_estimate \<Rightarrow> string option \<Rightarrow> py_error + fit_sub" where
  "subordinate S remaining w idxs gmu req t =
     bind_err (get_worker_resource_claim w idxs gmu req t) (\<lambda>share.
     bind_err (sort_gpu_indexes_by_allocatable_rate w (map (\<lambda>(i, v). (Some i, v)) share) t) (\<lambda>order.
     bind_err (int_indexes (take (nat (min (int (length idxs)) remaining)) order)) (\<lambda>used.
     bind_err (get_worker_resource_claim w used gmu req t) (\<lambda>claims.
     bind_err (get_worker_gpu_addresses (fs_backend S) w used None) (\<lambda>addrs.
       Inr \<lparr>su_worker_id = w_id w, su_worker_name = w_name w, su_total_gpus = length (worker_gpus w), su_gpu_type = t,
            su_gpu_indexes = used, su_gpu_addresses = addrs,
            su_claim = \<lparr>fc_vram = claims, fc_ram = get_computed_ram_claim (fs_model S) claims (Some (rq_ram req)),
                        fc_utilization = Some gmu\<rparr>\<rparr>)))))"

fun subordinates ::
  "fit_selector \<Rightarrow> string \<Rightarrow> int list \<Rightarrow> rat \<Rightarrow> request_estimate \<Rightarrow> string option \<Rightarrow> worker list \<Rightarrow> fit_sub list \<Rightarrow>
   py_error + fit_sub list" where
  "subordinates S main_name main_idxs gmu req t [] subs = Inr subs"
| "subordinates S main_name main_idxs gmu req t (w # ws) subs =
     (case selected_indexes S t (w_name w) of
        None \<Rightarrow> subordinates S main_name main_idxs gmu req t ws subs
      | Some idxs \<Rightarrow>
          if w_name w = main_name \<or> \<not> validate_distributed_limit_per_worker S w
          then subordinates S main_name main_idxs gmu req t ws subs
          else bind_err (subordinate S (max (fs_gpu_count S - (int (length main_idxs) + count_subs subs)) 0) w idxs gmu req t) (\<lambda>su.
                 if fs_gpu_count S \<noteq> 0 \<and> int (length main_idxs) + count_subs (subs @ [su]) \<ge> fs_gpu_count S
                 then Inr (subs @ [su])
                 else subordinates S main_name main_idxs gmu req t ws (subs @ [su])))"

definition manual_select_multi_worker_multi_gpu_candidates ::
  "fit_selector \<Rightarrow> worker list \<Rightarrow> rat \<Rightarrow> request_estimate \<Rightarrow> string option \<Rightarrow> py_error + fit_candidate list" where
  "manual_select_multi_worker_multi_gpu_candidates S ws gmu req t =
     (if length ws < 2 then Inr []
      else let main = hd ws; idxs = items (selected_indexes S t (w_name main))
           in bind_err (get_worker_resource_claim main idxs gmu req t) (\<lambda>claims.
              bind_err (subordinates S (w_name main) idxs gmu req t ws []) (\<lambda>subs.
                if subs = [] then Inr []
                else bind_err (get_worker_gpu_addresses (fs_backend S) main idxs None) (\<lambda>addrs.
                  Inr [\<lparr>fd_worker = main, fd_gpu_type = t, fd_gpu_indexes = idxs, fd_gpu_addresses = addrs,
                        fd_claim = \<lparr>fc_vram = claims, fc_ram = get_computed_ram_claim (fs_model S) claims (Some (rq_ram req)),
                                    fc_utilization = None\<rparr>,
                        fd_subs = subs, fd_overcommit = False\<rparr>]))))"

section \<open>Overcommitment of a manual selection\<close>

text \<open>What the loop over the selected GPUs collects: how many have enough free memory and which, and the
  free memory of all of them.\<close>

record tally =
  ta_count :: nat
  ta_vram :: int
  ta_satisfied :: "(string option \<times> string \<times> int) list"

definition satisfy :: "string option \<Rightarrow> string \<Rightarrow> int \<Rightarrow> tally \<Rightarrow> tally" where
  "satisfy t name i T = T\<lparr>ta_count := ta_count T + 1, ta_satisfied := ta_satisfied T @ [(t, name, i)]\<rparr>"

definition tally_gpu ::
  "rat \<Rightarrow> allocatable \<Rightarrow> (int, int) dict \<Rightarrow> string option \<Rightarrow> string \<Rightarrow> int \<Rightarrow> tally \<Rightarrow> py_error + tally" where
  "tally_gpu gmu ab totals t name i T0 =
     (let free = dget (ab_vram ab) (Some i); T = T0\<lparr>ta_vram := ta_vram T0 + or0 free\<rparr>
      in if gmu = 0 then Inr (satisfy t name i T)
         else case (dget totals i, free) of
                (Some total_vram, Some a) \<Rightarrow>
                  if total_vram = 0 then Inl ZeroDivisionError
                  else if rat_of_int a / rat_of_int total_vram \<ge> gmu then Inr (satisfy t name i T) else Inr T
              | _ \<Rightarrow> Inr T)"

definition worker_set :: "worker list \<Rightarrow> (string, worker) dict" where
  "worker_set ws = fold (\<lambda>w. dput (w_name w) w) ws []"

definition tally_worker ::
  "(worker \<Rightarrow> string option \<Rightarrow> py_error + allocatable) \<Rightarrow> worker list \<Rightarrow> rat \<Rightarrow> string option \<Rightarrow> string \<times> int list \<Rightarrow> tally \<Rightarrow> py_error + tally" where
  "tally_worker get_ab ws gmu t sel T =
     (case dget (worker_set ws) (fst sel) of
        None \<Rightarrow> Inr T
      | Some w \<Rightarrow> bind_err (get_ab w t) (\<lambda>ab. fold_err (tally_gpu gmu ab (vram_totals w t) t (fst sel)) (snd sel) T))"

definition tally_selected ::
  "fit_selector \<Rightarrow> (worker \<Rightarrow> string option \<Rightarrow> py_error + allocatable) \<Rightarrow> worker list \<Rightarrow> rat \<Rightarrow> py_error + tally" where
  "tally_selected S get_ab ws gmu =
     fold_err (\<lambda>(t, by_worker). fold_err (tally_worker get_ab ws gmu t) by_worker) (fs_selected S)
       \<lparr>ta_count = 0, ta_vram = 0, ta_satisfied = []\<rparr>"

text \<open>The parts of a candidate: the main worker and the subordinate ones.\<close>

type_synonym part = "string \<times> string option \<times> int list \<times> fit_claim"

definition parts :: "fit_candidate \<Rightarrow> part list" where
  "parts c = (w_name (fd_worker c), fd_gpu_type c, fd_gpu_indexes c, fd_claim c)
     # map (\<lambda>s. (su_worker_name s, su_gpu_type s, su_gpu_indexes s, su_claim s)) (fd_subs c)"

record usage =
  us_gpus :: int
  us_satisfied :: int
  us_vram :: int
  us_vram_claim :: int
  us_ram_claim :: int

definition use_part ::
  "(worker \<Rightarrow> string option \<Rightarrow> py_error + allocatable) \<Rightarrow> worker list \<Rightarrow> tally \<Rightarrow> part \<Rightarrow> usage \<Rightarrow> py_error + usage" where
  "use_part get_ab ws T p U =
     (let (name, t, idxs, claim) = p
      in bind_err (attr (dget (worker_set ws) name)) (\<lambda>w.
         bind_err (get_ab w t) (\<lambda>ab.
           Inr (U\<lparr>us_gpus := us_gpus U + int (length idxs),
                  us_satisfied := us_satisfied U + int (length (filter (\<lambda>i. (t, name, i) \<in> set (ta_satisfied T)) idxs)),
                  us_vram := us_vram U + sum_list (map (\<lambda>i. dget0 (ab_vram ab) (Some i)) idxs),
                  us_vram_claim := us_vram_claim U + sum_list (dvals (fc_vram claim)),
                  us_ram_claim := us_ram_claim U + or0 (fc_ram claim)\<rparr>))))"

definition is_overcommit :: "request_estimate \<Rightarrow> usage \<Rightarrow> bool" where
  "is_overcommit req U \<longleftrightarrow>
     us_vram_claim U < rq_vram req \<or> (rq_ram req > 0 \<and> us_ram_claim U < rq_ram req) \<or> us_satisfied U < us_gpus U"

definition effective_vram :: "fit_selector \<Rightarrow> rat \<Rightarrow> tally \<Rightarrow> usage \<Rightarrow> rat" where
  "effective_vram S gmu T U =
     (let free = (if us_gpus U < int (length (md_gpu_ids (fs_model S))) then us_vram U else ta_vram T)
      in if gmu = 0 then rat_of_int free else rat_of_int free * gmu)"

text \<open>\<open>_generate_manual_selected_gpus_overcommit_message\<close> without the message.\<close>

definition overcommit_of ::
  "fit_selector \<Rightarrow> (worker \<Rightarrow> string option \<Rightarrow> py_error + allocatable) \<Rightarrow> fit_candidate \<Rightarrow> worker list \<Rightarrow> request_estimate \<Rightarrow> rat \<Rightarrow>
   py_error + bool \<times> rat" where
  "overcommit_of S get_ab c ws req gmu =
     (if md_gpu_ids (fs_model S) = [] then Inr (False, 0)
      else bind_err (tally_selected S get_ab ws gmu) (\<lambda>T.
           bind_err (fold_err (use_part get_ab ws T) (parts c)
             \<lparr>us_gpus = 0, us_satisfied = 0, us_vram = 0, us_vram_claim = 0, us_ram_claim = 0\<rparr>) (\<lambda>U.
             if is_overcommit req U then Inr (True, effective_vram S gmu T U) else Inr (False, 0))))"

definition utilization_for :: "(string, rat) dict \<Rightarrow> string option \<Rightarrow> rat" where
  "utilization_for gmus t =
     (case Option.bind t (dget gmus) of Some u \<Rightarrow> u | None \<Rightarrow> dget0 gmus ''*'')"

record verdict =
  vd_fitting :: "fit_candidate list"
  vd_max :: rat
  vd_best :: "fit_candidate option"

definition judge ::
  "fit_selector \<Rightarrow> (worker \<Rightarrow> string option \<Rightarrow> py_error + allocatable) \<Rightarrow> worker list \<Rightarrow> request_estimate \<Rightarrow> (string, rat) dict \<Rightarrow>
   fit_candidate \<Rightarrow> verdict \<Rightarrow> py_error + verdict" where
  "judge S get_ab ws req gmus c V =
     bind_err (overcommit_of S get_ab c ws req (utilization_for gmus (fd_gpu_type c))) (\<lambda>(over, effective).
       let c' = c\<lparr>fd_overcommit := over\<rparr>
       in Inr (if \<not> over then V\<lparr>vd_fitting := vd_fitting V @ [c']\<rparr>
               else if effective \<ge> vd_max V then V\<lparr>vd_max := effective, vd_best := Some c'\<rparr> else V))"

definition get_non_overcommit_and_best_overcommit_candidates ::
  "fit_selector \<Rightarrow> (worker \<Rightarrow> string option \<Rightarrow> py_error + allocatable) \<Rightarrow> fit_candidate list \<Rightarrow> worker list \<Rightarrow> request_estimate \<Rightarrow>
   (string, rat) dict \<Rightarrow> py_error + fit_candidate list \<times> fit_candidate option" where
  "get_non_overcommit_and_best_overcommit_candidates S get_ab cs ws req gmus =
     bind_err (fold_err (judge S get_ab ws req gmus) cs \<lparr>vd_fitting = [], vd_max = 0, vd_best = None\<rparr>) (\<lambda>V.
       Inr (vd_fitting V, if vd_fitting V \<noteq> [] then None else vd_best V))"

section \<open>Manual selection\<close>

datatype selection_event = HeterogeneousTypes | OvercommitManyReplicas nat | Overcommit

definition collect :: "('a \<Rightarrow> 'e + 'b list) \<Rightarrow> 'a list \<Rightarrow> 'b list \<Rightarrow> 'e + 'b list" where
  "collect f xs acc = fold_err (\<lambda>x r. bind_err (f x) (\<lambda>ys. Inr (r @ ys))) xs acc"

definition single_gpu_candidates ::
  "fit_selector \<Rightarrow> (worker \<Rightarrow> string option \<Rightarrow> py_error + allocatable) \<Rightarrow> (string, rat) dict \<Rightarrow> request_estimate \<Rightarrow>
   string option \<times> worker list \<Rightarrow> py_error + fit_candidate list" where
  "single_gpu_candidates S get_ab gmus req p =
     collect (\<lambda>w. bind_err (devices w) (\<lambda>gpus.
       collect (\<lambda>g. bind_err (int_indexes [gpu_index g]) (\<lambda>ixs.
           manual_select_single_worker_multi_gpu_candidates S get_ab w ixs (utilization_for gmus (fst p)) req (fst p)))
         gpus [])) (snd p) []"

definition multi_gpu_candidates ::
  "fit_selector \<Rightarrow> (worker \<Rightarrow> string option \<Rightarrow> py_error + allocatable) \<Rightarrow> (string, rat) dict \<Rightarrow> request_estimate \<Rightarrow>
   string option \<times> worker list \<Rightarrow> py_error + fit_candidate list" where
  "multi_gpu_candidates S get_ab gmus req p =
     collect (\<lambda>w. bind_err (devices w) (\<lambda>gpus.
       bind_err (int_indexes (map gpu_index gpus)) (\<lambda>ixs.
         manual_select_single_worker_multi_gpu_candidates S get_ab w ixs (utilization_for gmus (fst p)) req (fst p))))
       (snd p) []"

definition manual_candidates ::
  "fit_selector \<Rightarrow> (worker \<Rightarrow> string option \<Rightarrow> py_error + allocatable) \<Rightarrow> (string, rat) dict \<Rightarrow> request_estimate \<Rightarrow>
   (string option, worker list) dict \<Rightarrow> py_error + fit_candidate list" where
  "manual_candidates S get_ab gmus req by_type =
     (if fs_gpu_count S = 1 then collect (single_gpu_candidates S get_ab gmus req) by_type []
      else if fs_gpu_count S > 1 then
        bind_err (collect (multi_gpu_candidates S get_ab gmus req) by_type []) (\<lambda>cs.
          if cs \<noteq> [] then Inr cs
          else collect (\<lambda>(t, ws). manual_select_multi_worker_multi_gpu_candidates S ws (utilization_for gmus t) req t) by_type [])
      else Inr [])"

definition find_manual_gpu_selection_candidates ::
  "fit_selector \<Rightarrow> worker list \<Rightarrow> (string, rat) dict \<Rightarrow> request_estimate \<Rightarrow> py_error + fit_candidate list \<times> selection_event list" where
  "find_manual_gpu_selection_candidates S ws gmus req =
     (if items (fs_selected_workers S) = [] then Inr ([], [])
      else if fs_gpu_count S = int (length (md_gpu_ids (fs_model S))) \<and> length (fs_selected S) > 1
      then Inr ([], [HeterogeneousTypes])
      else let get_ab = allocatable_of S ws
           in bind_err (sort_selected_workers_by_gpu_type_and_resource ws (fs_selected S) get_ab) (\<lambda>by_type.
              bind_err (manual_candidates S get_ab gmus req by_type) (\<lambda>cs.
                if cs = [] then Inr ([], [])
                else bind_err (get_non_overcommit_and_best_overcommit_candidates S get_ab cs ws req gmus) (\<lambda>(fitting, best).
                  if fitting \<noteq> [] then Inr (fitting, [])
                  else if fs_replicas S > 1 then Inr ([], [OvercommitManyReplicas (length cs - length fitting)])
                  else case best of None \<Rightarrow> Inr ([], []) | Some c \<Rightarrow> Inr ([c], [Overcommit])))))"

section \<open>Claims and totals\<close>

text \<open>The device a lookup by index finds: the last one of the type with the index.\<close>

definition matching :: "string option \<Rightarrow> int \<Rightarrow> gpu_device \<Rightarrow> bool" where
  "matching t i g \<longleftrightarrow> gpu_index g = Some i \<and> (t = None \<or> gpu_type g = t)"

lemma dget_note_total: "dget (note_total t g d) i = (if matching t i g then Some (total_of g) else dget d i)"
  by (auto simp: note_total_def matching_def dict_simps split: option.splits)

lemma dget_fold_note:
  "dget (fold (note_total t) gpus d) i =
     (if filter (matching t i) gpus = [] then dget d i else Some (total_of (last (filter (matching t i) gpus))))"
  by (induction gpus arbitrary: d) (auto simp: dget_note_total)

lemma dget_vram_totals:
  "dget (vram_totals w t) i =
     (if filter (matching t i) (worker_gpus w) = [] then None else Some (total_of (last (filter (matching t i) (worker_gpus w)))))"
  by (simp add: vram_totals_def dget_fold_note)

text \<open>A claim by utilization is the utilization's share of the total the index is mapped to.\<close>

lemma claim_fold:
  assumes "fold_err (claim_gpu idxs gmu req t) gpus d = Inr d'" and "0 < gmu"
    and "\<And>i v. dget d i = Some v \<Longrightarrow> i \<in> set idxs \<and> (\<exists>tot. dget e i = Some tot \<and> v = py_trunc (rat_of_int tot * gmu))"
  shows "dget d' i = Some v \<Longrightarrow>
    i \<in> set idxs \<and> (\<exists>tot. dget (fold (note_total t) gpus e) i = Some tot \<and> v = py_trunc (rat_of_int tot * gmu))"
  using assms(1,3)
proof (induction gpus arbitrary: d e)
  case (Cons g gpus)
  from Cons.prems(2) obtain d1 where d1: "claim_gpu idxs gmu req t g d = Inr d1" "fold_err (claim_gpu idxs gmu req t) gpus d1 = Inr d'"
    by (auto simp: bind_err_eq_Inr)
  have "j \<in> set idxs \<and> (\<exists>tot. dget (note_total t g e) j = Some tot \<and> u = py_trunc (rat_of_int tot * gmu))"
    if "dget d1 j = Some u" for j u
    using d1(1) that Cons.prems(3) [of j u] assms(2)
    by (auto simp: claim_gpu_def gpu_claim_def attr_def operand_def dget_note_total matching_def total_of_def bind_err_eq_Inr dict_simps
        split: option.splits if_splits)
  from Cons.IH [OF Cons.prems(1) d1(2) this] show ?case by simp
qed simp

lemma devices_Inr: "devices w = Inr gpus \<Longrightarrow> gpus = worker_gpus w"
  by (auto simp: devices_def worker_gpus_def attr_def operand_def bind_err_eq_Inr split: option.splits)

lemma claim_by_utilization:
  assumes "get_worker_resource_claim w idxs gmu req t = Inr d" and "0 < gmu" and "dget d i = Some v"
  shows "i \<in> set idxs" "\<exists>tot. dget (vram_totals w t) i = Some tot \<and> v = py_trunc (rat_of_int tot * gmu)"
proof -
  obtain gpus where g: "devices w = Inr gpus" "fold_err (claim_gpu idxs gmu req t) gpus [] = Inr d"
    using assms(1) by (auto simp: get_worker_resource_claim_def bind_err_eq_Inr)
  show "i \<in> set idxs" "\<exists>tot. dget (vram_totals w t) i = Some tot \<and> v = py_trunc (rat_of_int tot * gmu)"
    using claim_fold [OF g(2) assms(2), of "[]", OF _ assms(3)] devices_Inr [OF g(1)] by (simp_all add: vram_totals_def)
qed

section \<open>Copies with the selected GPUs\<close>

text \<open>A copy keeps the worker but for its devices, and its devices at an index are those of the worker or none.\<close>

definition narrows :: "string option \<Rightarrow> worker \<Rightarrow> worker \<Rightarrow> bool" where
  "narrows t v w \<longleftrightarrow> w_id v = w_id w \<and> w_name v = w_name w \<and> v\<lparr>w_status := w_status w\<rparr> = w \<and> set (worker_gpus v) \<subseteq> set (worker_gpus w) \<and>
     (\<forall>i. filter (matching t i) (worker_gpus v) = [] \<or> filter (matching t i) (worker_gpus v) = filter (matching t i) (worker_gpus w))"

lemma narrows_totals: "narrows t v w \<Longrightarrow> dget (vram_totals v t) i = Some tot \<Longrightarrow> dget (vram_totals w t) i = Some tot"
  unfolding narrows_def dget_vram_totals by (metis option.distinct(1))

lemma filter_concat_empty:
  "Some i \<notin> set ixs \<Longrightarrow> filter (matching t i) (concat (map (\<lambda>j. filter (\<lambda>g. gpu_index g = j \<and> (t = None \<or> gpu_type g = t)) gpus) ixs)) = []"
  by (induction ixs) (auto simp: matching_def filter_empty_conv)

lemma filter_concat_matching:
  assumes "distinct ixs"
  shows "filter (matching t i) (concat (map (\<lambda>j. filter (\<lambda>g. gpu_index g = j \<and> (t = None \<or> gpu_type g = t)) gpus) ixs)) =
    (if Some i \<in> set ixs then filter (matching t i) gpus else [])"
  using assms
proof (induction ixs)
  case (Cons j ixs)
  have "filter (matching t i) (filter (\<lambda>g. gpu_index g = j \<and> (t = None \<or> gpu_type g = t)) gpus) = (if j = Some i then filter (matching t i) gpus else [])"
    by (auto simp: matching_def filter_empty_conv intro: filter_cong)
  then show ?case using Cons by (auto simp: filter_concat_empty)
qed simp

lemma distinct_rates: "distinct (dkeys (allocatable_rates gpus ab t))"
  unfolding allocatable_rates_def
  by (induction gpus rule: rev_induct) simp_all

lemma sorted_copy_narrows:
  assumes "w_status w = Some st" and "distinct ixs"
  shows "narrows t (w\<lparr>w_status := Some (st\<lparr>st_gpus := Some [g. i \<leftarrow> ixs, g \<leftarrow> items (st_gpus st), gpu_index g = i \<and> (t = None \<or> gpu_type g = t)]\<rparr>)\<rparr>) w"
proof -
  have c: "[g. i \<leftarrow> ixs, g \<leftarrow> gpus, gpu_index g = i \<and> (t = None \<or> gpu_type g = t)] =
    concat (map (\<lambda>j. filter (\<lambda>g. gpu_index g = j \<and> (t = None \<or> gpu_type g = t)) gpus) ixs)" for gpus
    by (rule arg_cong [where f = concat], rule map_cong [OF refl]) (induction gpus, auto)
  show ?thesis
    unfolding narrows_def c worker_gpus_def using assms
    by (auto simp: filter_concat_matching)
qed

lemma select_workers_narrow:
  assumes "select_workers get_ab t sel ws = Inr r" and "v \<in> set r"
  shows "\<exists>w \<in> set ws. narrows t v w \<and> (\<forall>g \<in> set (worker_gpus v). \<exists>idxs. dget sel (w_name v) = Some idxs \<and> gpu_index g \<in> Some ` set idxs)"
  using assms
proof (induction ws arbitrary: r)
  case (Cons w ws)
  let ?gpus = "case w_status w of None \<Rightarrow> [] | Some st \<Rightarrow> items (st_gpus st)"
  show ?case
  proof (cases "?gpus = [] \<or> items (dget sel (w_name w)) = []")
    case True
    then show ?thesis using Cons by (auto simp: Let_def)
  next
    case False
    then obtain st idxs where st: "w_status w = Some st" "dget sel (w_name w) = Some idxs" by (auto split: option.splits)
    from Cons.prems(1) False obtain ab :: allocatable and order r' where r:
      "sort_gpu_indexes_by_allocatable_rate w (ab_vram ab) None = Inr order" "select_workers get_ab t sel ws = Inr r'"
      "w\<lparr>w_status := Some (st\<lparr>st_gpus := Some [g. i \<leftarrow> filter (\<lambda>i. i \<in> Some ` set idxs) order, g \<leftarrow> items (st_gpus st), gpu_index g = i \<and> (t = None \<or> gpu_type g = t)]\<rparr>)\<rparr> # r' = r"
      by (simp add: Let_def bind_err_eq_Inr st) blast
    note r3 = r(3) [symmetric]
    have "distinct order" using r(1) distinct_rates
      by (auto simp: sort_gpu_indexes_by_allocatable_rate_def bind_err_eq_Inr Let_def)
    then have n: "narrows t (hd r) w" unfolding r3 list.sel using st(1) by (intro sorted_copy_narrows) simp_all
    have "\<forall>g \<in> set (worker_gpus (hd r)). gpu_index g \<in> Some ` set idxs" unfolding r3 worker_gpus_def by auto
    moreover have "w_name (hd r) = w_name w" using n by (simp add: narrows_def)
    ultimately show ?thesis using n st(2) Cons.prems(2) Cons.IH [OF r(2)] r3 by (cases "v = hd r") auto
  qed
qed simp

lemma sort_selected_narrow:
  assumes "sort_selected_workers_by_gpu_type_and_resource ws sels get_ab = Inr d" and "(t, vs) \<in> set d" and "v \<in> set vs"
  shows "\<exists>w \<in> set ws. narrows t v w \<and>
    (\<forall>g \<in> set (worker_gpus v). \<exists>sel idxs. (t, sel) \<in> set sels \<and> dget sel (w_name v) = Some idxs \<and> gpu_index g \<in> Some ` set idxs)"
  using assms
proof (induction sels arbitrary: d)
  case (Cons s sels)
  obtain t' sel where s: "s = (t', sel)" by (cases s)
  from Cons.prems(1) obtain sw r where r: "select_workers get_ab t' sel ws = Inr sw"
    "sort_selected_workers_by_gpu_type_and_resource ws sels get_ab = Inr r" "d = (t', sort_workers_by_gpu_count sw) # r"
    by (auto simp: s bind_err_eq_Inr)
  consider "t = t'" "vs = sort_workers_by_gpu_count sw" | "(t, vs) \<in> set r" using Cons.prems(2) r(3) by auto
  then show ?case
  proof cases
    case 1
    then have "v \<in> set sw" using Cons.prems(3) by (simp add: sort_workers_by_gpu_count_def)
    from select_workers_narrow [OF r(1) this] show ?thesis using 1 by (fastforce simp: s)
  next
    case 2
    from Cons.IH [OF r(2) 2 Cons.prems(3)] show ?thesis by fastforce
  qed
qed simp

section \<open>What a satisfied GPU provides\<close>

lemma worker_set_Some: "dget (worker_set ws) n = Some w \<Longrightarrow> w \<in> set ws \<and> w_name w = n"
  unfolding worker_set_def by (induction ws rule: rev_induct) (auto simp: dict_simps split: if_splits)

definition provides ::
  "(worker \<Rightarrow> string option \<Rightarrow> py_error + allocatable) \<Rightarrow> worker list \<Rightarrow> rat \<Rightarrow> string option \<times> string \<times> int \<Rightarrow> bool" where
  "provides get_ab ws gmu p \<longleftrightarrow>
     (case p of (t, n, i) \<Rightarrow> \<exists>w ab tot a. dget (worker_set ws) n = Some w \<and> get_ab w t = Inr ab \<and> dget (vram_totals w t) i = Some tot \<and>
        tot \<noteq> 0 \<and> dget (ab_vram ab) (Some i) = Some a \<and> gmu \<le> rat_of_int a / rat_of_int tot)"

lemma tally_worker_provides:
  assumes "tally_worker get_ab ws gmu t sel T = Inr T'" and "gmu \<noteq> 0" and "\<forall>p \<in> set (ta_satisfied T). provides get_ab ws gmu p"
  shows "\<forall>p \<in> set (ta_satisfied T'). provides get_ab ws gmu p"
proof (cases "dget (worker_set ws) (fst sel)")
  case None
  then show ?thesis using assms by (simp add: tally_worker_def)
next
  case (Some w)
  then obtain ab where ab: "get_ab w t = Inr ab" "fold_err (tally_gpu gmu ab (vram_totals w t) t (fst sel)) (snd sel) T = Inr T'"
    using assms(1) by (auto simp: tally_worker_def bind_err_eq_Inr)
  show ?thesis
  proof (rule fold_err_invariant [OF ab(2), where P = "\<lambda>T. \<forall>p \<in> set (ta_satisfied T). provides get_ab ws gmu p"])
    fix i A B
    assume "tally_gpu gmu ab (vram_totals w t) t (fst sel) i A = Inr B" "\<forall>p \<in> set (ta_satisfied A). provides get_ab ws gmu p"
    then show "\<forall>p \<in> set (ta_satisfied B). provides get_ab ws gmu p"
      using Some ab(1) assms(2)
      by (auto simp: tally_gpu_def satisfy_def provides_def Let_def split: option.splits if_splits)
  qed (rule assms(3))
qed

lemma tally_provides:
  assumes "tally_selected S get_ab ws gmu = Inr T" and "gmu \<noteq> 0" and "p \<in> set (ta_satisfied T)"
  shows "provides get_ab ws gmu p"
proof -
  have "\<forall>p \<in> set (ta_satisfied T). provides get_ab ws gmu p"
    using assms(1) unfolding tally_selected_def
  proof (rule fold_err_invariant)
    fix x A B
    assume "(\<lambda>(t, by_worker). fold_err (tally_worker get_ab ws gmu t) by_worker) x A = Inr B" "\<forall>p \<in> set (ta_satisfied A). provides get_ab ws gmu p"
    moreover obtain t by_worker where "x = (t, by_worker)" by (cases x)
    ultimately have "fold_err (tally_worker get_ab ws gmu t) by_worker A = Inr B" "\<forall>p \<in> set (ta_satisfied A). provides get_ab ws gmu p" by simp_all
    then show "\<forall>p \<in> set (ta_satisfied B). provides get_ab ws gmu p"
      by (rule fold_err_invariant [where P = "\<lambda>T. \<forall>p \<in> set (ta_satisfied T). provides get_ab ws gmu p"]) (rule tally_worker_provides [OF _ assms(2)])
  qed simp
  then show ?thesis using assms(3) by blast
qed

text \<open>The usage of the parts, as sums.\<close>

definition unsatisfied :: "tally \<Rightarrow> part \<Rightarrow> int list" where
  "unsatisfied T p = (case p of (n, t, idxs, claim) \<Rightarrow> filter (\<lambda>i. (t, n, i) \<notin> set (ta_satisfied T)) idxs)"

definition part_vram :: "part \<Rightarrow> int" where
  "part_vram p = sum_list (dvals (fc_vram (snd (snd (snd p)))))"

lemma filter_split_length: "int (length (filter P xs)) + int (length (filter (\<lambda>x. \<not> P x) xs)) = int (length xs)"
  using sum_length_filter_compl [of P xs] by linarith

lemma use_part_effect:
  assumes "use_part get_ab ws T p U = Inr U'"
  shows "us_gpus U' - us_satisfied U' = us_gpus U - us_satisfied U + int (length (unsatisfied T p))"
    and "us_vram_claim U' = us_vram_claim U + part_vram p"
proof -
  obtain n t idxs claim where p: "p = (n, t, idxs, claim)" by (cases p)
  show "us_gpus U' - us_satisfied U' = us_gpus U - us_satisfied U + int (length (unsatisfied T p))"
    using assms filter_split_length [of "\<lambda>i. (t, n, i) \<in> set (ta_satisfied T)" idxs]
    by (auto simp: use_part_def unsatisfied_def p bind_err_eq_Inr)
  show "us_vram_claim U' = us_vram_claim U + part_vram p"
    using assms by (auto simp: use_part_def part_vram_def p bind_err_eq_Inr)
qed

lemma usage_sums:
  assumes "fold_err (use_part get_ab ws T) ps U = Inr U'"
  shows "us_gpus U' - us_satisfied U' = us_gpus U - us_satisfied U + sum_list (map (int \<circ> length \<circ> unsatisfied T) ps) \<and>
    us_vram_claim U' = us_vram_claim U + sum_list (map part_vram ps)"
  using assms
proof (induction ps arbitrary: U)
  case (Cons p ps)
  then obtain U1 where "use_part get_ab ws T p U = Inr U1" "fold_err (use_part get_ab ws T) ps U1 = Inr U'" by (auto simp: bind_err_eq_Inr)
  then show ?case using Cons.IH [of U1] use_part_effect [of get_ab ws T p U U1] by simp
qed simp

lemma not_overcommit:
  assumes "overcommit_of S get_ab c ws req gmu = Inr (False, e)" and "md_gpu_ids (fs_model S) \<noteq> []"
  obtains T where "tally_selected S get_ab ws gmu = Inr T" "\<forall>(n, t, idxs, claim) \<in> set (parts c). \<forall>i \<in> set idxs. (t, n, i) \<in> set (ta_satisfied T)"
    "rq_vram req \<le> sum_list (map part_vram (parts c))"
proof -
  from assms obtain T U where T: "tally_selected S get_ab ws gmu = Inr T"
    and U: "fold_err (use_part get_ab ws T) (parts c) \<lparr>us_gpus = 0, us_satisfied = 0, us_vram = 0, us_vram_claim = 0, us_ram_claim = 0\<rparr> = Inr U"
    and o: "\<not> is_overcommit req U"
    by (auto simp: overcommit_of_def bind_err_eq_Inr split: if_splits)
  note u = usage_sums [OF U, THEN conjunct1] usage_sums [OF U, THEN conjunct2]
  have "sum_list (map (int \<circ> length \<circ> unsatisfied T) (parts c)) \<le> 0" using u(1) o by (simp add: is_overcommit_def)
  then have "\<forall>p \<in> set (parts c). unsatisfied T p = []"
    using sum_list_nonneg_eq_0_iff [of "map (int \<circ> length \<circ> unsatisfied T) (parts c)"] sum_list_nonneg [of "map (int \<circ> length \<circ> unsatisfied T) (parts c)"]
    by fastforce
  then have "\<forall>(n, t, idxs, claim) \<in> set (parts c). \<forall>i \<in> set idxs. (t, n, i) \<in> set (ta_satisfied T)"
    by (fastforce simp: unsatisfied_def filter_empty_conv)
  moreover have "rq_vram req \<le> sum_list (map part_vram (parts c))" using u(2) o by (simp add: is_overcommit_def)
  ultimately show ?thesis using that T by blast
qed

section \<open>Where the parts of a candidate come from\<close>

lemma collect_mem:
  assumes "collect f xs acc = Inr r" and "y \<in> set r"
  shows "y \<in> set acc \<or> (\<exists>x \<in> set xs. \<exists>ys. f x = Inr ys \<and> y \<in> set ys)"
  using assms unfolding collect_def
  by (induction xs arbitrary: acc) (fastforce simp: bind_err_eq_Inr)+

definition claimed ::
  "fit_selector \<Rightarrow> (string, rat) dict \<Rightarrow> request_estimate \<Rightarrow> (string option, worker list) dict \<Rightarrow> part \<Rightarrow> bool" where
  "claimed S gmus req by_type p \<longleftrightarrow>
     (case p of (n, t, idxs, claim) \<Rightarrow> \<exists>vs. (t, vs) \<in> set by_type \<and> (\<exists>v \<in> set vs. w_name v = n \<and>
        get_worker_resource_claim v idxs (utilization_for gmus t) req t = Inr (fc_vram claim)))"

lemma single_worker_parts:
  assumes "manual_select_single_worker_multi_gpu_candidates S get_ab v idxs (utilization_for gmus t) req t = Inr cs" and "c \<in> set cs"
    and "(t, vs) \<in> set by_type" and "v \<in> set vs"
  shows "\<forall>p \<in> set (parts c). claimed S gmus req by_type p \<and> fst (snd p) = fd_gpu_type c"
  using assms
  by (fastforce simp: manual_select_single_worker_multi_gpu_candidates_def Let_def bind_err_eq_Inr parts_def claimed_def split: if_splits)

lemma subordinate_part:
  assumes "subordinate S n w idxs gmu req t = Inr su"
  shows "su_worker_name su = w_name w" "su_gpu_type su = t"
    "get_worker_resource_claim w (su_gpu_indexes su) gmu req t = Inr (fc_vram (su_claim su))"
  using assms by (auto simp: subordinate_def bind_err_eq_Inr)

lemma subordinates_parts:
  assumes "subordinates S main idxs gmu req t ws subs = Inr r" and "su \<in> set r"
  shows "su \<in> set subs \<or> (\<exists>w \<in> set ws. su_worker_name su = w_name w \<and> su_gpu_type su = t \<and>
    get_worker_resource_claim w (su_gpu_indexes su) gmu req t = Inr (fc_vram (su_claim su)))"
  using assms
proof (induction ws arbitrary: subs)
  case (Cons w ws)
  have ind: "su \<in> set s \<or> (\<exists>w \<in> set (w # ws). su_worker_name su = w_name w \<and> su_gpu_type su = t \<and>
      get_worker_resource_claim w (su_gpu_indexes su) gmu req t = Inr (fc_vram (su_claim su)))"
    if "subordinates S main idxs gmu req t ws s = Inr r" for s using Cons.IH [OF that Cons.prems(2)] by auto
  show ?case using Cons.prems(1) ind Cons.prems(2)
    by (fastforce simp: bind_err_eq_Inr dest: subordinate_part split: option.splits if_splits)
qed simp

lemma multi_worker_parts:
  assumes "manual_select_multi_worker_multi_gpu_candidates S vs (utilization_for gmus t) req t = Inr cs" and "c \<in> set cs"
    and "(t, vs) \<in> set by_type"
  shows "\<forall>p \<in> set (parts c). claimed S gmus req by_type p \<and> fst (snd p) = fd_gpu_type c"
proof -
  obtain idxs claims subs addrs where c: "length vs \<ge> 2" "get_worker_resource_claim (hd vs) idxs (utilization_for gmus t) req t = Inr claims"
    "subordinates S (w_name (hd vs)) idxs (utilization_for gmus t) req t vs [] = Inr subs"
    "fd_worker c = hd vs" "fd_gpu_type c = t" "fd_gpu_indexes c = idxs" "fc_vram (fd_claim c) = claims" "fd_subs c = subs"
    using assms(1,2) by (auto simp: manual_select_multi_worker_multi_gpu_candidates_def Let_def bind_err_eq_Inr split: if_splits)
  have "hd vs \<in> set vs" using c(1) by (cases vs) auto
  then have "claimed S gmus req by_type (w_name (hd vs), t, idxs, fd_claim c)" using c(2,7) assms(3) by (auto simp: claimed_def)
  moreover have "claimed S gmus req by_type (su_worker_name su, su_gpu_type su, su_gpu_indexes su, su_claim su) \<and> su_gpu_type su = t" if "su \<in> set subs" for su
    using subordinates_parts [OF c(3) that] assms(3) by (fastforce simp: claimed_def)
  ultimately show ?thesis by (auto simp: parts_def c(4-8))
qed

lemma collect_Nil_mem: "collect f xs [] = Inr r \<Longrightarrow> y \<in> set r \<Longrightarrow> \<exists>x \<in> set xs. \<exists>ys. f x = Inr ys \<and> y \<in> set ys"
  using collect_mem by fastforce

lemma int_indexes_Some: "int_indexes ixs = Inr is' \<Longrightarrow> map Some is' = ixs"
proof -
  have "map Some (map the ixs) = ixs" if "None \<notin> set ixs" using that by (induction ixs) auto
  then show "int_indexes ixs = Inr is' \<Longrightarrow> map Some is' = ixs" by (auto simp: int_indexes_def split: if_splits)
qed

definition from_worker ::
  "fit_selector \<Rightarrow> (worker \<Rightarrow> string option \<Rightarrow> py_error + allocatable) \<Rightarrow> (string, rat) dict \<Rightarrow> request_estimate \<Rightarrow>
   string option \<times> worker list \<Rightarrow> fit_candidate \<Rightarrow> bool" where
  "from_worker S get_ab gmus req p c \<longleftrightarrow> (\<exists>v \<in> set (snd p). \<exists>ixs cs. c \<in> set cs \<and> set (map Some ixs) \<subseteq> gpu_index ` set (worker_gpus v) \<and>
     manual_select_single_worker_multi_gpu_candidates S get_ab v ixs (utilization_for gmus (fst p)) req (fst p) = Inr cs)"

lemma single_gpu_from:
  assumes "single_gpu_candidates S get_ab gmus req p = Inr cs" and "c \<in> set cs"
  shows "from_worker S get_ab gmus req p c"
proof -
  obtain v ys where v: "v \<in> set (snd p)" "c \<in> set ys" and ys: "bind_err (devices v) (\<lambda>gpus.
       collect (\<lambda>g. bind_err (int_indexes [gpu_index g]) (\<lambda>ixs.
           manual_select_single_worker_multi_gpu_candidates S get_ab v ixs (utilization_for gmus (fst p)) req (fst p))) gpus []) = Inr ys"
    using collect_Nil_mem [OF assms(1) [unfolded single_gpu_candidates_def] assms(2)] by blast
  then obtain gpus where g: "gpus = worker_gpus v" and c: "collect (\<lambda>g. bind_err (int_indexes [gpu_index g]) (\<lambda>ixs.
           manual_select_single_worker_multi_gpu_candidates S get_ab v ixs (utilization_for gmus (fst p)) req (fst p))) gpus [] = Inr ys"
    unfolding bind_err_eq_Inr using devices_Inr by blast
  from collect_Nil_mem [OF c v(2)] obtain x ixs zs where x: "x \<in> set (worker_gpus v)" "int_indexes [gpu_index x] = Inr ixs" "c \<in> set zs"
    "manual_select_single_worker_multi_gpu_candidates S get_ab v ixs (utilization_for gmus (fst p)) req (fst p) = Inr zs"
    unfolding bind_err_eq_Inr g by blast
  then have "set (map Some ixs) \<subseteq> gpu_index ` set (worker_gpus v)" using int_indexes_Some [OF x(2)] by auto
  then show ?thesis using v(1) x(3,4) unfolding from_worker_def by blast
qed

lemma multi_gpu_from:
  assumes "multi_gpu_candidates S get_ab gmus req p = Inr cs" and "c \<in> set cs"
  shows "from_worker S get_ab gmus req p c"
proof -
  obtain v ys where v: "v \<in> set (snd p)" "c \<in> set ys" and ys: "bind_err (devices v) (\<lambda>gpus.
       bind_err (int_indexes (map gpu_index gpus)) (\<lambda>ixs.
         manual_select_single_worker_multi_gpu_candidates S get_ab v ixs (utilization_for gmus (fst p)) req (fst p))) = Inr ys"
    using collect_Nil_mem [OF assms(1) [unfolded multi_gpu_candidates_def] assms(2)] by blast
  then obtain ixs where "int_indexes (map gpu_index (worker_gpus v)) = Inr ixs"
    "manual_select_single_worker_multi_gpu_candidates S get_ab v ixs (utilization_for gmus (fst p)) req (fst p) = Inr ys"
    unfolding bind_err_eq_Inr using devices_Inr by blast
  moreover then have "set (map Some ixs) \<subseteq> gpu_index ` set (worker_gpus v)" using int_indexes_Some by fastforce
  ultimately show ?thesis using v unfolding from_worker_def by blast
qed

lemma from_worker_parts:
  assumes "from_worker S get_ab gmus req p c" and "p \<in> set by_type"
  shows "\<forall>q \<in> set (parts c). claimed S gmus req by_type q \<and> fst (snd q) = fd_gpu_type c"
  using assms unfolding from_worker_def by (cases p) (use single_worker_parts in fastforce)

lemma manual_parts:
  assumes "manual_candidates S get_ab gmus req by_type = Inr cs" and "c \<in> set cs"
  shows "\<forall>q \<in> set (parts c). claimed S gmus req by_type q \<and> fst (snd q) = fd_gpu_type c"
proof -
  consider "collect (single_gpu_candidates S get_ab gmus req) by_type [] = Inr cs"
    | "collect (multi_gpu_candidates S get_ab gmus req) by_type [] = Inr cs"
    | "collect (\<lambda>(t, ws). manual_select_multi_worker_multi_gpu_candidates S ws (utilization_for gmus t) req t) by_type [] = Inr cs"
    using assms by (auto simp: manual_candidates_def bind_err_eq_Inr split: if_splits)
  then show ?thesis
  proof cases
    case 1
    then show ?thesis using collect_Nil_mem [OF 1 assms(2)] single_gpu_from from_worker_parts by blast
  next
    case 2
    then show ?thesis using collect_Nil_mem [OF 2 assms(2)] multi_gpu_from from_worker_parts by blast
  next
    case 3
    obtain t vs ys where "(t, vs) \<in> set by_type" "c \<in> set ys"
      "manual_select_multi_worker_multi_gpu_candidates S vs (utilization_for gmus t) req t = Inr ys"
      using collect_Nil_mem [OF 3 assms(2)] by auto
    then show ?thesis using multi_worker_parts by blast
  qed
qed

section \<open>A manual selection fits\<close>

text \<open>Free memory of a GPU, with what instances hold there and the reserve, fits a device of the worker.\<close>

definition reserve :: "worker \<Rightarrow> int" where
  "reserve w = or0 (Option.bind (w_reserved w) rs_vram)"

definition held_vram :: "model_instance list \<Rightarrow> worker \<Rightarrow> string option \<Rightarrow> int \<Rightarrow> int" where
  "held_vram mis w t i = dget0 (al_vram (compute_worker_allocated mis (w_id w) t)) i"

lemma allocatable_device:
  assumes "get_worker_allocatable_resource mis w t = Inr ab" and "dget (ab_vram ab) (Some i) = Some a"
  shows "0 \<le> a \<and> (a = 0 \<or> (\<exists>g \<in> set (worker_gpus w). matching t i g \<and> a + held_vram mis w t i + reserve w \<le> total_of g))"
proof -
  obtain st mem vram tot rs rr where p0: "w_status w = Some st" "st_memory st = Some mem" "mem_total mem = Some tot" "w_reserved w = Some rs" "rs_ram rs = Some rr"
    "allocatable_vram (Some rs) (al_vram (compute_worker_allocated mis (w_id w) t)) t (items (st_gpus st)) [] = Inr vram"
    "if mem_unified mem
     then \<exists>rv. rs_vram rs = Some rv \<and> unified_adjust rv (al_vram (compute_worker_allocated mis (w_id w) t))
            \<lparr>ab_ram = max (tot - al_ram (compute_worker_allocated mis (w_id w) t) - rr) 0, ab_vram = vram\<rparr> = Inr ab
     else ab = \<lparr>ab_ram = max (tot - al_ram (compute_worker_allocated mis (w_id w) t) - rr) 0, ab_vram = vram\<rparr>"
    using assms(1) by (rule get_allocatable_Inr)
  note p = p0(1,4,6,7)
  have dev: "0 \<le> v \<and> (v = 0 \<or> (\<exists>g \<in> set (worker_gpus w). matching t i g \<and> v + held_vram mis w t i + reserve w \<le> total_of g))"
    if "dget vram (Some i) = Some v" for v
    using allocatable_vram_Inr [OF p(3) that]
    by (auto simp: matching_def held_vram_def reserve_def total_of_def worker_gpus_def p(1,2) max_def split: if_splits)
  have "\<exists>v. dget vram (Some i) = Some v \<and> a \<le> v \<and> 0 \<le> a"
    using p(4) assms(2) dev
    by (fastforce simp: unified_adjust_def Let_def dict_simps split: if_splits option.splits)
  then show ?thesis using dev by fastforce
qed

lemma trunc_share_le:
  assumes "0 < gmu" and "0 \<le> a" and "tot \<noteq> 0" and "gmu \<le> rat_of_int a / rat_of_int tot"
  shows "py_trunc (rat_of_int tot * gmu) \<le> a \<and> 0 < a"
proof -
  have pos: "0 < rat_of_int a / rat_of_int tot" using assms(1,4) by (rule less_le_trans)
  then have t: "0 < tot" and a: "0 < a" using assms(2) by (auto simp: zero_less_divide_iff)
  then have "rat_of_int tot * gmu \<le> rat_of_int a" using assms(4) by (simp add: pos_le_divide_eq mult.commute)
  then show ?thesis using t a assms(1) by (simp add: py_trunc_def floor_le_iff)
qed

lemma judged:
  assumes "get_non_overcommit_and_best_overcommit_candidates S get_ab cs ws req gmus = Inr (fitting, best)"
  shows "\<forall>c \<in> set fitting. \<not> fd_overcommit c \<and> (\<exists>d \<in> set cs. parts c = parts d \<and> fd_worker c = fd_worker d \<and> fd_gpu_type c = fd_gpu_type d \<and>
      (\<exists>e. overcommit_of S get_ab d ws req (utilization_for gmus (fd_gpu_type d)) = Inr (False, e)))"
    and "best = Some c \<Longrightarrow> fd_overcommit c \<and> (\<exists>d \<in> set cs. parts c = parts d \<and> fd_worker c = fd_worker d)"
proof -
  obtain V where V: "fold_err (judge S get_ab ws req gmus) cs \<lparr>vd_fitting = [], vd_max = 0, vd_best = None\<rparr> = Inr V"
    "fitting = vd_fitting V" "best = (if vd_fitting V \<noteq> [] then None else vd_best V)"
    using assms by (auto simp: get_non_overcommit_and_best_overcommit_candidates_def bind_err_eq_Inr)
  let ?P = "\<lambda>V. (\<forall>c \<in> set (vd_fitting V). \<not> fd_overcommit c \<and> (\<exists>d \<in> set cs. parts c = parts d \<and> fd_worker c = fd_worker d \<and> fd_gpu_type c = fd_gpu_type d \<and>
      (\<exists>e. overcommit_of S get_ab d ws req (utilization_for gmus (fd_gpu_type d)) = Inr (False, e)))) \<and> (\<forall>c. vd_best V = Some c \<longrightarrow> fd_overcommit c \<and> (\<exists>d \<in> set cs. parts c = parts d \<and> fd_worker c = fd_worker d))"
  have "?P V"
    using V(1)
  proof (rule fold_err_invariant)
    fix c A B
    assume c: "c \<in> set cs" "judge S get_ab ws req gmus c A = Inr B" "?P A"
    then obtain over e where o: "overcommit_of S get_ab c ws req (utilization_for gmus (fd_gpu_type c)) = Inr (over, e)"
      "B = (if \<not> over then A\<lparr>vd_fitting := vd_fitting A @ [c\<lparr>fd_overcommit := over\<rparr>]\<rparr>
            else if e \<ge> vd_max A then A\<lparr>vd_max := e, vd_best := Some (c\<lparr>fd_overcommit := over\<rparr>)\<rparr> else A)"
      by (auto simp: judge_def bind_err_eq_Inr Let_def)
    have "parts (c\<lparr>fd_overcommit := b\<rparr>) = parts c" for b by (simp add: parts_def)
    then show "?P B" using o c(1,3) by (cases over) auto
  qed simp
  then show "\<forall>c \<in> set fitting. \<not> fd_overcommit c \<and> (\<exists>d \<in> set cs. parts c = parts d \<and> fd_worker c = fd_worker d \<and> fd_gpu_type c = fd_gpu_type d \<and>
      (\<exists>e. overcommit_of S get_ab d ws req (utilization_for gmus (fd_gpu_type d)) = Inr (False, e)))"
    and "best = Some c \<Longrightarrow> fd_overcommit c \<and> (\<exists>d \<in> set cs. parts c = parts d \<and> fd_worker c = fd_worker d)" using V(2,3) by (auto split: if_splits)
qed

lemma find_manual_cases:
  assumes "find_manual_gpu_selection_candidates S ws gmus req = Inr (cs, evs)" and "c \<in> set cs"
  obtains by_type ds fitting best where
    "sort_selected_workers_by_gpu_type_and_resource ws (fs_selected S) (allocatable_of S ws) = Inr by_type"
    "manual_candidates S (allocatable_of S ws) gmus req by_type = Inr ds"
    "get_non_overcommit_and_best_overcommit_candidates S (allocatable_of S ws) ds ws req gmus = Inr (fitting, best)"
    "fitting \<noteq> [] \<and> cs = fitting \<or> fitting = [] \<and> fs_replicas S \<le> 1 \<and> best = Some c \<and> cs = [c]"
  using assms
  by (auto simp: find_manual_gpu_selection_candidates_def Let_def bind_err_eq_Inr split: if_splits option.splits)

lemma distinct_map_inj: "distinct (map f xs) \<Longrightarrow> x \<in> set xs \<Longrightarrow> y \<in> set xs \<Longrightarrow> f x = f y \<Longrightarrow> x = y"
  by (auto simp: distinct_map dest: inj_onD)

lemma allocatable_of_worker:
  assumes "distinct (map w_id ws)" and "w \<in> set ws"
  shows "allocatable_of S ws w t = get_worker_allocatable_resource (fs_instances S) w t"
proof -
  obtain v where "find (\<lambda>v. w_id v = w_id w) ws = Some v"
    using assms(2) by (metis (mono_tags) find_None_iff2 not_None_eq)
  moreover from this have "v = w" using assms distinct_map_inj [OF assms(1)] by (auto simp: find_Some_iff)
  ultimately show ?thesis by (simp add: allocatable_of_def)
qed

lemma provided_claim_fits:
  assumes dn: "distinct (map w_name ws)" and di: "distinct (map w_id ws)"
    and nw: "narrows t v w" "w \<in> set ws" and gmu: "0 < gmu"
    and cl: "get_worker_resource_claim v idxs gmu req t = Inr d" "dget d i = Some x"
    and pr: "provides (allocatable_of S ws) ws gmu (t, w_name v, i)"
  shows "\<exists>g \<in> set (worker_gpus w). matching t i g \<and> x + held_vram (fs_instances S) w t i + reserve w \<le> total_of g"
proof -
  from pr obtain w' ab tot a where p: "dget (worker_set ws) (w_name v) = Some w'" "allocatable_of S ws w' t = Inr ab"
    "dget (vram_totals w' t) i = Some tot" "tot \<noteq> 0" "dget (ab_vram ab) (Some i) = Some a" "gmu \<le> rat_of_int a / rat_of_int tot"
    by (auto simp: provides_def)
  have "w' = w" using worker_set_Some [OF p(1)] nw distinct_map_inj [OF dn] by (auto simp: narrows_def)
  then have ab: "get_worker_allocatable_resource (fs_instances S) w t = Inr ab" using p(2) allocatable_of_worker [OF di nw(2)] by simp
  have x: "x = py_trunc (rat_of_int tot * gmu)"
    using claim_by_utilization(2) [OF cl(1) gmu cl(2)] narrows_totals [OF nw(1)] p(3) \<open>w' = w\<close> by fastforce
  note dev = allocatable_device [OF ab p(5)]
  have "x \<le> a" "0 < a" using trunc_share_le [OF gmu _ p(4,6)] dev x by auto
  then show ?thesis using dev by fastforce
qed

lemma manual_fits:
  assumes "distinct (map w_name ws)" and "distinct (map w_id ws)" and "md_gpu_ids (fs_model S) \<noteq> []"
    and "find_manual_gpu_selection_candidates S ws gmus req = Inr (cs, evs)" and "c \<in> set cs" and "\<not> fd_overcommit c"
    and "0 < utilization_for gmus (fd_gpu_type c)"
  shows "rq_vram req \<le> sum_list (map part_vram (parts c)) \<and>
    (\<forall>(n, t, idxs, claim) \<in> set (parts c). \<forall>i v. dget (fc_vram claim) i = Some v \<longrightarrow>
       (\<exists>w \<in> set ws. w_name w = n \<and>
          (\<exists>g \<in> set (worker_gpus w). matching t i g \<and> v + held_vram (fs_instances S) w t i + reserve w \<le> total_of g)))"
proof -
  let ?ab = "allocatable_of S ws"
  from assms(4,5) obtain by_type ds fitting best where f:
    "sort_selected_workers_by_gpu_type_and_resource ws (fs_selected S) ?ab = Inr by_type"
    "manual_candidates S ?ab gmus req by_type = Inr ds"
    "get_non_overcommit_and_best_overcommit_candidates S ?ab ds ws req gmus = Inr (fitting, best)"
    "fitting \<noteq> [] \<and> cs = fitting \<or> fitting = [] \<and> fs_replicas S \<le> 1 \<and> best = Some c \<and> cs = [c]"
    by (rule find_manual_cases)
  have "c \<in> set fitting" using f(4) assms(5,6) judged(2) [OF f(3)] by blast
  then obtain d e where d: "d \<in> set ds" "parts c = parts d" "fd_gpu_type c = fd_gpu_type d"
    "overcommit_of S ?ab d ws req (utilization_for gmus (fd_gpu_type d)) = Inr (False, e)"
    using judged(1) [OF f(3)] by blast
  obtain T where T: "tally_selected S ?ab ws (utilization_for gmus (fd_gpu_type d)) = Inr T"
    "\<forall>(n, t, idxs, claim) \<in> set (parts d). \<forall>i \<in> set idxs. (t, n, i) \<in> set (ta_satisfied T)" "rq_vram req \<le> sum_list (map part_vram (parts d))"
    using d(4) assms(3) by (rule not_overcommit)
  have "\<exists>w \<in> set ws. w_name w = n \<and> (\<exists>g \<in> set (worker_gpus w). matching t i g \<and> v + held_vram (fs_instances S) w t i + reserve w \<le> total_of g)"
    if q: "(n, t, idxs, claim) \<in> set (parts d)" and i: "dget (fc_vram claim) i = Some v" for n t idxs claim i v
  proof -
    have cl: "claimed S gmus req by_type (n, t, idxs, claim)" and t: "t = fd_gpu_type d" using manual_parts [OF f(2) d(1)] q by fastforce+
    then obtain vs u where u: "(t, vs) \<in> set by_type" "u \<in> set vs" "w_name u = n"
      "get_worker_resource_claim u idxs (utilization_for gmus t) req t = Inr (fc_vram claim)" by (auto simp: claimed_def)
    obtain w where w: "w \<in> set ws" "narrows t u w" using sort_selected_narrow [OF f(1) u(1,2)] by blast
    have gmu: "0 < utilization_for gmus t" using assms(7) d(3) t by simp
    have "i \<in> set idxs" using claim_by_utilization(1) [OF u(4) gmu i] .
    then have "(t, n, i) \<in> set (ta_satisfied T)" using T(2) q by blast
    then have "provides ?ab ws (utilization_for gmus t) (t, w_name u, i)" using tally_provides [OF T(1)] gmu t u(3) by auto
    from provided_claim_fits [OF assms(1,2) w(2,1) gmu u(4) i this] show ?thesis using w u(3) by (auto simp: narrows_def)
  qed
  then show ?thesis using T(3) d(2) by auto
qed


definition gpu_host :: "int \<Rightarrow> string \<Rightarrow> worker" where
  "gpu_host i n = \<lparr>w_id = i, w_name = n, w_state = WORKER_READY,
     w_status = Some \<lparr>st_memory = Some \<lparr>mem_total = Some 64, mem_allocated = None, mem_unified = False\<rparr>,
                      st_gpus = Some [sample_gpu 0 ''cuda'' 100, sample_gpu 1 ''cuda'' 100]\<rparr>,
     w_reserved = Some \<lparr>rs_ram = Some 2, rs_vram = Some 1\<rparr>\<rparr>"

definition plain_parameters :: model_parameters where
  "plain_parameters = \<lparr>mp_num_attention_heads = Some 32, mp_num_key_value_heads = 8, mp_q_lora_rank = None, mp_kv_lora_rank = None,
     mp_vocab_size = None, mp_vision_heads = None, mp_architectures = []\<rparr>"

definition new_selector :: "string list \<Rightarrow> model_instance list \<Rightarrow> fit_selector" where
  "new_selector ids mis = \<lparr>fs_model = \<lparr>md_env = [], md_gpu_ids = ids, md_categories = [LLM], md_source = HUGGING_FACE, md_has_lora = False, md_kv_cache = None\<rparr>,
     fs_gpus_per_replica = None, fs_backend = Some VLLM, fs_replicas = 1, fs_across_workers = True, fs_instances = mis,
     fs_models = [(1, Some VLLM)], fs_params = plain_parameters, fs_gpu_count = 0, fs_selected_workers = None, fs_selected = []\<rparr>"

definition three_gpus :: fit_selector where
  "three_gpus = (case set_gpu_count (Some 3) (new_selector [''a:cuda:0'', ''a:cuda:1'', ''b:cuda:0''] []) of Inr S \<Rightarrow> S | Inl _ \<Rightarrow> new_selector [] [])"

definition three_candidates :: "fit_candidate list" where
  "three_candidates = (case find_manual_gpu_selection_candidates three_gpus [gpu_host 1 ''a'', gpu_host 2 ''b''] [(''*'', 9 / 10)] \<lparr>rq_ram = 0, rq_vram = 200\<rparr>
     of Inr (cs, _) \<Rightarrow> cs | Inl _ \<Rightarrow> [])"


end
