(* ===== verification/ManualSelection.thy ===== *)
theory ManualSelection
  imports Selector
begin

text \<open>
  Further facts about manual GPU selection: the cache of a selector is transparent, the GPUs picked on
  one worker, and that a selection is respected.
\<close>

section \<open>The remembered resources\<close>

definition cache_ok :: "fit_selector \<Rightarrow> worker list \<Rightarrow> allocatable_cache \<Rightarrow> bool" where
  "cache_ok S ws c \<longleftrightarrow>
     (\<forall>t i a. dget c (t, i) = Some a \<longrightarrow> (\<exists>w \<in> set ws. w_id w = i \<and> get_worker_allocatable_resource (fs_instances S) w t = Inr a))"

text \<open>Lookups through the cache, by the given workers or by copies of workers already asked for, return
  what \<open>allocatable_of\<close> says.\<close>

lemma cached_allocatable_exact:
  assumes "distinct (map w_id ws)" and "cache_ok S ws c" and "w \<in> set ws \<or> dget c (t, w_id w) \<noteq> None"
  shows "case cached_allocatable (fs_instances S) w t c of
    Inl e \<Rightarrow> allocatable_of S ws w t = Inl e
  | Inr (a, c') \<Rightarrow> allocatable_of S ws w t = Inr a \<and> cache_ok S ws c'"
proof (cases "dget c (t, w_id w)")
  case (Some a)
  then obtain v where "v \<in> set ws" "w_id v = w_id w" "get_worker_allocatable_resource (fs_instances S) v t = Inr a"
    using assms(2) [unfolded cache_ok_def, rule_format, OF Some] by blast
  moreover from this have "allocatable_of S ws w t = allocatable_of S ws v t"
    using allocatable_of_worker [OF assms(1)] by (simp add: allocatable_of_def split: option.splits) (metis (mono_tags) find_None_iff)
  ultimately show ?thesis using Some assms(2) allocatable_of_worker [OF assms(1)] by (simp add: cached_allocatable_def)
next
  case None
  then have w: "w \<in> set ws" using assms(3) by simp
  show ?thesis
    using None allocatable_of_worker [OF assms(1) w] assms(2) w
    by (auto simp: cached_allocatable_def bind_err_def cache_ok_def dict_simps split: sum.splits if_splits)
qed

section \<open>Which GPUs are picked\<close>

definition has_room :: "rat \<Rightarrow> allocatable \<Rightarrow> (int, int) dict \<Rightarrow> int \<Rightarrow> bool" where
  "has_room gmu ab totals i \<longleftrightarrow>
     (gmu > 0 \<longrightarrow> dget0 totals i > 0 \<and> rat_of_int (dget0 (ab_vram ab) (Some i)) / rat_of_int (dget0 totals i) \<ge> gmu)"

lemma pick_gpus_step:
  "pick_gpus n gmu ab totals (i # ixs) yes no =
     (let yes' = (if has_room gmu ab totals i then yes @ [i] else yes); no' = (if has_room gmu ab totals i then no else no @ [i])
      in if int (length yes') \<ge> n then (yes', no') else pick_gpus n gmu ab totals ixs yes' no')"
  by (simp add: has_room_def Let_def)

lemma pick_gpus_count:
  assumes "pick_gpus n gmu ab totals ixs yes no = (y, m)" and "int (length yes) < n"
  shows "int (length y) \<le> n \<and> set y \<union> set m \<subseteq> set yes \<union> set no \<union> set ixs \<and>
    (int (length y) = n \<or> length y + length m = length yes + length no + length ixs)"
  using assms
proof (induction ixs arbitrary: yes no)
  case (Cons i ixs)
  let ?yes = "if has_room gmu ab totals i then yes @ [i] else yes" and ?no = "if has_room gmu ab totals i then no else no @ [i]"
  show ?case
  proof (cases "int (length ?yes) \<ge> n")
    case True
    then show ?thesis using Cons.prems by (auto simp: pick_gpus_step Let_def simp del: pick_gpus.simps split: if_splits)
  next
    case False
    then have "pick_gpus n gmu ab totals ixs ?yes ?no = (y, m)" using Cons.prems(1) by (simp add: pick_gpus_step Let_def del: pick_gpus.simps)
    from Cons.IH [OF this] False show ?thesis by (auto split: if_splits)
  qed
qed simp

lemma pick_gpus_room:
  assumes "pick_gpus n gmu ab totals ixs yes no = (y, m)" and "int (length yes) < n"
  shows "(int (length y) = n \<or> (\<forall>i \<in> set ixs. has_room gmu ab totals i \<longrightarrow> i \<in> set y)) \<and> set yes \<subseteq> set y \<and>
    (\<forall>i \<in> set y. i \<in> set yes \<or> has_room gmu ab totals i)"
  using assms
proof (induction ixs arbitrary: yes no)
  case (Cons i ixs)
  let ?yes = "if has_room gmu ab totals i then yes @ [i] else yes" and ?no = "if has_room gmu ab totals i then no else no @ [i]"
  show ?case
  proof (cases "int (length ?yes) \<ge> n")
    case True
    then have room: "has_room gmu ab totals i" using Cons.prems(2) by (auto split: if_splits)
    then have "y = yes @ [i]" using Cons.prems(1) True by (simp add: pick_gpus_step Let_def del: pick_gpus.simps)
    then show ?thesis using room True Cons.prems(2) by auto
  next
    case False
    then have "pick_gpus n gmu ab totals ixs ?yes ?no = (y, m)" using Cons.prems(1) by (simp add: pick_gpus_step Let_def del: pick_gpus.simps)
    from Cons.IH [OF this] False
    have A: "int (length y) = n \<or> (\<forall>i \<in> set ixs. has_room gmu ab totals i \<longrightarrow> i \<in> set y)" and B: "set ?yes \<subseteq> set y"
      and C: "\<forall>j \<in> set y. j \<in> set ?yes \<or> has_room gmu ab totals j" by simp_all
    have "i \<in> set y" if "has_room gmu ab totals i" using B that by simp
    moreover have "set yes \<subseteq> set y" using B by (cases "has_room gmu ab totals i") simp_all
    moreover have "j \<in> set yes \<or> has_room gmu ab totals j" if "j \<in> set y" for j
      using C that by (cases "has_room gmu ab totals i") auto
    ultimately show ?thesis using A by (metis set_ConsD)
  qed
qed simp

lemma used_gpus_count:
  fixes gmu ab totals
  assumes "0 < n" and "n \<le> int (length ixs)"
  defines "used \<equiv> used_gpus n (pick_gpus n gmu ab totals ixs [] [])"
  shows "int (length used) = n" "set used \<subseteq> set ixs"
    "(\<forall>i \<in> set ixs. has_room gmu ab totals i \<longrightarrow> i \<in> set used) \<or> (\<forall>i \<in> set used. has_room gmu ab totals i)"
proof -
  obtain y m where ym: "pick_gpus n gmu ab totals ixs [] [] = (y, m)" by (cases "pick_gpus n gmu ab totals ixs [] []")
  note c = pick_gpus_count [OF ym] and r = pick_gpus_room [OF ym]
  show "int (length used) = n" "set used \<subseteq> set ixs" using c assms(1,2) by (auto simp: used_def used_gpus_def ym dest: in_set_takeD)
  show "(\<forall>i \<in> set ixs. has_room gmu ab totals i \<longrightarrow> i \<in> set used) \<or> (\<forall>i \<in> set used. has_room gmu ab totals i)"
    using r assms(1) by (cases "int (length y) = n") (simp_all add: used_def used_gpus_def ym)
qed

section \<open>A manual selection is respected\<close>

definition on_selected :: "fit_selector \<Rightarrow> part \<Rightarrow> bool" where
  "on_selected S p \<longleftrightarrow>
     (case p of (n, t, idxs, claim) \<Rightarrow> idxs \<noteq> [] \<longrightarrow> (\<exists>sel s. (t, sel) \<in> set (fs_selected S) \<and> dget sel n = Some s \<and> set idxs \<subseteq> set s))"

text \<open>The copies of workers come with devices of the selection; an index taken from their devices is a selected one.\<close>

definition devices_selected :: "fit_selector \<Rightarrow> string option \<Rightarrow> worker \<Rightarrow> bool" where
  "devices_selected S t v \<longleftrightarrow> (\<forall>i. Some i \<in> gpu_index ` set (worker_gpus v) \<longrightarrow>
     (\<exists>sel s. (t, sel) \<in> set (fs_selected S) \<and> dget sel (w_name v) = Some s \<and> i \<in> set s))"

lemma devices_selected_indexes:
  assumes ok: "dict_ok (fs_selected S)" and "devices_selected S t v" and "set (map Some idxs) \<subseteq> gpu_index ` set (worker_gpus v)"
  shows "on_selected S (w_name v, t, idxs, claim)"
proof (cases idxs)
  case (Cons i r)
  obtain sel s where sel: "(t, sel) \<in> set (fs_selected S)" "dget sel (w_name v) = Some s"
    using assms(2,3) unfolding Cons devices_selected_def by (metis image_eqI list.set_intros(1) list.set_map subsetD)
  have "i \<in> set s" if "i \<in> set idxs" for i
  proof -
    have "Some i \<in> gpu_index ` set (worker_gpus v)" using assms(3) that by auto
    then obtain sel' s' where "(t, sel') \<in> set (fs_selected S)" "dget sel' (w_name v) = Some s'" "i \<in> set s'"
      using assms(2) unfolding devices_selected_def by blast
    moreover have "sel' = sel" using eq_key_imp_eq_value [OF ok] calculation(1) sel(1) by blast
    ultimately show ?thesis using sel(2) by simp
  qed
  then show ?thesis using sel by (auto simp: on_selected_def)
qed (simp add: on_selected_def)

lemma sort_selected_devices:
  assumes "sort_selected_workers_by_gpu_type_and_resource ws (fs_selected S) get_ab = Inr d" and "(t, vs) \<in> set d" and "v \<in> set vs"
  shows "devices_selected S t v"
  using sort_selected_narrow [OF assms] unfolding devices_selected_def by fastforce

lemma subordinate_indexes:
  assumes "subordinate S n w idxs gmu req t = Inr su"
  shows "su_worker_name su = w_name w" "su_gpu_type su = t" "set (map Some (su_gpu_indexes su)) \<subseteq> gpu_index ` set (worker_gpus w)"
proof -
  obtain share order where o: "sort_gpu_indexes_by_allocatable_rate w (map (\<lambda>(i, v). (Some i, v)) share) t = Inr order"
    "int_indexes (take (nat (min (int (length idxs)) n)) order) = Inr (su_gpu_indexes su)"
    using assms by (auto simp: subordinate_def bind_err_eq_Inr)
  have "fst ` set (allocatable_rates gpus ab t) \<subseteq> gpu_index ` set gpus" for gpus ab
    unfolding allocatable_rates_def by (induction gpus rule: rev_induct) (auto simp: dict_simps)
  then have "set order \<subseteq> gpu_index ` set (worker_gpus w)"
    using o(1) by (fastforce simp: sort_gpu_indexes_by_allocatable_rate_def worker_gpus_def bind_err_eq_Inr attr_def operand_def Let_def split: option.splits)
  moreover have "map Some (su_gpu_indexes su) = take (nat (min (int (length idxs)) n)) order"
    using int_indexes_Some [OF o(2)] .
  ultimately show "set (map Some (su_gpu_indexes su)) \<subseteq> gpu_index ` set (worker_gpus w)" using set_take_subset by fastforce
qed (rule subordinate_part [OF assms])+

lemma subordinates_indexes:
  assumes "subordinates S main idxs gmu req t ws subs = Inr r" and "su \<in> set r"
  shows "su \<in> set subs \<or> (\<exists>w \<in> set ws. \<exists>n ixs. subordinate S n w ixs gmu req t = Inr su)"
  using assms
proof (induction ws arbitrary: subs)
  case (Cons w ws)
  have ind: "su \<in> set s \<or> (\<exists>w \<in> set (w # ws). \<exists>n ixs. subordinate S n w ixs gmu req t = Inr su)"
    if "subordinates S main idxs gmu req t ws s = Inr r" for s using Cons.IH [OF that Cons.prems(2)] by auto
  show ?case
  proof (cases "selected_indexes S t (w_name w)")
    case None
    then show ?thesis using Cons.prems(1) ind by simp
  next
    case (Some ixs)
    show ?thesis
    proof (cases "w_name w = main \<or> \<not> validate_distributed_limit_per_worker S w")
      case True
      then show ?thesis using Some Cons.prems(1) ind by auto
    next
      case False
      then obtain n x where x: "subordinate S n w ixs gmu req t = Inr x" and
        "subordinates S main idxs gmu req t ws (subs @ [x]) = Inr r \<or> r = subs @ [x]"
        using Some Cons.prems(1) by (auto simp: bind_err_eq_Inr split: if_splits)
      then show ?thesis using ind [of "subs @ [x]"] Cons.prems(2) by auto
    qed
  qed
qed simp

lemma from_worker_selected:
  assumes "from_worker S get_ab gmus req (t, vs) c" and "dict_ok (fs_selected S)" and "\<And>v. v \<in> set vs \<Longrightarrow> devices_selected S t v" and "0 < fs_gpu_count S"
  shows "fd_subs c = [] \<and> int (length (fd_gpu_indexes c)) = fs_gpu_count S \<and> (\<forall>p \<in> set (parts c). on_selected S p)"
proof -
  obtain v ixs cs where v: "v \<in> set vs" "c \<in> set cs" "set (map Some ixs) \<subseteq> gpu_index ` set (worker_gpus v)"
    "manual_select_single_worker_multi_gpu_candidates S get_ab v ixs (utilization_for gmus t) req t = Inr cs"
    using assms(1) by (auto simp: from_worker_def)
  then obtain ab where ab: "fs_gpu_count S \<le> int (length ixs)" "fd_worker c = v" "fd_gpu_type c = t" "fd_subs c = []"
    "fd_gpu_indexes c = used_gpus (fs_gpu_count S) (pick_gpus (fs_gpu_count S) (utilization_for gmus t) ab (vram_totals v t) ixs [] [])"
    by (auto simp: manual_select_single_worker_multi_gpu_candidates_def Let_def bind_err_eq_Inr split: if_splits)
  note u = used_gpus_count [OF assms(4) ab(1), of "utilization_for gmus t" ab "vram_totals v t", folded ab(5)]
  have "set (map Some (fd_gpu_indexes c)) \<subseteq> gpu_index ` set (worker_gpus v)" using u(2) v(3) by auto
  then have "on_selected S (w_name v, t, fd_gpu_indexes c, fd_claim c)"
    by (rule devices_selected_indexes [OF assms(2) assms(3) [OF v(1)]])
  then show ?thesis using ab u(1) by (simp add: parts_def)
qed

lemma multi_worker_selected:
  assumes "manual_select_multi_worker_multi_gpu_candidates S vs gmu req t = Inr cs" and "c \<in> set cs"
    and "dict_ok (fs_selected S)" and "\<And>v. v \<in> set vs \<Longrightarrow> devices_selected S t v"
  shows "fd_subs c \<noteq> [] \<and> (\<forall>p \<in> set (parts c). on_selected S p)"
proof -
  obtain claims subs where c: "fd_subs c \<noteq> []"
    "subordinates S (w_name (hd vs)) (items (selected_indexes S t (w_name (hd vs)))) gmu req t vs [] = Inr (fd_subs c)"
    "fd_worker c = hd vs" "fd_gpu_type c = t" "fd_gpu_indexes c = items (selected_indexes S t (w_name (hd vs)))"
    using assms(1,2) by (auto simp: manual_select_multi_worker_multi_gpu_candidates_def Let_def bind_err_eq_Inr split: if_splits)
  have "on_selected S (w_name (hd vs), t, fd_gpu_indexes c, fd_claim c)"
    by (auto simp: on_selected_def c(5) selected_indexes_def split: option.splits bind_splits dest: map_of_SomeD)
  moreover have "on_selected S (su_worker_name su, su_gpu_type su, su_gpu_indexes su, su_claim su)" if mem: "su \<in> set (fd_subs c)" for su
  proof -
    obtain w n ixs where w: "w \<in> set vs" "subordinate S n w ixs gmu req t = Inr su" using subordinates_indexes [OF c(2) mem] by auto
    note su = subordinate_indexes [OF w(2)]
    show ?thesis unfolding su(1,2) by (rule devices_selected_indexes [OF assms(3) assms(4) [OF w(1)] su(3)])
  qed
  ultimately show ?thesis using c(1,3,4) by (auto simp: parts_def)
qed

lemma manual_candidates_selected:
  assumes "manual_candidates S get_ab gmus req by_type = Inr cs" and "c \<in> set cs" and "dict_ok (fs_selected S)"
    and dev: "\<And>t vs v. (t, vs) \<in> set by_type \<Longrightarrow> v \<in> set vs \<Longrightarrow> devices_selected S t v"
  shows "(\<forall>p \<in> set (parts c). on_selected S p) \<and> (fd_subs c = [] \<longrightarrow> int (length (fd_gpu_indexes c)) = fs_gpu_count S)"
proof -
  have pos: "0 < fs_gpu_count S" using assms(1,2) by (auto simp: manual_candidates_def split: if_splits)
  consider "collect (single_gpu_candidates S get_ab gmus req) by_type [] = Inr cs"
    | "collect (multi_gpu_candidates S get_ab gmus req) by_type [] = Inr cs"
    | "collect (\<lambda>(t, ws). manual_select_multi_worker_multi_gpu_candidates S ws (utilization_for gmus t) req t) by_type [] = Inr cs"
    using assms(1,2) by (auto simp: manual_candidates_def bind_err_eq_Inr split: if_splits)
  then show ?thesis
  proof cases
    case 1
    obtain t vs where "(t, vs) \<in> set by_type" "from_worker S get_ab gmus req (t, vs) c"
      using collect_Nil_mem [OF 1 assms(2)] single_gpu_from by fast
    then show ?thesis using from_worker_selected [of S get_ab gmus req t vs c, OF _ assms(3) _ pos] dev by blast
  next
    case 2
    obtain t vs where "(t, vs) \<in> set by_type" "from_worker S get_ab gmus req (t, vs) c"
      using collect_Nil_mem [OF 2 assms(2)] multi_gpu_from by fast
    then show ?thesis using from_worker_selected [of S get_ab gmus req t vs c, OF _ assms(3) _ pos] dev by blast
  next
    case 3
    obtain t vs ys where "(t, vs) \<in> set by_type" "c \<in> set ys"
      "manual_select_multi_worker_multi_gpu_candidates S vs (utilization_for gmus t) req t = Inr ys"
      using collect_Nil_mem [OF 3 assms(2)] by auto
    then show ?thesis using multi_worker_selected [of S vs _ req t ys c, OF _ _ assms(3)] dev by blast
  qed
qed

lemma manual_worker:
  assumes "manual_candidates S get_ab gmus req by_type = Inr cs" and "c \<in> set cs"
  shows "\<exists>t vs. (t, vs) \<in> set by_type \<and> fd_worker c \<in> set vs"
proof -
  have one: "fd_worker c \<in> set (snd p)" if from_p: "from_worker S get_ab gmus req p c" for p
  proof -
    obtain v ixs ds where v: "v \<in> set (snd p)" "c \<in> set ds"
      "manual_select_single_worker_multi_gpu_candidates S get_ab v ixs (utilization_for gmus (fst p)) req (fst p) = Inr ds"
      using from_p unfolding from_worker_def by blast
    then have "fd_worker c = v"
      by (auto simp: manual_select_single_worker_multi_gpu_candidates_def Let_def bind_err_eq_Inr split: if_splits)
    then show ?thesis using v(1) by simp
  qed
  consider "collect (single_gpu_candidates S get_ab gmus req) by_type [] = Inr cs"
    | "collect (multi_gpu_candidates S get_ab gmus req) by_type [] = Inr cs"
    | "collect (\<lambda>(t, ws). manual_select_multi_worker_multi_gpu_candidates S ws (utilization_for gmus t) req t) by_type [] = Inr cs"
    using assms by (auto simp: manual_candidates_def bind_err_eq_Inr split: if_splits)
  then show ?thesis
  proof cases
    case 1
    then show ?thesis using collect_Nil_mem [OF 1 assms(2)] single_gpu_from one by (metis prod.collapse)
  next
    case 2
    then show ?thesis using collect_Nil_mem [OF 2 assms(2)] multi_gpu_from one by (metis prod.collapse)
  next
    case 3
    obtain t vs ys where t: "(t, vs) \<in> set by_type" "c \<in> set ys"
      "manual_select_multi_worker_multi_gpu_candidates S vs (utilization_for gmus t) req t = Inr ys"
      using collect_Nil_mem [OF 3 assms(2)] by auto
    then have "fd_worker c = hd vs" "2 \<le> length vs"
      by (auto simp: manual_select_multi_worker_multi_gpu_candidates_def Let_def bind_err_eq_Inr split: if_splits)
    then have "fd_worker c \<in> set vs" by (cases vs) auto
    then show ?thesis using t(1) by blast
  qed
qed

lemma parts_eq: "parts c = parts d \<Longrightarrow> (fd_subs c = [] \<longleftrightarrow> fd_subs d = []) \<and> fd_gpu_indexes c = fd_gpu_indexes d"
  by (auto simp: parts_def)


definition one_gpu :: fit_selector where
  "one_gpu = (case set_gpu_count None (new_selector [''b:cuda:1''] []) of Inr S \<Rightarrow> S | Inl _ \<Rightarrow> new_selector [] [])"


section \<open>What manual selection does not check\<close>

text \<open>A worker that already runs a distributed instance is passed over without replacement: three GPUs are asked for
  (and the world size of the model is three), and the candidate has two.\<close>

definition busy_instance :: model_instance where
  "busy_instance = \<lparr>mi_model_id = 1, mi_state = RUNNING, mi_worker_id = Some 9, mi_gpu_type = Some ''cuda'', mi_gpu_indexes = Some [0],
     mi_claim = None, mi_subs = Some [\<lparr>sw_worker_id = Some 3, sw_gpu_indexes = Some [1], sw_claim = None\<rparr>]\<rparr>"

lemma manual_selection_short:
  "\<exists>S. set_gpu_count (Some 3) (new_selector [''a:cuda:0'', ''b:cuda:0'', ''c:cuda:0''] [busy_instance]) = Inr S \<and> fs_gpu_count S = 3 \<and>
     (\<exists>c. find_manual_gpu_selection_candidates S [gpu_host 1 ''a'', gpu_host 2 ''b'', gpu_host 3 ''c''] [(''*'', 9 / 10)] \<lparr>rq_ram = 0, rq_vram = 150\<rparr> = Inr ([c], []) \<and>
        \<not> fd_overcommit c \<and> sum_list (map (\<lambda>(n, t, idxs, claim). length idxs) (parts c)) = 2)"
proof -
  have "(case set_gpu_count (Some 3) (new_selector [''a:cuda:0'', ''b:cuda:0'', ''c:cuda:0''] [busy_instance]) of
       Inl _ \<Rightarrow> False
     | Inr S \<Rightarrow> fs_gpu_count S = 3 \<and>
         (case find_manual_gpu_selection_candidates S [gpu_host 1 ''a'', gpu_host 2 ''b'', gpu_host 3 ''c''] [(''*'', 9 / 10)] \<lparr>rq_ram = 0, rq_vram = 150\<rparr> of
            Inr ([c], []) \<Rightarrow> \<not> fd_overcommit c \<and> sum_list (map (\<lambda>(n, t, idxs, claim). length idxs) (parts c)) = 2 | _ \<Rightarrow> False))"
    by code_simp
  then show ?thesis by (auto split: sum.splits prod.splits list.splits)
qed

text \<open>The addresses of a worker are those of all its GPUs of the type, not only of the ones asked for.\<close>

lemma addresses_ignore_indexes:
  assumes "w_status w = Some st" and "st_gpus st = Some gpus" and "t = None \<or> (\<forall>g \<in> set gpus. gpu_type g = t)"
  shows "get_worker_gpu_addresses (Some ASCEND_MINDIE) w idxs t = Inr (map gpu_address gpus)"
proof -
  have "filter (\<lambda>g. \<not> (gpu_index g \<notin> Some ` set idxs \<and> t \<noteq> None \<and> gpu_type g \<noteq> t)) gpus = gpus"
    using assms(3) by (auto simp: filter_id_conv)
  then show ?thesis using assms(1,2) by (simp add: get_worker_gpu_addresses_def devices_def attr_def operand_def)
qed

text \<open>A selected GPU that reports a total of 0 bytes ends the check for overcommitment with a division by zero.\<close>

lemma tally_zero_total:
  assumes "gmu \<noteq> 0" and "dget totals i = Some 0" and "dget (ab_vram ab) (Some i) = Some a"
  shows "tally_gpu gmu ab totals t n i T = Inl ZeroDivisionError"
  using assms by (simp add: tally_gpu_def Let_def)

section \<open>Compute capabilities\<close>

text \<open>The comparison is a total preorder: invalid versions are below every valid one and equal to each other.\<close>

lemma compare_compute_capability_antisym: "compare_compute_capability b a = - compare_compute_capability a b"
  by (auto simp: compare_compute_capability_def split: option.splits)

lemma compare_compute_capability_trans:
  "compare_compute_capability a b \<ge> 0 \<Longrightarrow> compare_compute_capability b c \<ge> 0 \<Longrightarrow> compare_compute_capability a c \<ge> 0"
  by (auto simp: compare_compute_capability_def split: option.splits if_splits)

end
