(* ===== verification/VllmSelector.thy ===== *)
theory VllmSelector
  imports ManualSelection
begin

text \<open>
  The candidate selector of vLLM (\<^verbatim>\<open>policies/candidate_selectors/vllm_resource_fit_selector.py\<close>): one GPU, several GPUs
  of one worker, several workers, and the order in which the searches are tried. The memory claims
  and the parameters of the model are fields of the selector; messages are left out.
\<close>

record vllm_selector =
  vl_base :: fit_selector
  vl_utilization :: rat
  vl_vram_claim :: int
  vl_ram_claim :: int
  vl_parameters :: "string option list option"
  vl_version :: "string option"
  vl_before_0_18 :: "string \<Rightarrow> bool option"

section \<open>Settings\<close>

definition should_check_vision_tp_divisibility :: "vllm_selector \<Rightarrow> py_error + bool" where
  "should_check_vision_tp_divisibility V =
     (case vl_parameters V of
        None \<Rightarrow> Inr True
      | Some ps \<Rightarrow> if ps = [] then Inr True
                   else bind_err (read_param (find_bool_parameter (Some ps) [''language-model-only''])) (\<lambda>b. Inr (\<not> b)))"

definition disable_gpu_memory_utilization :: "category list \<Rightarrow> string list \<Rightarrow> bool" where
  "disable_gpu_memory_utilization cats architectures =
     (if cats = [] then False
      else if LLM \<in> set cats \<or> SPEECH_TO_TEXT \<in> set cats then False
      else \<not> list_ex (\<lambda>a. a \<in> {''Qwen3ForCausalLM'', ''Qwen3ForSequenceClassification'', ''Qwen3VLForConditionalGeneration''}) architectures)"

text \<open>\<open>_set_gpu_memory_utilization\<close>; \<open>to_float\<close> is \<open>float(gmu)\<close>, \<open>None\<close> when it raises.\<close>

definition set_gpu_memory_utilization :: "(string \<Rightarrow> rat option) \<Rightarrow> vllm_selector \<Rightarrow> py_error + vllm_selector" where
  "set_gpu_memory_utilization to_float V =
     (let base = (if disable_gpu_memory_utilization (md_categories (fs_model (vl_base V))) (mp_architectures (fs_params (vl_base V))) then 0 else 9 / 10)
      in bind_err (read_param (find_parameter (vl_parameters V) [''gpu-memory-utilization''])) (\<lambda>v.
           case v of
             None \<Rightarrow> Inr (V\<lparr>vl_utilization := base\<rparr>)
           | Some s \<Rightarrow> if s = [] then Inr (V\<lparr>vl_utilization := base\<rparr>)
                       else (case to_float s of None \<Rightarrow> Inl ValueErr | Some u \<Rightarrow> Inr (V\<lparr>vl_utilization := u\<rparr>))))"

definition divides_or_unset :: "int \<Rightarrow> int option \<Rightarrow> bool" where
  "divides_or_unset tp n \<longleftrightarrow> or0 n = 0 \<or> or0 n mod tp = 0"

definition is_tp_size_divisible :: "vllm_selector \<Rightarrow> int \<Rightarrow> py_error + bool" where
  "is_tp_size_divisible V tp =
     (let p = fs_params (vl_base V)
      in if tp = 0 then Inr False
         else if \<not> divides_or_unset tp (mp_num_attention_heads p) then Inr False
         else bind_err (should_check_vision_tp_divisibility V) (\<lambda>vision.
           if vision \<and> \<not> divides_or_unset tp (mp_vision_heads p) then Inr False
           else Inr (divides_or_unset tp (mp_vocab_size p))))"

text \<open>Which of the three numbers is named by the message; no message for a size of 0 or \<open>None\<close>.\<close>

datatype divisibility_message = AttentionHeads | VisionHeads | VocabSize

definition check_tp_size_divisibility :: "vllm_selector \<Rightarrow> int option \<Rightarrow> py_error + divisibility_message option" where
  "check_tp_size_divisibility V tp =
     (let p = fs_params (vl_base V)
      in if or0 tp = 0 then Inr None
         else if \<not> divides_or_unset (or0 tp) (mp_num_attention_heads p) then Inr (Some AttentionHeads)
         else bind_err (should_check_vision_tp_divisibility V) (\<lambda>vision.
           if vision \<and> \<not> divides_or_unset (or0 tp) (mp_vision_heads p) then Inr (Some VisionHeads)
           else if \<not> divides_or_unset (or0 tp) (mp_vocab_size p) then Inr (Some VocabSize)
           else Inr None))"

definition validate_mp_multinode_arguments :: "vllm_selector \<Rightarrow> py_error + unit" where
  "validate_mp_multinode_arguments V =
     bind_err (read_param (find_int_parameter (vl_parameters V) [''data-parallel-size'', ''dp''])) (\<lambda>dp.
     bind_err (read_param (find_int_parameter (vl_parameters V) [''data-parallel-size-local'', ''dpl''])) (\<lambda>dpl.
       case (dp, dpl) of
         (Some n, Some l) \<Rightarrow> if l = 0 then Inl ZeroDivisionError else if n mod l \<noteq> 0 then Inl ValueErr else Inr ()
       | _ \<Rightarrow> Inr ()))"

definition validate_arguments :: "vllm_selector \<Rightarrow> py_error + unit" where
  "validate_arguments V =
     bind_err (read_param (find_int_parameter (vl_parameters V) [''tensor-parallel-size'', ''tp''])) (\<lambda>tp.
     bind_err (check_tp_size_divisibility V tp) (\<lambda>msg.
       if msg \<noteq> None then Inl ValueErr
       else bind_err (read_param (resolve_executor_backend (vl_before_0_18 V) (vl_parameters V) (vl_version V))) (\<lambda>e.
         if e = Mp then validate_mp_multinode_arguments V else Inr ())))"

section \<open>Workers by GPU type\<close>

text \<open>
  The workers as references with one status object each, grouped, and read back: all copies of a worker,
  and the worker itself, have the devices its status object ends up with.
\<close>

definition worker_refs :: "worker list \<Rightarrow> worker_ref list" where
  "worker_refs ws = map (\<lambda>i. \<lparr>wr_id = int i, wr_status = map_option (\<lambda>_. i) (w_status (ws ! i))\<rparr>) [0..<length ws]"

definition with_gpus :: "gpu_device list \<Rightarrow> worker \<Rightarrow> worker" where
  "with_gpus gpus w = (if gpus = [] then w else w\<lparr>w_status := map_option (\<lambda>st. st\<lparr>st_gpus := Some gpus\<rparr>) (w_status w)\<rparr>)"

definition read_ref :: "worker list \<Rightarrow> status_store \<Rightarrow> worker_ref \<Rightarrow> worker" where
  "read_ref ws st r = with_gpus (st (nat (wr_id r))) (ws ! nat (wr_id r))"

definition regroup :: "worker list \<Rightarrow> worker list \<times> (string option, worker list) dict" where
  "regroup ws =
     (let (st, d) = group_workers_by_gpu_type (worker_refs ws) (\<lambda>a. worker_gpus (ws ! a))
      in (map (read_ref ws st) (worker_refs ws), map (\<lambda>(t, rs). (t, map (read_ref ws st) rs)) d))"

section \<open>One GPU\<close>

text \<open>\<open>gpu.memory.total\<close> in a division: no memory is an \<open>AttributeError\<close>, no total a \<open>TypeError\<close>, 0 a \<open>ZeroDivisionError\<close>.\<close>

definition divisor :: "gpu_device \<Rightarrow> py_error + int" where
  "divisor g = bind_err (attr (gpu_memory g)) (\<lambda>m. bind_err (operand (mem_total m)) (\<lambda>tot. if tot = 0 then Inl ZeroDivisionError else Inr tot))"

text \<open>The schema of a claim has integers as keys.\<close>

definition int_keys :: "(int option, int) dict \<Rightarrow> py_error + (int, int) dict" where
  "int_keys d = bind_err (int_indexes (dkeys d)) (\<lambda>ks. Inr (zip ks (dvals d)))"

definition auto_claim :: "vllm_selector \<Rightarrow> (int, int) dict \<Rightarrow> fit_claim" where
  "auto_claim V d = \<lparr>fc_vram = d, fc_ram = get_computed_ram_claim (fs_model (vl_base V)) d None, fc_utilization = None\<rparr>"

definition single_gpu_candidate :: "vllm_selector \<Rightarrow> allocatable \<Rightarrow> worker \<Rightarrow> gpu_device \<Rightarrow> py_error + fit_candidate list" where
  "single_gpu_candidate V ab w g =
     bind_err (divisor g) (\<lambda>tot.
       let free = dget0 (ab_vram ab) (gpu_index g); u = vl_utilization V;
           exceeds_vram = (if u > 0 then rat_of_int (vl_vram_claim V) > rat_of_int tot * u else vl_vram_claim V > free);
           exceeds_utilization = (u > 0 \<and> rat_of_int free / rat_of_int tot < u)
       in if exceeds_vram \<or> exceeds_utilization then Inr []
          else bind_err (int_keys [(gpu_index g, if u > 0 then py_trunc (rat_of_int tot * u) else vl_vram_claim V)]) (\<lambda>d.
            Inr [\<lparr>fd_worker = w, fd_gpu_type = gpu_type g, fd_gpu_indexes = dkeys d, fd_gpu_addresses = [], fd_claim = auto_claim V d,
                  fd_subs = [], fd_overcommit = False\<rparr>]))"

definition find_on_single_gpu :: "vllm_selector \<Rightarrow> string option \<Rightarrow> worker \<Rightarrow> py_error + fit_candidate list" where
  "find_on_single_gpu V t w =
     (if worker_gpus w = [] then Inr []
      else bind_err (get_worker_allocatable_resource (fs_instances (vl_base V)) w t) (\<lambda>ab.
        if ram_not_enough (vl_ram_claim V) ab then Inr [] else collect (single_gpu_candidate V ab w) (worker_gpus w) []))"

definition has_status :: "worker \<Rightarrow> py_error + unit" where
  "has_status w = bind_err (attr (w_status w)) (\<lambda>_. Inr ())"

definition find_single_worker_single_gpu_full_offloading_candidates ::
  "vllm_selector \<Rightarrow> worker list \<Rightarrow> py_error + fit_candidate list \<times> worker list" where
  "find_single_worker_single_gpu_full_offloading_candidates V ws =
     (if fs_gpu_count (vl_base V) > 1 then Inr ([], ws)
      else let (ws', groups) = regroup ws
           in bind_err (collect (\<lambda>(t, vs). collect (\<lambda>w. bind_err (has_status w) (\<lambda>_. find_on_single_gpu V t w)) vs []) groups []) (\<lambda>cs.
              Inr (cs, ws')))"

section \<open>Several GPUs of one worker\<close>

definition enough_share :: "vllm_selector \<Rightarrow> allocatable \<Rightarrow> gpu_device \<Rightarrow> py_error + gpu_device list" where
  "enough_share V ab g =
     (case Option.bind (gpu_memory g) mem_total of
        None \<Rightarrow> Inr []
      | Some tot \<Rightarrow>
          if tot = 0 then Inl ZeroDivisionError
          else Inr (if rat_of_int (dget0 (ab_vram ab) (gpu_index g)) / rat_of_int tot > vl_utilization V then [g] else []))"

text \<open>The loop that adds GPUs in order of free memory; \<open>None\<close>: no candidate.\<close>

fun grow_gpus ::
  "vllm_selector \<Rightarrow> allocatable \<Rightarrow> gpu_device list \<Rightarrow> gpu_device list \<Rightarrow> (int option, int) dict \<Rightarrow> int \<Rightarrow>
   py_error + (gpu_device list \<times> (int option, int) dict) option" where
  "grow_gpus V ab [] used d vsum = Inr None"
| "grow_gpus V ab (g # gs) used d vsum =
     (let claim = (if vl_utilization V > 0 then py_trunc (rat_of_int (total_of g) * vl_utilization V) else dget0 (ab_vram ab) (gpu_index g));
          used' = used @ [g]; d' = dput (gpu_index g) claim d; vsum' = vsum + claim; n = int (length used'); count = fs_gpu_count (vl_base V)
      in bind_err (is_tp_size_divisible V n) (\<lambda>divisible.
           if \<not> divisible then grow_gpus V ab gs used' d' vsum'
           else if count \<noteq> 0 \<and> n \<ge> count then Inr (if vsum' \<ge> vl_vram_claim V then Some (used', d') else None)
           else if count = 0 \<and> vsum' \<ge> vl_vram_claim V then Inr (Some (used', d'))
           else grow_gpus V ab gs used' d' vsum'))"

definition find_on_single_worker :: "vllm_selector \<Rightarrow> string option \<Rightarrow> worker \<Rightarrow> py_error + fit_candidate list" where
  "find_on_single_worker V t w =
     (if length (worker_gpus w) < 2 then Inr []
      else bind_err (get_worker_allocatable_resource (fs_instances (vl_base V)) w t) (\<lambda>ab.
        if ram_not_enough (vl_ram_claim V) ab then Inr []
        else bind_err (collect (enough_share V ab) (worker_gpus w) []) (\<lambda>gpus.
             bind_err (grow_gpus V ab (sort_desc (\<lambda>g. dget0 (ab_vram ab) (gpu_index g)) gpus) [] [] 0) (\<lambda>found.
               case found of
                 None \<Rightarrow> Inr []
               | Some (used, d) \<Rightarrow>
                   bind_err (int_indexes (map gpu_index used)) (\<lambda>ixs.
                   bind_err (int_keys d) (\<lambda>claims.
                     Inr [\<lparr>fd_worker = w, fd_gpu_type = t, fd_gpu_indexes = ixs, fd_gpu_addresses = [], fd_claim = auto_claim V claims,
                           fd_subs = [], fd_overcommit = False\<rparr>]))))))"

definition find_single_worker_multi_gpu_full_offloading_candidates ::
  "vllm_selector \<Rightarrow> worker list \<Rightarrow> py_error + fit_candidate list \<times> worker list" where
  "find_single_worker_multi_gpu_full_offloading_candidates V ws =
     (if fs_gpu_count (vl_base V) = 1 then Inr ([], ws)
      else let (ws', groups) = regroup ws
           in bind_err (collect (\<lambda>(t, vs). collect (\<lambda>w. bind_err (has_status w) (\<lambda>_. find_on_single_worker V t w)) vs []) groups []) (\<lambda>cs.
              Inr (let sizes = map (length \<circ> fd_gpu_indexes) cs in filter (\<lambda>c. length (fd_gpu_indexes c) = Min (set sizes)) cs, ws')))"

section \<open>Several workers\<close>

text \<open>The check over the devices stops at the first that is not good enough.\<close>

fun any_unfit :: "vllm_selector \<Rightarrow> allocatable \<Rightarrow> gpu_device list \<Rightarrow> py_error + bool" where
  "any_unfit V ab [] = Inr False"
| "any_unfit V ab (g # gs) =
     (case Option.bind (gpu_memory g) mem_total of
        None \<Rightarrow> Inr True
      | Some tot \<Rightarrow>
          if tot = 0 then Inl ZeroDivisionError
          else if rat_of_int (dget0 (ab_vram ab) (gpu_index g)) / rat_of_int tot < vl_utilization V then Inr True
          else any_unfit V ab gs)"

definition worker_claims :: "vllm_selector \<Rightarrow> worker \<Rightarrow> py_error + (int, int) dict" where
  "worker_claims V w =
     int_keys (fold (\<lambda>g. dput (gpu_index g) (py_trunc (rat_of_int (total_of g) * vl_utilization V))) (worker_gpus w) [])"

definition sub_of :: "vllm_selector \<Rightarrow> string option \<Rightarrow> worker \<Rightarrow> py_error + fit_sub" where
  "sub_of V t w =
     bind_err (worker_claims V w) (\<lambda>d. bind_err (int_indexes (map gpu_index (worker_gpus w))) (\<lambda>ixs.
       Inr \<lparr>su_worker_id = w_id w, su_worker_name = w_name w, su_total_gpus = length (worker_gpus w), su_gpu_type = t, su_gpu_indexes = ixs,
            su_gpu_addresses = [], su_claim = auto_claim V d\<rparr>))"

text \<open>The topology is checked in a \<open>try\<close> that catches \<open>ValueError\<close>.\<close>

definition accepts_topology :: "vllm_selector \<Rightarrow> worker list \<Rightarrow> py_error + bool" where
  "accepts_topology V ws =
     (if length ws \<le> 1 then Inr True
      else bind_err (read_param (resolve_executor_backend (vl_before_0_18 V) (vl_parameters V) (vl_version V))) (\<lambda>e.
        if e \<noteq> Mp then Inr True
        else case bind_err (parse_user_parallelism (vl_parameters V)) (\<lambda>u.
                    validate_multinode_topology (map (\<lambda>w. int (length (worker_gpus w))) ws) u) of
               Inr _ \<Rightarrow> Inr True
             | Inl ValueErr \<Rightarrow> Inr False
             | Inl e \<Rightarrow> Inl e))"

definition create_candidate :: "vllm_selector \<Rightarrow> worker list \<Rightarrow> py_error + fit_candidate option" where
  "create_candidate V ws =
     bind_err (accepts_topology V ws) (\<lambda>ok.
       if \<not> ok then Inr None
       else let main = hd ws; t = gpu_type (hd (worker_gpus main))
            in bind_err (worker_claims V main) (\<lambda>d.
               bind_err (int_indexes (map gpu_index (worker_gpus main))) (\<lambda>ixs.
               bind_err (collect (\<lambda>w. bind_err (sub_of V t w) (\<lambda>s. Inr [s])) (tl ws) []) (\<lambda>subs.
                 Inr (Some \<lparr>fd_worker = main, fd_gpu_type = t, fd_gpu_indexes = ixs, fd_gpu_addresses = [], fd_claim = auto_claim V d,
                            fd_subs = subs, fd_overcommit = False\<rparr>)))))"

definition offered :: "vllm_selector \<Rightarrow> worker \<Rightarrow> int" where
  "offered V w = sum_list (map (\<lambda>g. py_trunc (rat_of_int (total_of g) * (if vl_utilization V = 0 then 1 else vl_utilization V))) (worker_gpus w))"

fun combine_workers ::
  "vllm_selector \<Rightarrow> string option \<Rightarrow> int \<Rightarrow> worker list \<Rightarrow> worker list \<Rightarrow> int \<Rightarrow> py_error + fit_candidate option" where
  "combine_workers V t n [] chosen vsum = Inr None"
| "combine_workers V t n (w # ws) chosen vsum =
     bind_err (get_worker_allocatable_resource (fs_instances (vl_base V)) w t) (\<lambda>ab.
       if ram_not_enough (vl_ram_claim V) ab then combine_workers V t n ws chosen vsum
       else bind_err (any_unfit V ab (worker_gpus w)) (\<lambda>unfit.
         if unfit then combine_workers V t n ws chosen vsum
         else let chosen' = chosen @ [w]; vsum' = vsum + offered V w; count = fs_gpu_count (vl_base V); gsum = n * int (length chosen')
              in if count \<noteq> 0 \<and> gsum < count then combine_workers V t n ws chosen' vsum'
                 else if count \<noteq> 0 \<and> gsum > count then Inr None
                 else if vsum' \<ge> vl_vram_claim V then
                   bind_err (create_candidate V chosen') (\<lambda>c.
                     case c of None \<Rightarrow> combine_workers V t n ws chosen' vsum' | Some c \<Rightarrow> Inr (Some c))
                 else combine_workers V t n ws chosen' vsum'))"

definition by_gpu_count :: "worker list \<Rightarrow> (int, worker list) dict" where
  "by_gpu_count ws =
     fold (\<lambda>w d. if worker_gpus w = [] then d else dput (gpu_count w) (entry d (gpu_count w) @ [w]) d) ws []"

fun try_groups :: "vllm_selector \<Rightarrow> string option \<Rightarrow> (int, worker list) dict \<Rightarrow> py_error + fit_candidate list" where
  "try_groups V t [] = Inr []"
| "try_groups V t ((n, ws) # groups) =
     (if length ws < 2 then try_groups V t groups
      else bind_err (is_tp_size_divisible V n) (\<lambda>divisible.
        if \<not> divisible then try_groups V t groups
        else bind_err (combine_workers V t n ws [] 0) (\<lambda>c.
          case c of None \<Rightarrow> try_groups V t groups | Some c \<Rightarrow> Inr [c])))"

definition auto_select_multi_worker_multi_gpu_candidates ::
  "vllm_selector \<Rightarrow> string option \<Rightarrow> worker list \<Rightarrow> py_error + fit_candidate list" where
  "auto_select_multi_worker_multi_gpu_candidates V t ws =
     (if length ws < 2 then Inr [] else try_groups V t (by_gpu_count (sort_workers_by_gpu_count ws)))"

definition find_multi_worker_multi_gpu_candidates :: "vllm_selector \<Rightarrow> worker list \<Rightarrow> py_error + fit_candidate list \<times> worker list" where
  "find_multi_worker_multi_gpu_candidates V ws =
     (let (ws', groups) = regroup ws
      in bind_err (collect (\<lambda>(t, vs). auto_select_multi_worker_multi_gpu_candidates V t vs) groups []) (\<lambda>cs. Inr (cs, ws')))"

section \<open>Selecting candidates\<close>

text \<open>The searches in order; each works on the workers as the one before left them. A manual selection skips the
  others, and the search over workers needs the model's permission.\<close>

definition select_candidates :: "vllm_selector \<Rightarrow> worker list \<Rightarrow> py_error + fit_candidate list" where
  "select_candidates V ws =
     (let S = vl_base V
      in bind_err (find_manual_gpu_selection_candidates S ws [(''*'', vl_utilization V)] \<lparr>rq_ram = vl_ram_claim V, rq_vram = vl_vram_claim V\<rparr>) (\<lambda>(cs, _).
         if cs \<noteq> [] \<or> items (fs_selected_workers S) \<noteq> [] then Inr cs
         else bind_err (find_single_worker_single_gpu_full_offloading_candidates V ws) (\<lambda>(cs, ws1).
           if cs \<noteq> [] then Inr cs
           else bind_err (find_single_worker_multi_gpu_full_offloading_candidates V ws1) (\<lambda>(cs, ws2).
             if cs \<noteq> [] \<or> \<not> fs_across_workers S then Inr cs
             else bind_err (find_multi_worker_multi_gpu_candidates V ws2) (\<lambda>(cs, _). Inr cs)))))"

section \<open>Workers after grouping\<close>

definition derived :: "worker \<Rightarrow> worker \<Rightarrow> bool" where
  "derived v w \<longleftrightarrow> v\<lparr>w_status := w_status w\<rparr> = w \<and> set (worker_gpus v) \<subseteq> set (worker_gpus w)"

lemma derived_refl [simp]: "derived w w"
  by (simp add: derived_def)

lemma derived_trans:
  assumes "derived u v" and "derived v w"
  shows "derived u w"
proof -
  have "u\<lparr>w_status := w_status w\<rparr> = u\<lparr>w_status := w_status v\<rparr>\<lparr>w_status := w_status w\<rparr>" by simp
  then show ?thesis using assms unfolding derived_def by (metis subset_trans)
qed

lemma derived_fields: "derived v w \<Longrightarrow> w_id v = w_id w \<and> w_name v = w_name w \<and> reserve v = reserve w \<and> held_vram mis v t i = held_vram mis w t i"
  unfolding derived_def reserve_def held_vram_def
  by (metis worker.ext_inject worker.surjective worker.update_convs(4) worker.simps(1,2,5))

lemma entry_sub: "(\<And>k xs. (k, xs) \<in> set d \<Longrightarrow> set xs \<subseteq> A) \<Longrightarrow> set (entry d t) \<subseteq> A"
  by (cases "dget d t") (auto simp: entry_def dest: dget_mem)

lemma gpus_by_type_sub:
  assumes "(t, gs) \<in> set (gpus_by_type gpus)"
  shows "set gs \<subseteq> set gpus"
  using assms unfolding gpus_by_type_def
proof (induction gpus arbitrary: t gs rule: rev_induct)
  case (snoc g gpus)
  let ?d = "fold (\<lambda>g d. dput (gpu_type g) (entry d (gpu_type g) @ [g]) d) gpus []"
  have "(t, gs) = (gpu_type g, entry ?d (gpu_type g) @ [g]) \<or> (t, gs) \<in> set ?d"
    using snoc.prems set_dput_subset by fastforce
  moreover have "set (entry ?d k) \<subseteq> set gpus" for k
    using snoc.IH by (rule entry_sub)
  ultimately show ?case using snoc.IH by fastforce
qed simp

text \<open>Grouping only narrows status objects, and the groups hold only the given references.\<close>

definition refs_ok :: "worker_ref set \<Rightarrow> status_store \<Rightarrow> status_store \<times> (string option, worker_ref list) dict \<Rightarrow> bool" where
  "refs_ok R st0 sd \<longleftrightarrow> (\<forall>a. set (fst sd a) \<subseteq> set (st0 a)) \<and> (\<forall>t rs. (t, rs) \<in> set (snd sd) \<longrightarrow> set rs \<subseteq> R)"

lemma refs_ok_put:
  assumes "refs_ok R st0 (st, d)" and "w \<in> R" and "\<forall>a. set (st' a) \<subseteq> set (st0 a)"
  shows "refs_ok R st0 (st', dput t (entry d t @ [w]) d)"
proof -
  have "set (entry d t) \<subseteq> R" using assms(1) by (intro entry_sub) (auto simp: refs_ok_def)
  then have new: "set (entry d t @ [w]) \<subseteq> R" using assms(2) by simp
  have "set rs \<subseteq> R" if "(t', rs) \<in> set (dput t (entry d t @ [w]) d)" for t' rs
  proof -
    have "(t', rs) = (t, entry d t @ [w]) \<or> (t', rs) \<in> set d" using subsetD [OF set_dput_subset that] by blast
    moreover have "set rs \<subseteq> R" if "(t', rs) \<in> set d" using assms(1) that unfolding refs_ok_def snd_conv by blast
    ultimately show ?thesis using new by blast
  qed
  then show ?thesis using assms(3) by (simp add: refs_ok_def)
qed

lemma copy_per_type_ok:
  assumes "refs_ok R st0 sd" and "w \<in> R" and "\<And>t gs. (t, gs) \<in> set ts \<Longrightarrow> set gs \<subseteq> set (st0 a)"
  shows "refs_ok R st0 (copy_per_type w a ts sd)"
  using assms
proof (induction ts arbitrary: sd)
  case (Cons p ts)
  obtain t gs st d where p: "p = (t, gs)" "sd = (st, d)" by (cases p; cases sd)
  have "refs_ok R st0 (st(a := gs), dput t (entry d t @ [w]) d)"
    using Cons.prems(1,2) Cons.prems(3) [of t gs] by (intro refs_ok_put) (auto simp: p refs_ok_def)
  from Cons.IH [OF this Cons.prems(2)] Cons.prems(3) show ?case by (auto simp: p)
next
  case (Nil sd)
  then show ?case by (cases sd) simp
qed

lemma group_worker_ok:
  assumes "refs_ok R st0 sd" and "w \<in> R"
  shows "refs_ok R st0 (group_worker w sd)"
proof -
  obtain st d where sd: "sd = (st, d)" by (cases sd)
  have st: "set (st a) \<subseteq> set (st0 a)" for a using assms(1) by (simp add: sd refs_ok_def)
  have "refs_ok R st0 (copy_per_type w a (gpus_by_type (st a)) (st, d))" for a
    using assms gpus_by_type_sub st by (intro copy_per_type_ok) (auto simp: sd, blast)
  then show ?thesis using refs_ok_put [OF assms(1) [unfolded sd] assms(2), of st] st
    by (auto simp: group_worker_def sd split: option.splits)
qed

lemma grouped_ok: "refs_ok (set rs) st (group_workers_by_gpu_type rs st)"
proof -
  have "refs_ok (set rs) st (fold group_worker ws sd)" if "refs_ok (set rs) st sd" "set ws \<subseteq> set rs" for ws sd
    using that by (induction ws arbitrary: sd) (simp_all add: group_worker_ok)
  moreover have "refs_ok (set rs) st (st, [])" by (simp add: refs_ok_def)
  ultimately show ?thesis unfolding group_workers_by_gpu_type_def by blast
qed

lemma with_gpus_derived: "set gpus \<subseteq> set (worker_gpus w) \<Longrightarrow> derived (with_gpus gpus w) w"
  by (cases "w_status w") (auto simp: derived_def with_gpus_def worker_gpus_def)

lemma regroup_derived:
  assumes "regroup ws = (ws', groups)"
  shows "(\<forall>v \<in> set ws'. \<exists>w \<in> set ws. derived v w) \<and> (\<forall>(t, vs) \<in> set groups. \<forall>v \<in> set vs. \<exists>w \<in> set ws. derived v w)"
proof -
  obtain st d where g: "group_workers_by_gpu_type (worker_refs ws) (\<lambda>a. worker_gpus (ws ! a)) = (st, d)" by force
  have ok: "refs_ok (set (worker_refs ws)) (\<lambda>a. worker_gpus (ws ! a)) (st, d)" using grouped_ok [of "worker_refs ws"] by (metis g)
  have ref: "\<exists>w \<in> set ws. derived (read_ref ws st r) w" if r: "r \<in> set (worker_refs ws)" for r
  proof -
    obtain i where i: "i < length ws" "wr_id r = int i" using r by (auto simp: worker_refs_def)
    then have "derived (read_ref ws st r) (ws ! i)" using ok by (simp add: read_ref_def refs_ok_def with_gpus_derived)
    then show ?thesis using i(1) by (meson nth_mem)
  qed
  have "ws' = map (read_ref ws st) (worker_refs ws)" "groups = map (\<lambda>(t, rs). (t, map (read_ref ws st) rs)) d"
    using assms by (simp_all add: regroup_def g)
  then show ?thesis using ref ok by (fastforce simp: refs_ok_def)
qed

section \<open>Candidates fit\<close>

definition fits_gpu :: "model_instance list \<Rightarrow> worker list \<Rightarrow> string \<Rightarrow> int \<Rightarrow> int \<Rightarrow> bool" where
  "fits_gpu mis ws n i x \<longleftrightarrow>
     (\<exists>w \<in> set ws. w_name w = n \<and> (\<exists>t. \<exists>g \<in> set (worker_gpus w). matching t i g \<and> x + held_vram mis w t i + reserve w \<le> total_of g))"

definition fits :: "model_instance list \<Rightarrow> worker list \<Rightarrow> fit_candidate \<Rightarrow> bool" where
  "fits mis ws c \<longleftrightarrow> (\<forall>(n, t, idxs, claim) \<in> set (parts c). \<forall>i x. dget (fc_vram claim) i = Some x \<longrightarrow> fits_gpu mis ws n i x)"

definition host_given :: "worker list \<Rightarrow> fit_candidate \<Rightarrow> bool" where
  "host_given ws c \<longleftrightarrow> (\<exists>w \<in> set ws. (fd_worker c)\<lparr>w_status := w_status w\<rparr> = w)"

lemma share_fits:
  assumes "get_worker_allocatable_resource mis v t = Inr ab" and "derived v w" and "w \<in> set ws" and "0 < u" and "tot \<noteq> 0"
    and "u \<le> rat_of_int (dget0 (ab_vram ab) (Some i)) / rat_of_int tot"
  shows "fits_gpu mis ws (w_name v) i (py_trunc (rat_of_int tot * u))"
proof -
  obtain a where a: "dget (ab_vram ab) (Some i) = Some a"
    using assms(4,6) by (cases "dget (ab_vram ab) (Some i)") (auto simp: dget0_def)
  note dev = allocatable_device [OF assms(1) a]
  have "py_trunc (rat_of_int tot * u) \<le> a" "0 < a" using trunc_share_le [OF assms(4) _ assms(5)] assms(6) dev a by (auto simp: dget0_def)
  then obtain g where "g \<in> set (worker_gpus v)" "matching t i g" "py_trunc (rat_of_int tot * u) + held_vram mis v t i + reserve v \<le> total_of g"
    using dev by fastforce
  moreover then have "g \<in> set (worker_gpus w)" using assms(2) by (auto simp: derived_def)
  ultimately have "w_name w = w_name v \<and> (\<exists>t. \<exists>g \<in> set (worker_gpus w). matching t i g \<and>
      py_trunc (rat_of_int tot * u) + held_vram mis w t i + reserve w \<le> total_of g)"
    using derived_fields [OF assms(2), of mis t i] by auto
  then show ?thesis using assms(3) unfolding fits_gpu_def by blast
qed

lemma int_keys_lookup:
  assumes "int_keys d = Inr d'"
  shows "dget d' i = dget d (Some i)"
proof -
  obtain ks where ks: "map Some ks = dkeys d" "d' = zip ks (dvals d)"
    using assms int_indexes_Some by (auto simp: int_keys_def bind_err_eq_Inr)
  have "dget (zip ks vs) i = dget (zip (map Some ks) vs) (Some i)" if "length vs = length ks" for ks :: "int list" and vs :: "int list"
    using that by (induction vs ks rule: list_induct2) auto
  moreover have "length ks = length d" using ks(1) by (metis length_map)
  ultimately show ?thesis by (simp add: ks zip_map_fst_snd)
qed

lemma divisor_Inr: "divisor g = Inr tot \<Longrightarrow> tot \<noteq> 0"
  by (auto simp: divisor_def attr_def operand_def bind_err_eq_Inr split: option.splits if_splits)

lemma fits_single_part:
  assumes "fd_worker c = v" and "fd_subs c = []" and "\<And>i x. dget (fc_vram (fd_claim c)) i = Some x \<Longrightarrow> fits_gpu mis ws (w_name v) i x"
  shows "fits mis ws c"
  using assms by (simp add: fits_def parts_def)

lemma single_gpu_fits:
  assumes "find_on_single_gpu V t v = Inr cs" and "c \<in> set cs" and "derived v w" and "w \<in> set ws" and "0 < vl_utilization V"
  shows "fits (fs_instances (vl_base V)) ws c \<and> fd_worker c = v \<and> \<not> fd_overcommit c"
proof -
  obtain ab where ab: "get_worker_allocatable_resource (fs_instances (vl_base V)) v t = Inr ab" "collect (single_gpu_candidate V ab v) (worker_gpus v) [] = Inr cs"
    using assms(1,2) by (auto simp: find_on_single_gpu_def bind_err_eq_Inr split: if_splits)
  obtain g ys where g: "single_gpu_candidate V ab v g = Inr ys" "c \<in> set ys" using collect_Nil_mem [OF ab(2) assms(2)] by blast
  then obtain tot d where d: "divisor g = Inr tot" "\<not> rat_of_int (dget0 (ab_vram ab) (gpu_index g)) / rat_of_int tot < vl_utilization V"
    "int_keys [(gpu_index g, py_trunc (rat_of_int tot * vl_utilization V))] = Inr d" "fd_worker c = v" "fd_subs c = []" "fc_vram (fd_claim c) = d" "\<not> fd_overcommit c"
    using assms(5) by (auto simp: single_gpu_candidate_def Let_def bind_err_eq_Inr auto_claim_def split: if_splits)
  have "fits_gpu (fs_instances (vl_base V)) ws (w_name v) i x" if "dget d i = Some x" for i x
  proof -
    have "gpu_index g = Some i" "x = py_trunc (rat_of_int tot * vl_utilization V)"
      using that int_keys_lookup [OF d(3), of i] by (auto split: if_splits)
    then show ?thesis using share_fits [OF ab(1) assms(3-5) divisor_Inr [OF d(1)], of i] d(2) by simp
  qed
  then show ?thesis using fits_single_part [of c v] d(4-7) by blast
qed

text \<open>Several GPUs of one worker: each has more than the share of its total free, and claims that share.\<close>

definition has_share :: "vllm_selector \<Rightarrow> allocatable \<Rightarrow> gpu_device \<Rightarrow> bool" where
  "has_share V ab g \<longleftrightarrow> total_of g \<noteq> 0 \<and> vl_utilization V \<le> rat_of_int (dget0 (ab_vram ab) (gpu_index g)) / rat_of_int (total_of g)"

definition claims_share :: "vllm_selector \<Rightarrow> allocatable \<Rightarrow> (int option, int) dict \<Rightarrow> bool" where
  "claims_share V ab d \<longleftrightarrow>
     (\<forall>k x. dget d k = Some x \<longrightarrow> (\<exists>g. has_share V ab g \<and> gpu_index g = k \<and> x = py_trunc (rat_of_int (total_of g) * vl_utilization V)))"

lemma enough_share_has_share:
  assumes "collect (enough_share V ab) gpus [] = Inr gs" and "g \<in> set gs"
  shows "has_share V ab g"
  using collect_Nil_mem [OF assms]
  by (auto simp: enough_share_def has_share_def total_of_def split: option.splits if_splits)

lemma claims_share_put:
  "claims_share V ab d \<Longrightarrow> has_share V ab g \<Longrightarrow> claims_share V ab (dput (gpu_index g) (py_trunc (rat_of_int (total_of g) * vl_utilization V)) d)"
  by (auto simp: claims_share_def dict_simps)

lemma grow_gpus_claims:
  assumes "grow_gpus V ab gs used d vsum = Inr (Some (used', d'))" and "\<forall>g \<in> set gs. has_share V ab g" and "claims_share V ab d" and "0 < vl_utilization V"
  shows "claims_share V ab d'"
  using assms(1-3)
proof (induction gs arbitrary: used d vsum)
  case (Cons g gs)
  let ?c = "py_trunc (rat_of_int (total_of g) * vl_utilization V)"
  have d1: "claims_share V ab (dput (gpu_index g) ?c d)" using Cons.prems(2,3) by (intro claims_share_put) simp_all
  have "d' = dput (gpu_index g) ?c d \<or> grow_gpus V ab gs (used @ [g]) (dput (gpu_index g) ?c d) (vsum + ?c) = Inr (Some (used', d'))"
    using Cons.prems(1) assms(4) by (auto simp: Let_def bind_err_eq_Inr split: if_splits)
  then show ?case using d1 Cons.IH Cons.prems(2) by auto
qed simp

lemma claims_share_fits:
  assumes "claims_share V ab d" and "int_keys d = Inr d'" and "get_worker_allocatable_resource mis v t = Inr ab" and "derived v w" and "w \<in> set ws"
    and "0 < vl_utilization V" and "dget d' i = Some x"
  shows "fits_gpu mis ws (w_name v) i x"
proof -
  obtain g where g: "has_share V ab g" "gpu_index g = Some i" "x = py_trunc (rat_of_int (total_of g) * vl_utilization V)"
    using assms(1,7) int_keys_lookup [OF assms(2), of i] by (auto simp: claims_share_def)
  then show ?thesis using share_fits [OF assms(3-6), of "total_of g" i] by (simp add: has_share_def)
qed

lemma single_worker_fits:
  assumes "find_on_single_worker V t v = Inr cs" and "c \<in> set cs" and "derived v w" and "w \<in> set ws" and "0 < vl_utilization V"
  shows "fits (fs_instances (vl_base V)) ws c \<and> fd_worker c = v \<and> \<not> fd_overcommit c"
proof -
  obtain ab gpus used d d' where p: "get_worker_allocatable_resource (fs_instances (vl_base V)) v t = Inr ab"
    "collect (enough_share V ab) (worker_gpus v) [] = Inr gpus"
    "grow_gpus V ab (sort_desc (\<lambda>g. dget0 (ab_vram ab) (gpu_index g)) gpus) [] [] 0 = Inr (Some (used, d))"
    "int_keys d = Inr d'" "fd_worker c = v" "fd_subs c = []" "fc_vram (fd_claim c) = d'" "\<not> fd_overcommit c"
    using assms(1,2) by (auto simp: find_on_single_worker_def bind_err_eq_Inr auto_claim_def split: if_splits option.splits)
  have "claims_share V ab d"
    using grow_gpus_claims [OF p(3) _ _ assms(5)] enough_share_has_share [OF p(2)] by (simp add: claims_share_def)
  from claims_share_fits [OF this p(4,1) assms(3-5)] show ?thesis using fits_single_part [of c v] p(5-8) by blast
qed

text \<open>Several workers: every GPU of every chosen worker has the share.\<close>

definition worker_ready :: "vllm_selector \<Rightarrow> string option \<Rightarrow> worker \<Rightarrow> bool" where
  "worker_ready V t v \<longleftrightarrow> (\<exists>ab. get_worker_allocatable_resource (fs_instances (vl_base V)) v t = Inr ab \<and> (\<forall>g \<in> set (worker_gpus v). has_share V ab g))"

lemma any_unfit_False: "any_unfit V ab gs = Inr False \<Longrightarrow> g \<in> set gs \<Longrightarrow> has_share V ab g"
  by (induction gs) (auto simp: has_share_def total_of_def split: option.splits if_splits)

lemma worker_claims_fit:
  assumes "worker_ready V t v" and "worker_claims V v = Inr d" and "derived v w" and "w \<in> set ws" and "0 < vl_utilization V" and "dget d i = Some x"
  shows "fits_gpu (fs_instances (vl_base V)) ws (w_name v) i x"
proof -
  obtain ab where ab: "get_worker_allocatable_resource (fs_instances (vl_base V)) v t = Inr ab" "\<forall>g \<in> set (worker_gpus v). has_share V ab g"
    using assms(1) by (auto simp: worker_ready_def)
  have "claims_share V ab (fold (\<lambda>g. dput (gpu_index g) (py_trunc (rat_of_int (total_of g) * vl_utilization V))) gs e)"
    if "claims_share V ab e" "\<forall>g \<in> set gs. has_share V ab g" for gs e
    using that by (induction gs arbitrary: e) (simp_all add: claims_share_put)
  moreover have "claims_share V ab []" by (simp add: claims_share_def)
  ultimately have "claims_share V ab (fold (\<lambda>g. dput (gpu_index g) (py_trunc (rat_of_int (total_of g) * vl_utilization V))) (worker_gpus v) [])"
    using ab(2) by blast
  then show ?thesis using assms(2) claims_share_fits [OF _ _ ab(1) assms(3-6)] by (simp add: worker_claims_def)
qed

lemma create_candidate_fits:
  assumes "create_candidate V vs = Inr (Some c)" and "vs \<noteq> []" and "\<forall>v \<in> set vs. worker_ready V t v \<and> (\<exists>w \<in> set ws. derived v w)" and "0 < vl_utilization V"
  shows "fits (fs_instances (vl_base V)) ws c \<and> fd_worker c \<in> set vs \<and> \<not> fd_overcommit c"
proof -
  let ?mis = "fs_instances (vl_base V)"
  obtain d where c: "worker_claims V (hd vs) = Inr d" "fd_worker c = hd vs" "fc_vram (fd_claim c) = d" "\<not> fd_overcommit c"
    "collect (\<lambda>w. bind_err (sub_of V (gpu_type (hd (worker_gpus (hd vs)))) w) (\<lambda>s. Inr [s])) (tl vs) [] = Inr (fd_subs c)"
    using assms(1) by (auto simp: create_candidate_def Let_def bind_err_eq_Inr auto_claim_def split: if_splits)
  have claim: "fits_gpu ?mis ws (w_name v) i x" if "v \<in> set vs" "worker_claims V v = Inr e" "dget e i = Some x" for v e i x
    using worker_claims_fit [OF _ that(2) _ _ assms(4) that(3)] assms(3) that(1) by blast
  have "fits_gpu ?mis ws (su_worker_name s) i x" if s: "s \<in> set (fd_subs c)" and x: "dget (fc_vram (su_claim s)) i = Some x" for s i x
  proof -
    obtain v where v: "v \<in> set (tl vs)" "sub_of V (gpu_type (hd (worker_gpus (hd vs)))) v = Inr s"
      using collect_Nil_mem [OF c(5) s] by (auto simp: bind_err_eq_Inr)
    then obtain e where "worker_claims V v = Inr e" "su_worker_name s = w_name v" "fc_vram (su_claim s) = e"
      by (auto simp: sub_of_def bind_err_eq_Inr auto_claim_def)
    then show ?thesis using claim [of v e i x] v(1) x by (simp add: list.set_sel(2) [OF assms(2)])
  qed
  then have "fits ?mis ws c" using claim [OF _ c(1)] assms(2) c(2,3) by (auto simp: fits_def parts_def)
  then show ?thesis using c(2,4) assms(2) by simp
qed

lemma combine_workers_fits:
  assumes "combine_workers V t n vs chosen vsum = Inr (Some c)" and "\<forall>v \<in> set chosen. worker_ready V t v"
    and "\<forall>v \<in> set (chosen @ vs). \<exists>w \<in> set ws. derived v w" and "0 < vl_utilization V"
  shows "fits (fs_instances (vl_base V)) ws c \<and> fd_worker c \<in> set (chosen @ vs) \<and> \<not> fd_overcommit c"
  using assms(1-3)
proof (induction vs arbitrary: chosen vsum)
  case (Cons v vs)
  obtain ab where ab: "get_worker_allocatable_resource (fs_instances (vl_base V)) v t = Inr ab" using Cons.prems(1) by (auto simp: bind_err_eq_Inr)
  have skip: ?case if "combine_workers V t n vs chosen vsum = Inr (Some c)" using Cons.IH [OF that Cons.prems(2)] Cons.prems(3) by auto
  have ready: "\<forall>u \<in> set (chosen @ [v]). worker_ready V t u" if "any_unfit V ab (worker_gpus v) = Inr False"
    using Cons.prems(2) ab any_unfit_False [OF that] by (auto simp: worker_ready_def)
  have go: ?case if "any_unfit V ab (worker_gpus v) = Inr False" "combine_workers V t n vs (chosen @ [v]) vsum' = Inr (Some c)" for vsum'
    using Cons.IH [OF that(2) ready [OF that(1)]] Cons.prems(3) by auto
  have new: ?case if "any_unfit V ab (worker_gpus v) = Inr False" "create_candidate V (chosen @ [v]) = Inr (Some c)"
    using create_candidate_fits [OF that(2), of t ws] ready [OF that(1)] Cons.prems(3) assms(4) by auto
  have "combine_workers V t n vs chosen vsum = Inr (Some c) \<or> any_unfit V ab (worker_gpus v) = Inr False \<and>
      ((\<exists>vsum'. combine_workers V t n vs (chosen @ [v]) vsum' = Inr (Some c)) \<or> create_candidate V (chosen @ [v]) = Inr (Some c))"
  proof (cases "ram_not_enough (vl_ram_claim V) ab \<or> any_unfit V ab (worker_gpus v) = Inr True")
    case True
    then show ?thesis using Cons.prems(1) by (auto simp: ab split: if_splits)
  next
    case False
    then have unfit: "any_unfit V ab (worker_gpus v) = Inr False" using Cons.prems(1) by (auto simp: ab bind_err_eq_Inr)
    show ?thesis
    proof (cases "create_candidate V (chosen @ [v]) = Inr (Some c)")
      case True
      then show ?thesis using unfit by blast
    next
      case no: False
      have "combine_workers V t n vs (chosen @ [v]) (vsum + offered V v) = Inr (Some c)"
        using Cons.prems(1) False no unfit
        by (simp add: ab Let_def bind_err_eq_Inr split: if_split_asm) (elim exE conjE, case_tac x, simp_all)
      then show ?thesis using unfit by blast
    qed
  qed
  then show ?case using skip go new by blast
qed simp

lemma by_gpu_count_mem:
  assumes "(n, vs) \<in> set (by_gpu_count ws)"
  shows "set vs \<subseteq> set ws"
  using assms unfolding by_gpu_count_def
proof (induction ws arbitrary: n vs rule: rev_induct)
  case (snoc w ws)
  let ?d = "fold (\<lambda>w d. if worker_gpus w = [] then d else dput (gpu_count w) (entry d (gpu_count w) @ [w]) d) ws []"
  have "(n, vs) = (gpu_count w, entry ?d (gpu_count w) @ [w]) \<or> (n, vs) \<in> set ?d"
    using snoc.prems set_dput_subset by (fastforce split: if_splits)
  moreover have "set (entry ?d k) \<subseteq> set ws" for k using snoc.IH by (rule entry_sub)
  ultimately show ?case using snoc.IH by fastforce
qed simp

lemma try_groups_fits:
  assumes "try_groups V t groups = Inr cs" and "c \<in> set cs" and "\<And>n vs v. (n, vs) \<in> set groups \<Longrightarrow> v \<in> set vs \<Longrightarrow> v \<in> U"
    and "\<forall>v \<in> U. \<exists>w \<in> set ws. derived v w" and "0 < vl_utilization V"
  shows "fits (fs_instances (vl_base V)) ws c \<and> fd_worker c \<in> U \<and> \<not> fd_overcommit c"
  using assms(1,3)
proof (induction groups)
  case Nil
  then show ?case using assms(2) by simp
next
  case (Cons p groups)
  obtain n vs where p: "p = (n, vs)" by (cases p)
  have U: "set vs \<subseteq> U" using Cons.prems(2) [of n vs] by (auto simp: p)
  have later: ?case if "try_groups V t groups = Inr cs" using Cons.IH [OF that] Cons.prems(2) by auto
  have found: ?case if "combine_workers V t n vs [] 0 = Inr (Some d)" "cs = [d]" for d
    using combine_workers_fits [OF that(1), of ws] U assms(2,4,5) that(2) by auto
  have "try_groups V t groups = Inr cs \<or> (\<exists>d. combine_workers V t n vs [] 0 = Inr (Some d) \<and> cs = [d])"
    using Cons.prems(1) by (auto simp: p bind_err_eq_Inr split: if_splits option.splits)
  then show ?case using later found by blast
qed

lemma multi_worker_fits:
  assumes "auto_select_multi_worker_multi_gpu_candidates V t vs = Inr cs" and "c \<in> set cs" and "\<forall>v \<in> set vs. \<exists>w \<in> set ws. derived v w" and "0 < vl_utilization V"
  shows "fits (fs_instances (vl_base V)) ws c \<and> fd_worker c \<in> set vs \<and> \<not> fd_overcommit c"
proof -
  have "v \<in> set vs" if "(n, us) \<in> set (by_gpu_count (sort_workers_by_gpu_count vs))" "v \<in> set us" for n us v
    using by_gpu_count_mem [OF that(1)] that(2) by (auto simp: sort_workers_by_gpu_count_def)
  then show ?thesis using assms try_groups_fits [of V t "by_gpu_count (sort_workers_by_gpu_count vs)" cs c "set vs" ws]
    by (auto simp: auto_select_multi_worker_multi_gpu_candidates_def split: if_splits)
qed

lemma grouped_search_fits:
  assumes "regroup ws1 = (ws2, groups)" and "collect (\<lambda>(t, vs). collect (\<lambda>w. bind_err (has_status w) (\<lambda>_. f t w)) vs []) groups [] = Inr cs" and "c \<in> set cs"
    and "\<forall>v \<in> set ws1. \<exists>w \<in> set ws. derived v w"
    and fits: "\<And>t v w cs c. f t v = Inr cs \<Longrightarrow> c \<in> set cs \<Longrightarrow> derived v w \<Longrightarrow> w \<in> set ws \<Longrightarrow> fits mis ws c \<and> fd_worker c = v \<and> \<not> fd_overcommit c"
  shows "fits mis ws c \<and> host_given ws c \<and> \<not> fd_overcommit c"
proof -
  obtain t vs ys where g: "(t, vs) \<in> set groups" "collect (\<lambda>w. bind_err (has_status w) (\<lambda>_. f t w)) vs [] = Inr ys" "c \<in> set ys"
    using collect_Nil_mem [OF assms(2,3)] by auto
  obtain v zs where v: "v \<in> set vs" "f t v = Inr zs" "c \<in> set zs"
    using collect_Nil_mem [OF g(2,3)] unfolding bind_err_eq_Inr by blast
  obtain u where "u \<in> set ws1" "derived v u" using bspec [OF regroup_derived [OF assms(1), THEN conjunct2] g(1)] v(1) by auto
  then obtain w where w: "w \<in> set ws" "derived v w" using assms(4) derived_trans by blast
  from fits [OF v(2,3) w(2,1)] w show ?thesis by (auto simp: host_given_def derived_def)
qed

lemma regroup_chain:
  assumes "regroup ws1 = (ws2, groups)" and "\<forall>v \<in> set ws1. \<exists>w \<in> set ws. derived v w"
  shows "\<forall>v \<in> set ws2. \<exists>w \<in> set ws. derived v w"
proof
  fix v
  assume "v \<in> set ws2"
  then obtain u where "u \<in> set ws1" "derived v u" using regroup_derived [OF assms(1), THEN conjunct1] by blast
  then show "\<exists>w \<in> set ws. derived v w" using assms(2) derived_trans by blast
qed

lemma single_gpu_search:
  assumes "find_single_worker_single_gpu_full_offloading_candidates V ws1 = Inr (cs, ws2)" and "\<forall>v \<in> set ws1. \<exists>w \<in> set ws. derived v w" and "0 < vl_utilization V"
  shows "(\<forall>c \<in> set cs. fits (fs_instances (vl_base V)) ws c \<and> host_given ws c \<and> \<not> fd_overcommit c) \<and> (\<forall>v \<in> set ws2. \<exists>w \<in> set ws. derived v w)"
proof (cases "fs_gpu_count (vl_base V) > 1")
  case True
  then show ?thesis using assms(1,2) by (simp add: find_single_worker_single_gpu_full_offloading_candidates_def)
next
  case False
  obtain groups where r: "regroup ws1 = (ws2, groups)"
    "collect (\<lambda>(t, vs). collect (\<lambda>w. bind_err (has_status w) (\<lambda>_. find_on_single_gpu V t w)) vs []) groups [] = Inr cs"
    using assms(1) False by (auto simp: find_single_worker_single_gpu_full_offloading_candidates_def bind_err_eq_Inr split: prod.splits)
  show ?thesis using grouped_search_fits [OF r _ assms(2)] single_gpu_fits [OF _ _ _ _ assms(3)] regroup_chain [OF r(1) assms(2)] by blast
qed

lemma single_worker_search:
  assumes "find_single_worker_multi_gpu_full_offloading_candidates V ws1 = Inr (cs, ws2)" and "\<forall>v \<in> set ws1. \<exists>w \<in> set ws. derived v w" and "0 < vl_utilization V"
  shows "(\<forall>c \<in> set cs. fits (fs_instances (vl_base V)) ws c \<and> host_given ws c \<and> \<not> fd_overcommit c) \<and> (\<forall>v \<in> set ws2. \<exists>w \<in> set ws. derived v w)"
proof (cases "fs_gpu_count (vl_base V) = 1")
  case True
  then show ?thesis using assms(1,2) by (simp add: find_single_worker_multi_gpu_full_offloading_candidates_def)
next
  case False
  obtain groups ds where r: "regroup ws1 = (ws2, groups)"
    "collect (\<lambda>(t, vs). collect (\<lambda>w. bind_err (has_status w) (\<lambda>_. find_on_single_worker V t w)) vs []) groups [] = Inr ds" "set cs \<subseteq> set ds"
    using assms(1) False by (auto simp: find_single_worker_multi_gpu_full_offloading_candidates_def bind_err_eq_Inr Let_def split: prod.splits)
  show ?thesis using grouped_search_fits [OF r(1,2) _ assms(2)] single_worker_fits [OF _ _ _ _ assms(3)] regroup_chain [OF r(1) assms(2)] r(3) by blast
qed

lemma multi_worker_search:
  assumes "find_multi_worker_multi_gpu_candidates V ws1 = Inr (cs, ws2)" and "\<forall>v \<in> set ws1. \<exists>w \<in> set ws. derived v w" and "0 < vl_utilization V" and "c \<in> set cs"
  shows "fits (fs_instances (vl_base V)) ws c \<and> host_given ws c \<and> \<not> fd_overcommit c"
proof -
  obtain groups where r: "regroup ws1 = (ws2, groups)"
    "collect (\<lambda>(t, vs). auto_select_multi_worker_multi_gpu_candidates V t vs) groups [] = Inr cs"
    using assms(1) by (auto simp: find_multi_worker_multi_gpu_candidates_def bind_err_eq_Inr split: prod.splits)
  obtain t vs ys where g: "(t, vs) \<in> set groups" "auto_select_multi_worker_multi_gpu_candidates V t vs = Inr ys" "c \<in> set ys"
    using collect_Nil_mem [OF r(2) assms(4)] by auto
  have d: "\<forall>v \<in> set vs. \<exists>w \<in> set ws. derived v w" using regroup_derived [OF r(1)] g(1) assms(2) derived_trans by fast
  from multi_worker_fits [OF g(2,3) d assms(3)] d show ?thesis by (auto simp: host_given_def derived_def)
qed

lemma manual_search_host:
  assumes "find_manual_gpu_selection_candidates S ws gmus req = Inr (cs, evs)" and "c \<in> set cs"
  shows "host_given ws c"
proof -
  from assms obtain by_type ds fitting best where f:
    "sort_selected_workers_by_gpu_type_and_resource ws (fs_selected S) (allocatable_of S ws) = Inr by_type"
    "manual_candidates S (allocatable_of S ws) gmus req by_type = Inr ds"
    "get_non_overcommit_and_best_overcommit_candidates S (allocatable_of S ws) ds ws req gmus = Inr (fitting, best)"
    "fitting \<noteq> [] \<and> cs = fitting \<or> fitting = [] \<and> fs_replicas S \<le> 1 \<and> best = Some c \<and> cs = [c]"
    by (rule find_manual_cases)
  obtain d where d: "d \<in> set ds" "fd_worker c = fd_worker d" using judged [OF f(3)] f(4) assms(2) by blast
  from manual_worker [OF f(2) d(1)] obtain t vs where "(t, vs) \<in> set by_type" "fd_worker d \<in> set vs" by blast
  from sort_selected_narrow [OF f(1) this] show ?thesis using d(2) by (auto simp: host_given_def narrows_def)
qed

lemma manual_search_fits:
  assumes "distinct (map w_name ws)" and "distinct (map w_id ws)" and "md_gpu_ids (fs_model S) \<noteq> []"
    and "find_manual_gpu_selection_candidates S ws [(''*'', u)] req = Inr (cs, evs)" and "c \<in> set cs" and "\<not> fd_overcommit c" and "0 < u"
  shows "fits (fs_instances S) ws c"
proof -
  have u: "0 < utilization_for [(''*'', u)] (fd_gpu_type c)" using assms(7) by (cases "fd_gpu_type c") (auto simp: utilization_for_def dget0_def)
  show ?thesis
    unfolding fits_def
  proof safe
    fix n t idxs claim i x
    assume "(n, t, idxs, claim) \<in> set (parts c)" "dget (fc_vram claim) i = Some x"
    then have "\<exists>w \<in> set ws. w_name w = n \<and> (\<exists>g \<in> set (worker_gpus w). matching t i g \<and> x + held_vram (fs_instances S) w t i + reserve w \<le> total_of g)"
      using manual_fits [OF assms(1-6) u, THEN conjunct2] by blast
    then show "fits_gpu (fs_instances S) ws n i x" unfolding fits_gpu_def by blast
  qed
qed

lemma select_candidates_sound:
  assumes "select_candidates V ws = Inr cs" and "c \<in> set cs" and "0 < vl_utilization V"
    and "md_gpu_ids (fs_model (vl_base V)) = [] \<Longrightarrow> fs_selected_workers (vl_base V) = None"
  shows "host_given ws c \<and> (fs_selected_workers (vl_base V) = None \<longrightarrow> \<not> fd_overcommit c) \<and>
    (distinct (map w_name ws) \<and> distinct (map w_id ws) \<and> \<not> fd_overcommit c \<longrightarrow> fits (fs_instances (vl_base V)) ws c)"
proof -
  let ?S = "vl_base V"
  let ?req = "\<lparr>rq_ram = vl_ram_claim V, rq_vram = vl_vram_claim V\<rparr>"
  have here: "\<forall>v \<in> set ws. \<exists>w \<in> set ws. derived v w" by (meson derived_refl)
  obtain ms evs where m: "find_manual_gpu_selection_candidates ?S ws [(''*'', vl_utilization V)] ?req = Inr (ms, evs)"
    using assms(1) by (auto simp: select_candidates_def Let_def bind_err_eq_Inr)
  show ?thesis
  proof (cases "c \<in> set ms")
    case True
    have "items (fs_selected_workers ?S) \<noteq> []"
      using m True by (auto simp: find_manual_gpu_selection_candidates_def split: if_splits)
    then have "md_gpu_ids (fs_model ?S) \<noteq> []" "fs_selected_workers ?S \<noteq> None" using assms(4) by (auto split: option.splits)
    then show ?thesis using manual_search_host [OF m True] manual_search_fits [OF _ _ _ m True _ assms(3)] by blast
  next
    case False
    then obtain c1 ws1 where s1: "find_single_worker_single_gpu_full_offloading_candidates V ws = Inr (c1, ws1)"
      "c \<in> set c1 \<or> (\<exists>c2 ws2. find_single_worker_multi_gpu_full_offloading_candidates V ws1 = Inr (c2, ws2) \<and>
         (c \<in> set c2 \<or> (\<exists>c3 ws3. find_multi_worker_multi_gpu_candidates V ws2 = Inr (c3, ws3) \<and> c \<in> set c3)))"
      using assms(1,2) m by (auto simp: select_candidates_def Let_def bind_err_eq_Inr split: if_splits)
    note f1 = single_gpu_search [OF s1(1) here assms(3)]
    consider "c \<in> set c1" | c2 ws2 where "find_single_worker_multi_gpu_full_offloading_candidates V ws1 = Inr (c2, ws2)" "c \<in> set c2"
      | c2 ws2 c3 ws3 where "find_single_worker_multi_gpu_full_offloading_candidates V ws1 = Inr (c2, ws2)"
          "find_multi_worker_multi_gpu_candidates V ws2 = Inr (c3, ws3)" "c \<in> set c3" using s1(2) by blast
    then show ?thesis
    proof cases
      case 1
      then show ?thesis using f1 by blast
    next
      case 2
      then show ?thesis using single_worker_search [OF 2(1) _ assms(3)] f1 by blast
    next
      case 3
      have "\<forall>v \<in> set ws2. \<exists>w \<in> set ws. derived v w" using single_worker_search [OF 3(1) _ assms(3)] f1 by blast
      then show ?thesis using multi_worker_search [OF 3(2) _ assms(3) 3(3)] by blast
    qed
  qed
qed

section \<open>Placement of a vLLM model\<close>

text \<open>The fields of a candidate that scores and the scheduler read.\<close>

definition to_claim :: "fit_claim \<Rightarrow> resource_claim" where
  "to_claim c = \<lparr>cl_ram = fc_ram c, cl_vram = Some (fc_vram c), cl_offload_layers = None, cl_total_layers = None\<rparr>"

definition to_candidate :: "fit_candidate \<Rightarrow> candidate" where
  "to_candidate c =
     \<lparr>cd_worker = fd_worker c, cd_gpu_indexes = Some (fd_gpu_indexes c), cd_claim = Some (to_claim (fd_claim c)),
      cd_subs = (if fd_subs c = [] then None
                 else Some (map (\<lambda>s. \<lparr>sw_worker_id = Some (su_worker_id s), sw_gpu_indexes = Some (su_gpu_indexes s), sw_claim = Some (to_claim (su_claim s))\<rparr>) (fd_subs c))),
      cd_score = None\<rparr>"

definition vllm_select :: "vllm_selector \<Rightarrow> candidate_worker list \<Rightarrow> py_error + candidate list \<times> string list" where
  "vllm_select V ws = bind_err (select_candidates V (map worker.truncate ws)) (\<lambda>cs. Inr (map to_candidate cs, []))"

text \<open>The law the scheduler assumes of selectors holds for this one.\<close>

lemma vllm_selects_given:
  assumes "0 < vl_utilization V" and "md_gpu_ids (fs_model (vl_base V)) = [] \<Longrightarrow> fs_selected_workers (vl_base V) = None"
  shows "selects_given (vllm_select V)"
  unfolding selects_given_def
proof safe
  fix ws cs msgs d
  assume "vllm_select V ws = Inr (cs, msgs)" "d \<in> set cs"
  then obtain fs c where c: "select_candidates V (map worker.truncate ws) = Inr fs" "c \<in> set fs" "d = to_candidate c"
    by (auto simp: vllm_select_def bind_err_eq_Inr)
  from select_candidates_sound [OF c(1,2) assms] show "\<exists>w \<in> set ws. same_host (cd_worker d) w"
    by (auto simp: host_given_def same_host_def c(3) to_candidate_def worker.defs)
qed

lemma chain_claims:
  assumes "candidate_score_chain scs cs = Inr r" and "d \<in> set r"
  shows "\<exists>c \<in> set cs. cd_worker d = cd_worker c \<and> cd_claim d = cd_claim c"
  using assms by (force simp: candidate_score_chain_def bind_err_eq_Inr dest: set_zip_leftD split: if_splits)


definition vllm_host :: "int \<Rightarrow> string \<Rightarrow> candidate_worker" where
  "vllm_host i n = worker.extend (gpu_host i n) (candidate_worker.fields (Some 1) [(''zone'', ''a'')])"

definition plain_vllm :: "nat \<Rightarrow> int \<Rightarrow> rat \<Rightarrow> vllm_selector" where
  "plain_vllm n claim u = \<lparr>vl_base = (new_selector [] [])\<lparr>fs_gpu_count := int n\<rparr>, vl_utilization = u, vl_vram_claim = claim, vl_ram_claim = 0,
     vl_parameters = None, vl_version = None, vl_before_0_18 = (\<lambda>_. None)\<rparr>"


section \<open>What the searches get wrong\<close>

text \<open>With three GPUs asked for (say by three pipeline stages) and 32 attention heads, the size 3 is passed over as not
  divisible and the search stops at four GPUs.\<close>

definition four_gpus :: worker where
  "four_gpus = (gpu_host 1 ''a'')\<lparr>w_status := Some \<lparr>st_memory = Some \<lparr>mem_total = Some 64, mem_allocated = None, mem_unified = False\<rparr>,
     st_gpus = Some (map (\<lambda>i. sample_gpu i ''cuda'' 100) [0, 1, 2, 3])\<rparr>\<rparr>"

lemma more_gpus_than_asked_for:
  "get_world_size_from_backend_parameters (Some [Some ''--pipeline-parallel-size=3'']) = Inr (Some (3, [''pp''])) \<and>
   (\<exists>c. select_candidates (plain_vllm 3 150 (9 / 10)) [four_gpus] = Inr [c] \<and> length (fd_gpu_indexes c) = 4)"
proof -
  have "case select_candidates (plain_vllm 3 150 (9 / 10)) [four_gpus] of Inr [c] \<Rightarrow> length (fd_gpu_indexes c) = 4 | _ \<Rightarrow> False" by code_simp
  then have "\<exists>c. select_candidates (plain_vllm 3 150 (9 / 10)) [four_gpus] = Inr [c] \<and> length (fd_gpu_indexes c) = 4"
    by (auto split: sum.splits list.splits)
  moreover have "get_world_size_from_backend_parameters (Some [Some ''--pipeline-parallel-size=3'']) = Inr (Some (3, [''pp'']))" by code_simp
  ultimately show ?thesis by blast
qed

text \<open>Without a utilization (models that are not language models), workers are combined by their total memory, whatever is
  free, and the candidate claims nothing.\<close>

lemma combined_without_claim:
  assumes "vl_utilization V = 0" and "worker_claims V w = Inr d" and "dget d i = Some x"
  shows "x = 0"
proof -
  have "dget (fold (\<lambda>g. dput (gpu_index g) (py_trunc (rat_of_int (total_of g) * 0))) gs e) k = Some x \<Longrightarrow> dget e k = Some x \<or> x = 0" for gs e and k :: "int option"
  proof (induction gs arbitrary: e)
    case (Cons g gs)
    then show ?case using Cons.IH [of "dput (gpu_index g) (py_trunc (rat_of_int (total_of g) * 0)) e"]
      by (auto simp: dict_simps py_trunc_def split: if_splits)
  qed simp
  from this [of "worker_gpus w" "[]" "Some i"] show ?thesis
    using assms int_keys_lookup [of "fold (\<lambda>g. dput (gpu_index g) (py_trunc (rat_of_int (total_of g) * vl_utilization V))) (worker_gpus w) []" d i]
    by (simp add: worker_claims_def)
qed

text \<open>A GPU that reports no total, or a total of 0, ends the search on single GPUs with an exception: the guard comes after the division.\<close>

lemma guard_after_division:
  "gpu_memory g = None \<Longrightarrow> single_gpu_candidate V ab w g = Inl AttributeError"
  "gpu_memory g = Some m \<Longrightarrow> mem_total m = Some 0 \<Longrightarrow> single_gpu_candidate V ab w g = Inl ZeroDivisionError"
  by (simp_all add: single_gpu_candidate_def divisor_def attr_def operand_def)

end
