(* ===== verification/GgufSelector.thy ===== *)
theory GgufSelector
  imports Selector
begin

text \<open>
  Parts of the selector for GGUF models (\<^verbatim>\<open>policies/candidate_selectors/gguf_resource_fit_selector.py\<close>): the searches that
  place a model on one GPU, wholly or in part, or on the processor, the binary search over memory
  estimates, and the helpers on offloaded layers. The estimates of the external parser are inputs; the searches over
  combinations of GPUs and workers are not modelled.
\<close>

section \<open>Binary search\<close>

function search_loop :: "int list \<Rightarrow> int \<Rightarrow> int \<Rightarrow> int \<Rightarrow> int" where
  "search_loop arr target low high =
     (if low \<le> high then
        let mid = (low + high) div 2
        in if arr ! nat mid = target then mid
           else if arr ! nat mid < target then search_loop arr target (mid + 1) high
           else search_loop arr target low (mid - 1)
      else high)"
  by pat_completeness auto
termination by (relation "measure (\<lambda>(arr, target, low, high). nat (high - low + 1))") auto

declare search_loop.simps [simp del]

definition binary_search :: "int list \<Rightarrow> int \<Rightarrow> int" where
  "binary_search arr target =
     (if arr = [] then - 1
      else if hd arr > target then - 1
      else if last arr < target then int (length arr) - 1
      else search_loop arr target 0 (int (length arr) - 1))"

section \<open>Estimates and state\<close>

record vram_estimate =
  ve_nonuma :: int
  ve_uma :: int
  ve_handle_layers :: int

record memory_estimate =
  me_offload_layers :: int
  me_full_offloaded :: bool
  me_vrams :: "vram_estimate list"
  me_ram_nonuma :: int
  me_ram_uma :: int

record gguf_selector =
  gg_instances :: "model_instance list"
  gg_tensor_split :: "string option"
  gg_gpu_layers :: "int option"
  gg_selected_by_worker :: "(string, string list) dict"
  gg_selected_ids :: "string list"
  gg_total_layers :: int
  gg_partial :: "memory_estimate list"
  gg_disabled :: "memory_estimate list"
  gg_full_vram :: "bool \<Rightarrow> int"
  gg_full_ram :: "bool \<Rightarrow> int"
  gg_layer_vram :: "bool \<Rightarrow> int"
  gg_rpc_layer_vram :: "bool \<Rightarrow> int"
  gg_allocatable :: "(int, allocatable) dict"
  gg_gpus :: "(int \<times> int option \<times> int) list"
  gg_workers :: "(int, worker) dict"
  gg_max_gpu_vram :: int

text \<open>The fields with two variants, for unified memory and not, are functions of the flag.\<close>

definition first_vram :: "memory_estimate \<Rightarrow> py_error + vram_estimate" where
  "first_vram m = (case me_vrams m of [] \<Rightarrow> Inl IndexError | v # _ \<Rightarrow> Inr v)"

definition vram_of :: "bool \<Rightarrow> vram_estimate \<Rightarrow> int" where
  "vram_of uma v = (if uma then ve_uma v else ve_nonuma v)"

definition ram_of :: "bool \<Rightarrow> memory_estimate \<Rightarrow> int" where
  "ram_of uma m = (if uma then me_ram_uma m else me_ram_nonuma m)"

definition gguf_allocatable :: "gguf_selector \<Rightarrow> worker \<Rightarrow> py_error + allocatable" where
  "gguf_allocatable G w =
     (case dget (gg_allocatable G) (w_id w) of Some a \<Rightarrow> Inr a | None \<Rightarrow> get_worker_allocatable_resource (gg_instances G) w None)"

definition is_unified :: "worker \<Rightarrow> py_error + bool" where
  "is_unified w = bind_err (attr (w_status w)) (\<lambda>st. bind_err (attr (st_memory st)) (\<lambda>m. Inr (mem_unified m)))"

definition get_claim_with_layers :: "gguf_selector \<Rightarrow> int \<Rightarrow> bool \<Rightarrow> py_error + int \<times> int" where
  "get_claim_with_layers G layers uma =
     (case find (\<lambda>m. me_offload_layers m = layers) (gg_partial G) of
        None \<Rightarrow> Inr (0, 0)
      | Some m \<Rightarrow> bind_err (first_vram m) (\<lambda>v. Inr (vram_of uma v, ram_of uma m)))"

definition get_tensor_split_claim_with_layers :: "int \<Rightarrow> bool \<Rightarrow> memory_estimate list \<Rightarrow> int list \<times> int" where
  "get_tensor_split_claim_with_layers layers uma claims =
     (case find (\<lambda>m. me_offload_layers m = layers) claims of
        None \<Rightarrow> ([], 0)
      | Some m \<Rightarrow> (map (vram_of uma) (me_vrams m), ram_of uma m))"

text \<open>The first estimate that handles one layer sets the memory of a layer.\<close>

fun single_layer_vram :: "memory_estimate list \<Rightarrow> (bool \<Rightarrow> int) \<Rightarrow> py_error + (bool \<Rightarrow> int)" where
  "single_layer_vram [] old = Inr old"
| "single_layer_vram (m # ms) old =
     bind_err (first_vram m) (\<lambda>v. if ve_handle_layers v = 1 then Inr (\<lambda>uma. vram_of uma v) else single_layer_vram ms old)"

definition set_single_layer_vram :: "memory_estimate list \<Rightarrow> memory_estimate list \<Rightarrow> gguf_selector \<Rightarrow> py_error + gguf_selector" where
  "set_single_layer_vram result rpc_result G =
     bind_err (single_layer_vram result (gg_layer_vram G)) (\<lambda>f.
     bind_err (single_layer_vram rpc_result (gg_rpc_layer_vram G)) (\<lambda>r.
       Inr (G\<lparr>gg_layer_vram := f, gg_rpc_layer_vram := r\<rparr>)))"

definition get_single_layer_vram :: "gguf_selector \<Rightarrow> bool \<Rightarrow> bool \<Rightarrow> int" where
  "get_single_layer_vram G uma rpc = (if rpc then gg_rpc_layer_vram G uma else gg_layer_vram G uma)"

definition can_offload_at_least_one_layer :: "int \<Rightarrow> int \<Rightarrow> bool" where
  "can_offload_at_least_one_layer allocatable single \<longleftrightarrow> allocatable \<ge> single"

text \<open>The smallest \<open>i\<close> from 1 to 16 with rate above \<open>1 / i\<close>, -1 if there is none.\<close>

definition estimate_approximate_required_gpu_number :: "gguf_selector \<Rightarrow> int \<Rightarrow> int" where
  "estimate_approximate_required_gpu_number G vram =
     (if vram = 0 then - 1
      else case find (\<lambda>i. rat_of_int (gg_max_gpu_vram G) / rat_of_int vram > 1 / rat_of_int i) [1..16] of None \<Rightarrow> - 1 | Some i \<Rightarrow> i)"

definition sort_and_group_worker_gpu_vram ::
  "(int \<times> int) list \<Rightarrow> (int \<times> int option \<times> int) list \<Rightarrow> (int \<times> int) list \<times> (int \<times> int option \<times> int) list" where
  "sort_and_group_worker_gpu_vram workers gpus = (sort_desc snd workers, sort_desc (\<lambda>(_, _, v). v) gpus)"

definition create_gguf_candidate ::
  "gguf_selector \<Rightarrow> worker \<Rightarrow> int \<Rightarrow> int \<Rightarrow> (int option, int) dict option \<Rightarrow> py_error + candidate" where
  "create_gguf_candidate G w layers ram vram =
     bind_err (is_unified w) (\<lambda>_.
     bind_err (case vram of None \<Rightarrow> Inr None
               | Some d \<Rightarrow> bind_err (int_indexes (dkeys d)) (\<lambda>ks. Inr (Some (zip ks (dvals d))))) (\<lambda>claims.
       Inr \<lparr>cd_worker = w, cd_gpu_indexes = map_option dkeys claims,
            cd_claim = Some \<lparr>cl_ram = Some ram, cl_vram = claims, cl_offload_layers = Some layers, cl_total_layers = Some (gg_total_layers G)\<rparr>,
            cd_subs = None, cd_score = None\<rparr>))"

section \<open>All layers on one GPU\<close>

text \<open>The second component says whether to go on with the next GPU.\<close>

definition full_offload_gpu :: "gguf_selector \<Rightarrow> int \<times> int option \<times> int \<Rightarrow> py_error + candidate list \<times> bool" where
  "full_offload_gpu G gpu =
     (let (wid, index, free) = gpu
      in bind_err (attr (dget (gg_workers G) wid)) (\<lambda>w.
         bind_err (is_unified w) (\<lambda>uma.
         bind_err (attr (dget (gg_allocatable G) wid)) (\<lambda>ab.
           let vram = gg_full_vram G uma; ram = gg_full_ram G uma
           in if vram > free then Inr ([], True)
              else if ram > (if uma then ab_ram ab - vram else ab_ram ab) then Inr ([], False)
              else bind_err (create_gguf_candidate G w (gg_total_layers G) ram (Some [(index, vram)])) (\<lambda>c. Inr ([c], True))))))"

fun full_offload_loop :: "gguf_selector \<Rightarrow> (int \<times> int option \<times> int) list \<Rightarrow> py_error + candidate list" where
  "full_offload_loop G [] = Inr []"
| "full_offload_loop G (g # gs) =
     bind_err (full_offload_gpu G g) (\<lambda>(cs, continue).
       if \<not> continue then Inr cs else bind_err (full_offload_loop G gs) (\<lambda>r. Inr (cs @ r)))"

definition find_single_worker_single_gpu_full_offloading :: "gguf_selector \<Rightarrow> py_error + candidate list" where
  "find_single_worker_single_gpu_full_offloading G = full_offload_loop G (gg_gpus G)"

section \<open>Some layers on one GPU\<close>

type_synonym layer_estimate = "int \<times> int \<times> int"

text \<open>The estimates that remain: memory of the GPU, of the host, and layers.\<close>

fun layer_estimates :: "int \<Rightarrow> bool \<Rightarrow> memory_estimate list \<Rightarrow> py_error + layer_estimate list" where
  "layer_estimates cur uma [] = Inr []"
| "layer_estimates cur uma (m # ms) =
     (if me_full_offloaded m \<or> (cur \<noteq> 0 \<and> me_offload_layers m < cur) then layer_estimates cur uma ms
      else bind_err (first_vram m) (\<lambda>v. bind_err (layer_estimates cur uma ms) (\<lambda>r.
             Inr ((vram_of uma v, ram_of uma m, me_offload_layers m) # r))))"

definition selected_gpu :: "gguf_selector \<Rightarrow> int option \<Rightarrow> py_error + bool" where
  "selected_gpu G index =
     (case gg_selected_ids G of
        [] \<Rightarrow> Inr True
      | g # _ \<Rightarrow> Inr (case (parse_gpu_id g, index) of (Some (_, _, ds), Some i) \<Rightarrow> i \<ge> 0 \<and> ds = nat_str (nat i) | _ \<Rightarrow> False))"

fun partial_loop ::
  "gguf_selector \<Rightarrow> worker \<Rightarrow> bool \<Rightarrow> int \<Rightarrow> allocatable \<Rightarrow> layer_estimate list \<Rightarrow> (int option \<times> int) list \<Rightarrow> py_error + candidate option" where
  "partial_loop G w uma cur ab es [] = Inr None"
| "partial_loop G w uma cur ab es ((index, free) # gpus) =
     bind_err (selected_gpu G index) (\<lambda>selected.
       if \<not> selected \<or> \<not> can_offload_at_least_one_layer free (get_single_layer_vram G uma False) then partial_loop G w uma cur ab es gpus
       else let k = binary_search (map fst es) free
            in if k = - 1 then Inr None
               else let (vram, ram, layers) = es ! nat k
                    in if uma \<and> ram > ab_ram ab - vram \<or> ram > ab_ram ab then partial_loop G w uma cur ab es gpus
                       else if layers \<ge> cur then bind_err (create_gguf_candidate G w layers ram (Some [(index, vram)])) (\<lambda>c. Inr (Some c))
                       else Inr None)"

text \<open>With the number of layers given by the user: the first GPU with more memory than they need.\<close>

definition fixed_layers :: "gguf_selector \<Rightarrow> worker \<Rightarrow> int \<Rightarrow> int \<Rightarrow> int \<Rightarrow> (int option \<times> int) list \<Rightarrow> py_error + candidate option" where
  "fixed_layers G w cur vram ram gpus =
     (case gpus of
        [] \<Rightarrow> Inr None
      | (index, free) # _ \<Rightarrow>
          if free > vram then bind_err (create_gguf_candidate G w cur ram (Some [(index, vram)])) (\<lambda>c. Inr (Some c)) else Inr None)"

definition find_single_gpu_partial_offloading :: "gguf_selector \<Rightarrow> worker \<Rightarrow> int \<Rightarrow> py_error + candidate option" where
  "find_single_gpu_partial_offloading G w cur =
     (if or0 (map_option (int \<circ> length) (gg_tensor_split G)) \<noteq> 0 then Inr None
      else if gg_selected_by_worker G \<noteq> [] \<and> (case dget (gg_selected_by_worker G) (w_name w) of None \<Rightarrow> True | Some ids \<Rightarrow> length ids > 1) then Inr None
      else bind_err (is_unified w) (\<lambda>uma. bind_err (gguf_allocatable G w) (\<lambda>ab.
        let free = sum_list (dvals (ab_vram ab)); gpus = sort_desc snd (ab_vram ab)
        in if \<not> can_offload_at_least_one_layer free (get_single_layer_vram G uma False) then Inr None
           else bind_err (get_claim_with_layers G cur uma) (\<lambda>(vram, ram).
             if free < vram then Inr None
             else if uma \<and> ab_ram ab < vram + ram then Inr None
             else if or0 (gg_gpu_layers G) \<noteq> 0 then
               (if ab_ram ab < ram then Inr None else fixed_layers G w cur vram ram gpus)
             else bind_err (layer_estimates cur uma (gg_partial G)) (\<lambda>es. partial_loop G w uma cur ab es gpus)))))"

section \<open>On the processor\<close>

definition cpu_candidate :: "gguf_selector \<Rightarrow> worker \<Rightarrow> py_error + candidate list" where
  "cpu_candidate G w =
     bind_err (gguf_allocatable G w) (\<lambda>ab. bind_err (is_unified w) (\<lambda>uma.
       case gg_disabled G of
         [] \<Rightarrow> Inl IndexError
       | m # _ \<Rightarrow> if ram_of uma m > ab_ram ab then Inr []
                  else bind_err (create_gguf_candidate G w 0 (ram_of uma m) None) (\<lambda>c. Inr [c])))"

fun cpu_loop :: "gguf_selector \<Rightarrow> worker list \<Rightarrow> py_error + candidate list" where
  "cpu_loop G [] = Inr []"
| "cpu_loop G (w # ws) =
     bind_err (cpu_candidate G w) (\<lambda>cs. if cs = [] then Inr [] else bind_err (cpu_loop G ws) (\<lambda>r. Inr (cs @ r)))"

section \<open>Offloaded layers of candidates\<close>

definition offload_layers :: "candidate \<Rightarrow> int option" where
  "offload_layers c = Option.bind (cd_claim c) cl_offload_layers"

definition filter_candidates_by_max_offload_layers :: "candidate list \<Rightarrow> int \<Rightarrow> candidate list" where
  "filter_candidates_by_max_offload_layers cs n = filter (\<lambda>c. offload_layers c = Some n) cs"

section \<open>Setting up the state\<close>

record resource_lists =
  rl_allocatable :: "(int, allocatable) dict"
  rl_workers :: "(int \<times> int) list"
  rl_gpus :: "(int \<times> int option \<times> int) list"

definition gpu_rows :: "worker \<Rightarrow> allocatable \<Rightarrow> (int \<times> int option \<times> int) list" where
  "gpu_rows w ab =
     concat (map (\<lambda>g. case dget (ab_vram ab) (gpu_index g) of None \<Rightarrow> [] | Some v \<Rightarrow> if v > 0 then [(w_id w, gpu_index g, v)] else []) (worker_gpus w))"

definition add_worker_resources :: "gguf_selector \<Rightarrow> worker \<Rightarrow> resource_lists \<Rightarrow> py_error + resource_lists" where
  "add_worker_resources G w R0 =
     bind_err (gguf_allocatable G w) (\<lambda>ab.
       let R = R0\<lparr>rl_allocatable := dput (w_id w) ab (rl_allocatable R0)\<rparr>; free = sum_list (dvals (ab_vram ab))
       in Inr (if ab_vram ab = [] then R
               else R\<lparr>rl_workers := rl_workers R @ (if free > 0 then [(w_id w, free)] else []), rl_gpus := rl_gpus R @ gpu_rows w ab\<rparr>))"

definition generate_workers_and_gpus_allocatable_resources :: "gguf_selector \<Rightarrow> worker list \<Rightarrow> py_error + resource_lists" where
  "generate_workers_and_gpus_allocatable_resources G ws =
     fold_err (add_worker_resources G) ws \<lparr>rl_allocatable = [], rl_workers = [], rl_gpus = []\<rparr>"

definition set_workers_allocatable_resource :: "worker list \<Rightarrow> gguf_selector \<Rightarrow> py_error + gguf_selector" where
  "set_workers_allocatable_resource ws G =
     bind_err (generate_workers_and_gpus_allocatable_resources G ws) (\<lambda>R.
       let gpus = snd (sort_and_group_worker_gpu_vram (rl_workers R) (rl_gpus R))
       in Inr (G\<lparr>gg_allocatable := rl_allocatable R, gg_gpus := gpus,
                 gg_max_gpu_vram := (case gpus of [] \<Rightarrow> gg_max_gpu_vram G | (_, _, v) # _ \<Rightarrow> v),
                 gg_workers := fold (\<lambda>w. dput (w_id w) w) ws (gg_workers G)\<rparr>))"

text \<open>The claims for the whole model on one GPU, on none, and layer by layer, from the estimates.\<close>

definition set_offload_resource_claim :: "memory_estimate list \<Rightarrow> memory_estimate list \<Rightarrow> gguf_selector \<Rightarrow> py_error + gguf_selector" where
  "set_offload_resource_claim result rpc_result G =
     (if result = [] then Inl IndexError
      else let full = last result
           in bind_err (first_vram full) (\<lambda>v.
              set_single_layer_vram result rpc_result
                (G\<lparr>gg_partial := result, gg_disabled := [hd result], gg_total_layers := me_offload_layers full,
                   gg_full_vram := (\<lambda>uma. vram_of uma v), gg_full_ram := (\<lambda>uma. ram_of uma full)\<rparr>)))"

text \<open>More layers than the model has are cut to all of them.\<close>

definition clamp_gpu_layers :: "gguf_selector \<Rightarrow> gguf_selector" where
  "clamp_gpu_layers G =
     (if or0 (gg_gpu_layers G) \<noteq> 0 \<and> or0 (gg_gpu_layers G) > gg_total_layers G then G\<lparr>gg_gpu_layers := Some (gg_total_layers G)\<rparr> else G)"

section \<open>The search returns the largest estimate that fits\<close>

lemma search_loop_step:
  "low \<le> high \<Longrightarrow> search_loop arr target low high =
     (let mid = (low + high) div 2
      in if arr ! nat mid = target then mid
         else if arr ! nat mid < target then search_loop arr target (mid + 1) high
         else search_loop arr target low (mid - 1))"
  by (subst search_loop.simps) simp

lemma search_loop_end: "\<not> low \<le> high \<Longrightarrow> search_loop arr target low high = high"
  by (subst search_loop.simps) simp

lemma search_loop_result:
  assumes "sorted arr" and "0 \<le> low" and "low \<le> high + 1" and "high < int (length arr)"
    and "\<forall>j < nat low. arr ! j \<le> target" and "\<forall>j. high < int j \<and> j < length arr \<longrightarrow> target \<le> arr ! j"
  shows "low - 1 \<le> search_loop arr target low high \<and> search_loop arr target low high \<le> high \<and>
    (\<forall>j < length arr. int j \<le> search_loop arr target low high \<longrightarrow> arr ! j \<le> target) \<and>
    (\<forall>j < length arr. search_loop arr target low high < int j \<longrightarrow> target \<le> arr ! j)"
  using assms
proof (induction arr target low high rule: search_loop.induct)
  case (1 arr target low high)
  show ?case
  proof (cases "low \<le> high")
    case False
    then have "high = low - 1" using "1.prems"(3) by simp
    then show ?thesis unfolding search_loop_end [OF False] using "1.prems"(5,6) by (auto simp: zless_nat_eq_int_zless)
  next
    case True
    define mid where "mid = (low + high) div 2"
    have mid: "low \<le> mid" "mid \<le> high" using True by (simp_all add: mid_def)
    have len: "nat mid < length arr" using mid "1.prems"(2,4) by linarith
    have below: "arr ! j \<le> arr ! nat mid" if "int j \<le> mid" for j using that "1.prems"(1) len mid by (intro sorted_nth_mono) auto
    have above: "arr ! nat mid \<le> arr ! j" if "mid \<le> int j" "j < length arr" for j using that "1.prems"(1) by (intro sorted_nth_mono) auto
    consider "arr ! nat mid = target" | "arr ! nat mid < target" | "target < arr ! nat mid" by linarith
    then show ?thesis
    proof cases
      case 1
      then have "search_loop arr target low high = mid" by (simp add: search_loop_step [OF True] Let_def flip: mid_def)
      then show ?thesis using 1 mid below above by auto
    next
      case 2
      then have e: "search_loop arr target low high = search_loop arr target (mid + 1) high" by (simp add: search_loop_step [OF True] Let_def flip: mid_def)
      have "\<forall>j < nat (mid + 1). arr ! j \<le> target" using 2 below by (metis le_less_trans less_imp_le nat_less_iff zless_nat_eq_int_zless zle_add1_eq_le)
      then show ?thesis using "1.IH"(1) [OF True mid_def] 2 "1.prems" mid unfolding e by fastforce
    next
      case 3
      then have e: "search_loop arr target low high = search_loop arr target low (mid - 1)" by (simp add: search_loop_step [OF True] Let_def flip: mid_def)
      have "\<forall>j. mid - 1 < int j \<and> j < length arr \<longrightarrow> target \<le> arr ! j" using 3 above by force
      then show ?thesis using "1.IH"(2) [OF True mid_def] 3 "1.prems" mid unfolding e by fastforce
    qed
  qed
qed

lemma binary_search_result:
  assumes "sorted arr"
  shows "- 1 \<le> binary_search arr x \<and> binary_search arr x < int (length arr) \<and>
    (\<forall>j < length arr. int j \<le> binary_search arr x \<longrightarrow> arr ! j \<le> x) \<and> (\<forall>j < length arr. binary_search arr x < int j \<longrightarrow> x \<le> arr ! j)"
proof -
  have mono: "hd arr \<le> arr ! j \<and> arr ! j \<le> last arr" if "j < length arr" for j
  proof -
    have "arr \<noteq> []" using that by auto
    then show ?thesis using that assms by (auto simp: hd_conv_nth last_conv_nth intro: sorted_nth_mono)
  qed
  consider "arr = []" | "arr \<noteq> []" "hd arr > x" | "arr \<noteq> []" "hd arr \<le> x" "last arr < x" | "arr \<noteq> []" "hd arr \<le> x" "x \<le> last arr" by linarith
  then show ?thesis
  proof cases
    case 1
    then show ?thesis by (simp add: binary_search_def)
  next
    case 2
    then show ?thesis using mono by (fastforce simp: binary_search_def)
  next
    case 3
    then show ?thesis using mono by (fastforce simp: binary_search_def)
  next
    case 4
    then have "binary_search arr x = search_loop arr x 0 (int (length arr) - 1)" by (simp add: binary_search_def)
    then show ?thesis using search_loop_result [OF assms, of 0 "int (length arr) - 1" x] by simp
  qed
qed

text \<open>What a candidate on one GPU claims: memory of the GPU, memory of the host, layers.\<close>

definition one_gpu_claim :: "candidate \<Rightarrow> int \<Rightarrow> int \<Rightarrow> int \<Rightarrow> int \<Rightarrow> bool" where
  "one_gpu_claim c i vram ram layers \<longleftrightarrow> cd_gpu_indexes c = Some [i] \<and>
     (\<exists>total. cd_claim c = Some \<lparr>cl_ram = Some ram, cl_vram = Some [(i, vram)], cl_offload_layers = Some layers, cl_total_layers = total\<rparr>)"

lemma create_one_gpu:
  assumes "create_gguf_candidate G w layers ram (Some [(index, vram)]) = Inr c"
  shows "\<exists>i. index = Some i \<and> cd_worker c = w \<and> one_gpu_claim c i vram ram layers"
  using assms by (auto simp: create_gguf_candidate_def int_indexes_def one_gpu_claim_def bind_err_eq_Inr split: if_splits)

lemma partial_loop_result:
  assumes "partial_loop G w uma cur ab es gpus = Inr (Some c)" and "sorted (map fst es)"
  shows "\<exists>i free vram ram layers. (Some i, free) \<in> set gpus \<and> (vram, ram, layers) \<in> set es \<and> cd_worker c = w \<and> one_gpu_claim c i vram ram layers \<and>
    vram \<le> free \<and> ram + (if uma then vram else 0) \<le> ab_ram ab \<and> cur \<le> layers \<and>
    (\<forall>(v, r, l) \<in> set es. v < free \<longrightarrow> v \<le> vram)"
  using assms(1)
proof (induction gpus)
  case (Cons g gpus)
  obtain index free where g: "g = (index, free)" by (cases g)
  let ?k = "binary_search (map fst es) free"
  obtain vram ram layers where e: "es ! nat ?k = (vram, ram, layers)" by (metis prod_cases3)
  have later: ?case if "partial_loop G w uma cur ab es gpus = Inr (Some c)" using Cons.IH [OF that] by (meson list.set_intros(2))
  have here: ?case if k: "?k \<noteq> - 1" and r: "\<not> (uma \<and> ram > ab_ram ab - vram \<or> ram > ab_ram ab)" "layers \<ge> cur"
    and c: "create_gguf_candidate G w layers ram (Some [(index, vram)]) = Inr c"
  proof -
    note s = binary_search_result [OF assms(2), of free]
    have len: "nat ?k < length es" "int (nat ?k) = ?k" using s k by auto
    have "map fst es ! nat ?k \<le> free" using s len by simp
    then have v: "vram \<le> free" using len(1) e by simp
    have max: "v \<le> vram" if mem: "(v, r, l) \<in> set es" and "v < free" for v r l
    proof -
      obtain j where j: "j < length es" "es ! j = (v, r, l)" using mem by (metis in_set_conv_nth)
      have "free \<le> map fst es ! j" if "?k < int j" using s j(1) that by simp
      then have "\<not> ?k < int j" using j \<open>v < free\<close> by (simp only: nth_map fst_conv not_le [symmetric]) blast
      then have "int j \<le> ?k" by simp
      then have "map fst es ! j \<le> map fst es ! nat ?k" using assms(2) j(1) len by (intro sorted_nth_mono) auto
      then show ?thesis using j len e by simp
    qed
    obtain i where i: "index = Some i" "cd_worker c = w" "one_gpu_claim c i vram ram layers" using create_one_gpu [OF c] by blast
    have "(vram, ram, layers) \<in> set es" using len(1) e by (metis nth_mem)
    then show ?thesis using i v max r g by (intro exI [of _ i] exI [of _ free] exI [of _ vram] exI [of _ ram] exI [of _ layers]) auto
  qed
  have "partial_loop G w uma cur ab es gpus = Inr (Some c) \<or>
    ?k \<noteq> - 1 \<and> \<not> (uma \<and> ram > ab_ram ab - vram \<or> ram > ab_ram ab) \<and> layers \<ge> cur \<and> create_gguf_candidate G w layers ram (Some [(index, vram)]) = Inr c"
    using Cons.prems e by (auto simp: g Let_def bind_err_eq_Inr split: if_splits)
  then show ?case using later here by blast
qed simp


definition layer_item :: "int \<Rightarrow> memory_estimate" where
  "layer_item n = \<lparr>me_offload_layers = n, me_full_offloaded = (n = 4), me_vrams = [\<lparr>ve_nonuma = 30 * n, ve_uma = 30 * n, ve_handle_layers = n\<rparr>],
     me_ram_nonuma = 20 - n, me_ram_uma = 20 - n\<rparr>"

definition sample_gguf :: gguf_selector where
  "sample_gguf = \<lparr>gg_instances = [], gg_tensor_split = None, gg_gpu_layers = None, gg_selected_by_worker = [], gg_selected_ids = [], gg_total_layers = 4,
     gg_partial = map layer_item [0, 1, 2, 3, 4], gg_disabled = [layer_item 0], gg_full_vram = (\<lambda>_. 120), gg_full_ram = (\<lambda>_. 16),
     gg_layer_vram = (\<lambda>_. 30), gg_rpc_layer_vram = (\<lambda>_. 30), gg_allocatable = [], gg_gpus = [], gg_workers = [], gg_max_gpu_vram = 0\<rparr>"


section \<open>All layers on one GPU\<close>

lemma full_offload_gpu_fits:
  assumes "full_offload_gpu G (wid, index, free) = Inr (cs, go)" and "c \<in> set cs"
  shows "\<exists>w ab uma i. dget (gg_workers G) wid = Some w \<and> dget (gg_allocatable G) wid = Some ab \<and> is_unified w = Inr uma \<and> index = Some i \<and> cd_worker c = w \<and>
    one_gpu_claim c i (gg_full_vram G uma) (gg_full_ram G uma) (gg_total_layers G) \<and> gg_full_vram G uma \<le> free \<and>
    gg_full_ram G uma + (if uma then gg_full_vram G uma else 0) \<le> ab_ram ab"
proof -
  obtain w uma ab where p: "dget (gg_workers G) wid = Some w" "is_unified w = Inr uma" "dget (gg_allocatable G) wid = Some ab"
    "gg_full_vram G uma \<le> free" "gg_full_ram G uma \<le> (if uma then ab_ram ab - gg_full_vram G uma else ab_ram ab)"
    "create_gguf_candidate G w (gg_total_layers G) (gg_full_ram G uma) (Some [(index, gg_full_vram G uma)]) = Inr c"
    using assms by (auto simp: full_offload_gpu_def Let_def bind_err_eq_Inr attr_def not_less split: if_splits option.splits)
  from create_one_gpu [OF p(6)] p show ?thesis by (auto split: if_splits)
qed

lemma full_offload_loop_mem:
  "full_offload_loop G gpus = Inr cs \<Longrightarrow> c \<in> set cs \<Longrightarrow> \<exists>g \<in> set gpus. \<exists>ds go. full_offload_gpu G g = Inr (ds, go) \<and> c \<in> set ds"
proof (induction gpus arbitrary: cs)
  case (Cons g gpus)
  then obtain ds go where d: "full_offload_gpu G g = Inr (ds, go)" by (auto simp: bind_err_eq_Inr)
  show ?case
  proof (cases "c \<in> set ds")
    case True
    then show ?thesis using d by auto
  next
    case False
    then obtain r where "full_offload_loop G gpus = Inr r" "c \<in> set r" using Cons.prems d by (auto simp: bind_err_eq_Inr split: if_splits)
    from Cons.IH [OF this] show ?thesis by auto
  qed
qed simp

text \<open>The loop stops at a worker whose host memory is too small, and goes on past a GPU that is too small, though the
  GPUs are in order of free memory: the second worker would do, and is not found.\<close>

lemma full_offload_stops_early:
  "\<exists>G. set_workers_allocatable_resource [(gpu_host 1 ''a'')\<lparr>w_reserved := Some \<lparr>rs_ram = Some 60, rs_vram = Some 0\<rparr>\<rparr>, gpu_host 2 ''b'']
       (sample_gguf\<lparr>gg_full_vram := (\<lambda>_. 90)\<rparr>) = Inr G \<and>
     find_single_worker_single_gpu_full_offloading G = Inr [] \<and>
     (\<exists>c. full_offload_gpu G (2, Some 0, 99) = Inr ([c], True) \<and> (2, Some 0, 99) \<in> set (gg_gpus G))"
proof -
  have "case set_workers_allocatable_resource [(gpu_host 1 ''a'')\<lparr>w_reserved := Some \<lparr>rs_ram = Some 60, rs_vram = Some 0\<rparr>\<rparr>, gpu_host 2 ''b'']
       (sample_gguf\<lparr>gg_full_vram := (\<lambda>_. 90)\<rparr>) of
     Inl _ \<Rightarrow> False
   | Inr G \<Rightarrow> find_single_worker_single_gpu_full_offloading G = Inr [] \<and>
       (case full_offload_gpu G (2, Some 0, 99) of Inr ([c], True) \<Rightarrow> True | _ \<Rightarrow> False) \<and> (2, Some 0, 99) \<in> set (gg_gpus G)" by code_simp
  then show ?thesis by (auto split: sum.splits prod.splits list.splits bool.splits)
qed

end
