(* ===== verification/ModelFiles.thy ===== *)
theory ModelFiles
  imports Allocation
begin

text \<open>
  Model files and the instances that wait for them, \<^verbatim>\<open>server/controllers.py\<close>: which files an instance
  needs (\<open>ensure_instance_model_file\<close> and what it calls), how the state of a file is carried over to its
  instances (\<open>sync_instance_files_state\<close> and what it calls), and the sources and LoRA entries
  these functions compare (\<^verbatim>\<open>schemas/models.py\<close>, \<^verbatim>\<open>utils/lora_model_source.py\<close>). The tables are
  dictionaries; a link table is the list of ids in the row of the instance. The columns for tenants
  are left out. \<open>digest\<close> stands for the hexadecimal SHA-256 of a text. Progress values are rationals.
\<close>

section \<open>Sources\<close>

record source_row =
  sr_source :: model_source
  sr_hf_repo :: "string option"
  sr_hf_file :: "string option"
  sr_ms_model :: "string option"
  sr_ms_path :: "string option"
  sr_local :: "string option"

fun join_with :: "string \<Rightarrow> string list \<Rightarrow> string" where
  "join_with sep [] = []"
| "join_with sep [x] = x"
| "join_with sep (x # y # r) = x @ sep @ join_with sep (y # r)"

definition present :: "'a option list \<Rightarrow> 'a list" where
  "present xs = map the (filter (\<lambda>v. v \<noteq> None) xs)"

definition model_source_key :: "source_row \<Rightarrow> string" where
  "model_source_key r =
     (case (case sr_source r of HUGGING_FACE \<Rightarrow> sr_hf_repo r | MODEL_SCOPE \<Rightarrow> sr_ms_model r | LOCAL_PATH \<Rightarrow> sr_local r) of
        None \<Rightarrow> [] | Some v \<Rightarrow> v)"

definition model_source_index :: "(string \<Rightarrow> string) \<Rightarrow> source_row \<Rightarrow> string" where
  "model_source_index digest r =
     digest (join_with ''/'' (present
       (case sr_source r of
          HUGGING_FACE \<Rightarrow> [sr_hf_repo r, sr_hf_file r]
        | MODEL_SCOPE \<Rightarrow> [Some ''model_scope'', sr_ms_model r, sr_ms_path r]
        | LOCAL_PATH \<Rightarrow> [sr_local r])))"

text \<open>\<open>not value\<close> for a text.\<close>

definition blank :: "string option \<Rightarrow> bool" where
  "blank v \<longleftrightarrow> v = None \<or> v = Some []"

definition valid_source :: "source_row \<Rightarrow> bool" where
  "valid_source r \<longleftrightarrow>
     (case sr_source r of
        HUGGING_FACE \<Rightarrow> \<not> blank (sr_hf_repo r)
      | MODEL_SCOPE \<Rightarrow> \<not> blank (sr_ms_model r)
      | LOCAL_PATH \<Rightarrow> \<not> blank (sr_local r))"

text \<open>\<open>a or b\<close> for two texts.\<close>

definition or_text :: "string option \<Rightarrow> string option \<Rightarrow> string option" where
  "or_text a b = (if blank a then b else a)"

definition model_base_descriptor :: "source_row \<Rightarrow> string" where
  "model_base_descriptor r =
     (let parts = (\<lambda>a b. join_with ''/'' (filter (\<lambda>p. p \<noteq> []) (the (or_text a (Some [])) # (if blank b then [] else [the b]))))
      in case sr_source r of
           HUGGING_FACE \<Rightarrow> parts (sr_hf_repo r) (sr_hf_file r)
         | MODEL_SCOPE \<Rightarrow> parts (sr_ms_model r) (sr_ms_path r)
         | LOCAL_PATH \<Rightarrow> the (or_text (sr_local r) (Some [])))"

section \<open>LoRA entries\<close>

record lora_entry =
  le_name :: string
  le_repo :: "string option"
  le_source :: string
  le_hf_file :: "string option"
  le_ms_path :: "string option"
  le_local :: "string option"

datatype lora_error = RepoRequired | PathRequired | UnsupportedSource string

definition plain_source :: source_row where
  "plain_source = \<lparr>sr_source = HUGGING_FACE, sr_hf_repo = None, sr_hf_file = None, sr_ms_model = None, sr_ms_path = None, sr_local = None\<rparr>"

definition lora_entry_to_model_source :: "lora_entry \<Rightarrow> lora_error + source_row" where
  "lora_entry_to_model_source e =
     (let src = py_lower (if le_source e = [] then ''huggingface'' else le_source e);
          repo = or_text (le_repo e) (Some (le_name e));
          path = or_text (le_local e) (le_repo e)
      in if src = ''huggingface'' then
           (if blank repo then Inl RepoRequired else Inr (plain_source\<lparr>sr_hf_repo := repo, sr_hf_file := le_hf_file e\<rparr>))
         else if src = ''model_scope'' then
           (if blank repo then Inl RepoRequired
            else Inr (plain_source\<lparr>sr_source := MODEL_SCOPE, sr_ms_model := repo, sr_ms_path := le_ms_path e\<rparr>))
         else if src = ''local_path'' then
           (if blank path then Inl PathRequired else Inr (plain_source\<lparr>sr_source := LOCAL_PATH, sr_local := path\<rparr>))
         else Inl (UnsupportedSource src))"

definition lora_route_name_for :: "string \<Rightarrow> string \<Rightarrow> string" where
  "lora_route_name_for base name =
     (let pre = base @ '':'' in if take (length pre) name = pre then name else pre @ name)"

text \<open>The entries of a model; items that are not entries do not survive the schema.\<close>

record model_spec =
  ms_name :: string
  ms_source :: source_row
  ms_loras :: "lora_entry list option"

definition normalized_lora_list :: "model_spec \<Rightarrow> lora_entry list" where
  "normalized_lora_list m = filter (\<lambda>e. le_name e \<noteq> []) (items (ms_loras m))"

section \<open>Files and instances\<close>

datatype file_state = FILE_ERROR | FILE_DOWNLOADING | FILE_READY

text \<open>A message of an instance: a text, or the LoRA entries that were left out and why.\<close>

datatype file_note = Note "string option" | Skipped "(string \<times> lora_error) list"

record model_file =
  mf_source :: source_row
  mf_source_index :: string
  mf_worker_id :: "int option"
  mf_is_lora :: bool
  mf_base_model :: "string option"
  mf_progress :: "rat option"
  mf_resolved_paths :: "string list"
  mf_state :: file_state
  mf_message :: "string option"

record sub_download =
  sd_worker_id :: "int option"
  sd_progress :: "rat option"

record file_servers =
  sv_download_files :: bool
  sv_subs :: "sub_download list option"

record mounted_lora =
  ml_name :: string
  ml_path :: string
  ml_file_id :: int

record file_instance =
  fi_model_id :: int
  fi_source :: source_row
  fi_worker_id :: "int option"
  fi_state :: instance_state
  fi_message :: file_note
  fi_progress :: "rat option"
  fi_resolved_path :: "string option"
  fi_draft_source :: "source_row option"
  fi_draft_progress :: "rat option"
  fi_draft_path :: "string option"
  fi_mounted :: "mounted_lora list option"
  fi_servers :: "file_servers option"
  fi_files :: "int list"
  fi_draft_files :: "int list"

record file_db =
  db_files :: "(int, model_file) dict"
  db_rows :: "(int, file_instance) dict"
  db_specs :: "(int, model_spec) dict"

definition linked :: "file_db \<Rightarrow> int list \<Rightarrow> (int \<times> model_file) list" where
  "linked db ids = concat (map (\<lambda>k. case dget (db_files db) k of None \<Rightarrow> [] | Some f \<Rightarrow> [(k, f)]) ids)"

definition get_worker_ids_for_file_download :: "file_instance \<Rightarrow> int list" where
  "get_worker_ids_for_file_download i =
     filter (\<lambda>w. w \<noteq> 0) (present
       (fi_worker_id i # (case fi_servers i of
                            Some sv \<Rightarrow> if sv_download_files sv then map sd_worker_id (items (sv_subs sv)) else []
                          | None \<Rightarrow> [])))"

definition is_draft_model_file :: "(string \<Rightarrow> string) \<Rightarrow> model_file \<Rightarrow> file_instance \<Rightarrow> bool" where
  "is_draft_model_file digest f i \<longleftrightarrow>
     (case fi_draft_source i of
        None \<Rightarrow> False
      | Some d \<Rightarrow>
          model_source_index digest (mf_source f) = model_source_index digest d \<or>
          sr_source d = LOCAL_PATH \<and> mf_resolved_paths f \<noteq> [] \<and> Some (hd (mf_resolved_paths f)) = sr_local d)"

definition is_primary_instance_model_file :: "model_file \<Rightarrow> bool \<Rightarrow> bool" where
  "is_primary_instance_model_file f draft \<longleftrightarrow> \<not> draft \<and> \<not> mf_is_lora f"

section \<open>Progress\<close>

text \<open>\<open>rows\<close>: the files linked to the instance; \<open>cur\<close>: the file of the event, whose values count in place of its row's.\<close>

definition aggregate_instance_download_progress ::
  "(int \<times> model_file) list \<Rightarrow> file_instance \<Rightarrow> int \<times> model_file \<Rightarrow> rat option \<Rightarrow> file_state option \<Rightarrow> rat option" where
  "aggregate_instance_download_progress rows i cur override_progress override_state =
     (let files = filter (\<lambda>(_, f). mf_worker_id f = fi_worker_id i) rows;
          seen = map (\<lambda>(k, f).
            if k = fst cur
            then ((if override_progress \<noteq> None then override_progress else mf_progress (snd cur)),
                  (case override_state of Some s \<Rightarrow> s | None \<Rightarrow> mf_state (snd cur)))
            else (mf_progress f, mf_state f)) files;
          active = map (\<lambda>(p, _). case p of None \<Rightarrow> 0 | Some v \<Rightarrow> v) (filter (\<lambda>(_, s). s \<noteq> FILE_READY) seen)
      in if files = [] then None
         else if active = [] then Some 100
         else Some (sum_list active / rat_of_nat (length active)))"

definition refresh_instance_download_progress ::
  "(int \<times> model_file) list \<Rightarrow> file_instance \<Rightarrow> int \<times> model_file \<Rightarrow> bool \<Rightarrow> file_instance \<times> bool" where
  "refresh_instance_download_progress rows i cur file_ready =
     (if fi_progress i = Some 100 then (i, False)
      else let aggregate = (if file_ready then aggregate_instance_download_progress rows i cur (Some 100) (Some FILE_READY)
                            else aggregate_instance_download_progress rows i cur None None)
           in if aggregate \<noteq> None \<and> aggregate \<noteq> fi_progress i then (i\<lparr>fi_progress := aggregate\<rparr>, True) else (i, False))"

fun first_resolved_path :: "bool \<Rightarrow> (int \<times> model_file) list \<Rightarrow> string option" where
  "first_resolved_path exclude_lora [] = None"
| "first_resolved_path exclude_lora ((_, f) # fs) =
     (if exclude_lora \<and> mf_is_lora f then first_resolved_path exclude_lora fs
      else case mf_resolved_paths f of p # _ \<Rightarrow> Some p | [] \<Rightarrow> first_resolved_path exclude_lora fs)"

section \<open>Promotion to STARTING\<close>

definition ready_lora :: "(string \<Rightarrow> string) \<Rightarrow> source_row \<Rightarrow> int \<times> model_file \<Rightarrow> bool" where
  "ready_lora digest src kf \<longleftrightarrow>
     mf_is_lora (snd kf) \<and> model_source_index digest (mf_source (snd kf)) = model_source_index digest src \<and>
     mf_state (snd kf) = FILE_READY \<and> mf_resolved_paths (snd kf) \<noteq> []"

definition mount_entry ::
  "(string \<Rightarrow> string) \<Rightarrow> string \<Rightarrow> (int \<times> model_file) list \<Rightarrow> lora_entry \<Rightarrow>
   mounted_lora list \<times> (string \<times> lora_error) list \<Rightarrow> mounted_lora list \<times> (string \<times> lora_error) list" where
  "mount_entry digest name rows e acc =
     (case lora_entry_to_model_source e of
        Inl err \<Rightarrow> (fst acc, snd acc @ [(le_name e, err)])
      | Inr src \<Rightarrow>
          (case find (ready_lora digest src) rows of
             None \<Rightarrow> acc
           | Some (k, f) \<Rightarrow>
               (fst acc @ [\<lparr>ml_name = lora_route_name_for name (le_name e), ml_path = hd (mf_resolved_paths f), ml_file_id = k\<rparr>], snd acc)))"

definition build_mounted_loras_payload ::
  "(string \<Rightarrow> string) \<Rightarrow> file_db \<Rightarrow> file_instance \<Rightarrow> mounted_lora list option \<times> (string \<times> lora_error) list" where
  "build_mounted_loras_payload digest db i =
     (case dget (db_specs db) (fi_model_id i) of
        None \<Rightarrow> (None, [])
      | Some m \<Rightarrow>
          if normalized_lora_list m = [] then (Some [], [])
          else let (out, skipped) = fold (mount_entry digest (ms_name m) (linked db (fi_files i))) (normalized_lora_list m) ([], [])
               in (Some out, skipped))"

definition download_completed :: "file_db \<Rightarrow> file_instance \<Rightarrow> bool" where
  "download_completed db i \<longleftrightarrow>
     \<not> (linked db (fi_files i) = [] \<and> fi_draft_source i = None) \<and>
     list_all (\<lambda>(_, f). mf_state f = FILE_READY) (linked db (fi_files i)) \<and>
     (fi_draft_source i \<noteq> None \<longrightarrow>
        linked db (fi_draft_files i) \<noteq> [] \<and> list_all (\<lambda>(_, f). mf_state f = FILE_READY) (linked db (fi_draft_files i)))"

definition promote_to_starting_if_complete :: "(string \<Rightarrow> string) \<Rightarrow> file_db \<Rightarrow> file_instance \<Rightarrow> file_instance \<times> bool" where
  "promote_to_starting_if_complete digest db i =
     (if \<not> download_completed db i then (i, False)
      else let i1 = (if blank (fi_resolved_path i)
                     then i\<lparr>fi_resolved_path := first_resolved_path True (linked db (fi_files i))\<rparr> else i);
               i2 = (if fi_draft_source i1 \<noteq> None \<and> blank (fi_draft_path i1)
                     then i1\<lparr>fi_draft_path := first_resolved_path False (linked db (fi_draft_files i))\<rparr> else i1);
               (mounted, skipped) = build_mounted_loras_payload digest db i;
               i3 = (case mounted of None \<Rightarrow> i2 | Some ms \<Rightarrow> i2\<lparr>fi_mounted := Some ms\<rparr>)
           in (i3\<lparr>fi_state := STARTING, fi_message := (if skipped \<noteq> [] then Skipped skipped else Note (Some []))\<rparr>, True))"

section \<open>A file of the main worker\<close>

definition sync_main_worker_downloading ::
  "file_db \<Rightarrow> file_instance \<Rightarrow> int \<times> model_file \<Rightarrow> bool \<Rightarrow> file_instance \<times> bool" where
  "sync_main_worker_downloading db i cur draft =
     (let rows = linked db (fi_files i)
      in if fi_state i = INITIALIZING then
           (i\<lparr>fi_state := DOWNLOADING, fi_message := Note (Some []),
              fi_progress := (if draft then Some 0
                              else (case aggregate_instance_download_progress rows i cur None None of None \<Rightarrow> Some 0 | Some p \<Rightarrow> Some p))\<rparr>, True)
         else if fi_state i \<noteq> DOWNLOADING then (i, False)
         else if draft then
           (if mf_progress (snd cur) \<noteq> fi_draft_progress i \<and> fi_draft_progress i \<noteq> Some 100
            then (i\<lparr>fi_draft_progress := mf_progress (snd cur)\<rparr>, True) else (i, False))
         else refresh_instance_download_progress rows i cur False)"

definition note_ready :: "file_db \<Rightarrow> file_instance \<Rightarrow> int \<times> model_file \<Rightarrow> bool \<Rightarrow> file_instance \<times> bool" where
  "note_ready db i cur draft =
     (let paths = mf_resolved_paths (snd cur)
      in if draft then
           (if fi_draft_progress i \<noteq> Some 100 \<or> blank (fi_draft_path i)
            then (i\<lparr>fi_draft_progress := Some 100, fi_draft_path := (if paths \<noteq> [] then Some (hd paths) else fi_draft_path i)\<rparr>, True)
            else (i, False))
         else let named = (is_primary_instance_model_file (snd cur) draft \<and> blank (fi_resolved_path i));
                  i1 = (if named \<and> paths \<noteq> [] then i\<lparr>fi_resolved_path := Some (hd paths)\<rparr> else i);
                  (i2, changed) = refresh_instance_download_progress (linked db (fi_files i)) i1 cur True
              in (i2, named \<or> changed))"

definition sync_main_worker_ready ::
  "(string \<Rightarrow> string) \<Rightarrow> file_db \<Rightarrow> file_instance \<Rightarrow> int \<times> model_file \<Rightarrow> bool \<Rightarrow> file_instance \<times> bool" where
  "sync_main_worker_ready digest db i cur draft =
     (let (i1, changed) = note_ready db i cur draft; (i2, promoted) = promote_to_starting_if_complete digest db i1
      in if promoted then (i2, True)
         else if fi_state i1 = INITIALIZING then (i1\<lparr>fi_state := DOWNLOADING, fi_message := Note (Some [])\<rparr>, True)
         else (i1, changed))"

definition store :: "int \<Rightarrow> file_instance \<times> bool \<Rightarrow> file_db \<Rightarrow> file_db" where
  "store iid result db = (if snd result then db\<lparr>db_rows := dput iid (fst result) (db_rows db)\<rparr> else db)"

definition fail_with :: "model_file \<Rightarrow> file_instance \<Rightarrow> file_instance" where
  "fail_with f i = i\<lparr>fi_state := ERROR, fi_message := Note (mf_message f)\<rparr>"

definition sync_main_worker_model_file_state ::
  "(string \<Rightarrow> string) \<Rightarrow> int \<times> model_file \<Rightarrow> int \<Rightarrow> bool \<Rightarrow> file_db \<Rightarrow> file_db" where
  "sync_main_worker_model_file_state digest cur iid draft db =
     (case dget (db_rows db) iid of
        None \<Rightarrow> db
      | Some i \<Rightarrow>
          if fi_state i = ERROR then db
          else store iid
            (case mf_state (snd cur) of
               FILE_DOWNLOADING \<Rightarrow> sync_main_worker_downloading db i cur draft
             | FILE_READY \<Rightarrow> if fi_state i \<in> {DOWNLOADING, INITIALIZING} then sync_main_worker_ready digest db i cur draft else (i, False)
             | FILE_ERROR \<Rightarrow> (fail_with (snd cur) i, True)) db)"

section \<open>A file of a subordinate worker\<close>

definition set_sub_progress :: "nat \<Rightarrow> rat option \<Rightarrow> file_instance \<Rightarrow> file_instance" where
  "set_sub_progress k p i =
     i\<lparr>fi_servers := map_option (\<lambda>sv. sv\<lparr>sv_subs := map_option (\<lambda>ss. ss[k := (ss ! k)\<lparr>sd_progress := p\<rparr>]) (sv_subs sv)\<rparr>) (fi_servers i)\<rparr>"

text \<open>
  Promotion loads the row again with \<open>populate_existing\<close>. Changed columns were flushed before and come back
  as they are; a change inside the JSON value of \<open>distributed_servers\<close> is not marked then, is not flushed, and
  the column comes back as stored.
\<close>

definition reload :: "file_instance \<Rightarrow> file_instance \<Rightarrow> file_instance" where
  "reload stored i = i\<lparr>fi_servers := fi_servers stored\<rparr>"

definition sync_subordinate_worker ::
  "(string \<Rightarrow> string) \<Rightarrow> file_db \<Rightarrow> file_instance \<Rightarrow> nat \<Rightarrow> sub_download \<Rightarrow> model_file \<Rightarrow> file_instance \<times> bool" where
  "sync_subordinate_worker digest db i k sub f =
     (case mf_state f of
        FILE_DOWNLOADING \<Rightarrow> if mf_progress f = sd_progress sub then (i, False) else (set_sub_progress k (mf_progress f) i, True)
      | FILE_READY \<Rightarrow>
          let changed = (sd_progress sub \<noteq> Some 100); i1 = set_sub_progress k (Some 100) i
          in if fi_state i \<in> {DOWNLOADING, INITIALIZING}
             then let (i2, promoted) = promote_to_starting_if_complete digest db (reload i i1) in (i2, changed \<or> promoted)
             else (i1, changed)
      | FILE_ERROR \<Rightarrow> (fail_with f i, True))"

fun index_of :: "('a \<Rightarrow> bool) \<Rightarrow> 'a list \<Rightarrow> nat option" where
  "index_of P [] = None"
| "index_of P (x # xs) = (if P x then Some 0 else map_option Suc (index_of P xs))"

definition sync_distributed_model_file_state :: "(string \<Rightarrow> string) \<Rightarrow> int \<times> model_file \<Rightarrow> int \<Rightarrow> file_db \<Rightarrow> file_db" where
  "sync_distributed_model_file_state digest cur iid db =
     (case dget (db_rows db) iid of
        None \<Rightarrow> db
      | Some i \<Rightarrow>
          if fi_state i = ERROR then db
          else case fi_servers i of
                 None \<Rightarrow> db
               | Some sv \<Rightarrow>
                   if \<not> sv_download_files sv then db
                   else case index_of (\<lambda>s. sd_worker_id s = mf_worker_id (snd cur)) (items (sv_subs sv)) of
                          None \<Rightarrow> db
                        | Some k \<Rightarrow> store iid (sync_subordinate_worker digest db i k (items (sv_subs sv) ! k) (snd cur)) db)"

text \<open>\<open>i0\<close>: the instance as the caller has it.\<close>

definition sync_file :: "(string \<Rightarrow> string) \<Rightarrow> int \<Rightarrow> file_instance \<Rightarrow> int \<times> model_file \<Rightarrow> file_db \<Rightarrow> file_db" where
  "sync_file digest iid i0 cur db =
     (if mf_worker_id (snd cur) = fi_worker_id i0
      then sync_main_worker_model_file_state digest cur iid (is_draft_model_file digest (snd cur) i0) db
      else sync_distributed_model_file_state digest cur iid db)"

definition sync_instance_files_state :: "(string \<Rightarrow> string) \<Rightarrow> int \<Rightarrow> file_instance \<Rightarrow> (int \<times> model_file) list \<Rightarrow> file_db \<Rightarrow> file_db" where
  "sync_instance_files_state digest iid i0 files db = fold (sync_file digest iid i0) files db"

section \<open>Which files an instance needs\<close>

definition instance_model_files_complete :: "file_db \<Rightarrow> file_instance \<Rightarrow> bool" where
  "instance_model_files_complete db i \<longleftrightarrow>
     (let ids = get_worker_ids_for_file_download i; existing = map snd (linked db (fi_files i)); drafts = map snd (linked db (fi_draft_files i));
          loras = (case dget (db_specs db) (fi_model_id i) of None \<Rightarrow> 0 | Some m \<Rightarrow> length (normalized_lora_list m))
      in ids \<noteq> [] \<and>
         \<not> list_ex (\<lambda>f. mf_state f = FILE_ERROR) existing \<and>
         list_all (\<lambda>w. list_ex (\<lambda>f. \<not> mf_is_lora f \<and> mf_worker_id f = Some w) existing) ids \<and>
         (loras > 0 \<longrightarrow> length (filter mf_is_lora existing) \<ge> loras * length ids) \<and>
         (fi_draft_source i \<noteq> None \<longrightarrow>
            \<not> list_ex (\<lambda>f. mf_state f = FILE_ERROR) drafts \<and>
            list_all (\<lambda>w. list_ex (\<lambda>f. mf_worker_id f = Some w) drafts) ids))"

definition by_source_index :: "file_db \<Rightarrow> string \<Rightarrow> (int \<times> model_file) list" where
  "by_source_index db idx = filter (\<lambda>(_, f). mf_source_index f = idx) (db_files db)"

definition by_resolved_path :: "file_db \<Rightarrow> string \<Rightarrow> (int \<times> model_file) list" where
  "by_resolved_path db path = filter (\<lambda>(_, f). path \<in> set (mf_resolved_paths f)) (db_files db)"

definition on_workers :: "int list \<Rightarrow> (int \<times> model_file) list \<Rightarrow> (int \<times> model_file) list" where
  "on_workers ids fs = filter (\<lambda>(_, f). \<exists>w \<in> set ids. mf_worker_id f = Some w) fs"

definition get_model_files_for_instance ::
  "(string \<Rightarrow> string) \<Rightarrow> file_db \<Rightarrow> file_instance \<Rightarrow> source_row \<Rightarrow> (int \<times> model_file) list" where
  "get_model_files_for_instance digest db i src =
     (let ids = get_worker_ids_for_file_download i; files = on_workers ids (by_source_index db (model_source_index digest src))
      in if sr_source src = LOCAL_PATH \<and> \<not> blank (sr_local src)
         then files @ filter (\<lambda>(_, f). mf_worker_id f \<notin> mf_worker_id ` snd ` set files) (on_workers ids (by_resolved_path db (the (sr_local src))))
         else files)"

definition fresh_id :: "file_db \<Rightarrow> int" where
  "fresh_id db = Max (insert 0 (fst ` set (db_files db))) + 1"

definition new_file :: "(string \<Rightarrow> string) \<Rightarrow> source_row \<Rightarrow> int \<Rightarrow> model_file" where
  "new_file digest src w =
     \<lparr>mf_source = src, mf_source_index = model_source_index digest src, mf_worker_id = Some w, mf_is_lora = False, mf_base_model = None,
      mf_progress = None, mf_resolved_paths = [], mf_state = FILE_DOWNLOADING, mf_message = None\<rparr>"

definition create_file :: "model_file \<Rightarrow> file_db \<Rightarrow> file_db" where
  "create_file f db = db\<lparr>db_files := db_files db @ [(fresh_id db, f)]\<rparr>"

text \<open>\<open>src\<close>: the instance's own source, or the source of its draft model. The missing workers are a set; new ids
  are given in the order of the list.\<close>

definition get_or_create_model_files_for_instance ::
  "(string \<Rightarrow> string) \<Rightarrow> file_instance \<Rightarrow> source_row \<Rightarrow> file_db \<Rightarrow> (int \<times> model_file) list \<times> file_db" where
  "get_or_create_model_files_for_instance digest i src db =
     (let files = get_model_files_for_instance digest db i src; ids = get_worker_ids_for_file_download i;
          missing = filter (\<lambda>w. Some w \<notin> mf_worker_id ` snd ` set files) (remdups ids);
          db' = fold (\<lambda>w. create_file (new_file digest src w)) missing db
      in if length files = length ids \<or> missing = [] then (files, db)
         else (get_model_files_for_instance digest db' i src, db'))"

text \<open>An existing file becomes a LoRA file in memory; the change is written when the base model changes too. The list of
  existing files of an entry is read once.\<close>

definition write_file :: "int \<Rightarrow> model_file \<Rightarrow> file_db \<Rightarrow> file_db" where
  "write_file k f db = db\<lparr>db_files := dput k f (db_files db)\<rparr>"

definition add_unseen :: "int \<times> model_file \<Rightarrow> (int \<times> model_file) list \<Rightarrow> (int \<times> model_file) list" where
  "add_unseen kf out = (if fst kf \<in> fst ` set out then out else out @ [kf])"

definition lora_on_worker ::
  "(string \<Rightarrow> string) \<Rightarrow> source_row \<Rightarrow> string \<Rightarrow> (int \<times> model_file) list \<Rightarrow> int \<Rightarrow>
   (int \<times> model_file) list \<times> file_db \<Rightarrow> (int \<times> model_file) list \<times> file_db" where
  "lora_on_worker digest src base existing w acc =
     (let (out, db) = acc
      in case find (\<lambda>(_, f). mf_worker_id f = Some w) existing of
           Some (k, f) \<Rightarrow>
             let f' = f\<lparr>mf_is_lora := True, mf_base_model := Some base\<rparr>
             in (add_unseen (k, f') out, if mf_base_model f \<noteq> Some base then write_file k f' db else db)
         | None \<Rightarrow>
             let f = (new_file digest src w)\<lparr>mf_is_lora := True, mf_base_model := Some base\<rparr>
             in (add_unseen (fresh_id db, f) out, create_file f db))"

definition lora_entry_files ::
  "(string \<Rightarrow> string) \<Rightarrow> string \<Rightarrow> int list \<Rightarrow> lora_entry \<Rightarrow>
   (int \<times> model_file) list \<times> file_db \<Rightarrow> (int \<times> model_file) list \<times> file_db" where
  "lora_entry_files digest base ids e acc =
     (case lora_entry_to_model_source e of
        Inl _ \<Rightarrow> acc
      | Inr src \<Rightarrow>
          let existing = by_source_index (snd acc) (model_source_index digest src)
          in fold (lora_on_worker digest src base existing) ids acc)"

definition get_or_create_lora_model_files_for_instance ::
  "(string \<Rightarrow> string) \<Rightarrow> file_instance \<Rightarrow> model_spec \<Rightarrow> file_db \<Rightarrow> (int \<times> model_file) list \<times> file_db" where
  "get_or_create_lora_model_files_for_instance digest i m db =
     fold (lora_entry_files digest (model_base_descriptor (ms_source m)) (get_worker_ids_for_file_download i)) (normalized_lora_list m) ([], db)"

definition retried :: "model_file \<Rightarrow> model_file" where
  "retried f = (if mf_state f = FILE_ERROR then f\<lparr>mf_state := FILE_DOWNLOADING, mf_progress := Some 0, mf_message := Some []\<rparr> else f)"

definition retry_file :: "int \<times> model_file \<Rightarrow> file_db \<Rightarrow> file_db" where
  "retry_file kf db = (if mf_state (snd kf) = FILE_ERROR then write_file (fst kf) (retried (snd kf)) db else db)"

definition add_links :: "int list \<Rightarrow> int list \<Rightarrow> int list" where
  "add_links new old = fold (\<lambda>k ls. if k \<in> set ls then ls else ls @ [k]) new old"

definition link_files :: "int \<Rightarrow> int list \<Rightarrow> int list \<Rightarrow> file_db \<Rightarrow> file_db" where
  "link_files iid ks ds db =
     (case dget (db_rows db) iid of
        None \<Rightarrow> db
      | Some i \<Rightarrow> db\<lparr>db_rows := dput iid (i\<lparr>fi_files := add_links ks (fi_files i), fi_draft_files := add_links ds (fi_draft_files i)\<rparr>) (db_rows db)\<rparr>)"

text \<open>\<open>ensure_instance_model_file\<close>; \<open>worker\<close>: the worker of the instance in the event.\<close>

definition ensure_instance_model_file :: "(string \<Rightarrow> string) \<Rightarrow> int option \<Rightarrow> int \<Rightarrow> file_db \<Rightarrow> file_db" where
  "ensure_instance_model_file digest worker iid db =
     (case (worker, dget (db_rows db) iid) of
        (Some _, Some i) \<Rightarrow>
          if instance_model_files_complete db i
          then sync_instance_files_state digest iid i (linked db (fi_files i) @ linked db (fi_draft_files i)) db
          else
            let (files, db1) = get_or_create_model_files_for_instance digest i (fi_source i) db;
                (drafts, db2) = (case fi_draft_source i of None \<Rightarrow> ([], db1) | Some d \<Rightarrow> get_or_create_model_files_for_instance digest i d db1);
                (loras, db3) = (case dget (db_specs db) (fi_model_id i) of
                                  None \<Rightarrow> ([], db2) | Some m \<Rightarrow> get_or_create_lora_model_files_for_instance digest i m db2);
                all = files @ drafts @ loras;
                db4 = link_files iid (map fst (files @ loras)) (map fst drafts) (fold retry_file all db3)
            in sync_instance_files_state digest iid i (map (\<lambda>(k, f). (k, retried f)) all) db4
      | _ \<Rightarrow> db)"

end
