(* ===== verification/FileSync.thy ===== *)
theory FileSync
  imports ModelFiles
begin

text \<open>
  The controllers of \<open>ModelFiles\<close> at work: workers report on files, the file controller carries each report to the
  instances of the file, the instance controller provides the files of an instance that is initialised, all in any
  order. Shown: an instance starts only with all its files ready, and is never left waiting once they are.
\<close>

section \<open>What the file controller leaves alone\<close>

definition waiting :: "file_instance \<Rightarrow> bool" where
  "waiting i \<longleftrightarrow> fi_state i = INITIALIZING \<or> fi_state i = DOWNLOADING"

text \<open>The part of a row that decides which files the instance needs and who reports on them.\<close>

definition same_needs :: "file_instance \<Rightarrow> file_instance \<Rightarrow> bool" where
  "same_needs i j \<longleftrightarrow>
     fi_model_id j = fi_model_id i \<and> fi_source j = fi_source i \<and> fi_worker_id j = fi_worker_id i \<and>
     fi_draft_source j = fi_draft_source i \<and> fi_files j = fi_files i \<and> fi_draft_files j = fi_draft_files i \<and>
     map_option (\<lambda>sv. (sv_download_files sv, map sd_worker_id (items (sv_subs sv)))) (fi_servers j) =
     map_option (\<lambda>sv. (sv_download_files sv, map sd_worker_id (items (sv_subs sv)))) (fi_servers i)"

named_theorems needs

lemma same_needs_refl [needs, simp]: "same_needs i i"
  by (simp add: same_needs_def)

lemma same_needs_trans: "same_needs i j \<Longrightarrow> same_needs j k \<Longrightarrow> same_needs i k"
  by (simp add: same_needs_def)

lemma completed_needs: "same_needs i j \<Longrightarrow> download_completed db j = download_completed db i"
  by (simp add: same_needs_def download_completed_def)

lemma promote_needs [needs]: "same_needs i (fst (promote_to_starting_if_complete digest db i))"
  by (auto simp: promote_to_starting_if_complete_def same_needs_def Let_def split: prod.split option.split)

lemma refresh_needs [needs]:
  "same_needs i (fst (refresh_instance_download_progress rows i cur ready))"
  "fi_state (fst (refresh_instance_download_progress rows i cur ready)) = fi_state i"
  by (simp_all add: refresh_instance_download_progress_def same_needs_def Let_def)

lemma note_ready_needs [needs]:
  "same_needs i (fst (note_ready db i cur draft))" "fi_state (fst (note_ready db i cur draft)) = fi_state i"
  by (auto simp: note_ready_def refresh_instance_download_progress_def same_needs_def Let_def split: prod.splits if_splits)

lemma set_sub_progress_needs [needs]: "same_needs i (set_sub_progress k p i)" "fi_state (set_sub_progress k p i) = fi_state i"
proof -
  have "map sd_worker_id (ss[k := (ss ! k)\<lparr>sd_progress := p\<rparr>]) = map sd_worker_id ss" for ss :: "sub_download list"
    by (cases "k < length ss") (auto simp: map_update list_update_same_conv list_update_beyond)
  then show "same_needs i (set_sub_progress k p i)"
    by (cases "fi_servers i"; cases "sv_subs (the (fi_servers i))") (simp_all add: set_sub_progress_def same_needs_def)
qed (simp add: set_sub_progress_def)

lemma promote_result:
  "promote_to_starting_if_complete digest db i = (j, b) \<Longrightarrow>
     b = download_completed db i \<and> (if b then fi_state j = STARTING else j = i)"
  by (auto simp: promote_to_starting_if_complete_def Let_def split: if_splits prod.splits option.splits)

section \<open>One report\<close>

text \<open>The primary files have a path to start from; a path once known is not lost.\<close>

definition has_path :: "file_db \<Rightarrow> file_instance \<Rightarrow> bool" where
  "has_path db i \<longleftrightarrow> \<not> blank (first_resolved_path True (linked db (fi_files i)))"

definition path_kept :: "file_instance \<Rightarrow> file_instance \<Rightarrow> bool" where
  "path_kept i j \<longleftrightarrow> (\<not> blank (fi_resolved_path i) \<longrightarrow> \<not> blank (fi_resolved_path j))"

lemma path_kept_trans: "path_kept i j \<Longrightarrow> path_kept j k \<Longrightarrow> path_kept i k"
  by (simp add: path_kept_def)

lemma path_kept_simps [simp]:
  "path_kept i i" "path_kept i (fst (refresh_instance_download_progress rows i cur ready))" "path_kept i (set_sub_progress k p i)"
  "path_kept i (fst (note_ready db i cur draft))" "path_kept i (reload stored i)" "path_kept i (fail_with f i)"
  by (auto simp: path_kept_def refresh_instance_download_progress_def set_sub_progress_def reload_def fail_with_def note_ready_def Let_def
      split: prod.splits if_splits)

lemma promote_path:
  assumes "promote_to_starting_if_complete digest db i = (j, b)"
  shows "path_kept i j \<and> (b \<and> has_path db i \<longrightarrow> \<not> blank (fi_resolved_path j))"
  using assms by (auto simp: promote_to_starting_if_complete_def path_kept_def has_path_def Let_def split: if_splits prod.splits option.splits)

text \<open>How a report changes a row: needs stay, and the state moves only along the edges of the diagram.\<close>

definition moves :: "file_db \<Rightarrow> file_instance \<Rightarrow> file_instance \<Rightarrow> bool" where
  "moves db i j \<longleftrightarrow>
     same_needs i j \<and> path_kept i j \<and>
     (fi_state j = fi_state i \<or>
      fi_state i = INITIALIZING \<and> fi_state j = DOWNLOADING \<or>
      waiting i \<and> fi_state j = STARTING \<and> download_completed db i \<and> (has_path db i \<longrightarrow> \<not> blank (fi_resolved_path j)) \<or>
      fi_state j = ERROR)"

lemma moves_refl [simp]: "moves db i i"
  by (simp add: moves_def)

lemma has_path_needs: "same_needs i j \<Longrightarrow> has_path db j = has_path db i"
  by (simp add: same_needs_def has_path_def)

lemma moves_trans:
  assumes "moves db i j" and "moves db j k"
  shows "moves db i k"
proof -
  have n: "same_needs i j" using assms(1) by (simp add: moves_def)
  have "same_needs i k" "path_kept i k" using assms unfolding moves_def by (blast intro: same_needs_trans path_kept_trans)+
  then show ?thesis using assms completed_needs [OF n, of db] has_path_needs [OF n, of db]
    by (auto simp: moves_def waiting_def path_kept_def)
qed

lemma ready_moves:
  assumes "waiting i" and "sync_main_worker_ready digest db i cur draft = (j, b)"
  shows "moves db i j \<and> (download_completed db i \<longrightarrow> b \<and> fi_state j = STARTING)"
proof -
  obtain i1 c where n: "note_ready db i cur draft = (i1, c)" by fastforce
  have k1: "path_kept i i1" using path_kept_simps(4) [of i db cur draft] n by simp
  obtain i2 p where p: "promote_to_starting_if_complete digest db i1 = (i2, p)" by fastforce
  have i1: "same_needs i i1" "fi_state i1 = fi_state i" using note_ready_needs [where db = db and i = i and cur = cur and draft = draft] n by simp_all
  moreover have "same_needs i1 i2" using promote_needs [of i1 digest db] p by simp
  ultimately have i2: "same_needs i i2" by (blast intro: same_needs_trans)
  have "path_kept i i2" "p \<and> has_path db i \<longrightarrow> \<not> blank (fi_resolved_path i2)"
    using promote_path [OF p] path_kept_trans [OF k1] has_path_needs [OF i1(1)] by auto
  note k1 = k1 this
  have c: "p = download_completed db i" "if p then fi_state i2 = STARTING else i2 = i1"
    using promote_result [OF p] completed_needs [OF i1(1)] by auto
  show ?thesis
  proof (cases p)
    case True
    then show ?thesis using assms i2 c n p k1 by (auto simp: sync_main_worker_ready_def moves_def)
  next
    case False
    then have "j = (if fi_state i = INITIALIZING then i1\<lparr>fi_state := DOWNLOADING, fi_message := Note (Some [])\<rparr> else i1)"
      using assms(2) n p i1(2) by (auto simp: sync_main_worker_ready_def)
    then show ?thesis using False c(1) i1 k1(1) by (auto simp: moves_def same_needs_def path_kept_def)
  qed
qed

lemma downloading_moves:
  assumes "sync_main_worker_downloading db i cur draft = (j, b)"
  shows "moves db i j"
proof (cases "fi_state i = INITIALIZING")
  case True
  then show ?thesis using assms by (auto simp: sync_main_worker_downloading_def moves_def same_needs_def path_kept_def Let_def)
next
  case False
  then consider "j = i" | p where "j = i\<lparr>fi_draft_progress := p\<rparr>"
    | "j = fst (refresh_instance_download_progress (linked db (fi_files i)) i cur False)"
    using assms by (auto simp: sync_main_worker_downloading_def Let_def split: if_splits)
  then show ?thesis by cases (auto simp: moves_def needs, auto simp: same_needs_def path_kept_def)
qed

lemma sub_moves:
  assumes "sync_subordinate_worker digest db i k sub f = (j, b)" and "fi_state i \<noteq> ERROR"
  shows "moves db i j \<and> (mf_state f = FILE_READY \<and> waiting i \<and> download_completed db i \<longrightarrow> b \<and> fi_state j = STARTING)"
proof (cases "mf_state f = FILE_READY \<and> waiting i")
  case True
  let ?r = "reload i (set_sub_progress k (Some 100) i)"
  have r: "same_needs i ?r" "fi_state ?r = fi_state i"
    by (simp_all add: reload_def same_needs_def set_sub_progress_def)
  obtain i2 p where p: "promote_to_starting_if_complete digest db ?r = (i2, p)" by fastforce
  have "same_needs ?r i2" using promote_needs [of ?r digest db] p by simp
  with r have "same_needs i i2" by (blast intro: same_needs_trans)
  moreover have "path_kept i ?r" by (simp add: reload_def set_sub_progress_def path_kept_def)
  then have "path_kept i i2" "p \<and> has_path db i \<longrightarrow> \<not> blank (fi_resolved_path i2)"
    using promote_path [OF p] path_kept_trans has_path_needs [OF r(1)] by auto
  moreover have "p = download_completed db i" "if p then fi_state i2 = STARTING else i2 = ?r"
    using promote_result [OF p] completed_needs [OF r(1)] by auto
  moreover have "j = i2" "b = (sd_progress sub \<noteq> Some 100 \<or> p)"
    using assms(1) True p by (auto simp: sync_subordinate_worker_def waiting_def Let_def)
  ultimately show ?thesis using True r(2) by (auto simp: moves_def split: if_splits)
next
  case False
  then consider "j = i" | p where "j = set_sub_progress k p i" | "j = fail_with f i"
    using assms(1) by (auto simp: sync_subordinate_worker_def waiting_def Let_def split: file_state.splits if_splits)
  then have "moves db i j" by cases (auto simp: moves_def needs fail_with_def, auto simp: same_needs_def path_kept_def)
  then show ?thesis using False by blast
qed

text \<open>The files a worker reports on reach the instance: they are on its main worker, or on a subordinate worker that downloads.\<close>

definition routed :: "file_instance \<Rightarrow> model_file \<Rightarrow> bool" where
  "routed i f \<longleftrightarrow>
     mf_worker_id f = fi_worker_id i \<or>
     (\<exists>sv. fi_servers i = Some sv \<and> sv_download_files sv \<and> mf_worker_id f \<in> sd_worker_id ` set (items (sv_subs sv)))"

lemma routed_needs:
  assumes "same_needs i j"
  shows "routed j f = routed i f"
proof (cases "fi_servers i")
  case None
  with assms show ?thesis by (simp add: same_needs_def routed_def)
next
  case (Some sv)
  with assms obtain sv' where sv': "fi_servers j = Some sv'" "sv_download_files sv' = sv_download_files sv"
    "map sd_worker_id (items (sv_subs sv')) = map sd_worker_id (items (sv_subs sv))" "fi_worker_id j = fi_worker_id i"
    by (auto simp: same_needs_def)
  then have "sd_worker_id ` set (items (sv_subs sv')) = sd_worker_id ` set (items (sv_subs sv))" by (metis set_map)
  with sv' Some show ?thesis by (simp add: routed_def)
qed

lemma index_of_None: "index_of P xs = None \<longleftrightarrow> (\<forall>x \<in> set xs. \<not> P x)"
  by (induction xs) auto

lemma store_simps [simp]:
  "db_files (store iid r db) = db_files db" "db_specs (store iid r db) = db_specs db"
  "dget (db_rows (store iid r db)) j = (if j = iid \<and> snd r then Some (fst r) else dget (db_rows db) j)"
  by (auto simp: store_def dict_simps)

lemma linked_cong: "db_files db' = db_files db \<Longrightarrow> linked db' = linked db"
  by (simp add: linked_def fun_eq_iff)

lemma completed_cong:
  assumes "db_files db' = db_files db"
  shows "download_completed db' = download_completed db"
  using linked_cong [OF assms] by (simp add: download_completed_def fun_eq_iff)

lemma sync_file_frame [simp]:
  "db_files (sync_file digest iid i0 cur db) = db_files db" "db_specs (sync_file digest iid i0 cur db) = db_specs db"
  "j \<noteq> iid \<Longrightarrow> dget (db_rows (sync_file digest iid i0 cur db)) j = dget (db_rows db) j"
proof -
  have "db_files (sync_main_worker_model_file_state digest cur iid d db) = db_files db \<and>
        db_specs (sync_main_worker_model_file_state digest cur iid d db) = db_specs db \<and>
        (j \<noteq> iid \<longrightarrow> dget (db_rows (sync_main_worker_model_file_state digest cur iid d db)) j = dget (db_rows db) j)" for d
    by (cases "dget (db_rows db) iid") (simp_all add: sync_main_worker_model_file_state_def)
  moreover have "db_files (sync_distributed_model_file_state digest cur iid db) = db_files db \<and>
        db_specs (sync_distributed_model_file_state digest cur iid db) = db_specs db \<and>
        (j \<noteq> iid \<longrightarrow> dget (db_rows (sync_distributed_model_file_state digest cur iid db)) j = dget (db_rows db) j)"
    by (cases "dget (db_rows db) iid") (simp_all add: sync_distributed_model_file_state_def split: option.split)
  ultimately show
    "db_files (sync_file digest iid i0 cur db) = db_files db" "db_specs (sync_file digest iid i0 cur db) = db_specs db"
    "j \<noteq> iid \<Longrightarrow> dget (db_rows (sync_file digest iid i0 cur db)) j = dget (db_rows db) j"
    by (simp_all add: sync_file_def)
qed

text \<open>What a report does to the row of its instance.\<close>

lemma sync_file_row:
  assumes "dget (db_rows db) iid = Some i"
  shows "\<exists>j. dget (db_rows (sync_file digest iid i0 cur db)) iid = Some j \<and> moves db i j \<and>
             (mf_state (snd cur) = FILE_READY \<and> waiting i \<and> download_completed db i \<and> fi_worker_id i0 = fi_worker_id i \<and> routed i (snd cur)
              \<longrightarrow> fi_state j = STARTING)"
proof (cases "fi_state i = ERROR")
  case True
  then have "sync_file digest iid i0 cur db = db"
    using assms by (simp add: sync_file_def sync_main_worker_model_file_state_def sync_distributed_model_file_state_def)
  with assms True show ?thesis by (simp add: waiting_def)
next
  case False
  show ?thesis
  proof (cases "mf_worker_id (snd cur) = fi_worker_id i0")
    case True
    define d where "d = is_draft_model_file digest (snd cur) i0"
    define r where "r = (case mf_state (snd cur) of
               FILE_DOWNLOADING \<Rightarrow> sync_main_worker_downloading db i cur d
             | FILE_READY \<Rightarrow> if fi_state i \<in> {DOWNLOADING, INITIALIZING} then sync_main_worker_ready digest db i cur d else (i, False)
             | FILE_ERROR \<Rightarrow> (fail_with (snd cur) i, True))"
    obtain j b where jb: "r = (j, b)" by fastforce
    have e: "sync_file digest iid i0 cur db = store iid r db"
      unfolding r_def d_def using True False assms by (simp add: sync_file_def sync_main_worker_model_file_state_def)
    have "moves db i j \<and> (mf_state (snd cur) = FILE_READY \<and> waiting i \<and> download_completed db i \<longrightarrow> b \<and> fi_state j = STARTING)"
    proof (cases "mf_state (snd cur)")
      case FILE_ERROR
      then show ?thesis using r_def jb by (auto simp: fail_with_def moves_def same_needs_def path_kept_def)
    next
      case FILE_DOWNLOADING
      then show ?thesis using r_def jb downloading_moves [of db i cur d j b] by simp
    next
      case FILE_READY
      then show ?thesis using r_def jb ready_moves [of i digest db cur d j b] by (auto simp: waiting_def split: if_splits)
    qed
    then show ?thesis using e jb assms by (cases b) auto
  next
    case main: False
    show ?thesis
    proof (cases "\<exists>sv k. fi_servers i = Some sv \<and> sv_download_files sv \<and>
                    index_of (\<lambda>s. sd_worker_id s = mf_worker_id (snd cur)) (items (sv_subs sv)) = Some k")
      case True
      then obtain sv k where sv: "fi_servers i = Some sv" "sv_download_files sv"
        "index_of (\<lambda>s. sd_worker_id s = mf_worker_id (snd cur)) (items (sv_subs sv)) = Some k" by blast
      obtain j b where jb: "sync_subordinate_worker digest db i k (items (sv_subs sv) ! k) (snd cur) = (j, b)" by fastforce
      have "sync_file digest iid i0 cur db = store iid (j, b) db"
        using main False assms sv jb by (simp add: sync_file_def sync_distributed_model_file_state_def)
      then show ?thesis using sub_moves [OF jb False] assms by (cases b) auto
    next
      case none: False
      then have "sync_file digest iid i0 cur db = db"
        using main False assms unfolding sync_file_def sync_distributed_model_file_state_def
        by (cases "fi_servers i") (simp_all split: option.split)
      moreover have "\<not> (fi_worker_id i0 = fi_worker_id i \<and> routed i (snd cur))"
      proof
        assume "fi_worker_id i0 = fi_worker_id i \<and> routed i (snd cur)"
        with main obtain sv where sv: "fi_servers i = Some sv" "sv_download_files sv" "mf_worker_id (snd cur) \<in> sd_worker_id ` set (items (sv_subs sv))"
          by (auto simp: routed_def)
        then have "index_of (\<lambda>s. sd_worker_id s = mf_worker_id (snd cur)) (items (sv_subs sv)) \<noteq> None"
          unfolding index_of_None by auto
        with sv none show False by blast
      qed
      ultimately show ?thesis using assms by auto
    qed
  qed
qed

lemma moves_cong:
  assumes "db_files db' = db_files db"
  shows "moves db' i j = moves db i j"
  using completed_cong [OF assms] linked_cong [OF assms] by (simp add: moves_def has_path_def)

lemma moves_waiting: "moves db i j \<Longrightarrow> waiting j \<Longrightarrow> waiting i"
  by (auto simp: moves_def waiting_def)

lemma sync_frame [simp]:
  "db_files (sync_instance_files_state digest iid i0 files db) = db_files db"
  "db_specs (sync_instance_files_state digest iid i0 files db) = db_specs db"
  "j \<noteq> iid \<Longrightarrow> dget (db_rows (sync_instance_files_state digest iid i0 files db)) j = dget (db_rows db) j"
  by (induction files arbitrary: db) (simp_all add: sync_instance_files_state_def)

lemma sync_rows_dict: "dict_ok (db_rows db) \<Longrightarrow> dict_ok (db_rows (sync_instance_files_state digest iid i0 files db))"
proof (induction files arbitrary: db)
  case (Cons cur files)
  have st: "dict_ok (db_rows (store iid r db))" for r using Cons.prems by (simp add: store_def)
  have "dict_ok (db_rows (sync_file digest iid i0 cur db))"
    unfolding sync_file_def sync_main_worker_model_file_state_def sync_distributed_model_file_state_def
    using Cons.prems st by (cases "dget (db_rows db) iid") (simp_all split: option.split)
  then show ?case using Cons.IH by (simp add: sync_instance_files_state_def)
qed (simp add: sync_instance_files_state_def)

lemma sync_row:
  assumes "dget (db_rows db) iid = Some i" and "fi_worker_id i0 = fi_worker_id i"
  shows "\<exists>j. dget (db_rows (sync_instance_files_state digest iid i0 files db)) iid = Some j \<and> moves db i j \<and>
             (download_completed db i \<and> (\<exists>cur \<in> set files. mf_state (snd cur) = FILE_READY \<and> routed i (snd cur)) \<longrightarrow> \<not> waiting j)"
  using assms
proof (induction files arbitrary: db i)
  case Nil
  then show ?case by (simp add: sync_instance_files_state_def)
next
  case (Cons cur files)
  let ?db = "sync_file digest iid i0 cur db"
  obtain j where j: "dget (db_rows ?db) iid = Some j" "moves db i j"
    "mf_state (snd cur) = FILE_READY \<and> waiting i \<and> download_completed db i \<and> fi_worker_id i0 = fi_worker_id i \<and> routed i (snd cur)
       \<longrightarrow> fi_state j = STARTING"
    using sync_file_row [OF Cons.prems(1), of digest i0 cur] by blast
  have n: "same_needs i j" using j(2) by (simp add: moves_def)
  then have w: "fi_worker_id i0 = fi_worker_id j" using Cons.prems(2) by (simp add: same_needs_def)
  obtain k where k: "dget (db_rows (sync_instance_files_state digest iid i0 files ?db)) iid = Some k" "moves ?db j k"
    "download_completed ?db j \<and> (\<exists>cur \<in> set files. mf_state (snd cur) = FILE_READY \<and> routed j (snd cur)) \<longrightarrow> \<not> waiting k"
    using Cons.IH [OF j(1) w] by blast
  have m: "moves db j k" using k(2) moves_cong [of ?db db] by simp
  have c: "download_completed ?db j = download_completed db i" using completed_needs [OF n] completed_cong [of ?db db] by simp
  have "\<not> waiting k" if "download_completed db i" "c \<in> set (cur # files)" "mf_state (snd c) = FILE_READY" "routed i (snd c)" for c
  proof (cases "c = cur \<and> waiting i")
    case True
    then have "\<not> waiting j" using j(3) that Cons.prems(2) by (simp add: waiting_def)
    then show ?thesis using moves_waiting [OF m] by blast
  next
    case False
    then show ?thesis using that k(3) c routed_needs [OF n] moves_waiting [OF j(2)] moves_waiting [OF m] by auto
  qed
  moreover have "moves db i k" using j(2) m by (rule moves_trans)
  moreover have "sync_instance_files_state digest iid i0 (cur # files) db = sync_instance_files_state digest iid i0 files ?db"
    by (simp add: sync_instance_files_state_def)
  ultimately show ?case using k(1) by metis
qed

section \<open>Providing the files\<close>

text \<open>Files keep their worker, and become ready or cease to be only through reports.\<close>

definition evolves :: "file_db \<Rightarrow> file_db \<Rightarrow> bool" where
  "evolves db db' \<longleftrightarrow>
     dict_ok (db_files db') \<and> db_rows db' = db_rows db \<and> db_specs db' = db_specs db \<and>
     (\<forall>k f. dget (db_files db) k = Some f \<longrightarrow>
        (\<exists>g. dget (db_files db') k = Some g \<and> mf_worker_id g = mf_worker_id f \<and> (mf_state g = FILE_READY \<longleftrightarrow> mf_state f = FILE_READY)))"

lemma evolves_refl [simp]: "dict_ok (db_files db) \<Longrightarrow> evolves db db"
  by (simp add: evolves_def)

lemma evolves_trans: "evolves a b \<Longrightarrow> evolves b c \<Longrightarrow> evolves a c"
  unfolding evolves_def by (metis (no_types, lifting))

lemma fresh_id_new: "fresh_id db \<notin> fst ` set (db_files db)"
proof
  assume "fresh_id db \<in> fst ` set (db_files db)"
  then have "fresh_id db \<le> Max (insert 0 (fst ` set (db_files db)))" by (intro Max_ge) auto
  then show False by (simp add: fresh_id_def)
qed

lemma create_file_get:
  "dget (db_files (create_file f db)) k = (if k = fresh_id db then Some f else dget (db_files db) k)"
proof -
  have "dget (db_files db) (fresh_id db) = None" using fresh_id_new [of db] by (simp add: dget_None_iff)
  then show ?thesis by (auto simp: create_file_def map_add_def split: option.split)
qed

lemma create_evolves:
  assumes "dict_ok (db_files db)"
  shows "evolves db (create_file f db)"
proof -
  have "dict_ok (db_files (create_file f db))" using assms fresh_id_new [of db] by (simp add: create_file_def)
  moreover have "dget (db_files (create_file f db)) k = Some g" if "dget (db_files db) k = Some g" for k g
    using fresh_id_new [of db] dget_key [OF that] that unfolding create_file_get by metis
  ultimately show ?thesis by (simp add: evolves_def create_file_def)
qed

text \<open>A snapshot of a file that agrees with its row on worker and readiness.\<close>

definition tracks :: "file_db \<Rightarrow> int \<times> model_file \<Rightarrow> bool" where
  "tracks db kf \<longleftrightarrow>
     (\<exists>g. dget (db_files db) (fst kf) = Some g \<and> mf_worker_id g = mf_worker_id (snd kf) \<and>
          (mf_state g = FILE_READY \<longleftrightarrow> mf_state (snd kf) = FILE_READY))"

lemma tracks_evolves: "tracks db kf \<Longrightarrow> evolves db db' \<Longrightarrow> tracks db' kf"
  unfolding tracks_def evolves_def by (metis (no_types, lifting))

lemma tracks_mem: "dict_ok (db_files db) \<Longrightarrow> kf \<in> set (db_files db) \<Longrightarrow> tracks db kf"
  by (cases kf) (auto simp: tracks_def)

lemma write_evolves:
  assumes "dict_ok (db_files db)" and "tracks db (k, f)"
  shows "evolves db (write_file k f db)"
proof -
  obtain g where g: "dget (db_files db) k = Some g" "mf_worker_id g = mf_worker_id f" "mf_state g = FILE_READY \<longleftrightarrow> mf_state f = FILE_READY"
    using assms(2) by (auto simp: tracks_def)
  have "\<exists>g. dget (db_files (write_file k f db)) l = Some g \<and> mf_worker_id g = mf_worker_id h \<and> (mf_state g = FILE_READY \<longleftrightarrow> mf_state h = FILE_READY)"
    if "dget (db_files db) l = Some h" for l h
    using that g by (cases "l = k") (simp_all add: write_file_def dict_simps)
  then show ?thesis using assms(1) by (simp add: evolves_def write_file_def)
qed

lemma evolves_ok: "evolves db db' \<Longrightarrow> dict_ok (db_files db')"
  by (simp add: evolves_def)

text \<open>What the functions that look for files return: files of the workers in question, tracked by the tables they leave.\<close>

definition found :: "int list \<Rightarrow> file_db \<Rightarrow> (int \<times> model_file) list \<times> file_db \<Rightarrow> bool" where
  "found ids db r \<longleftrightarrow>
     evolves db (snd r) \<and> (\<forall>kf \<in> set (fst r). tracks (snd r) kf \<and> (\<exists>w \<in> set ids. mf_worker_id (snd kf) = Some w))"

lemma get_files_found:
  assumes "dict_ok (db_files db)"
  shows "found (get_worker_ids_for_file_download i) db (get_model_files_for_instance digest db i src, db)"
proof -
  have "kf \<in> set (db_files db) \<and> (\<exists>w \<in> set (get_worker_ids_for_file_download i). mf_worker_id (snd kf) = Some w)"
    if "kf \<in> set (get_model_files_for_instance digest db i src)" for kf
    using that by (auto simp: get_model_files_for_instance_def on_workers_def by_source_index_def by_resolved_path_def Let_def split: if_splits)
  then show ?thesis using assms tracks_mem [OF assms] unfolding found_def by simp
qed

lemma create_all_evolves:
  "dict_ok (db_files db) \<Longrightarrow> evolves db (fold (\<lambda>w. create_file (new_file digest src w)) ws db)"
proof (induction ws arbitrary: db)
  case (Cons w ws)
  have e: "evolves db (create_file (new_file digest src w) db)" using Cons.prems by (rule create_evolves)
  show ?case using evolves_trans [OF e Cons.IH [OF evolves_ok [OF e]]] by simp
qed simp

lemma found_evolves: "evolves db db1 \<Longrightarrow> found ids db1 r \<Longrightarrow> found ids db r"
  unfolding found_def by (blast intro: evolves_trans)

lemma get_or_create_found:
  assumes "dict_ok (db_files db)"
  shows "found (get_worker_ids_for_file_download i) db (get_or_create_model_files_for_instance digest i src db)"
proof -
  let ?db = "\<lambda>ws. fold (\<lambda>w. create_file (new_file digest src w)) ws db"
  have "found (get_worker_ids_for_file_download i) db (get_model_files_for_instance digest (?db ws) i src, ?db ws)" for ws
    using create_all_evolves [OF assms, of digest src ws] get_files_found [OF evolves_ok] by (blast intro: found_evolves)
  then show ?thesis using get_files_found [OF assms] by (simp add: get_or_create_model_files_for_instance_def Let_def)
qed

lemma created_present:
  "w \<in> set ws \<Longrightarrow> \<exists>k. (k, new_file digest src w) \<in> set (db_files (fold (\<lambda>w. create_file (new_file digest src w)) ws db))"
proof (induction ws arbitrary: db)
  case (Cons v ws)
  have keep: "kf \<in> set (db_files db) \<Longrightarrow> kf \<in> set (db_files (fold (\<lambda>w. create_file (new_file digest src w)) ws db))" for kf and ws and db
    by (induction ws arbitrary: db) (auto simp: create_file_def)
  show ?case
  proof (cases "w = v")
    case True
    have "(fresh_id db, new_file digest src w) \<in> set (db_files (create_file (new_file digest src w) db))" by (simp add: create_file_def)
    with True keep show ?thesis by fastforce
  next
    case False
    then show ?thesis using Cons by simp
  qed
qed simp

lemma get_files_mem:
  "kf \<in> set (db_files db) \<Longrightarrow> mf_source_index (snd kf) = model_source_index digest src \<Longrightarrow>
   mf_worker_id (snd kf) = Some w \<Longrightarrow> w \<in> set (get_worker_ids_for_file_download i) \<Longrightarrow>
   kf \<in> set (get_model_files_for_instance digest db i src)"
  by (cases kf) (auto simp: get_model_files_for_instance_def on_workers_def by_source_index_def Let_def)

text \<open>Some file is found when there is a worker to have it.\<close>

lemma get_or_create_nonempty:
  assumes "get_worker_ids_for_file_download i \<noteq> []"
  shows "fst (get_or_create_model_files_for_instance digest i src db) \<noteq> []"
proof -
  let ?ids = "get_worker_ids_for_file_download i" and ?files = "get_model_files_for_instance digest db i src"
  let ?missing = "filter (\<lambda>w. Some w \<notin> mf_worker_id ` snd ` set ?files) (remdups ?ids)"
  show ?thesis
  proof (cases "length ?files = length ?ids \<or> ?missing = []")
    case True
    then have "?files \<noteq> []" using assms by (auto simp: filter_empty_conv remdups_eq_nil_iff)
    with True show ?thesis by (auto simp: get_or_create_model_files_for_instance_def Let_def)
  next
    case False
    let ?db = "fold (\<lambda>w. create_file (new_file digest src w)) ?missing db"
    have "?missing \<noteq> []" using False by blast
    then obtain w where w: "w \<in> set ?missing" using list.set_sel(1) by blast
    then obtain k where "(k, new_file digest src w) \<in> set (db_files ?db)" using created_present by blast
    moreover have "w \<in> set ?ids" using w by simp
    ultimately have "(k, new_file digest src w) \<in> set (get_model_files_for_instance digest ?db i src)"
      by (intro get_files_mem) (simp_all add: new_file_def)
    then have "get_model_files_for_instance digest ?db i src \<noteq> []" by auto
    moreover have "get_or_create_model_files_for_instance digest i src db = (get_model_files_for_instance digest ?db i src, ?db)"
      using False unfolding get_or_create_model_files_for_instance_def Let_def by (rule if_not_P)
    ultimately show ?thesis by simp
  qed
qed

lemma found_add:
  assumes "found ids db (out, db1)" and "evolves db1 db2" and "tracks db2 kf" and "mf_worker_id (snd kf) = Some w" and "w \<in> set ids"
  shows "found ids db (add_unseen kf out, db2)"
proof -
  have "tracks db2 k \<and> (\<exists>w \<in> set ids. mf_worker_id (snd k) = Some w)" if "k \<in> set (add_unseen kf out)" for k
  proof (cases "k \<in> set out")
    case True
    then show ?thesis using assms(1) tracks_evolves [OF _ assms(2)] unfolding found_def by auto
  next
    case False
    then have "k = kf" using that by (auto simp: add_unseen_def split: if_splits)
    then show ?thesis using assms(3-5) by blast
  qed
  then show ?thesis using assms(1,2) evolves_trans unfolding found_def by fastforce
qed

lemma lora_worker_found:
  assumes f: "found ids db acc" and w: "w \<in> set ids" and ex: "\<And>kf. kf \<in> set existing \<Longrightarrow> tracks (snd acc) kf"
  shows "found ids db (lora_on_worker digest src base existing w acc)"
    and "evolves (snd acc) (snd (lora_on_worker digest src base existing w acc))"
proof -
  obtain out db1 where acc: "acc = (out, db1)" by fastforce
  have ok: "dict_ok (db_files db1)" using f acc by (simp add: found_def evolves_def)
  have "found ids db (lora_on_worker digest src base existing w acc) \<and> evolves db1 (snd (lora_on_worker digest src base existing w acc))"
  proof (cases "find (\<lambda>(_, f). mf_worker_id f = Some w) existing")
    case None
    let ?f = "(new_file digest src w)\<lparr>mf_is_lora := True, mf_base_model := Some base\<rparr>"
    have e: "evolves db1 (create_file ?f db1)" using ok by (rule create_evolves)
    have "tracks (create_file ?f db1) (fresh_id db1, ?f)" by (simp add: tracks_def create_file_get)
    then have "found ids db (add_unseen (fresh_id db1, ?f) out, create_file ?f db1)"
      using f acc e w by (intro found_add [of ids db out db1 _ _ w]) (simp_all add: new_file_def)
    with e None acc show ?thesis by (simp add: lora_on_worker_def Let_def)
  next
    case (Some kf)
    obtain k g where kf: "kf = (k, g)" by fastforce
    let ?g = "g\<lparr>mf_is_lora := True, mf_base_model := Some base\<rparr>"
    have "kf \<in> set existing" using Some by (metis find_Some_iff nth_mem)
    moreover have gw: "mf_worker_id g = Some w" using Some kf by (auto simp: find_Some_iff)
    ultimately have t: "tracks db1 (k, ?g)" using ex [of kf] kf acc by (simp add: tracks_def)
    define db2 where "db2 = (if mf_base_model g \<noteq> Some base then write_file k ?g db1 else db1)"
    have e: "evolves db1 db2" using write_evolves [OF ok t] ok by (simp add: db2_def)
    then have "found ids db (add_unseen (k, ?g) out, db2)"
      using f acc gw w tracks_evolves [OF t e] by (intro found_add [of ids db out db1 _ _ w]) simp_all
    with e Some kf acc show ?thesis by (simp add: lora_on_worker_def db2_def Let_def)
  qed
  then show "found ids db (lora_on_worker digest src base existing w acc)"
    and "evolves (snd acc) (snd (lora_on_worker digest src base existing w acc))" using acc by simp_all
qed

lemma lora_workers_found:
  assumes "found ids db acc" and "set ws \<subseteq> set ids" and "\<And>kf. kf \<in> set existing \<Longrightarrow> tracks (snd acc) kf"
  shows "found ids db (fold (lora_on_worker digest src base existing) ws acc)"
  using assms
proof (induction ws arbitrary: acc)
  case (Cons w ws)
  let ?acc = "lora_on_worker digest src base existing w acc"
  have e: "evolves (snd acc) (snd ?acc)" using lora_worker_found(2) [OF Cons.prems(1) _ Cons.prems(3)] Cons.prems(2) by simp
  have "found ids db ?acc" using lora_worker_found(1) [OF Cons.prems(1) _ Cons.prems(3)] Cons.prems(2) by simp
  then have "found ids db (fold (lora_on_worker digest src base existing) ws ?acc)"
    using Cons.prems(2) tracks_evolves [OF Cons.prems(3) e] by (intro Cons.IH) auto
  then show ?case by simp
qed simp

lemma loras_found:
  assumes "dict_ok (db_files db)"
  shows "found (get_worker_ids_for_file_download i) db (get_or_create_lora_model_files_for_instance digest i m db)"
proof -
  let ?ids = "get_worker_ids_for_file_download i"
  have "found ?ids db acc \<Longrightarrow> found ?ids db (fold (lora_entry_files digest base ?ids) es acc)" for base es acc
  proof (induction es arbitrary: acc)
    case (Cons e es)
    have ok: "dict_ok (db_files (snd acc))" using Cons.prems by (simp add: found_def evolves_def)
    have t: "tracks (snd acc) kf" if "kf \<in> set (by_source_index (snd acc) idx)" for kf idx
      using that tracks_mem [OF ok] by (simp add: by_source_index_def)
    have "found ?ids db (lora_entry_files digest base ?ids e acc)"
      using Cons.prems lora_workers_found [OF Cons.prems subset_refl t] by (simp add: lora_entry_files_def Let_def split: sum.split)
    then show ?case using Cons.IH by simp
  qed simp
  moreover have "found ?ids db ([], db)" using assms by (simp add: found_def)
  ultimately show ?thesis by (simp add: get_or_create_lora_model_files_for_instance_def)
qed

lemma retried_simps [simp]: "mf_worker_id (retried f) = mf_worker_id f" "mf_state (retried f) = FILE_READY \<longleftrightarrow> mf_state f = FILE_READY"
  by (simp_all add: retried_def)

lemma retry_all_evolves:
  assumes "dict_ok (db_files db)" and "\<And>kf. kf \<in> set fs \<Longrightarrow> tracks db kf"
  shows "evolves db (fold retry_file fs db)"
  using assms
proof (induction fs arbitrary: db)
  case (Cons kf fs)
  have "tracks db (fst kf, retried (snd kf))" using Cons.prems(2) [of kf] by (simp add: tracks_def)
  then have e: "evolves db (retry_file kf db)"
    using Cons.prems(1) write_evolves [OF Cons.prems(1)] by (simp add: retry_file_def)
  have "evolves (retry_file kf db) (fold retry_file fs (retry_file kf db))"
    using tracks_evolves [OF Cons.prems(2) e] evolves_ok [OF e] by (intro Cons.IH) auto
  with e show ?case by (auto intro: evolves_trans)
qed simp

lemma set_add_links [simp]: "set (add_links new old) = set new \<union> set old"
  unfolding add_links_def by (induction new arbitrary: old) auto

text \<open>Every link leads to a file, and the reports on that file reach the instance.\<close>

definition route_ok :: "file_db \<Rightarrow> file_instance \<Rightarrow> bool" where
  "route_ok db i \<longleftrightarrow> (\<forall>k \<in> set (fi_files i) \<union> set (fi_draft_files i). \<exists>f. dget (db_files db) k = Some f \<and> routed i f)"

definition placed :: "file_instance \<Rightarrow> bool" where
  "placed i \<longleftrightarrow> (\<exists>w. fi_worker_id i = Some w \<and> w \<noteq> 0)"

lemma routeD:
  assumes "route_ok db i" and "k \<in> set (fi_files i) \<union> set (fi_draft_files i)" and "dget (db_files db) k = Some f"
  shows "routed i f"
proof -
  obtain g where "dget (db_files db) k = Some g" "routed i g" using assms(1,2) unfolding route_ok_def by blast
  then show ?thesis using assms(3) by simp
qed

lemma set_linked: "(k, f) \<in> set (linked db ids) \<longleftrightarrow> k \<in> set ids \<and> dget (db_files db) k = Some f"
  by (auto simp: linked_def split: option.splits)

lemma placed_ids: "placed i \<Longrightarrow> get_worker_ids_for_file_download i \<noteq> []"
  by (auto simp: placed_def get_worker_ids_for_file_download_def present_def)

lemma ids_routed:
  "w \<in> set (get_worker_ids_for_file_download i) \<Longrightarrow> mf_worker_id f = Some w \<Longrightarrow> routed i f"
  by (auto simp: get_worker_ids_for_file_download_def present_def routed_def image_iff split: option.splits if_splits)

lemma routed_cong: "routed (i\<lparr>fi_files := a, fi_draft_files := b\<rparr>) f = routed i f" "mf_worker_id g = mf_worker_id f \<Longrightarrow> routed i g = routed i f"
  by (simp_all add: routed_def)

lemma route_needs: "same_needs i j \<Longrightarrow> route_ok db j = route_ok db i"
proof -
  assume n: "same_needs i j"
  then have "fi_files j = fi_files i" "fi_draft_files j = fi_draft_files i" by (simp_all add: same_needs_def)
  then show ?thesis using routed_needs [OF n] by (simp add: route_ok_def)
qed

lemma completed_ready:
  assumes "download_completed db i" and "k \<in> set (fi_files i)" and "dget (db_files db) k = Some f"
  shows "mf_state f = FILE_READY"
proof -
  have "(k, f) \<in> set (linked db (fi_files i))" using assms by (simp add: set_linked)
  then show ?thesis using assms(1) by (auto simp: download_completed_def list_all_iff)
qed

text \<open>Links to files found on the instance's workers keep the routes.\<close>

lemma linked_routes:
  assumes "route_ok db i" and "evolves db db'" and "db_files db4 = db_files db'"
    and "\<And>kf. kf \<in> set files \<Longrightarrow> tracks db' kf \<and> (\<exists>w \<in> set (get_worker_ids_for_file_download i). mf_worker_id (snd kf) = Some w)"
    and "set a \<union> set b = set (fi_files i) \<union> set (fi_draft_files i) \<union> fst ` set files"
  shows "route_ok db4 (i\<lparr>fi_files := a, fi_draft_files := b\<rparr>)"
proof -
  have "\<exists>f. dget (db_files db') k = Some f \<and> routed i f" if k: "k \<in> set a \<union> set b" for k
  proof (cases "k \<in> fst ` set files")
    case True
    then obtain f where "(k, f) \<in> set files" by auto
    then obtain g w where "dget (db_files db') k = Some g" "mf_worker_id g = Some w" "w \<in> set (get_worker_ids_for_file_download i)"
      using assms(4) [of "(k, f)"] by (auto simp: tracks_def)
    then show ?thesis using ids_routed by blast
  next
    case False
    then have "k \<in> set (fi_files i) \<union> set (fi_draft_files i)" using k assms(5) by simp
    then obtain f where "dget (db_files db) k = Some f" "routed i f" using assms(1) unfolding route_ok_def by blast
    moreover from this obtain g where "dget (db_files db') k = Some g" "mf_worker_id g = mf_worker_id f"
      using assms(2) unfolding evolves_def by blast
    ultimately show ?thesis using routed_cong(2) by blast
  qed
  then show ?thesis using assms(3) by (simp add: route_ok_def routed_cong(1))
qed

text \<open>What \<open>ensure_instance_model_file\<close> leaves of its instance.\<close>

definition ensured :: "file_db \<Rightarrow> int \<Rightarrow> file_instance \<Rightarrow> file_db \<Rightarrow> bool" where
  "ensured db iid i db' \<longleftrightarrow>
     (\<exists>dbr. evolves db dbr \<and> db_files db' = db_files dbr \<and> db_specs db' = db_specs db) \<and>
     (\<forall>j. j \<noteq> iid \<longrightarrow> dget (db_rows db') j = dget (db_rows db) j) \<and>
     (\<exists>j. dget (db_rows db') iid = Some j \<and> fi_worker_id j = fi_worker_id i \<and> fi_draft_source j = fi_draft_source i \<and>
          route_ok db' j \<and> set (fi_files i) \<subseteq> set (fi_files j) \<and> set (fi_draft_files i) \<subseteq> set (fi_draft_files j) \<and>
          (waiting j \<longrightarrow> waiting i) \<and> (download_completed db' j \<longrightarrow> \<not> waiting j))"

lemma ensuredI:
  assumes "evolves db dbr" and "db_files db' = db_files dbr" and "db_specs db' = db_specs db"
    and "\<And>j. j \<noteq> iid \<Longrightarrow> dget (db_rows db') j = dget (db_rows db) j" and "dget (db_rows db') iid = Some j"
    and "fi_worker_id j = fi_worker_id i \<and> fi_draft_source j = fi_draft_source i \<and>
         set (fi_files i) \<subseteq> set (fi_files j) \<and> set (fi_draft_files i) \<subseteq> set (fi_draft_files j)"
    and "route_ok db' j" and "waiting j \<longrightarrow> waiting i" and "download_completed db' j \<Longrightarrow> \<not> waiting j"
  shows "ensured db iid i db'"
  unfolding ensured_def using assms by blast

lemma ensure_complete:
  assumes ok: "dict_ok (db_files db)" and row: "dget (db_rows db) iid = Some i" and "route_ok db i" and "instance_model_files_complete db i"
  shows "ensured db iid i (sync_instance_files_state digest iid i (linked db (fi_files i) @ linked db (fi_draft_files i)) db)"
proof -
  let ?files = "linked db (fi_files i) @ linked db (fi_draft_files i)"
  let ?db = "sync_instance_files_state digest iid i ?files db"
  obtain j where j: "dget (db_rows ?db) iid = Some j" "moves db i j"
    "download_completed db i \<and> (\<exists>cur \<in> set ?files. mf_state (snd cur) = FILE_READY \<and> routed i (snd cur)) \<longrightarrow> \<not> waiting j"
    using sync_row [OF row, of i digest ?files] by blast
  have n: "same_needs i j" using j(2) by (simp add: moves_def)
  have "linked db (fi_files i) \<noteq> []"
  proof
    assume none: "linked db (fi_files i) = []"
    obtain w where "w \<in> set (get_worker_ids_for_file_download i)"
      using assms(4) list.set_sel(1) unfolding instance_model_files_complete_def Let_def by blast
    with none assms(4) show False by (simp add: instance_model_files_complete_def Let_def list_all_iff)
  qed
  then obtain k f where kf: "(k, f) \<in> set (linked db (fi_files i))" by (cases "linked db (fi_files i)") auto
  then have "routed i f" using routeD [OF assms(3), of k f] by (simp add: set_linked)
  then have "\<not> waiting j" if "download_completed db i"
    using that j(3) bexI [of _ "(k, f)" "set ?files"] kf completed_ready [OF that, of k f] by (simp add: set_linked)
  moreover have "download_completed ?db j = download_completed db i" using completed_needs [OF n] completed_cong [of ?db db] by simp
  moreover have "route_ok ?db j" using assms(3) route_needs [OF n] by (simp add: route_ok_def)
  moreover have "fi_worker_id j = fi_worker_id i \<and> fi_draft_source j = fi_draft_source i \<and>
      set (fi_files i) \<subseteq> set (fi_files j) \<and> set (fi_draft_files i) \<subseteq> set (fi_draft_files j)"
    using n by (simp add: same_needs_def)
  moreover have "waiting j \<longrightarrow> waiting i" using moves_waiting [OF j(2)] by blast
  ultimately show ?thesis using j(1) by (intro ensuredI [OF evolves_refl [OF ok]]) auto
qed

text \<open>The links and the reports that follow, once the files are found.\<close>

lemma ensure_linked:
  assumes row: "dget (db_rows db) iid = Some i" and route: "route_ok db i" and e: "evolves db dbr"
    and all: "\<And>kf. kf \<in> set (files @ drafts @ loras) \<Longrightarrow>
                tracks dbr kf \<and> (\<exists>w \<in> set (get_worker_ids_for_file_download i). mf_worker_id (snd kf) = Some w)"
    and ne: "files \<noteq> []"
  shows "ensured db iid i (sync_instance_files_state digest iid i (map (\<lambda>(k, f). (k, retried f)) (files @ drafts @ loras))
           (link_files iid (map fst (files @ loras)) (map fst drafts) dbr))"
proof -
  define i' where "i' = i\<lparr>fi_files := add_links (map fst (files @ loras)) (fi_files i), fi_draft_files := add_links (map fst drafts) (fi_draft_files i)\<rparr>"
  define db4 where "db4 = link_files iid (map fst (files @ loras)) (map fst drafts) dbr"
  let ?snap = "map (\<lambda>(k, f). (k, retried f)) (files @ drafts @ loras)"
  let ?db = "sync_instance_files_state digest iid i ?snap db4"
  have rows: "db_rows dbr = db_rows db" "db_specs dbr = db_specs db" using e by (simp_all add: evolves_def)
  have db4: "db_files db4 = db_files dbr" "db_specs db4 = db_specs db" "dget (db_rows db4) iid = Some i'"
    "\<And>j. j \<noteq> iid \<Longrightarrow> dget (db_rows db4) j = dget (db_rows db) j"
    using row rows by (simp_all add: db4_def link_files_def i'_def dict_simps)
  have route4: "route_ok db4 i'"
    unfolding i'_def using all by (intro linked_routes [OF route e db4(1), where files = "files @ drafts @ loras"]) auto
  have w: "fi_worker_id i = fi_worker_id i'" by (simp add: i'_def)
  obtain j where j: "dget (db_rows ?db) iid = Some j" "moves db4 i' j"
    "download_completed db4 i' \<and> (\<exists>cur \<in> set ?snap. mf_state (snd cur) = FILE_READY \<and> routed i' (snd cur)) \<longrightarrow> \<not> waiting j"
    using sync_row [OF db4(3) w, of digest ?snap] by blast
  have n: "same_needs i' j" using j(2) by (simp add: moves_def)
  obtain k f where kf: "(k, f) \<in> set files" using ne by (cases files) auto
  then obtain g where g: "dget (db_files dbr) k = Some g" "mf_worker_id g = mf_worker_id f" "mf_state g = FILE_READY \<longleftrightarrow> mf_state f = FILE_READY"
    using all [of "(k, f)"] by (auto simp: tracks_def)
  have k: "k \<in> set (fi_files i')" using kf by (force simp: i'_def)
  have "routed i' (retried f)"
    using routeD [OF route4, of k g] k g db4(1) routed_cong(2) [of "retried f" g i'] by simp
  moreover have "(k, retried f) \<in> set ?snap" using kf by force
  moreover have "mf_state (retried f) = FILE_READY" if "download_completed db4 i'"
    using completed_ready [OF that k, of g] g db4(1) by simp
  ultimately have "\<not> waiting j" if "download_completed db4 i'" using that j(3) by (metis snd_conv)
  moreover have "download_completed ?db j = download_completed db4 i'" using completed_needs [OF n] completed_cong [of ?db db4] by simp
  moreover have "route_ok ?db j" using route4 route_needs [OF n] by (simp add: route_ok_def)
  moreover have "fi_worker_id j = fi_worker_id i \<and> fi_draft_source j = fi_draft_source i \<and>
      set (fi_files i) \<subseteq> set (fi_files j) \<and> set (fi_draft_files i) \<subseteq> set (fi_draft_files j)"
    using n by (auto simp: same_needs_def i'_def)
  moreover have "waiting j \<longrightarrow> waiting i" using moves_waiting [OF j(2)] by (simp add: waiting_def i'_def)
  ultimately show ?thesis unfolding db4_def [symmetric] using j(1) db4 by (intro ensuredI [OF e]) auto
qed

lemma ensure_ensured:
  assumes ok: "dict_ok (db_files db)" and row: "dget (db_rows db) iid = Some i" and route: "route_ok db i" and p: "placed i"
  shows "ensured db iid i (ensure_instance_model_file digest (Some w) iid db)"
proof (cases "instance_model_files_complete db i")
  case True
  then show ?thesis using ensure_complete [OF ok row route] row by (simp add: ensure_instance_model_file_def)
next
  case False
  let ?ids = "get_worker_ids_for_file_download i"
  obtain files db1 where f: "get_or_create_model_files_for_instance digest i (fi_source i) db = (files, db1)" by fastforce
  obtain drafts db2 where d: "(case fi_draft_source i of None \<Rightarrow> ([], db1) | Some s \<Rightarrow> get_or_create_model_files_for_instance digest i s db1) = (drafts, db2)"
    by fastforce
  obtain loras db3 where l: "(case dget (db_specs db) (fi_model_id i) of None \<Rightarrow> ([], db2)
      | Some m \<Rightarrow> get_or_create_lora_model_files_for_instance digest i m db2) = (loras, db3)" by fastforce
  let ?all = "files @ drafts @ loras"
  have F: "found ?ids db (files, db1)" using get_or_create_found [OF ok] f by metis
  have ok1: "dict_ok (db_files db1)" using F by (simp add: found_def evolves_def)
  have D: "found ?ids db1 (drafts, db2)"
  proof (cases "fi_draft_source i")
    case None
    then show ?thesis using d ok1 by (auto simp: found_def)
  next
    case (Some s)
    then show ?thesis using d get_or_create_found [OF ok1, of i digest s] by simp
  qed
  have ok2: "dict_ok (db_files db2)" using D by (simp add: found_def evolves_def)
  have L: "found ?ids db2 (loras, db3)"
  proof (cases "dget (db_specs db) (fi_model_id i)")
    case None
    then show ?thesis using l ok2 by (auto simp: found_def)
  next
    case (Some m)
    then show ?thesis using l loras_found [OF ok2, of i digest m] by simp
  qed
  have e: "evolves db1 db2" "evolves db2 db3" "evolves db db3" using F D L evolves_trans unfolding found_def by auto
  have all3: "tracks db3 kf \<and> (\<exists>w \<in> set ?ids. mf_worker_id (snd kf) = Some w)" if "kf \<in> set ?all" for kf
    using that F D L tracks_evolves [OF _ e(1), of kf] tracks_evolves [OF _ e(2), of kf] unfolding found_def by auto
  define dbr where "dbr = fold retry_file ?all db3"
  have r: "evolves db3 dbr" unfolding dbr_def using all3 evolves_ok [OF e(3)] by (intro retry_all_evolves) auto
  have "files \<noteq> []" using get_or_create_nonempty [OF placed_ids [OF p], of digest "fi_source i" db] f by simp
  then have "ensured db iid i (sync_instance_files_state digest iid i (map (\<lambda>(k, f). (k, retried f)) ?all)
      (link_files iid (map fst (files @ loras)) (map fst drafts) dbr))"
    using all3 tracks_evolves [OF _ r] evolves_trans [OF e(3) r] by (intro ensure_linked [OF row route]) auto
  then show ?thesis using False row f d l by (simp add: ensure_instance_model_file_def dbr_def)
qed

section \<open>All steps together\<close>

text \<open>
  \<open>sy_events\<close>: files with an event to come; \<open>sy_wakeups\<close>: instances with an event to come whose payload is
  INITIALIZING; \<open>sy_handling\<close>: the file the controller read, and the instances it still has to tell, as it read them.
\<close>

record file_system =
  sy_db :: file_db
  sy_events :: "int set"
  sy_wakeups :: "int set"
  sy_handling :: "(int \<times> model_file \<times> (int \<times> file_instance) list) option"

definition instances_of :: "int \<Rightarrow> file_db \<Rightarrow> (int \<times> file_instance) list" where
  "instances_of k db =
     filter (\<lambda>(_, i). k \<in> set (fi_files i)) (db_rows db) @ filter (\<lambda>(_, i). k \<in> set (fi_draft_files i)) (db_rows db)"

definition take_event :: "int \<Rightarrow> file_system \<Rightarrow> file_system" where
  "take_event k s =
     s\<lparr>sy_events := sy_events s - {k},
       sy_handling := map_option (\<lambda>f. (k, f, instances_of k (sy_db s))) (dget (db_files (sy_db s)) k)\<rparr>"

definition wake :: "(string \<Rightarrow> string) \<Rightarrow> int \<Rightarrow> file_system \<Rightarrow> file_system" where
  "wake digest iid s =
     (let db = sy_db s; db' = ensure_instance_model_file digest (Option.bind (dget (db_rows db) iid) fi_worker_id) iid db
      in s\<lparr>sy_db := db', sy_wakeups := sy_wakeups s - {iid},
           sy_events := sy_events s \<union> {k. dget (db_files db') k \<noteq> dget (db_files db) k}\<rparr>)"

text \<open>
  A worker reports on a file; the file controller takes an event, tells an instance, is done; the instance controller
  serves an instance; the scheduler or a worker changes a row without moving it to another worker or into DOWNLOADING.
  Whatever leaves a row INITIALIZING is an event for the instance controller.
\<close>

inductive file_step :: "(string \<Rightarrow> string) \<Rightarrow> file_system \<Rightarrow> file_system \<Rightarrow> bool" for digest where
  Report: "dget (db_files (sy_db s)) k = Some f \<Longrightarrow> mf_worker_id f' = mf_worker_id f \<Longrightarrow>
    file_step digest s (s\<lparr>sy_db := write_file k f' (sy_db s), sy_events := insert k (sy_events s)\<rparr>)"
| Take: "k \<in> sy_events s \<Longrightarrow> sy_handling s = None \<Longrightarrow> file_step digest s (take_event k s)"
| Tell: "sy_handling s = Some (k, f, (iid, i0) # rest) \<Longrightarrow>
    file_step digest s (s\<lparr>sy_db := sync_instance_files_state digest iid i0 [(k, f)] (sy_db s), sy_handling := Some (k, f, rest)\<rparr>)"
| Done: "sy_handling s = Some (k, f, []) \<Longrightarrow> file_step digest s (s\<lparr>sy_handling := None\<rparr>)"
| Wake: "iid \<in> sy_wakeups s \<Longrightarrow> file_step digest s (wake digest iid s)"
| Write: "dget (db_rows (sy_db s)) iid = Some i \<Longrightarrow> same_needs i i' \<Longrightarrow> fi_state i' \<noteq> DOWNLOADING \<or> fi_state i = DOWNLOADING \<Longrightarrow>
    (waiting i' \<longrightarrow> placed i') \<Longrightarrow>
    file_step digest s (s\<lparr>sy_db := (sy_db s)\<lparr>db_rows := dput iid i' (db_rows (sy_db s))\<rparr>,
      sy_wakeups := (if fi_state i' = INITIALIZING then insert iid (sy_wakeups s) else sy_wakeups s)\<rparr>)"

text \<open>Rows, links and the controller's snapshots agree on workers.\<close>

definition tables_ok :: "file_db \<Rightarrow> bool" where
  "tables_ok db \<longleftrightarrow>
     dict_ok (db_files db) \<and> dict_ok (db_rows db) \<and>
     (\<forall>iid i. dget (db_rows db) iid = Some i \<longrightarrow> route_ok db i \<and> (waiting i \<longrightarrow> placed i) \<and> fi_worker_id i \<noteq> Some 0)"

definition told_ok :: "file_db \<Rightarrow> int \<Rightarrow> int \<times> file_instance \<Rightarrow> bool" where
  "told_ok db k x \<longleftrightarrow>
     (\<exists>i. dget (db_rows db) (fst x) = Some i \<and> fi_worker_id (snd x) = fi_worker_id i \<and> k \<in> set (fi_files i) \<union> set (fi_draft_files i))"

definition handling_ok :: "file_db \<Rightarrow> (int \<times> model_file \<times> (int \<times> file_instance) list) option \<Rightarrow> bool" where
  "handling_ok db h \<longleftrightarrow>
     (\<forall>k f told. h = Some (k, f, told) \<longrightarrow>
        (\<exists>g. dget (db_files db) k = Some g \<and> mf_worker_id g = mf_worker_id f) \<and> (\<forall>x \<in> set told. told_ok db k x))"

definition files_ok :: "file_system \<Rightarrow> bool" where
  "files_ok s \<longleftrightarrow> tables_ok (sy_db s) \<and> handling_ok (sy_db s) (sy_handling s)"

text \<open>The files the start of an instance depends on; and: somebody is still going to look at the instance.\<close>

definition needed :: "file_instance \<Rightarrow> int set" where
  "needed i = set (fi_files i) \<union> (if fi_draft_source i = None then {} else set (fi_draft_files i))"

definition in_hand :: "file_system \<Rightarrow> int \<Rightarrow> file_instance \<Rightarrow> bool" where
  "in_hand s iid i \<longleftrightarrow>
     iid \<in> sy_wakeups s \<or>
     (\<exists>k \<in> needed i. k \<in> sy_events s) \<or>
     (\<exists>k f told. sy_handling s = Some (k, f, told) \<and> mf_state f = FILE_READY \<and> iid \<in> fst ` set told)"

definition none_forgotten :: "file_system \<Rightarrow> bool" where
  "none_forgotten s \<longleftrightarrow>
     (\<forall>iid i. dget (db_rows (sy_db s)) iid = Some i \<and> waiting i \<and> download_completed (sy_db s) i \<longrightarrow> in_hand s iid i)"

lemma linked_ready:
  "list_all (\<lambda>(_, f). mf_state f = FILE_READY) (linked db ids) \<longleftrightarrow> (\<forall>k \<in> set ids. \<forall>f. dget (db_files db) k = Some f \<longrightarrow> mf_state f = FILE_READY)"
  by (auto simp: list_all_iff set_linked)

lemma linked_Nil: "(\<And>k. k \<in> set ids \<Longrightarrow> \<exists>f. dget (db_files db) k = Some f) \<Longrightarrow> linked db ids = [] \<longleftrightarrow> ids = []"
proof (cases ids)
  case (Cons k ks)
  moreover assume "\<And>k. k \<in> set ids \<Longrightarrow> \<exists>f. dget (db_files db) k = Some f"
  ultimately obtain f where "dget (db_files db) k = Some f" by (metis list.set_intros(1))
  with Cons show ?thesis by (simp add: linked_def)
qed (simp add: linked_def)

lemma completed_iff:
  assumes "\<And>k. k \<in> needed i \<Longrightarrow> \<exists>f. dget (db_files db) k = Some f"
  shows "download_completed db i \<longleftrightarrow>
     \<not> (fi_files i = [] \<and> fi_draft_source i = None) \<and> (fi_draft_source i \<noteq> None \<longrightarrow> fi_draft_files i \<noteq> []) \<and>
     (\<forall>k \<in> needed i. \<forall>f. dget (db_files db) k = Some f \<longrightarrow> mf_state f = FILE_READY)"
proof -
  have "linked db (fi_files i) = [] \<longleftrightarrow> fi_files i = []" using assms by (intro linked_Nil) (simp add: needed_def)
  moreover have "linked db (fi_draft_files i) = [] \<longleftrightarrow> fi_draft_files i = []" if "fi_draft_source i \<noteq> None"
    using assms that by (intro linked_Nil) (simp add: needed_def)
  ultimately show ?thesis unfolding download_completed_def linked_ready by (cases "fi_draft_source i") (auto simp: needed_def)
qed

text \<open>Completion depends on the readiness of the needed files only.\<close>

lemma completed_same:
  assumes "\<And>k. k \<in> needed i \<Longrightarrow> \<exists>f g. dget (db_files db) k = Some f \<and> dget (db_files db') k = Some g \<and> (mf_state g = FILE_READY \<longleftrightarrow> mf_state f = FILE_READY)"
  shows "download_completed db' i = download_completed db i"
proof -
  have a: "\<exists>f. dget (db_files db) k = Some f" "\<exists>f. dget (db_files db') k = Some f" if "k \<in> needed i" for k using assms [OF that] by blast+
  have "(\<forall>f. dget (db_files db') k = Some f \<longrightarrow> mf_state f = FILE_READY) \<longleftrightarrow> (\<forall>f. dget (db_files db) k = Some f \<longrightarrow> mf_state f = FILE_READY)"
    if "k \<in> needed i" for k using assms [OF that] by auto
  then show ?thesis using completed_iff [of i db] completed_iff [of i db'] a by auto
qed

lemma needed_links: "needed i \<subseteq> set (fi_files i) \<union> set (fi_draft_files i)"
  by (simp add: needed_def)

lemma route_exists: "route_ok db i \<Longrightarrow> k \<in> needed i \<Longrightarrow> \<exists>f. dget (db_files db) k = Some f"
  unfolding route_ok_def needed_def by (metis UnCI UnE empty_iff)

lemma route_kept:
  assumes "route_ok db i" and "\<And>k f. dget (db_files db) k = Some f \<Longrightarrow> \<exists>g. dget (db_files db') k = Some g \<and> mf_worker_id g = mf_worker_id f"
  shows "route_ok db' i"
  using assms routed_cong(2) unfolding route_ok_def by metis

lemma needs_needed: "same_needs i j \<Longrightarrow> needed j = needed i" "same_needs i j \<Longrightarrow> placed j = placed i"
  by (simp_all add: same_needs_def needed_def placed_def)

lemma files_okD:
  assumes "files_ok s" and "dget (db_rows (sy_db s)) iid = Some i"
  shows "route_ok (sy_db s) i" "waiting i \<Longrightarrow> placed i" "fi_worker_id i \<noteq> Some 0"
  using assms unfolding files_ok_def tables_ok_def by blast+

lemma tables_okI:
  "dict_ok (db_files db) \<Longrightarrow> dict_ok (db_rows db) \<Longrightarrow> (\<And>iid i. dget (db_rows db) iid = Some i \<Longrightarrow> route_ok db i) \<Longrightarrow>
   (\<And>iid i. dget (db_rows db) iid = Some i \<Longrightarrow> waiting i \<Longrightarrow> placed i) \<Longrightarrow>
   (\<And>iid i. dget (db_rows db) iid = Some i \<Longrightarrow> fi_worker_id i \<noteq> Some 0) \<Longrightarrow> tables_ok db"
  unfolding tables_ok_def by blast

lemma tables_ok_dict: "files_ok s \<Longrightarrow> dict_ok (db_files (sy_db s))" "files_ok s \<Longrightarrow> dict_ok (db_rows (sy_db s))"
  by (simp_all add: files_ok_def tables_ok_def)

text \<open>The controller's snapshots survive whatever keeps workers and links.\<close>

lemma handling_kept:
  assumes "handling_ok db h"
    and "\<And>k f. dget (db_files db) k = Some f \<Longrightarrow> \<exists>g. dget (db_files db') k = Some g \<and> mf_worker_id g = mf_worker_id f"
    and "\<And>iid i. dget (db_rows db) iid = Some i \<Longrightarrow> \<exists>j. dget (db_rows db') iid = Some j \<and> fi_worker_id j = fi_worker_id i \<and>
           set (fi_files i) \<subseteq> set (fi_files j) \<and> set (fi_draft_files i) \<subseteq> set (fi_draft_files j)"
  shows "handling_ok db' h"
proof -
  have "told_ok db' k x" if "told_ok db k x" for k x
    using that assms(3) unfolding told_ok_def by (metis UnE UnI1 UnI2 subsetD)
  then show ?thesis using assms(1,2) unfolding handling_ok_def by metis
qed

subsection \<open>Reports\<close>

lemma report_ok:
  assumes ok: "files_ok s" and f: "dget (db_files (sy_db s)) k = Some f" and w: "mf_worker_id f' = mf_worker_id f"
  shows "files_ok (s\<lparr>sy_db := write_file k f' (sy_db s), sy_events := insert k (sy_events s)\<rparr>)"
proof -
  have keep: "\<exists>g. dget (db_files (write_file k f' (sy_db s))) l = Some g \<and> mf_worker_id g = mf_worker_id h"
    if "dget (db_files (sy_db s)) l = Some h" for l h
    using that f w by (cases "l = k") (simp_all add: write_file_def dict_simps)
  have rows: "db_rows (write_file k f' (sy_db s)) = db_rows (sy_db s)" by (simp add: write_file_def)
  have "tables_ok (write_file k f' (sy_db s))"
  proof (rule tables_okI)
    show "dict_ok (db_files (write_file k f' (sy_db s)))" using tables_ok_dict(1) [OF ok] by (simp add: write_file_def)
    show "dict_ok (db_rows (write_file k f' (sy_db s)))" using tables_ok_dict(2) [OF ok] by (simp add: rows)
    fix iid i assume i: "dget (db_rows (write_file k f' (sy_db s))) iid = Some i"
    then have "route_ok (sy_db s) i" using files_okD(1) [OF ok] rows by simp
    then show "route_ok (write_file k f' (sy_db s)) i" using keep by (rule route_kept)
    show "waiting i \<Longrightarrow> placed i" using files_okD(2) [OF ok] i rows by simp
    show "fi_worker_id i \<noteq> Some 0" using files_okD(3) [OF ok] i rows by simp
  qed
  moreover have "handling_ok (sy_db s) (sy_handling s)" using ok by (simp add: files_ok_def)
  then have "handling_ok (write_file k f' (sy_db s)) (sy_handling s)"
    using keep by (rule handling_kept) (simp_all add: rows)
  ultimately show ?thesis by (simp add: files_ok_def)
qed

lemma report_none_forgotten:
  assumes ok: "files_ok s" and inv: "none_forgotten s" and f: "dget (db_files (sy_db s)) k = Some f"
  shows "none_forgotten (s\<lparr>sy_db := write_file k f' (sy_db s), sy_events := insert k (sy_events s)\<rparr>)"
proof -
  let ?db = "write_file k f' (sy_db s)"
  have "in_hand (s\<lparr>sy_db := ?db, sy_events := insert k (sy_events s)\<rparr>) iid i"
    if i: "dget (db_rows (sy_db s)) iid = Some i" "waiting i" "download_completed ?db i" for iid i
  proof (cases "k \<in> needed i")
    case True
    then show ?thesis by (auto simp: in_hand_def)
  next
    case False
    have "download_completed ?db i = download_completed (sy_db s) i"
    proof (rule completed_same)
      fix l assume l: "l \<in> needed i"
      then obtain h where "dget (db_files (sy_db s)) l = Some h" using route_exists [OF files_okD(1) [OF ok i(1)]] by blast
      moreover from this have "dget (db_files ?db) l = Some h" using l False by (auto simp: write_file_def dict_simps)
      ultimately show "\<exists>f g. dget (db_files (sy_db s)) l = Some f \<and> dget (db_files ?db) l = Some g \<and> (mf_state g = FILE_READY) = (mf_state f = FILE_READY)"
        by blast
    qed
    then have "in_hand s iid i" using inv i unfolding none_forgotten_def by blast
    then show ?thesis by (auto simp: in_hand_def)
  qed
  then show ?thesis unfolding none_forgotten_def by (simp add: write_file_def)
qed

subsection \<open>The file controller\<close>

lemma instances_of_mem:
  assumes "dict_ok (db_rows db)"
  shows "(iid, i) \<in> set (instances_of k db) \<longleftrightarrow> dget (db_rows db) iid = Some i \<and> k \<in> set (fi_files i) \<union> set (fi_draft_files i)"
  using assms by (auto simp: instances_of_def)

lemma take_event_ok:
  assumes ok: "files_ok s"
  shows "files_ok (take_event k s)"
proof -
  have "told_ok (sy_db s) k (iid, i)" if "(iid, i) \<in> set (instances_of k (sy_db s))" for iid i
    using that instances_of_mem [OF tables_ok_dict(2) [OF ok], of iid i k] by (auto simp: told_ok_def)
  then have "handling_ok (sy_db s) (map_option (\<lambda>f. (k, f, instances_of k (sy_db s))) (dget (db_files (sy_db s)) k))"
    by (auto simp: handling_ok_def)
  then show ?thesis using ok by (simp add: files_ok_def take_event_def)
qed

lemma take_event_none_forgotten:
  assumes ok: "files_ok s" and inv: "none_forgotten s" and h: "sy_handling s = None"
  shows "none_forgotten (take_event k s)"
proof -
  have "in_hand (take_event k s) iid i"
    if i: "dget (db_rows (sy_db s)) iid = Some i" "waiting i" "download_completed (sy_db s) i" for iid i
  proof (cases "k \<in> needed i")
    case True
    have ex: "\<And>l. l \<in> needed i \<Longrightarrow> \<exists>f. dget (db_files (sy_db s)) l = Some f" using route_exists files_okD(1) [OF ok i(1)] by blast
    then obtain f where f: "dget (db_files (sy_db s)) k = Some f" using True by blast
    then have "mf_state f = FILE_READY" using i(3) True completed_iff [of i "sy_db s"] ex by blast
    moreover have "k \<in> set (fi_files i) \<union> set (fi_draft_files i)" using needed_links True by blast
    then have "(iid, i) \<in> set (instances_of k (sy_db s))"
      using instances_of_mem [OF tables_ok_dict(2) [OF ok]] i(1) by blast
    then have "iid \<in> fst ` set (instances_of k (sy_db s))" by force
    ultimately show ?thesis using f by (simp add: in_hand_def take_event_def)
  next
    case False
    have "in_hand s iid i" using inv i unfolding none_forgotten_def by blast
    then show ?thesis using h False by (auto simp: in_hand_def take_event_def)
  qed
  then show ?thesis unfolding none_forgotten_def by (simp add: take_event_def)
qed

text \<open>Telling an instance changes its row by \<open>moves\<close>, and leaves it waiting only if it has to.\<close>

lemma tell_row:
  assumes ok: "files_ok s" and h: "sy_handling s = Some (k, f, (iid, i0) # rest)"
  obtains i j where "dget (db_rows (sy_db s)) iid = Some i"
    "dget (db_rows (sync_instance_files_state digest iid i0 [(k, f)] (sy_db s))) iid = Some j" "moves (sy_db s) i j"
    "download_completed (sy_db s) i \<and> mf_state f = FILE_READY \<longrightarrow> \<not> waiting j"
proof -
  obtain i where i: "dget (db_rows (sy_db s)) iid = Some i" "fi_worker_id i0 = fi_worker_id i" "k \<in> set (fi_files i) \<union> set (fi_draft_files i)"
    using ok h by (auto simp: files_ok_def handling_ok_def told_ok_def)
  obtain g where g: "dget (db_files (sy_db s)) k = Some g" "mf_worker_id g = mf_worker_id f"
    using ok h by (auto simp: files_ok_def handling_ok_def)
  have "routed i f" using routeD [OF files_okD(1) [OF ok i(1)] i(3) g(1)] routed_cong(2) [OF g(2)] by blast
  then show thesis using sync_row [OF i(1,2), of digest "[(k, f)]"] i(1) that by auto
qed

lemma tell_ok:
  assumes ok: "files_ok s" and h: "sy_handling s = Some (k, f, (iid, i0) # rest)"
  shows "files_ok (s\<lparr>sy_db := sync_instance_files_state digest iid i0 [(k, f)] (sy_db s), sy_handling := Some (k, f, rest)\<rparr>)"
proof -
  let ?db = "sync_instance_files_state digest iid i0 [(k, f)] (sy_db s)"
  obtain i j where j: "dget (db_rows (sy_db s)) iid = Some i" "dget (db_rows ?db) iid = Some j" "moves (sy_db s) i j"
    using tell_row [OF ok h] by blast
  have n: "same_needs i j" using j(3) by (simp add: moves_def)
  have rows: "dget (db_rows ?db) l = (if l = iid then Some j else dget (db_rows (sy_db s)) l)" for l using j(2) by simp
  have "tables_ok ?db"
  proof (rule tables_okI)
    show "dict_ok (db_files ?db)" using tables_ok_dict(1) [OF ok] by simp
    show "dict_ok (db_rows ?db)" using tables_ok_dict(2) [OF ok] by (rule sync_rows_dict)
    fix l i' assume i': "dget (db_rows ?db) l = Some i'"
    show "route_ok ?db i'"
      using i' files_okD(1) [OF ok] j(1) route_needs [OF n] by (auto simp: rows route_ok_def split: if_splits)
    show "waiting i' \<Longrightarrow> placed i'"
      using i' files_okD(2) [OF ok] j(1) needs_needed(2) [OF n] moves_waiting [OF j(3)] by (auto simp: rows split: if_splits)
    show "fi_worker_id i' \<noteq> Some 0" using i' files_okD(3) [OF ok] j(1) n by (auto simp: rows same_needs_def split: if_splits)
  qed
  moreover have "handling_ok (sy_db s) (Some (k, f, rest))" using ok h by (simp add: files_ok_def handling_ok_def)
  then have "handling_ok ?db (Some (k, f, rest))"
    by (rule handling_kept) (use j(1) n in \<open>auto simp: rows same_needs_def\<close>)
  ultimately show ?thesis by (simp add: files_ok_def)
qed

lemma tell_none_forgotten:
  assumes ok: "files_ok s" and inv: "none_forgotten s" and h: "sy_handling s = Some (k, f, (iid, i0) # rest)"
  shows "none_forgotten (s\<lparr>sy_db := sync_instance_files_state digest iid i0 [(k, f)] (sy_db s), sy_handling := Some (k, f, rest)\<rparr>)"
proof -
  let ?db = "sync_instance_files_state digest iid i0 [(k, f)] (sy_db s)"
  let ?s = "s\<lparr>sy_db := ?db, sy_handling := Some (k, f, rest)\<rparr>"
  obtain i j where j: "dget (db_rows (sy_db s)) iid = Some i" "dget (db_rows ?db) iid = Some j" "moves (sy_db s) i j"
    "download_completed (sy_db s) i \<and> mf_state f = FILE_READY \<longrightarrow> \<not> waiting j"
    using tell_row [OF ok h] by blast
  have n: "same_needs i j" using j(3) by (simp add: moves_def)
  have c: "download_completed ?db = download_completed (sy_db s)" by (rule completed_cong) simp
  have "in_hand ?s l i'" if i': "dget (db_rows ?db) l = Some i'" "waiting i'" "download_completed ?db i'" for l i'
  proof (cases "l = iid")
    case True
    then have e: "i' = j" using i' j(2) by simp
    then have w: "waiting i" "download_completed (sy_db s) i" using i' c completed_needs [OF n] moves_waiting [OF j(3)] by auto
    then have nr: "mf_state f \<noteq> FILE_READY" using j(4) i' e by blast
    have "in_hand s iid i" using inv w j(1) unfolding none_forgotten_def by blast
    then show ?thesis using nr h e True needs_needed(1) [OF n] by (auto simp: in_hand_def)
  next
    case False
    then have "in_hand s l i'" using inv i' c unfolding none_forgotten_def by simp
    then show ?thesis using h False by (auto simp: in_hand_def)
  qed
  then show ?thesis unfolding none_forgotten_def by simp
qed

subsection \<open>The instance controller\<close>

lemma wake_cases:
  assumes "files_ok s"
  obtains i where "dget (db_rows (sy_db s)) iid = Some i" "ensured (sy_db s) iid i (sy_db (wake digest iid s))"
  | "sy_db (wake digest iid s) = sy_db s" "\<And>i. dget (db_rows (sy_db s)) iid = Some i \<Longrightarrow> \<not> waiting i"
proof (cases "dget (db_rows (sy_db s)) iid")
  case None
  then show thesis using that(2) by (simp add: wake_def ensure_instance_model_file_def Let_def)
next
  case (Some i)
  show thesis
  proof (cases "fi_worker_id i")
    case None
    then have "\<not> waiting i" using files_okD(2) [OF assms Some] by (auto simp: placed_def)
    with None Some show thesis using that(2) by (simp add: wake_def ensure_instance_model_file_def Let_def)
  next
    case w: (Some w)
    then have "placed i" using files_okD(3) [OF assms Some] by (auto simp: placed_def)
    then have "ensured (sy_db s) iid i (sy_db (wake digest iid s))"
      using ensure_ensured [OF tables_ok_dict(1) [OF assms] Some files_okD(1) [OF assms Some], of digest w] Some w by (simp add: wake_def Let_def)
    with Some show thesis by (rule that(1))
  qed
qed

definition files_kept :: "file_db \<Rightarrow> file_db \<Rightarrow> bool" where
  "files_kept db db' \<longleftrightarrow>
     (\<forall>k f. dget (db_files db) k = Some f \<longrightarrow>
        (\<exists>g. dget (db_files db') k = Some g \<and> mf_worker_id g = mf_worker_id f \<and> (mf_state g = FILE_READY \<longleftrightarrow> mf_state f = FILE_READY)))"

definition row_replaced :: "file_db \<Rightarrow> int \<Rightarrow> file_instance \<Rightarrow> file_db \<Rightarrow> bool" where
  "row_replaced db iid j db' \<longleftrightarrow> (\<forall>l. dget (db_rows db') l = (if l = iid then Some j else dget (db_rows db) l))"

lemma ensured_facts:
  assumes "ensured db iid i db'"
  shows "\<exists>j. dict_ok (db_files db') \<and> files_kept db db' \<and> row_replaced db iid j db' \<and> fi_worker_id j = fi_worker_id i \<and> route_ok db' j \<and>
     set (fi_files i) \<subseteq> set (fi_files j) \<and> set (fi_draft_files i) \<subseteq> set (fi_draft_files j) \<and>
     (waiting j \<longrightarrow> waiting i) \<and> (download_completed db' j \<longrightarrow> \<not> waiting j)"
proof -
  obtain dbr j where d: "evolves db dbr" "db_files db' = db_files dbr" "\<And>l. l \<noteq> iid \<Longrightarrow> dget (db_rows db') l = dget (db_rows db) l"
    "dget (db_rows db') iid = Some j" "fi_worker_id j = fi_worker_id i" "fi_draft_source j = fi_draft_source i" "route_ok db' j"
    "set (fi_files i) \<subseteq> set (fi_files j)" "set (fi_draft_files i) \<subseteq> set (fi_draft_files j)"
    "waiting j \<longrightarrow> waiting i" "download_completed db' j \<longrightarrow> \<not> waiting j"
    using assms unfolding ensured_def by blast
  have "dict_ok (db_files db')" using d(1,2) by (simp add: evolves_def)
  moreover have "files_kept db db'" using d(1) unfolding files_kept_def d(2) evolves_def by blast
  moreover have "row_replaced db iid j db'" using d(3,4) by (simp add: row_replaced_def)
  ultimately show ?thesis using d by blast
qed

lemma ensure_rows_dict:
  assumes "dict_ok (db_rows db)" and "dict_ok (db_files db)"
  shows "dict_ok (db_rows (ensure_instance_model_file digest w iid db))"
proof (cases w; cases "dget (db_rows db) iid")
  fix v i assume wi: "w = Some v" "dget (db_rows db) iid = Some i"
  obtain files db1 where f: "get_or_create_model_files_for_instance digest i (fi_source i) db = (files, db1)" by fastforce
  obtain drafts db2 where d: "(case fi_draft_source i of None \<Rightarrow> ([], db1) | Some s \<Rightarrow> get_or_create_model_files_for_instance digest i s db1) = (drafts, db2)"
    by fastforce
  obtain loras db3 where l: "(case dget (db_specs db) (fi_model_id i) of None \<Rightarrow> ([], db2)
      | Some m \<Rightarrow> get_or_create_lora_model_files_for_instance digest i m db2) = (loras, db3)" by fastforce
  have "db_rows db1 = db_rows db" "dict_ok (db_files db1)"
    using get_or_create_found [OF assms(2), of i digest "fi_source i"] f by (simp_all add: found_def evolves_def)
  moreover from this have "db_rows db2 = db_rows db" "dict_ok (db_files db2)"
    using get_or_create_found [of db1 i digest "the (fi_draft_source i)"] d by (cases "fi_draft_source i"; simp add: found_def evolves_def)+
  moreover from this have "db_rows db3 = db_rows db"
    using loras_found [of db2 i digest "the (dget (db_specs db) (fi_model_id i))"] l
    by (cases "dget (db_specs db) (fi_model_id i)") (simp_all add: found_def evolves_def)
  moreover have "db_rows (fold retry_file fs db') = db_rows db'" for fs db'
    by (induction fs arbitrary: db') (simp_all add: retry_file_def write_file_def)
  moreover have "dict_ok (db_rows (link_files iid a b db'))" if "dict_ok (db_rows db')" for a b db'
    using that by (simp add: link_files_def split: option.split)
  ultimately show ?thesis
    using assms(1) wi f d l by (simp add: ensure_instance_model_file_def sync_rows_dict)
qed (use assms in \<open>simp_all add: ensure_instance_model_file_def\<close>)

lemma wake_ok:
  assumes ok: "files_ok s"
  shows "files_ok (wake digest iid s)"
proof (rule wake_cases [OF ok, of iid digest])
  assume "sy_db (wake digest iid s) = sy_db s"
  then show ?thesis using ok by (simp add: files_ok_def wake_def Let_def)
next
  fix i assume i: "dget (db_rows (sy_db s)) iid = Some i" and en: "ensured (sy_db s) iid i (sy_db (wake digest iid s))"
  let ?db = "sy_db (wake digest iid s)"
  obtain j where d: "dict_ok (db_files ?db)" and keep: "files_kept (sy_db s) ?db" and rows: "row_replaced (sy_db s) iid j ?db"
    and j: "fi_worker_id j = fi_worker_id i" "route_ok ?db j" "set (fi_files i) \<subseteq> set (fi_files j)"
      "set (fi_draft_files i) \<subseteq> set (fi_draft_files j)" "waiting j \<longrightarrow> waiting i"
    using ensured_facts [OF en] by blast
  note rows = rows [unfolded row_replaced_def, rule_format]
  have keep': "\<exists>g. dget (db_files ?db) k = Some g \<and> mf_worker_id g = mf_worker_id f" if "dget (db_files (sy_db s)) k = Some f" for k f
    using keep that unfolding files_kept_def by blast
  have "tables_ok ?db"
  proof (rule tables_okI)
    show "dict_ok (db_files ?db)" by (rule d)
    show "dict_ok (db_rows ?db)"
      using ensure_rows_dict [OF tables_ok_dict(2) [OF ok] tables_ok_dict(1) [OF ok]] by (simp add: wake_def Let_def)
    fix l i' assume i': "dget (db_rows ?db) l = Some i'"
    show "route_ok ?db i'"
    proof (cases "l = iid")
      case True
      then show ?thesis using i' rows j(2) by simp
    next
      case False
      then have "route_ok (sy_db s) i'" using i' rows files_okD(1) [OF ok] by simp
      then show ?thesis using keep' by (rule route_kept)
    qed
    show "waiting i' \<Longrightarrow> placed i'"
      using i' rows files_okD(2) [OF ok] i j(1,5) by (auto simp: placed_def split: if_splits)
    show "fi_worker_id i' \<noteq> Some 0" using i' rows files_okD(3) [OF ok] i j(1) by (auto split: if_splits)
  qed
  moreover have "handling_ok (sy_db s) (sy_handling s)" using ok by (simp add: files_ok_def)
  then have "handling_ok ?db (sy_handling s)"
    using keep' by (rule handling_kept) (use rows i j in auto)
  ultimately show ?thesis by (simp add: files_ok_def wake_def Let_def)
qed

lemma wake_none_forgotten:
  assumes ok: "files_ok s" and inv: "none_forgotten s"
  shows "none_forgotten (wake digest iid s)"
proof -
  let ?s = "wake digest iid s"
  have kept: "in_hand ?s l i" if "in_hand s l i" "l \<noteq> iid" for l i
    using that by (auto simp: in_hand_def wake_def Let_def)
  have "in_hand ?s l i'" if i': "dget (db_rows (sy_db ?s)) l = Some i'" "waiting i'" "download_completed (sy_db ?s) i'" for l i'
  proof (rule wake_cases [OF ok, of iid digest])
    assume same: "sy_db ?s = sy_db s" "\<And>i. dget (db_rows (sy_db s)) iid = Some i \<Longrightarrow> \<not> waiting i"
    then have "l \<noteq> iid" using i' by auto
    moreover have "in_hand s l i'" using inv i' same(1) unfolding none_forgotten_def by simp
    ultimately show ?thesis using kept by blast
  next
    fix i assume i: "dget (db_rows (sy_db s)) iid = Some i" and en: "ensured (sy_db s) iid i (sy_db ?s)"
    obtain j where keep: "files_kept (sy_db s) (sy_db ?s)" and rows: "row_replaced (sy_db s) iid j (sy_db ?s)"
      and j: "download_completed (sy_db ?s) j \<longrightarrow> \<not> waiting j"
      using ensured_facts [OF en] by blast
    note rows = rows [unfolded row_replaced_def, rule_format]
    have l: "l \<noteq> iid" using i' rows j by auto
    then have row: "dget (db_rows (sy_db s)) l = Some i'" using i' rows by simp
    have "download_completed (sy_db ?s) i' = download_completed (sy_db s) i'"
    proof (rule completed_same)
      fix k assume "k \<in> needed i'"
      then obtain f where "dget (db_files (sy_db s)) k = Some f" using route_exists [OF files_okD(1) [OF ok row]] by blast
      then show "\<exists>f g. dget (db_files (sy_db s)) k = Some f \<and> dget (db_files (sy_db ?s)) k = Some g \<and> (mf_state g = FILE_READY) = (mf_state f = FILE_READY)"
        using keep unfolding files_kept_def by blast
    qed
    then have "in_hand s l i'" using inv row i' unfolding none_forgotten_def by blast
    then show ?thesis using kept l by blast
  qed
  then show ?thesis unfolding none_forgotten_def by blast
qed

subsection \<open>Other writes, and all reachable states\<close>

lemma write_ok:
  assumes ok: "files_ok s" and i: "dget (db_rows (sy_db s)) iid = Some i" and n: "same_needs i i'" and p: "waiting i' \<longrightarrow> placed i'"
  shows "files_ok (s\<lparr>sy_db := (sy_db s)\<lparr>db_rows := dput iid i' (db_rows (sy_db s))\<rparr>, sy_wakeups := W\<rparr>)"
proof -
  let ?db = "(sy_db s)\<lparr>db_rows := dput iid i' (db_rows (sy_db s))\<rparr>"
  have rows: "dget (db_rows ?db) l = (if l = iid then Some i' else dget (db_rows (sy_db s)) l)" for l by (simp add: dict_simps)
  have "tables_ok ?db"
  proof (rule tables_okI)
    show "dict_ok (db_files ?db)" "dict_ok (db_rows ?db)" using tables_ok_dict [OF ok] by simp_all
    fix l j assume j: "dget (db_rows ?db) l = Some j"
    then have j: "j = i' \<and> l = iid \<or> dget (db_rows (sy_db s)) l = Some j" using rows by (simp split: if_splits)
    have same: "route_ok ?db x = route_ok (sy_db s) x" for x by (simp add: route_ok_def)
    show "route_ok ?db j" using j same route_needs [OF n] files_okD(1) [OF ok] i by auto
    show "waiting j \<Longrightarrow> placed j" using j p files_okD(2) [OF ok] by auto
    show "fi_worker_id j \<noteq> Some 0" using j n files_okD(3) [OF ok] files_okD(3) [OF ok i] by (auto simp: same_needs_def)
  qed
  moreover have "handling_ok (sy_db s) (sy_handling s)" using ok by (simp add: files_ok_def)
  then have "handling_ok ?db (sy_handling s)" by (rule handling_kept) (use rows i n in \<open>auto simp: same_needs_def\<close>)
  ultimately show ?thesis by (simp add: files_ok_def)
qed

lemma write_none_forgotten:
  assumes inv: "none_forgotten s" and i: "dget (db_rows (sy_db s)) iid = Some i" and n: "same_needs i i'"
    and st: "fi_state i' \<noteq> DOWNLOADING \<or> fi_state i = DOWNLOADING"
  shows "none_forgotten (s\<lparr>sy_db := (sy_db s)\<lparr>db_rows := dput iid i' (db_rows (sy_db s))\<rparr>,
           sy_wakeups := (if fi_state i' = INITIALIZING then insert iid (sy_wakeups s) else sy_wakeups s)\<rparr>)" (is "none_forgotten ?s")
proof -
  have c: "download_completed (sy_db ?s) = download_completed (sy_db s)" by (rule completed_cong) simp
  have "in_hand ?s l j" if j: "dget (db_rows (sy_db ?s)) l = Some j" "waiting j" "download_completed (sy_db ?s) j" for l j
  proof (cases "l = iid")
    case True
    then have e: "j = i'" using j(1) by (simp add: dict_simps)
    show ?thesis
    proof (cases "fi_state i' = INITIALIZING")
      case True
      then show ?thesis using \<open>l = iid\<close> by (simp add: in_hand_def)
    next
      case False
      then have "waiting i" using st j(2) e by (auto simp: waiting_def)
      moreover have "download_completed (sy_db s) i" using j(3) c e completed_needs [OF n] by simp
      ultimately have "in_hand s iid i" using inv i unfolding none_forgotten_def by blast
      then show ?thesis using e \<open>l = iid\<close> needs_needed(1) [OF n] by (auto simp: in_hand_def)
    qed
  next
    case False
    then have "in_hand s l j" using inv j c unfolding none_forgotten_def by (simp add: dict_simps)
    then show ?thesis by (auto simp: in_hand_def)
  qed
  then show ?thesis unfolding none_forgotten_def by blast
qed

lemma file_step_inv:
  assumes "file_step digest s s'" and "files_ok s \<and> none_forgotten s"
  shows "files_ok s' \<and> none_forgotten s'"
  using assms
proof (induction rule: file_step.induct)
  case (Report s k f f')
  then show ?case using report_ok report_none_forgotten by blast
next
  case (Take k s)
  then show ?case using take_event_ok take_event_none_forgotten by blast
next
  case (Tell s k f iid i0 rest)
  then show ?case using tell_ok tell_none_forgotten by blast
next
  case (Done s k f)
  then have "files_ok (s\<lparr>sy_handling := None\<rparr>)" by (simp add: files_ok_def handling_ok_def)
  moreover have "none_forgotten (s\<lparr>sy_handling := None\<rparr>)" using Done by (auto simp: none_forgotten_def in_hand_def)
  ultimately show ?case by blast
next
  case (Wake iid s)
  then show ?case using wake_ok wake_none_forgotten by blast
next
  case (Write s iid i i')
  then show ?case using write_ok write_none_forgotten by blast
qed

definition quiet :: "file_system \<Rightarrow> bool" where
  "quiet s \<longleftrightarrow> sy_events s = {} \<and> sy_wakeups s = {} \<and> sy_handling s = None"

lemma file_reachable_inv:
  assumes "(file_step digest)\<^sup>*\<^sup>* s0 s" and "files_ok s0" and "none_forgotten s0"
  shows "files_ok s \<and> none_forgotten s"
  using assms by (induction rule: rtranclp_induct) (use file_step_inv in blast)+


section \<open>Starting\<close>

lemma sync_moves:
  assumes "dget (db_rows db) iid = Some i"
  shows "\<exists>j. dget (db_rows (sync_instance_files_state digest iid i0 files db)) iid = Some j \<and> moves db i j"
  using assms
proof (induction files arbitrary: db i)
  case Nil
  then show ?case by (simp add: sync_instance_files_state_def)
next
  case (Cons cur files)
  let ?db = "sync_file digest iid i0 cur db"
  obtain j where j: "dget (db_rows ?db) iid = Some j" "moves db i j" using sync_file_row [OF Cons.prems] by blast
  then obtain k where k: "dget (db_rows (sync_instance_files_state digest iid i0 files ?db)) iid = Some k" "moves ?db j k"
    using Cons.IH by blast
  have "moves db i k" using j(2) k(2) moves_cong [of ?db db] moves_trans by simp
  then show ?case using k(1) by (simp add: sync_instance_files_state_def)
qed

text \<open>C13: Reports on files, whatever snapshots of files and instance the caller holds, move an instance to STARTING only from
  INITIALIZING or DOWNLOADING, only when there is something to start and every file it needs is ready in the
  database; and then with a path to start from if the primary files have one.\<close>

theorem instance_starts_complete:
  assumes "dget (db_rows db) iid = Some i" and "dget (db_rows (sync_instance_files_state digest iid i0 files db)) iid = Some j"
    and "fi_state j = STARTING" and "fi_state i \<noteq> STARTING"
  shows "fi_state i \<in> {INITIALIZING, DOWNLOADING} \<and>
    list_all (\<lambda>(_, f). mf_state f = FILE_READY) (linked db (fi_files i)) \<and>
    (case fi_draft_source i of
       None \<Rightarrow> linked db (fi_files i) \<noteq> []
     | Some _ \<Rightarrow> linked db (fi_draft_files i) \<noteq> [] \<and> list_all (\<lambda>(_, f). mf_state f = FILE_READY) (linked db (fi_draft_files i))) \<and>
    (\<not> blank (first_resolved_path True (linked db (fi_files i))) \<longrightarrow> \<not> blank (fi_resolved_path j))"
proof -
  have "moves db i j" using sync_moves [OF assms(1), of digest i0 files] assms(2) by auto
  then have "waiting i" "download_completed db i" "has_path db i \<longrightarrow> \<not> blank (fi_resolved_path j)"
    using assms(3,4) by (auto simp: moves_def waiting_def)
  then show ?thesis by (auto simp: waiting_def download_completed_def has_path_def split: option.split)
qed

section \<open>Progress bars\<close>

definition percent :: "rat option \<Rightarrow> bool" where
  "percent p \<longleftrightarrow> (case p of None \<Rightarrow> True | Some v \<Rightarrow> 0 \<le> v \<and> v \<le> 100)"

definition bars_ok :: "file_instance \<Rightarrow> bool" where
  "bars_ok i \<longleftrightarrow> percent (fi_progress i) \<and> percent (fi_draft_progress i) \<and>
     (\<forall>sv ss. fi_servers i = Some sv \<and> sv_subs sv = Some ss \<longrightarrow> list_all (percent \<circ> sd_progress) ss)"

lemma bars_upd:
  "bars_ok i \<Longrightarrow> percent p \<Longrightarrow> bars_ok (i\<lparr>fi_progress := p\<rparr>)" "bars_ok i \<Longrightarrow> percent p \<Longrightarrow> bars_ok (i\<lparr>fi_draft_progress := p\<rparr>)"
  "bars_ok (i\<lparr>fi_resolved_path := q\<rparr>) = bars_ok i" "bars_ok (i\<lparr>fi_draft_path := q\<rparr>) = bars_ok i" "bars_ok (i\<lparr>fi_mounted := m\<rparr>) = bars_ok i"
  "bars_ok (i\<lparr>fi_state := st\<rparr>) = bars_ok i" "bars_ok (i\<lparr>fi_message := t\<rparr>) = bars_ok i"
  by (auto simp: bars_ok_def)

lemma percent_simps [simp]: "percent None" "percent (Some 0)" "percent (Some 100)"
  by (simp_all add: percent_def)

lemma mean_bounds:
  assumes "\<And>x. x \<in> set xs \<Longrightarrow> 0 \<le> x \<and> x \<le> (100 :: rat)" and "xs \<noteq> []"
  shows "0 \<le> sum_list xs / rat_of_nat (length xs) \<and> sum_list xs / rat_of_nat (length xs) \<le> 100"
proof -
  have "0 \<le> sum_list xs" using assms(1) by (intro sum_list_nonneg) auto
  moreover have "sum_list xs \<le> rat_of_nat (length xs) * 100"
    using assms(1) by (induction xs) (auto simp: distrib_right add_mono)
  ultimately show ?thesis using assms(2) by (simp add: divide_le_eq mult.commute)
qed

lemma aggregate_percent:
  assumes "\<And>k f. (k, f) \<in> set rows \<Longrightarrow> percent (mf_progress f)" and "percent (mf_progress (snd cur))" and "percent op"
  shows "percent (aggregate_instance_download_progress rows i cur op os)"
proof -
  define active where "active = map (\<lambda>(p, _). case p of None \<Rightarrow> 0 | Some v \<Rightarrow> v) (filter (\<lambda>(_, s). s \<noteq> FILE_READY)
    (map (\<lambda>(k, f). if k = fst cur then ((if op \<noteq> None then op else mf_progress (snd cur)), (case os of Some s \<Rightarrow> s | None \<Rightarrow> mf_state (snd cur)))
                    else (mf_progress f, mf_state f)) (filter (\<lambda>(_, f). mf_worker_id f = fi_worker_id i) rows)))"
  have "0 \<le> x \<and> x \<le> 100" if "x \<in> set active" for x
    using that assms by (fastforce simp: active_def percent_def split: option.splits if_splits)
  then have "active \<noteq> [] \<Longrightarrow> percent (Some (sum_list active / rat_of_nat (length active)))"
    using mean_bounds [of active] by (simp add: percent_def)
  then show ?thesis
    unfolding aggregate_instance_download_progress_def Let_def active_def [symmetric] by (simp add: percent_def)
qed

definition files_percent :: "file_db \<Rightarrow> bool" where
  "files_percent db \<longleftrightarrow> (\<forall>k f. dget (db_files db) k = Some f \<longrightarrow> percent (mf_progress f))"

lemma refresh_bars:
  assumes "files_percent db" and "percent (mf_progress (snd cur))" and "bars_ok i"
  shows "bars_ok (fst (refresh_instance_download_progress (linked db ids) i cur ready))"
proof -
  have "percent (mf_progress f)" if "(k, f) \<in> set (linked db ids)" for k f
    using that assms(1) by (auto simp: files_percent_def set_linked)
  then have "percent (aggregate_instance_download_progress (linked db ids) i cur op os)" if "percent op" for op os
    using aggregate_percent [OF _ assms(2) that] by blast
  then show ?thesis using bars_upd(1) [OF assms(3)] assms(3) unfolding refresh_instance_download_progress_def Let_def by simp
qed

lemma promote_bars: "bars_ok (fst (promote_to_starting_if_complete digest db i)) = bars_ok i"
  by (simp add: promote_to_starting_if_complete_def bars_upd Let_def split: prod.split option.split)

lemma set_sub_bars: "bars_ok i \<Longrightarrow> percent p \<Longrightarrow> bars_ok (set_sub_progress k p i)"
  by (auto simp: bars_ok_def set_sub_progress_def list_all_iff dest!: set_update_subset_insert [THEN subsetD])

lemma main_bars:
  assumes "files_percent db" and "percent (mf_progress (snd cur))" and "bars_ok i"
  shows "bars_ok (fst (sync_main_worker_downloading db i cur draft))" "bars_ok (fst (sync_main_worker_ready digest db i cur draft))"
proof -
  have agg: "percent (aggregate_instance_download_progress (linked db (fi_files i)) i cur None None)"
    using assms(1,2) by (intro aggregate_percent) (auto simp: files_percent_def set_linked percent_def [of None])
  show "bars_ok (fst (sync_main_worker_downloading db i cur draft))"
  proof (cases "fi_state i = INITIALIZING")
    case True
    have "bars_ok (i\<lparr>fi_state := DOWNLOADING, fi_message := Note (Some []), fi_progress := p\<rparr>)" if "percent p" for p
      using that bars_upd(1) [OF _ that, of "i\<lparr>fi_state := DOWNLOADING, fi_message := Note (Some [])\<rparr>"] assms(3) by (simp only: bars_upd)
    then show ?thesis using True agg by (cases "aggregate_instance_download_progress (linked db (fi_files i)) i cur None None")
        (simp_all add: sync_main_worker_downloading_def Let_def)
  next
    case False
    then show ?thesis using assms(3) refresh_bars [OF assms] bars_upd(2) [OF assms(3,2)] by (simp add: sync_main_worker_downloading_def Let_def)
  qed
  have n: "bars_ok (fst (note_ready db i cur draft))"
  proof (cases draft)
    case True
    have "bars_ok (i\<lparr>fi_draft_progress := Some 100\<rparr>\<lparr>fi_draft_path := q\<rparr>)" for q
      using bars_upd(2) [OF assms(3), of "Some 100"] by (simp only: bars_upd percent_simps)
    then show ?thesis using True assms(3) by (simp add: note_ready_def Let_def)
  next
    case False
    have "bars_ok (fst (refresh_instance_download_progress (linked db (fi_files i)) j cur True))" if "bars_ok j" for j
      using refresh_bars [OF assms(1,2) that] .
    then show ?thesis using False assms(3) by (simp add: note_ready_def bars_upd Let_def split: prod.split) (metis bars_upd(3) fst_conv)
  qed
  obtain i1 c where i1: "note_ready db i cur draft = (i1, c)" by fastforce
  obtain i2 b where i2: "promote_to_starting_if_complete digest db i1 = (i2, b)" by fastforce
  have "bars_ok i1" "bars_ok i2" using n i1 i2 promote_bars [of digest db i1] by simp_all
  then show "bars_ok (fst (sync_main_worker_ready digest db i cur draft))"
    using i1 i2 by (simp add: sync_main_worker_ready_def bars_upd)
qed

text \<open>The progress set for a subordinate worker just before a promotion is attempted does not survive the attempt.\<close>

lemma reload_set_sub: "reload i (set_sub_progress k p i) = i"
  by (cases i) (simp add: reload_def set_sub_progress_def)

lemma sync_file_bars:
  assumes "files_percent db" and "percent (mf_progress (snd cur))" and "dget (db_rows db) iid = Some i" and "bars_ok i"
    and "dget (db_rows (sync_file digest iid i0 cur db)) iid = Some j"
  shows "bars_ok j"
proof -
  note main = main_bars [OF assms(1,2,4)]
  have sub: "bars_ok (fst (sync_subordinate_worker digest db i k s f))" if f: "f = snd cur" for k s f
  proof (cases "mf_state f")
    case FILE_READY
    have "bars_ok (reload i (set_sub_progress k (Some 100) i))" using assms(4) by (simp add: reload_set_sub)
    then have "bars_ok (fst (promote_to_starting_if_complete digest db (reload i (set_sub_progress k (Some 100) i))))" by (simp add: promote_bars)
    with FILE_READY set_sub_bars [OF assms(4), of "Some 100" k] show ?thesis by (auto simp: sync_subordinate_worker_def Let_def split: prod.split)
  next
    case FILE_DOWNLOADING
    then show ?thesis using set_sub_bars [OF assms(4,2)] assms(4) f by (simp add: sync_subordinate_worker_def)
  next
    case FILE_ERROR
    then show ?thesis using assms(4) by (simp add: sync_subordinate_worker_def fail_with_def bars_upd)
  qed
  have "bars_ok j" if "dget (db_rows (store iid r db)) iid = Some j" "bars_ok (fst r)" for r
    using that assms(3,4) by (auto split: if_splits)
  then show ?thesis
    using assms(3,4,5) main sub unfolding sync_file_def sync_main_worker_model_file_state_def sync_distributed_model_file_state_def
    by (auto simp: fail_with_def bars_upd simp del: store_simps split: if_splits option.splits file_state.splits)
qed

text \<open>Progress stays a percentage: if all files report values between 0 and 100, every bar of an instance - its own, that of its
  draft model and those of its subordinate workers - stays between 0 and 100 whatever reports arrive.\<close>

theorem progress_stays_percentage:
  assumes "files_percent db" and "list_all (\<lambda>cur. percent (mf_progress (snd cur))) files" and "dget (db_rows db) iid = Some i" and "bars_ok i"
    and "dget (db_rows (sync_instance_files_state digest iid i0 files db)) iid = Some j"
  shows "bars_ok j"
  using assms
proof (induction files arbitrary: db i)
  case Nil
  then show ?case by (simp add: sync_instance_files_state_def)
next
  case (Cons cur files)
  let ?db = "sync_file digest iid i0 cur db"
  obtain k where k: "dget (db_rows ?db) iid = Some k" using sync_file_row [OF Cons.prems(3)] by blast
  have "bars_ok k" using sync_file_bars [OF Cons.prems(1) _ Cons.prems(3,4) k] Cons.prems(2) by simp
  then show ?case using Cons.IH [of ?db k] Cons.prems k by (simp add: sync_instance_files_state_def files_percent_def)
qed

section \<open>Samples\<close>

definition hub_file :: "file_state \<Rightarrow> rat \<Rightarrow> model_file" where
  "hub_file st p = \<lparr>mf_source = plain_source\<lparr>sr_hf_repo := Some ''org/model''\<rparr>, mf_source_index = ''org/model'', mf_worker_id = Some 7,
     mf_is_lora = False, mf_base_model = None, mf_progress = Some p, mf_resolved_paths = [''/cache/model''], mf_state = st, mf_message = None\<rparr>"

definition hub_instance :: file_instance where
  "hub_instance = \<lparr>fi_model_id = 1, fi_source = plain_source\<lparr>sr_hf_repo := Some ''org/model''\<rparr>, fi_worker_id = Some 7, fi_state = DOWNLOADING,
     fi_message = Note (Some []), fi_progress = Some 40, fi_resolved_path = None, fi_draft_source = None, fi_draft_progress = None,
     fi_draft_path = None, fi_mounted = None, fi_servers = None, fi_files = [3], fi_draft_files = []\<rparr>"

definition hub_db :: "file_state \<Rightarrow> rat \<Rightarrow> file_db" where
  "hub_db st p = \<lparr>db_files = [(3, hub_file st p)], db_rows = [(5, hub_instance)], db_specs = []\<rparr>"

definition hub_system :: file_system where
  "hub_system = \<lparr>sy_db = hub_db FILE_DOWNLOADING 40, sy_events = {}, sy_wakeups = {}, sy_handling = None\<rparr>"

definition hub_end :: file_system where
  "hub_end = hub_system\<lparr>sy_db := sync_instance_files_state id 5 hub_instance [(3, hub_file FILE_READY 100)] (hub_db FILE_READY 100)\<rparr>"

lemmas hub_defs = hub_file_def hub_instance_def hub_db_def hub_system_def plain_source_def

lemma hub_ok: "files_ok hub_system" "none_forgotten hub_system"
  by (auto simp: files_ok_def tables_ok_def handling_ok_def none_forgotten_def route_ok_def routed_def placed_def download_completed_def linked_def
      hub_defs split: if_splits)

lemma hub_run: "(file_step id)\<^sup>*\<^sup>* hub_system hub_end"
proof -
  let ?f = "hub_file FILE_READY 100"
  let ?s1 = "hub_system\<lparr>sy_db := write_file 3 ?f (sy_db hub_system), sy_events := insert 3 (sy_events hub_system)\<rparr>"
  let ?s2 = "take_event 3 ?s1"
  let ?s3 = "?s2\<lparr>sy_db := sync_instance_files_state id 5 hub_instance [(3, ?f)] (sy_db ?s2), sy_handling := Some (3, ?f, [])\<rparr>"
  have db: "sy_db ?s1 = hub_db FILE_READY 100" by (simp add: write_file_def hub_system_def hub_db_def)
  have s2: "sy_handling ?s2 = Some (3, ?f, (5, hub_instance) # [])" "sy_db ?s2 = hub_db FILE_READY 100" "sy_events ?s2 = {}" "sy_wakeups ?s2 = {}"
    using db by (simp_all add: take_event_def instances_of_def hub_db_def hub_instance_def hub_system_def)
  have a: "file_step id hub_system ?s1"
    by (rule Report [where f = "hub_file FILE_DOWNLOADING 40"]) (simp_all add: hub_system_def hub_db_def hub_file_def)
  have b: "file_step id ?s1 ?s2" by (rule Take) (simp_all add: hub_system_def)
  have c: "file_step id ?s2 ?s3" using s2(1) by (rule Tell)
  have "file_step id ?s3 (?s3\<lparr>sy_handling := None\<rparr>)" by (rule Done) simp
  moreover have "?s3\<lparr>sy_handling := None\<rparr> = hub_end" using s2 by (simp add: hub_end_def hub_system_def)
  ultimately have d: "file_step id ?s3 hub_end" by simp
  note run = converse_rtranclp_into_rtranclp [where r = "file_step id"]
  show ?thesis by (rule run [OF a], rule run [OF b], rule run [OF c], rule run [OF d]) simp
qed

lemma hub_started:
  "db_files (sy_db hub_end) = [(3, hub_file FILE_READY 100)]"
  "\<exists>i. dget (db_rows (sy_db hub_end)) 5 = Some i \<and> fi_files i = [3] \<and> fi_draft_source i = None \<and> fi_state i = STARTING \<and>
       fi_resolved_path i = Some ''/cache/model'' \<and> fi_progress i = Some 100"
  by (simp_all add: hub_end_def sync_instance_files_state_def sync_file_def sync_main_worker_model_file_state_def sync_main_worker_ready_def
      note_ready_def is_draft_model_file_def refresh_instance_download_progress_def aggregate_instance_download_progress_def
      promote_to_starting_if_complete_def build_mounted_loras_payload_def download_completed_def linked_def is_primary_instance_model_file_def
      store_def blank_def hub_defs Let_def)


theorem instance_starts_complete_witness:
  "fi_state hub_instance \<in> {INITIALIZING, DOWNLOADING} \<and> linked (hub_db FILE_READY 100) (fi_files hub_instance) \<noteq> []"
proof -
  obtain j where j: "dget (db_rows (sy_db hub_end)) 5 = Some j" "fi_state j = STARTING" using hub_started(2) by blast
  show ?thesis
    using instance_starts_complete [of "hub_db FILE_READY 100" 5 hub_instance id hub_instance "[(3, hub_file FILE_READY 100)]" j] j
    by (simp add: hub_end_def hub_db_def hub_instance_def)
qed

theorem progress_stays_percentage_witness:
  "\<exists>j. dget (db_rows (sy_db hub_end)) 5 = Some j \<and> bars_ok j \<and> fi_progress j = Some 100"
proof -
  obtain j where j: "dget (db_rows (sy_db hub_end)) 5 = Some j" "fi_progress j = Some 100" using hub_started(2) by blast
  have "bars_ok j"
  proof (rule progress_stays_percentage [of "hub_db FILE_READY 100" "[(3, hub_file FILE_READY 100)]" 5 hub_instance id hub_instance j])
    show "files_percent (hub_db FILE_READY 100)" by (simp add: files_percent_def hub_db_def hub_file_def)
    show "bars_ok hub_instance" by (simp add: bars_ok_def hub_instance_def percent_def)
    show "dget (db_rows (sync_instance_files_state id 5 hub_instance [(3, hub_file FILE_READY 100)] (hub_db FILE_READY 100))) 5 = Some j"
      using j(1) by (simp add: hub_end_def)
  qed (simp_all add: hub_file_def hub_db_def)
  with j show ?thesis by blast
qed

text \<open>A READY report of a subordinate worker while another file is missing: the row is written, with the old progress.\<close>

lemma ready_sub_progress_lost:
  assumes "dget (db_rows db) iid = Some i" and "waiting i" and "\<not> download_completed db i" and "mf_state f = FILE_READY"
  shows "fst (sync_subordinate_worker digest db i k sub f) = i"
  using assms by (auto simp: sync_subordinate_worker_def waiting_def reload_set_sub promote_to_starting_if_complete_def Let_def)

end
