(* ===== verification/Replicas.thy ===== *)
theory Replicas
  imports Scheduler ModelFiles
begin

text \<open>
  Replicas of a model, \<^verbatim>\<open>src/gpustack/server/controllers.py\<close>: \<open>sync_replicas\<close> creates missing instances
  and scales surplus ones down by score, \<open>sync_ready_replicas\<close> counts the running ones; with the batch
  deletion of \<^verbatim>\<open>server/services.py\<close> and the draft source of \<^verbatim>\<open>utils/model_source.py\<close>. The drawn name
  suffixes, the identifiers the database assigns, the catalog and which deletions the database
  accepts are parameters.
\<close>

section \<open>Rows\<close>

record sub_row =
  ss_worker_id :: "int option"
  ss_worker_name :: "string option"
  ss_gpu_indexes :: "int list option"
  ss_claim :: "resource_claim option"
  ss_state :: instance_state
  ss_message :: "string option"

record replica =
  rp_name :: string
  rp_model_id :: int
  rp_model_name :: string
  rp_source :: source_row
  rp_state :: instance_state
  rp_message :: "string option"
  rp_cluster :: "int option"
  rp_owner :: int
  rp_draft :: "source_row option"
  rp_backend :: backend
  rp_backend_version :: "string option"
  rp_worker_id :: "int option"
  rp_worker_name :: "string option"
  rp_gpu_type :: "string option"
  rp_gpu_indexes :: "int list option"
  rp_claim :: "resource_claim option"
  rp_subs :: "sub_row list option"

text \<open>\<open>rm_draft_model\<close>: \<open>speculative_config.draft_model\<close>, \<open>None\<close> without a configuration.\<close>

record replica_model =
  rm_name :: string
  rm_source :: source_row
  rm_replicas :: int
  rm_ready :: int
  rm_deleted :: bool
  rm_cluster :: "int option"
  rm_owner :: int
  rm_draft_model :: "string option"
  rm_backend :: "backend option"
  rm_backend_version :: "string option"
  rm_strategy :: placement_strategy

text \<open>A worker row: what the scorers read, and what liveness checks read and write. Times are
  seconds since the epoch.\<close>

datatype worker_note = WorkerText string | HeartbeatLost "rat option" | CannotAccessHealthz

record worker_row = worker +
  wk_cluster :: "int option"
  wk_heartbeat :: "rat option"
  wk_unreachable :: bool
  wk_maintenance :: "(bool \<times> string option) option"
  wk_message :: "worker_note option"

record cluster_db =
  cb_models :: "(int, replica_model) dict"
  cb_instances :: "(int, replica) dict"
  cb_workers :: "(int, worker_row) dict"

record replica_env =
  ev_suffix :: "nat \<Rightarrow> string"
  ev_new_id :: "int list \<Rightarrow> int"
  ev_catalog :: "(string \<times> source_row) list"
  ev_delete_ok :: "int \<Rightarrow> bool"

text \<open>What the scorers see of an instance.\<close>

definition scored_sub :: "sub_row \<Rightarrow> subordinate_worker" where
  "scored_sub s = \<lparr>sw_worker_id = ss_worker_id s, sw_gpu_indexes = ss_gpu_indexes s, sw_claim = ss_claim s\<rparr>"

definition scored :: "replica \<Rightarrow> model_instance" where
  "scored r =
     \<lparr>mi_model_id = rp_model_id r, mi_state = rp_state r, mi_worker_id = rp_worker_id r, mi_gpu_type = rp_gpu_type r,
      mi_gpu_indexes = rp_gpu_indexes r, mi_claim = rp_claim r, mi_subs = map_option (map scored_sub) (rp_subs r)\<rparr>"

definition worker_list :: "cluster_db \<Rightarrow> worker list" where
  "worker_list db = map worker.truncate (dvals (cb_workers db))"

section \<open>Sources and backends\<close>

definition ends_with :: "string \<Rightarrow> string \<Rightarrow> bool" where
  "ends_with suf s \<longleftrightarrow> length suf \<le> length s \<and> drop (length s - length suf) s = suf"

definition is_gguf_model :: "source_row \<Rightarrow> bool" where
  "is_gguf_model r \<longleftrightarrow>
     (let gguf = (\<lambda>v. \<not> blank v \<and> ends_with ''.gguf'' (the v))
      in (sr_source r = HUGGING_FACE \<and> gguf (sr_hf_file r)) \<or>
         (sr_source r = MODEL_SCOPE \<and> gguf (sr_ms_path r)) \<or>
         (sr_source r = LOCAL_PATH \<and> gguf (sr_local r)))"

definition backend_of :: "replica_model \<Rightarrow> backend" where
  "backend_of m = (case rm_backend m of Some b \<Rightarrow> b | None \<Rightarrow> if is_gguf_model (rm_source m) then CUSTOM else VLLM)"

definition no_source :: "model_source \<Rightarrow> source_row" where
  "no_source k = \<lparr>sr_source = k, sr_hf_repo = None, sr_hf_file = None, sr_ms_model = None, sr_ms_path = None, sr_local = None\<rparr>"

definition get_draft_model_source :: "(string \<times> source_row) list \<Rightarrow> replica_model \<Rightarrow> source_row option" where
  "get_draft_model_source catalog m =
     (if blank (rm_draft_model m) then None
      else let d = the (rm_draft_model m)
        in case find (\<lambda>(n, _). n = d) catalog of
             Some (_, src) \<Rightarrow> Some src
           | None \<Rightarrow>
               if take 1 d = ''/'' then Some ((no_source LOCAL_PATH)\<lparr>sr_local := Some d\<rparr>)
               else (case sr_source (rm_source m) of
                       HUGGING_FACE \<Rightarrow> Some ((no_source HUGGING_FACE)\<lparr>sr_hf_repo := Some d\<rparr>)
                     | MODEL_SCOPE \<Rightarrow> Some ((no_source MODEL_SCOPE)\<lparr>sr_ms_model := Some d\<rparr>)
                     | LOCAL_PATH \<Rightarrow> None))"

section \<open>Deletion in one transaction\<close>

text \<open>Either every row goes, or the transaction is rolled back and an error is raised.\<close>

definition batch_delete ::
  "(int \<Rightarrow> bool) \<Rightarrow> (int \<times> replica) list \<Rightarrow> cluster_db \<Rightarrow> (py_error + string list) \<times> cluster_db" where
  "batch_delete ok rows db =
     (if rows = [] then (Inr [], db)
      else if list_all (\<lambda>(k, _). ok k) rows
        then (Inr (map (\<lambda>(_, r). rp_name r) rows),
              db\<lparr>cb_instances := filter (\<lambda>(k, _). k \<notin> set (map fst rows)) (cb_instances db)\<rparr>)
      else (Inl External, db))"

section \<open>Replicas\<close>

definition replicas_of :: "int \<Rightarrow> cluster_db \<Rightarrow> (int \<times> replica) list" where
  "replicas_of mid db = filter (\<lambda>(_, r). rp_model_id r = mid) (cb_instances db)"

definition new_replica :: "replica_env \<Rightarrow> int \<Rightarrow> replica_model \<Rightarrow> nat \<Rightarrow> replica" where
  "new_replica env mid m k =
     \<lparr>rp_name = rm_name m @ ''-'' @ ev_suffix env k, rp_model_id = mid, rp_model_name = rm_name m, rp_source = rm_source m,
      rp_state = PENDING, rp_message = None, rp_cluster = rm_cluster m, rp_owner = rm_owner m,
      rp_draft = get_draft_model_source (ev_catalog env) m, rp_backend = backend_of m,
      rp_backend_version = rm_backend_version m, rp_worker_id = None, rp_worker_name = None, rp_gpu_type = None,
      rp_gpu_indexes = Some [], rp_claim = None, rp_subs = None\<rparr>"

text \<open>Instance names are unique in the database: a name that is taken raises, and what was created
  before stays.\<close>

fun create_replicas :: "replica_env \<Rightarrow> int \<Rightarrow> replica_model \<Rightarrow> nat \<Rightarrow> nat \<Rightarrow> cluster_db \<Rightarrow> py_error option \<times> cluster_db" where
  "create_replicas env mid m k 0 db = (None, db)"
| "create_replicas env mid m k (Suc n) db =
     (let r = new_replica env mid m k
      in if rp_name r \<in> set (map rp_name (dvals (cb_instances db))) then (Some External, db)
         else create_replicas env mid m (Suc k) n
                (db\<lparr>cb_instances := cb_instances db @ [(ev_new_id env (dkeys (cb_instances db)), r)]\<rparr>))"

text \<open>The candidates of \<open>find_scale_down_candidates\<close> with the rows they stand for.\<close>

definition scale_down_rows ::
  "placement_strategy \<Rightarrow> worker list \<Rightarrow> int \<Rightarrow> (int \<times> replica) list \<Rightarrow> ((int \<times> replica) \<times> rat) list" where
  "scale_down_rows strategy ws mid rows =
     (let mis = map (\<lambda>(_, r). scored r) rows
      in case score_chain (scale_down_scorers 100 10 1 (Some mid) strategy ws mis) None mis of
           Inl _ \<Rightarrow> []
         | Inr sc \<Rightarrow> sort_key snd (zip rows (map snd sc)))"

definition sync_replicas :: "replica_env \<Rightarrow> int \<Rightarrow> cluster_db \<Rightarrow> py_error option \<times> cluster_db" where
  "sync_replicas env mid db =
     (case dget (cb_models db) mid of
        None \<Rightarrow> (None, db)
      | Some m \<Rightarrow>
          if rm_deleted m then (None, db)
          else let rows = replicas_of mid db; n = int (length rows)
            in if n < rm_replicas m then create_replicas env mid m 0 (nat (rm_replicas m - n)) db
               else if n > rm_replicas m
                 then let cands = scale_down_rows (rm_strategy m) (worker_list db) mid rows;
                          down = int (length cands) - rm_replicas m
                      in if down > 0
                         then (case batch_delete (ev_delete_ok env) (map fst (take (nat down) cands)) db of
                                 (Inl e, db') \<Rightarrow> (Some e, db')
                               | (Inr _, db') \<Rightarrow> (None, db'))
                         else (None, db)
               else (None, db))"

text \<open>The flag: whether the row was written.\<close>

definition sync_ready_replicas :: "int \<Rightarrow> replica_model \<Rightarrow> cluster_db \<Rightarrow> bool \<times> cluster_db" where
  "sync_ready_replicas mid m db =
     (if rm_deleted m then (False, db)
      else let ready = int (length (filter (\<lambda>(_, r). rp_state r = RUNNING) (replicas_of mid db)))
        in if rm_ready m \<noteq> ready then (True, db\<lparr>cb_models := dput mid (m\<lparr>rm_ready := ready\<rparr>) (cb_models db)\<rparr>)
           else (False, db))"

section \<open>Lemmas on scale-down\<close>

lemma insort_key_map: "(\<And>x. k (f x) = k' x) \<Longrightarrow> map f (insort_key k' x xs) = insort_key k (f x) (map f xs)"
  by (induction xs) auto

lemma sort_key_map: "(\<And>x. k (f x) = k' x) \<Longrightarrow> map f (sort_key k' xs) = sort_key k (map f xs)"
  by (induction xs) (simp_all add: insort_key_map [where k = k])

lemma zip_snd_zip: "zip xs (map snd (zip xs ys)) = zip xs ys"
  by (induction xs arbitrary: ys) (auto simp: zip_Cons1 split: list.splits)

lemma score_chain_zip: "score_chain scs t xs = Inr sc \<Longrightarrow> sc = zip xs (map snd sc)"
  by (auto simp: score_chain_def Let_def bind_err_eq_Inr zip_snd_zip zip_map2 comp_def split: if_splits
      intro!: nth_equalityI)

lemma zip_map_pair: "zip (map f xs) ys = map (\<lambda>(x, y). (f x, y)) (zip xs ys)"
  by (rule zip_map1)

text \<open>The rows are scored and ordered as their instances are.\<close>

lemma scale_down_rows_refine:
  "map (\<lambda>((_, r), s). (scored r, s)) (scale_down_rows strategy ws mid rows) =
   find_scale_down_candidates None None None None (Some mid) strategy ws (map (\<lambda>(_, r). scored r) rows)"
proof -
  let ?mis = "map (\<lambda>(_, r). scored r) rows"
  show ?thesis
  proof (cases "score_chain (scale_down_scorers 100 10 1 (Some mid) strategy ws ?mis) None ?mis")
    case (Inr sc)
    have "map (\<lambda>((_, r), s). (scored r, s)) (zip rows (map snd sc)) = zip ?mis (map snd sc)"
      by (simp add: zip_map1 case_prod_unfold)
    then show ?thesis using Inr score_chain_zip [OF Inr]
      by (simp add: scale_down_rows_def find_scale_down_candidates_def Let_def sort_key_map [where k = snd] case_prod_unfold)
  qed (simp add: scale_down_rows_def find_scale_down_candidates_def Let_def)
qed

definition rows_sane :: "(int \<times> replica) list \<Rightarrow> bool" where
  "rows_sane rows \<longleftrightarrow> list_all (\<lambda>(_, r). layers_ok (scored r) \<and> subs_known (scored r)) rows"

lemma scale_down_rows_scores:
  assumes "rows_sane rows"
  shows "\<exists>scores. length scores = length rows \<and> scale_down_rows SPREAD ws mid rows = sort_key snd (zip rows scores) \<and>
    (\<forall>i < length rows. \<forall>j < length rows. broken ws (scored (snd (rows ! i))) \<and> healthy ws (scored (snd (rows ! j))) \<longrightarrow>
       scores ! i < scores ! j)"
proof (cases "rows = []")
  case True
  then show ?thesis by (simp add: scale_down_rows_def score_chain_def)
next
  case False
  let ?mis = "map (\<lambda>(_, r). scored r) rows"
  let ?st = "map (status_score 100 (make_worker_map ws)) ?mis"
  have h: "list_all layers_ok ?mis" "list_all subs_known ?mis" "?mis \<noteq> []"
    using assms False by (auto simp: rows_sane_def list_all_iff)
  obtain off pl where r: "score_chain (scale_down_scorers 100 10 1 (Some mid) SPREAD ws ?mis) None ?mis =
       Inr (zip ?mis (map2 (+) (map2 (+) ?st off) pl))"
    "length off = length ?mis" "length pl = length ?mis" "list_all (\<lambda>v. 0 \<le> v \<and> v \<le> 10) off" "list_all (\<lambda>v. 0 \<le> v \<and> v \<le> 1) pl"
    by (rule scale_down_sums [OF h])
  let ?s = "map2 (+) (map2 (+) ?st off) pl"
  have len: "length ?s = length rows" using r(2,3) by simp
  have nth: "?s ! k = status_score 100 (make_worker_map ws) (scored (snd (rows ! k))) + off ! k + pl ! k"
    "0 \<le> off ! k" "off ! k \<le> 10" "0 \<le> pl ! k" "pl ! k \<le> 1" if "k < length rows" for k
    using that r(2-5) by (auto simp: list_all_length case_prod_unfold)
  have "?s ! i < ?s ! j" if "i < length rows" "j < length rows" "broken ws (scored (snd (rows ! i)))" "healthy ws (scored (snd (rows ! j)))" for i j
  proof -
    have "status_score 100 (make_worker_map ws) (scored (snd (rows ! i))) = 0"
      using that(3) by (auto simp: broken_def status_score_def split: option.splits)
    moreover have "status_score 100 (make_worker_map ws) (scored (snd (rows ! j))) = 100"
      using that(4) by (auto simp: healthy_def status_score_def)
    ultimately show ?thesis using nth [OF that(1)] nth [OF that(2)] by linarith
  qed
  moreover have "map snd (zip ?mis ?s) = ?s" using len by (simp add: map_snd_zip)
  ultimately show ?thesis using r(1) len by (intro exI [of _ ?s]) (simp add: scale_down_rows_def)
qed

section \<open>Lemmas on creation and deletion\<close>

definition names_fresh :: "replica_env \<Rightarrow> replica_model \<Rightarrow> nat \<Rightarrow> nat \<Rightarrow> cluster_db \<Rightarrow> bool" where
  "names_fresh env m k n db \<longleftrightarrow>
     (let names = map (\<lambda>j. rm_name m @ ''-'' @ ev_suffix env j) [k..<k + n]
      in distinct names \<and> list_all (\<lambda>x. x \<notin> set (map rp_name (dvals (cb_instances db)))) names)"

text \<open>What a creation run leaves: the rows there were, then new ones, all of them when it succeeds.\<close>

lemma create_replicas_shape:
  "create_replicas env mid m k n db = (e, db') \<Longrightarrow>
   \<exists>new. db' = db\<lparr>cb_instances := cb_instances db @ new\<rparr> \<and> length new \<le> n \<and> (e = None \<longrightarrow> length new = n) \<and>
     (\<forall>(i, r) \<in> set new. \<exists>j. r = new_replica env mid m j)"
proof (induction n arbitrary: k db)
  case (Suc n)
  let ?r = "new_replica env mid m k"
  let ?id = "ev_new_id env (dkeys (cb_instances db))"
  show ?case
  proof (cases "rp_name ?r \<in> set (map rp_name (dvals (cb_instances db)))")
    case True
    then have "db' = db" "e \<noteq> None" using Suc.prems by (auto simp: Let_def)
    then show ?thesis by (intro exI [of _ "[]"]) auto
  next
    case False
    then have "create_replicas env mid m (Suc k) n (db\<lparr>cb_instances := cb_instances db @ [(?id, ?r)]\<rparr>) = (e, db')"
      using Suc.prems by (simp add: Let_def)
    from Suc.IH [OF this] obtain new where
      "db' = db\<lparr>cb_instances := (cb_instances db @ [(?id, ?r)]) @ new\<rparr>" "length new \<le> n" "e = None \<longrightarrow> length new = n"
      "\<forall>(i, r) \<in> set new. \<exists>j. r = new_replica env mid m j" by auto
    then show ?thesis by (intro exI [of _ "(?id, ?r) # new"]) auto
  qed
qed auto

lemma create_replicas_ok: "names_fresh env m k n db \<Longrightarrow> fst (create_replicas env mid m k n db) = None"
proof (induction n arbitrary: k db)
  case (Suc n)
  let ?db = "db\<lparr>cb_instances := cb_instances db @ [(ev_new_id env (dkeys (cb_instances db)), new_replica env mid m k)]\<rparr>"
  have up: "[k..<k + Suc n] = k # [Suc k..<Suc k + n]" by (simp add: upt_conv_Cons)
  define f where "f = (\<lambda>j. rm_name m @ ''-'' @ ev_suffix env j)"
  have name: "rp_name (new_replica env mid m k) = f k" by (simp add: new_replica_def f_def)
  define names where "names = map f [Suc k..<Suc k + n]"
  have d: "distinct (f k # names)" and a: "list_all (\<lambda>x. x \<notin> set (map rp_name (dvals (cb_instances db)))) (f k # names)"
    using Suc.prems unfolding names_fresh_def up f_def [symmetric] names_def by (simp_all only: Let_def list.map)
  have "x \<notin> set (map rp_name (dvals (cb_instances ?db)))" if "x \<in> set names" for x
    using that d a name by (auto simp: list_all_iff)
  then have "names_fresh env m (Suc k) n ?db"
    using d unfolding names_fresh_def f_def [symmetric] names_def [symmetric] Let_def list_all_iff by simp
  moreover have "rp_name (new_replica env mid m k) \<notin> set (map rp_name (dvals (cb_instances db)))"
    using a unfolding name list_all_iff by simp
  ultimately show ?case using Suc.IH by (simp add: Let_def)
qed simp

lemma removed_count:
  assumes "dict_ok rows" and "set gone \<subseteq> set rows" and "distinct gone"
  shows "length (filter (\<lambda>(k, _). k \<notin> set (map fst gone)) rows) = length rows - length gone"
proof -
  have d: "distinct rows" using assms(1) by (simp add: distinct_map)
  have inj: "inj_on fst (set rows)" using assms(1) by (simp add: distinct_map)
  have "set (filter (\<lambda>(k, _). k \<notin> set (map fst gone)) rows) = set rows - set gone"
  proof (intro set_eqI iffI)
    fix x assume "x \<in> set rows - set gone"
    moreover from this have "fst x \<notin> fst ` set gone" using inj assms(2) by (auto simp: inj_on_def)
    ultimately show "x \<in> set (filter (\<lambda>(k, _). k \<notin> set (map fst gone)) rows)" by (auto simp: case_prod_unfold)
  qed force
  then have "card (set (filter (\<lambda>(k, _). k \<notin> set (map fst gone)) rows)) = length rows - length gone"
    using assms(2,3) d by (simp add: card_Diff_subset distinct_card)
  then show ?thesis using d by (metis distinct_card distinct_filter)
qed


lemma dict_ok_filter: "dict_ok d \<Longrightarrow> dict_ok (filter P d)"
  by (simp add: distinct_map inj_on_def)

lemma sort_key_pairs:
  assumes "distinct rows" and "length scores = length rows"
  defines "cs \<equiv> sort_key snd (zip rows scores)"
  shows "distinct (map fst cs)" and "set (map fst cs) = set rows" and "length cs = length rows"
    and "x \<in> set (take c cs) \<Longrightarrow> y \<in> set (drop c cs) \<Longrightarrow> snd x \<le> snd y"
proof -
  have z: "map fst (zip rows scores) = rows" using assms(2) by simp
  then have d: "distinct (map fst (zip rows scores))" using assms(1) by simp
  then show "distinct (map fst cs)" unfolding cs_def by (simp only: distinct_map set_sort distinct_sort)
  show "set (map fst cs) = set rows" unfolding cs_def by (metis list.set_map set_sort z)
  show "length cs = length rows" using assms(2) by (simp add: cs_def)
  have "sorted (map snd (take c cs) @ map snd (drop c cs))"
    unfolding map_append [symmetric] append_take_drop_id cs_def by (rule sorted_sort_key)
  then show "snd x \<le> snd y" if "x \<in> set (take c cs)" "y \<in> set (drop c cs)"
    using that unfolding sorted_append by auto
qed

text \<open>The surplus rows go, and a healthy one only when no broken one stays.\<close>

lemma scale_down_step:
  assumes m: "dget (cb_models db) mid = Some m" "\<not> rm_deleted m" "rm_strategy m = SPREAD" "0 \<le> rm_replicas m"
    and d: "dict_ok (cb_instances db)" and sane: "rows_sane (replicas_of mid db)"
    and ok: "list_all (\<lambda>(k, _). ev_delete_ok env k) (replicas_of mid db)"
    and more: "rm_replicas m < int (length (replicas_of mid db))"
  shows "\<exists>gone. sync_replicas env mid db =
      (None, db\<lparr>cb_instances := filter (\<lambda>(k, _). k \<notin> set (map fst gone)) (cb_instances db)\<rparr>) \<and>
    distinct gone \<and> set gone \<subseteq> set (replicas_of mid db) \<and>
    length gone = length (replicas_of mid db) - nat (rm_replicas m) \<and>
    (\<forall>x y. x \<in> set gone \<longrightarrow> y \<in> set (replicas_of mid db) - set gone \<longrightarrow>
       healthy (worker_list db) (scored (snd x)) \<longrightarrow> \<not> broken (worker_list db) (scored (snd y)))"
proof -
  let ?rows = "replicas_of mid db" and ?ws = "worker_list db"
  obtain scores where s: "length scores = length ?rows" "scale_down_rows SPREAD ?ws mid ?rows = sort_key snd (zip ?rows scores)"
    "\<forall>i < length ?rows. \<forall>j < length ?rows. broken ?ws (scored (snd (?rows ! i))) \<and> healthy ?ws (scored (snd (?rows ! j))) \<longrightarrow>
       scores ! i < scores ! j"
    using scale_down_rows_scores [OF sane] by blast
  define cs where "cs = sort_key snd (zip ?rows scores)"
  define c where "c = length ?rows - nat (rm_replicas m)"
  define gone where "gone = map fst (take c cs)"
  have dr: "distinct ?rows" using d by (simp add: replicas_of_def distinct_map)
  note cs = sort_key_pairs [OF dr s(1), folded cs_def]
  have c: "nat (int (length cs) - rm_replicas m) = c" "0 < int (length cs) - rm_replicas m"
    using more m(4) cs(3) by (auto simp: c_def)
  have sub: "set gone \<subseteq> set ?rows" using cs(2) by (auto simp: gone_def dest: in_set_takeD)
  have dg: "distinct gone" using cs(1) by (simp add: gone_def take_map [symmetric])
  have len: "length gone = c" using cs(3) by (simp add: gone_def c_def)
  then have ne: "gone \<noteq> []" using c m(4) by auto
  have "list_all (\<lambda>(k, _). ev_delete_ok env k) gone" using ok sub by (auto simp: list_all_iff)
  then have "sync_replicas env mid db =
      (None, db\<lparr>cb_instances := filter (\<lambda>(k, _). k \<notin> set (map fst gone)) (cb_instances db)\<rparr>)"
    using m more c ne s(2) [folded cs_def] unfolding sync_replicas_def batch_delete_def
    by (simp add: Let_def gone_def [symmetric])
  moreover have "\<not> broken ?ws (scored (snd y))"
    if xy: "x \<in> set gone" "y \<in> set ?rows - set gone" "healthy ?ws (scored (snd x))" for x y
  proof
    assume b: "broken ?ws (scored (snd y))"
    obtain sx where x: "(x, sx) \<in> set (take c cs)" using xy(1) by (auto simp: gone_def)
    have "y \<in> set (map fst cs)" using xy(2) unfolding cs(2) by simp
    then obtain sy where y: "(y, sy) \<in> set cs" by auto
    then have "(y, sy) \<in> set (drop c cs)" using xy(2) unfolding gone_def
      by (metis DiffD2 Un_iff append_take_drop_id fst_conv image_eqI list.set_map set_append)
    then have le: "sx \<le> sy" using cs(4) [OF x, of "(y, sy)"] by simp
    have "(x, sx) \<in> set (zip ?rows scores)" "(y, sy) \<in> set (zip ?rows scores)"
      using x y by (auto simp: cs_def dest: in_set_takeD)
    then obtain i j where "i < length ?rows" "j < length ?rows" "x = ?rows ! j" "sx = scores ! j" "y = ?rows ! i" "sy = scores ! i"
      by (auto simp: in_set_zip)
    then have "sy < sx" using s(3) b xy(3) by blast
    with le show False by simp
  qed
  ultimately show ?thesis using dg sub len unfolding c_def by blast
qed

lemma replicas_of_filter:
  "replicas_of mid (db\<lparr>cb_instances := filter (\<lambda>(k, _). k \<notin> S) (cb_instances db)\<rparr>) =
   filter (\<lambda>(k, _). k \<notin> S) (replicas_of mid db)"
  by (simp add: replicas_of_def case_prod_unfold conj_commute)

lemma replicas_of_append:
  "replicas_of mid (db\<lparr>cb_instances := cb_instances db @ new\<rparr>) = replicas_of mid db @ filter (\<lambda>(_, r). rp_model_id r = mid) new"
  by (simp add: replicas_of_def)

lemma filter_new_replicas:
  "\<forall>(i, r) \<in> set new. \<exists>j. r = new_replica env mid m j \<Longrightarrow> filter (\<lambda>(_, r). rp_model_id r = mid') new = (if mid' = mid then new else [])"
  by (induction new) (auto simp: new_replica_def)

lemma other_rows_kept:
  assumes "dict_ok (cb_instances db)" and "set gone \<subseteq> set (replicas_of mid db)" and "mid' \<noteq> mid"
  shows "filter (\<lambda>(k, _). k \<notin> set (map fst gone)) (replicas_of mid' db) = replicas_of mid' db"
proof -
  have "k \<notin> set (map fst gone)" if "(k, r) \<in> set (replicas_of mid' db)" for k r
  proof
    assume "k \<in> set (map fst gone)"
    then obtain r' where "(k, r') \<in> set (cb_instances db)" "rp_model_id r' = mid" using assms(2) by (auto simp: replicas_of_def)
    moreover have "(k, r) \<in> set (cb_instances db)" "rp_model_id r = mid'" using that by (auto simp: replicas_of_def)
    ultimately show False using assms(1,3) by (metis eq_key_imp_eq_value)
  qed
  then show ?thesis by (auto simp: filter_id_conv)
qed


section \<open>Properties of replicas\<close>

definition settled :: "int \<Rightarrow> cluster_db \<Rightarrow> bool" where
  "settled mid db \<longleftrightarrow>
     (case dget (cb_models db) mid of Some m \<Rightarrow> rm_replicas m = int (length (replicas_of mid db)) | None \<Rightarrow> True)"

definition sync_ready :: "replica_env \<Rightarrow> int \<Rightarrow> cluster_db \<Rightarrow> bool" where
  "sync_ready env mid db \<longleftrightarrow>
     (case dget (cb_models db) mid of
        None \<Rightarrow> False
      | Some m \<Rightarrow> \<not> rm_deleted m \<and> rm_strategy m = SPREAD \<and> 0 \<le> rm_replicas m \<and>
          dict_ok (cb_instances db) \<and> rows_sane (replicas_of mid db) \<and>
          list_all (\<lambda>(k, _). ev_delete_ok env k) (replicas_of mid db) \<and>
          names_fresh env m 0 (nat (rm_replicas m - int (length (replicas_of mid db)))) db)"

lemma settled_stable: "settled mid db \<Longrightarrow> sync_replicas env mid db = (None, db)"
  by (auto simp: settled_def sync_replicas_def Let_def split: option.splits)

lemma create_step:
  assumes "dget (cb_models db) mid = Some m" "\<not> rm_deleted m" "names_fresh env m 0 (nat (rm_replicas m - int (length (replicas_of mid db)))) db"
    and "int (length (replicas_of mid db)) < rm_replicas m"
  shows "\<exists>new. sync_replicas env mid db = (None, db\<lparr>cb_instances := cb_instances db @ new\<rparr>) \<and>
    length new = nat (rm_replicas m - int (length (replicas_of mid db))) \<and> (\<forall>(i, r) \<in> set new. \<exists>j. r = new_replica env mid m j)"
proof -
  let ?n = "nat (rm_replicas m - int (length (replicas_of mid db)))"
  obtain e db' where c: "create_replicas env mid m 0 ?n db = (e, db')" by (meson surj_pair)
  have "e = None" using create_replicas_ok [OF assms(3)] c by (metis fst_conv)
  with create_replicas_shape [OF c] c assms show ?thesis by (auto simp: sync_replicas_def Let_def)
qed

lemma sync_replicas_converges:
  assumes "sync_ready env mid db"
  shows "\<exists>db'. sync_replicas env mid db = (None, db') \<and>
    int (length (replicas_of mid db')) = rm_replicas (the (dget (cb_models db) mid)) \<and>
    (\<forall>mid'. mid' \<noteq> mid \<longrightarrow> replicas_of mid' db' = replicas_of mid' db) \<and>
    cb_models db' = cb_models db \<and> cb_workers db' = cb_workers db \<and>
    (\<forall>env'. sync_replicas env' mid db' = (None, db'))"
proof -
  obtain m where m: "dget (cb_models db) mid = Some m" "\<not> rm_deleted m" "rm_strategy m = SPREAD" "0 \<le> rm_replicas m"
    "dict_ok (cb_instances db)" "rows_sane (replicas_of mid db)" "list_all (\<lambda>(k, _). ev_delete_ok env k) (replicas_of mid db)"
    "names_fresh env m 0 (nat (rm_replicas m - int (length (replicas_of mid db)))) db"
    using assms by (auto simp: sync_ready_def split: option.splits)
  let ?n = "int (length (replicas_of mid db))"
  have "\<exists>db'. sync_replicas env mid db = (None, db') \<and> int (length (replicas_of mid db')) = rm_replicas m \<and>
    (\<forall>mid'. mid' \<noteq> mid \<longrightarrow> replicas_of mid' db' = replicas_of mid' db) \<and> cb_models db' = cb_models db \<and> cb_workers db' = cb_workers db"
  proof (cases "?n < rm_replicas m")
    case True
    with create_step [OF m(1,2,8)] obtain new where
      "sync_replicas env mid db = (None, db\<lparr>cb_instances := cb_instances db @ new\<rparr>)" "length new = nat (rm_replicas m - ?n)"
      "\<forall>(i, r) \<in> set new. \<exists>j. r = new_replica env mid m j" by blast
    with True show ?thesis by (simp add: replicas_of_append filter_new_replicas)
  next
    case False
    show ?thesis
    proof (cases "?n = rm_replicas m")
      case True
      then have "sync_replicas env mid db = (None, db)" using m(1) by (intro settled_stable) (simp add: settled_def)
      with True show ?thesis by simp
    next
      case ne: False
      with False have "rm_replicas m < ?n" by simp
      from scale_down_step [OF m(1-7) this] obtain gone where
        "sync_replicas env mid db = (None, db\<lparr>cb_instances := filter (\<lambda>(k, _). k \<notin> set (map fst gone)) (cb_instances db)\<rparr>)"
        and g: "distinct gone" "set gone \<subseteq> set (replicas_of mid db)" "length gone = length (replicas_of mid db) - nat (rm_replicas m)" by blast
      moreover have "dict_ok (replicas_of mid db)" using m(5) unfolding replicas_of_def by (rule dict_ok_filter)
      note removed_count [OF this g(2,1)]
      ultimately show ?thesis using other_rows_kept [OF m(5) g(2)] False m(4) g(3)
        by (simp add: replicas_of_filter del: set_map)
    qed
  qed
  then obtain db' where "sync_replicas env mid db = (None, db')" "int (length (replicas_of mid db')) = rm_replicas m"
    "\<forall>mid'. mid' \<noteq> mid \<longrightarrow> replicas_of mid' db' = replicas_of mid' db" "cb_models db' = cb_models db" "cb_workers db' = cb_workers db" by blast
  moreover from this have "settled mid db'" using m(1) by (simp add: settled_def)
  ultimately show ?thesis using m(1) settled_stable by (metis option.sel)
qed


text \<open>scaling down spares what works. Under the same conditions, an instance row that
  disappears belongs to the model, and when it was running on a ready worker then no instance of the
  model that is failed, without an existing worker, or on a worker that is not ready stays.\<close>

theorem scale_down_spares_healthy:
  assumes "sync_ready env mid db" and "sync_replicas env mid db = (None, db')"
    and "(k, r) \<in> set (cb_instances db) - set (cb_instances db')"
  shows "rp_model_id r = mid \<and>
    (healthy (worker_list db) (scored r) \<longrightarrow>
      (\<forall>(k', r') \<in> set (replicas_of mid db'). \<not> broken (worker_list db) (scored r')))"
proof -
  obtain m where m: "dget (cb_models db) mid = Some m" "\<not> rm_deleted m" "rm_strategy m = SPREAD" "0 \<le> rm_replicas m"
    "dict_ok (cb_instances db)" "rows_sane (replicas_of mid db)" "list_all (\<lambda>(k, _). ev_delete_ok env k) (replicas_of mid db)"
    "names_fresh env m 0 (nat (rm_replicas m - int (length (replicas_of mid db)))) db"
    using assms(1) by (auto simp: sync_ready_def split: option.splits)
  have "\<not> settled mid db" using settled_stable assms(2,3) by fastforce
  moreover have "\<not> int (length (replicas_of mid db)) < rm_replicas m"
    using create_step [OF m(1,2,8)] assms(2,3) by auto
  ultimately have "rm_replicas m < int (length (replicas_of mid db))" using m(1) by (auto simp: settled_def)
  from scale_down_step [OF m(1-7) this] obtain gone where
    g: "db' = db\<lparr>cb_instances := filter (\<lambda>(k, _). k \<notin> set (map fst gone)) (cb_instances db)\<rparr>"
    "set gone \<subseteq> set (replicas_of mid db)"
    "\<forall>x y. x \<in> set gone \<longrightarrow> y \<in> set (replicas_of mid db) - set gone \<longrightarrow>
       healthy (worker_list db) (scored (snd x)) \<longrightarrow> \<not> broken (worker_list db) (scored (snd y))"
    using assms(2) by auto
  have "k \<in> set (map fst gone)" using assms(3) g(1) by auto
  then obtain r0 where r0: "(k, r0) \<in> set gone" by auto
  then have "(k, r0) \<in> set (cb_instances db)" "rp_model_id r0 = mid" using g(2) by (auto simp: replicas_of_def)
  moreover from this have "r0 = r" using assms(3) m(5) by (metis DiffD1 eq_key_imp_eq_value)
  moreover have "(k', r') \<in> set (replicas_of mid db) - set gone" if "(k', r') \<in> set (replicas_of mid db')" for k' r'
    using that unfolding g(1) replicas_of_filter by force
  ultimately show ?thesis using r0 g(3) by fastforce
qed


lemma scale_down_rows_part: "distinct rows \<Longrightarrow> distinct (map fst (scale_down_rows st ws mid rows)) \<and>
  set (map fst (scale_down_rows st ws mid rows)) \<subseteq> set rows \<and> length (scale_down_rows st ws mid rows) \<le> length rows"
proof -
  assume d: "distinct rows"
  have "distinct (map fst (sort_key snd (zip rows s))) \<and> set (map fst (sort_key snd (zip rows s))) \<subseteq> set rows" for s :: "rat list"
    using d distinct_map [of fst "zip rows s"] by (auto simp: distinct_map map_fst_zip_take distinct_zipI1 dest: set_zip_leftD)
  then show ?thesis unfolding scale_down_rows_def Let_def by (auto split: sum.splits)
qed

lemma batch_delete_cases:
  "batch_delete ok rows db = (Inl External, db) \<or>
   (\<exists>ns. batch_delete ok rows db = (Inr ns, db\<lparr>cb_instances := filter (\<lambda>(k, _). k \<notin> set (map fst rows)) (cb_instances db)\<rparr>))"
  by (cases "rows = []"; cases "list_all (\<lambda>(k, _). ok k) rows") (simp_all add: batch_delete_def case_prod_unfold)

lemma sync_replicas_cases:
  fixes db :: cluster_db and mid :: int
  defines "rows \<equiv> replicas_of mid db"
  defines "n \<equiv> int (length rows)"
  assumes m: "dget (cb_models db) mid = Some m" and s: "sync_replicas env mid db = (e, db')"
  defines "cs \<equiv> scale_down_rows (rm_strategy m) (worker_list db) mid rows"
  defines "down \<equiv> int (length cs) - rm_replicas m"
  shows "db' = db \<or> (n < rm_replicas m \<and> create_replicas env mid m 0 (nat (rm_replicas m - n)) db = (e, db')) \<or>
    (rm_replicas m < n \<and> 0 < down \<and> e = None \<and>
     db' = db\<lparr>cb_instances := filter (\<lambda>(k, _). k \<notin> set (map fst (map fst (take (nat down) cs)))) (cb_instances db)\<rparr>)"
proof (cases "\<not> rm_deleted m \<and> \<not> n < rm_replicas m \<and> rm_replicas m < n \<and> 0 < down")
  case True
  then have "sync_replicas env mid db =
      (case batch_delete (ev_delete_ok env) (map fst (take (nat down) cs)) db of (Inl e, db') \<Rightarrow> (Some e, db') | (Inr _, db') \<Rightarrow> (None, db'))"
    using m by (simp add: sync_replicas_def Let_def rows_def n_def cs_def down_def)
  with batch_delete_cases [of "ev_delete_ok env" "map fst (take (nat down) cs)" db] True s show ?thesis by auto
next
  case False
  then show ?thesis using m s
    by (cases "rm_deleted m"; cases "n < rm_replicas m"; cases "rm_replicas m < n")
      (simp_all add: sync_replicas_def Let_def rows_def n_def cs_def down_def)
qed

text \<open>C34: whatever is drawn, scored or refused, a synchronization never deletes below the replica
  count and never creates above it, touches only rows of its model, and when it raises while scaling
  down (or finds no score) it leaves every row.\<close>

theorem replicas_never_overshoot:
  assumes "dget (cb_models db) mid = Some m" and "0 \<le> rm_replicas m" and "dict_ok (cb_instances db)"
    and "sync_replicas env mid db = (e, db')"
  shows "(let n = int (length (replicas_of mid db)); n' = int (length (replicas_of mid db'))
     in min n (rm_replicas m) \<le> n' \<and> n' \<le> max n (rm_replicas m) \<and> (e \<noteq> None \<and> rm_replicas m < n \<longrightarrow> db' = db)) \<and>
    (\<forall>mid'. mid' \<noteq> mid \<longrightarrow> replicas_of mid' db' = replicas_of mid' db)"
proof -
  let ?rows = "replicas_of mid db" and ?n = "int (length (replicas_of mid db))"
  let ?cs = "scale_down_rows (rm_strategy m) (worker_list db) mid ?rows"
  let ?down = "int (length ?cs) - rm_replicas m"
  define gone where "gone = map fst (take (nat ?down) ?cs)"
  have dr: "dict_ok ?rows" using assms(3) unfolding replicas_of_def by (rule dict_ok_filter)
  have part: "distinct (map fst ?cs)" "set (map fst ?cs) \<subseteq> set ?rows" "length ?cs \<le> length ?rows"
    using scale_down_rows_part [of ?rows] dr by (auto simp: distinct_map)
  have "gone = take (nat ?down) (map fst ?cs)" by (simp add: gone_def take_map)
  then have g: "set gone \<subseteq> set ?rows" "distinct gone" "length gone = nat ?down"
    using part(1) subset_trans [OF set_take_subset part(2)] assms(2) by auto
  consider (same) "db' = db" | (create) "?n < rm_replicas m" "create_replicas env mid m 0 (nat (rm_replicas m - ?n)) db = (e, db')"
    | (down) "rm_replicas m < ?n" "0 < ?down" "e = None"
        "db' = db\<lparr>cb_instances := filter (\<lambda>(k, _). k \<notin> set (map fst gone)) (cb_instances db)\<rparr>"
    using sync_replicas_cases [OF assms(1,4)] unfolding gone_def by blast
  then show ?thesis
  proof cases
    case create
    from create_replicas_shape [OF create(2)] obtain new where
      "db' = db\<lparr>cb_instances := cb_instances db @ new\<rparr>" "length new \<le> nat (rm_replicas m - ?n)"
      "\<forall>(i, r) \<in> set new. \<exists>j. r = new_replica env mid m j" by blast
    with create(1) show ?thesis by (auto simp: Let_def replicas_of_append filter_new_replicas)
  next
    case down
    from removed_count [OF dr g(1,2)] have "length (replicas_of mid db') = length ?rows - nat ?down"
      unfolding down(4) replicas_of_filter g(3) .
    with down part(3) assms(2) other_rows_kept [OF assms(3) g(1)] show ?thesis
      by (auto simp: Let_def replicas_of_filter simp del: set_map)
  qed (simp add: Let_def)
qed

text \<open>The ready count is exact after its synchronization, and a second one writes nothing.\<close>

lemma ready_replicas_exact:
  assumes "dget (cb_models db) mid = Some m" and "\<not> rm_deleted m" and "sync_ready_replicas mid m db = (b, db')"
  shows "\<exists>m'. dget (cb_models db') mid = Some m' \<and>
      rm_ready m' = int (length (filter (\<lambda>(_, r). rp_state r = RUNNING) (replicas_of mid db'))) \<and>
      sync_ready_replicas mid m' db' = (False, db')"
proof -
  let ?ready = "int (length (filter (\<lambda>(_, r). rp_state r = RUNNING) (replicas_of mid db)))"
  have same: "replicas_of mid (db\<lparr>cb_models := x\<rparr>) = replicas_of mid db" for x by (simp add: replicas_of_def)
  show ?thesis
  proof (cases "rm_ready m = ?ready")
    case True
    then show ?thesis using assms by (auto simp: sync_ready_replicas_def Let_def)
  next
    case False
    then have "db' = db\<lparr>cb_models := dput mid (m\<lparr>rm_ready := ?ready\<rparr>) (cb_models db)\<rparr>"
      using assms by (simp add: sync_ready_replicas_def Let_def)
    then show ?thesis by (simp add: same sync_ready_replicas_def Let_def dict_simps)
  qed
qed

section \<open>Sample data\<close>

definition sample_hf :: source_row where
  "sample_hf = (no_source HUGGING_FACE)\<lparr>sr_hf_repo := Some ''q''\<rparr>"

definition sample_replica_env :: replica_env where
  "sample_replica_env = \<lparr>ev_suffix = nat_str, ev_new_id = (\<lambda>ks. 1 + foldr max ks 0), ev_catalog = [], ev_delete_ok = (\<lambda>_. True)\<rparr>"

definition sample_replica_model :: "int \<Rightarrow> replica_model" where
  "sample_replica_model n = \<lparr>rm_name = ''m'', rm_source = sample_hf, rm_replicas = n, rm_ready = 0, rm_deleted = False, rm_cluster = Some 1,
     rm_owner = 1, rm_draft_model = None, rm_backend = None, rm_backend_version = None, rm_strategy = SPREAD\<rparr>"

definition sample_row :: "string \<Rightarrow> instance_state \<Rightarrow> int \<Rightarrow> string \<Rightarrow> replica" where
  "sample_row n st w wn = (new_replica sample_replica_env 1 (sample_replica_model 1) 0)\<lparr>rp_name := n, rp_state := st, rp_worker_id := Some w, rp_worker_name := Some wn\<rparr>"

definition sample_worker_row :: "int \<Rightarrow> string \<Rightarrow> worker_state \<Rightarrow> rat \<Rightarrow> worker_row" where
  "sample_worker_row k n st hb = \<lparr>w_id = k, w_name = n, w_state = st, w_status = None, w_reserved = None, wk_cluster = Some 1,
     wk_heartbeat = Some hb, wk_unreachable = False, wk_maintenance = None, wk_message = None\<rparr>"

definition sample_cluster :: "int \<Rightarrow> cluster_db" where
  "sample_cluster n = \<lparr>cb_models = [(1, sample_replica_model n)],
     cb_instances = [(1, sample_row ''a'' RUNNING 1 ''w1''), (2, sample_row ''b'' ERROR 1 ''w1'')],
     cb_workers = [(1, sample_worker_row 1 ''w1'' WORKER_READY 0)]\<rparr>"

lemmas sample_replica_simps = sample_hf_def sample_replica_env_def sample_replica_model_def sample_row_def sample_worker_row_def sample_cluster_def

lemma sample_sync_ready: "sync_ready sample_replica_env 1 (sample_cluster 3)" "sync_ready sample_replica_env 1 (sample_cluster 1)"
  by code_simp+


text \<open>Three instances, one failed, scaled down to one.\<close>

definition sample_three :: cluster_db where
  "sample_three = (sample_cluster 1)\<lparr>cb_instances := cb_instances (sample_cluster 1) @ [(3, sample_row ''c'' RUNNING 1 ''w1'')]\<rparr>"

lemma sample_three_ready: "sync_ready sample_replica_env 1 sample_three"
  by code_simp

lemma sample_three_down: "sync_replicas sample_replica_env 1 sample_three =
   (None, sample_three\<lparr>cb_instances := [(3, sample_row ''c'' RUNNING 1 ''w1'')]\<rparr>)"
  by code_simp

theorem scale_down_spares_healthy_witness:
  "healthy (worker_list sample_three) (scored (sample_row ''a'' RUNNING 1 ''w1'')) \<and>
   \<not> broken (worker_list sample_three) (scored (sample_row ''c'' RUNNING 1 ''w1''))"
proof -
  have h: "healthy (worker_list sample_three) (scored (sample_row ''a'' RUNNING 1 ''w1''))"
    by (simp add: healthy_def make_worker_map_def worker_list_def sample_three_def scored_def new_replica_def sample_replica_simps worker.defs)
  have "sample_row ''a'' RUNNING 1 ''w1'' \<noteq> sample_row ''c'' RUNNING 1 ''w1''" by (simp add: sample_row_def new_replica_def)
  then have "(1, sample_row ''a'' RUNNING 1 ''w1'') \<in> set (cb_instances sample_three) -
      set (cb_instances (sample_three\<lparr>cb_instances := [(3, sample_row ''c'' RUNNING 1 ''w1'')]\<rparr>))"
    by (simp add: sample_three_def sample_cluster_def)
  from scale_down_spares_healthy [OF sample_three_ready sample_three_down this] h show ?thesis
    by (simp add: replicas_of_def sample_row_def new_replica_def)
qed

theorem replicas_never_overshoot_witness:
  "fst (sync_replicas (sample_replica_env\<lparr>ev_suffix := \<lambda>_. ''x''\<rparr>) 1 (sample_cluster 4)) = Some External \<and>
   length (replicas_of 1 (snd (sync_replicas (sample_replica_env\<lparr>ev_suffix := \<lambda>_. ''x''\<rparr>) 1 (sample_cluster 4)))) \<le> 4"
proof -
  let ?r = "sync_replicas (sample_replica_env\<lparr>ev_suffix := \<lambda>_. ''x''\<rparr>) 1 (sample_cluster 4)"
  have e: "fst ?r = Some External" by code_simp
  have m: "dget (cb_models (sample_cluster 4)) 1 = Some (sample_replica_model 4)" "0 \<le> rm_replicas (sample_replica_model 4)"
    "dict_ok (cb_instances (sample_cluster 4))" "length (replicas_of 1 (sample_cluster 4)) = 2"
    by (simp_all add: sample_cluster_def sample_replica_model_def replicas_of_def sample_row_def new_replica_def)
  have "?r = (Some External, snd ?r)" using e by (metis prod.collapse)
  from replicas_never_overshoot [OF m(1-3) this] m(4) show ?thesis using e by (simp add: Let_def sample_replica_model_def)
qed

end
