(* ===== verification/Workers.thy ===== *)
theory Workers
  imports Replicas
begin

text \<open>
  Liveness of workers and what follows for instances: \<open>compute_state\<close> of
  \<^verbatim>\<open>src/gpustack/schemas/workers.py\<close>, the periodic state sync of \<^verbatim>\<open>server/worker_syncer.py\<close>, the
  flushing of heartbeats and status reports of \<^verbatim>\<open>server/worker_status_buffer.py\<close>, the worker
  controller of \<^verbatim>\<open>server/controllers.py\<close> (a lost or deleted worker), the cleaner of
  \<^verbatim>\<open>server/worker_instance_cleaner.py\<close>, and the matching of instances with workers of
  \<^verbatim>\<open>utils/model_instance_workers.py\<close>. The clock, the health probe and the grace periods are
  parameters.
\<close>

section \<open>States of a worker\<close>

definition is_provisioning :: "worker_state \<Rightarrow> bool" where
  "is_provisioning st \<longleftrightarrow>
     st \<in> {WORKER_PENDING, WORKER_PROVISIONING, WORKER_INITIALIZING, WORKER_DELETING, WORKER_ERROR}"

text \<open>The second component stands for the printed time.\<close>

definition is_offline :: "rat \<Rightarrow> int \<Rightarrow> rat option \<Rightarrow> bool \<times> rat option" where
  "is_offline now timeout last_update =
     (case last_update of
        None \<Rightarrow> (True, None)
      | Some t \<Rightarrow> (py_trunc now - py_trunc t > timeout, Some t))"

definition in_maintenance :: "worker_row \<Rightarrow> bool" where
  "in_maintenance w \<longleftrightarrow> (case wk_maintenance w of None \<Rightarrow> False | Some (enabled, _) \<Rightarrow> enabled)"

definition compute_state :: "rat \<Rightarrow> int \<Rightarrow> worker_row \<Rightarrow> worker_row" where
  "compute_state now grace w =
     (if in_maintenance w
      then w\<lparr>w_state := WORKER_MAINTENANCE, wk_message := map_option WorkerText (snd (the (wk_maintenance w)))\<rparr>
      else if is_provisioning (w_state w) then w
      else if w_state w = WORKER_NOT_READY \<and> wk_message w \<noteq> None then w
      else case is_offline now grace (wk_heartbeat w) of
             (is_not_ready, seen) \<Rightarrow>
               if is_not_ready then w\<lparr>w_state := WORKER_NOT_READY, wk_message := Some (HeartbeatLost seen)\<rparr>
               else if wk_unreachable w then w\<lparr>w_state := WORKER_UNREACHABLE, wk_message := Some CannotAccessHealthz\<rparr>
               else w\<lparr>w_state := WORKER_READY, wk_message := None\<rparr>)"

section \<open>Periodic sync\<close>

definition should_check_unreachable :: "string \<Rightarrow> nat \<Rightarrow> bool" where
  "should_check_unreachable mode worker_count =
     (if mode = ''disabled'' then False
      else if mode = ''enabled'' then True
      else if mode = ''auto'' then (if worker_count > 50 then False else True)
      else worker_count \<le> 50)"

definition set_worker_unreachable :: "(worker_row \<Rightarrow> bool) \<Rightarrow> worker_row \<Rightarrow> worker_row" where
  "set_worker_unreachable reachable w = w\<lparr>wk_unreachable := \<not> reachable w\<rparr>"

definition filter_state_change_workers :: "rat \<Rightarrow> int \<Rightarrow> (int \<times> worker_row) list \<Rightarrow> (int \<times> worker_row) list" where
  "filter_state_change_workers now grace ws =
     concat (map (\<lambda>(k, w). let w' = compute_state now grace w
                   in if w_state w' \<noteq> w_state w \<or> wk_message w' \<noteq> wk_message w then [(k, w')] else []) ws)"

text \<open>What one round decides from the rows it read; the write reads each row again and sets three columns.\<close>

definition changed_workers ::
  "string \<Rightarrow> (worker_row \<Rightarrow> bool) \<Rightarrow> rat \<Rightarrow> int \<Rightarrow> (int, worker_row) dict \<Rightarrow> (int \<times> worker_row) list" where
  "changed_workers mode reachable now grace ws =
     (let probed = (if should_check_unreachable mode (length ws)
                    then map (\<lambda>(k, w). (k, if \<not> is_provisioning (w_state w) then set_worker_unreachable reachable w else w)) ws
                    else ws)
      in filter (\<lambda>(_, w). w_state w \<in> {WORKER_NOT_READY, WORKER_UNREACHABLE, WORKER_READY, WORKER_MAINTENANCE})
           (filter_state_change_workers now grace probed))"

fun write_states :: "(int \<times> worker_row) list \<Rightarrow> (int, worker_row) dict \<Rightarrow> (int, worker_row) dict" where
  "write_states [] ws = ws"
| "write_states ((k, c) # r) ws =
     write_states r
       (case dget ws k of
          None \<Rightarrow> ws
        | Some w \<Rightarrow> dput k (w\<lparr>wk_unreachable := wk_unreachable c, w_state := w_state c, wk_message := wk_message c\<rparr>) ws)"

definition sync_workers_states :: "string \<Rightarrow> (worker_row \<Rightarrow> bool) \<Rightarrow> rat \<Rightarrow> int \<Rightarrow> cluster_db \<Rightarrow> cluster_db" where
  "sync_workers_states mode reachable now grace db =
     db\<lparr>cb_workers := write_states (changed_workers mode reachable now grace (cb_workers db)) (cb_workers db)\<rparr>"

section \<open>Heartbeats and status reports\<close>

definition flush_heartbeats :: "rat \<Rightarrow> int set \<Rightarrow> cluster_db \<Rightarrow> cluster_db" where
  "flush_heartbeats now ids db =
     (if ids = {} then db
      else db\<lparr>cb_workers := map (\<lambda>(k, w). (k, if k \<in> ids then w\<lparr>wk_heartbeat := Some (of_int (floor now))\<rparr> else w)) (cb_workers db)\<rparr>)"

text \<open>A buffered report: its time, the collected status and reservation, and the collector's message.\<close>

record status_report =
  rt_time :: rat
  rt_status :: "worker_status option"
  rt_reserved :: "system_reserved option"
  rt_message :: "string option"

definition create_worker_status ::
  "rat \<Rightarrow> worker_status option \<Rightarrow> system_reserved option \<Rightarrow> string option \<Rightarrow> int \<Rightarrow> (int, status_report) dict \<Rightarrow> (int, status_report) dict" where
  "create_worker_status now st rsv msg wid buf =
     dput wid \<lparr>rt_time = of_int (floor now), rt_status = st, rt_reserved = rsv, rt_message = msg\<rparr> buf"

definition apply_report :: "status_report \<Rightarrow> worker_row \<Rightarrow> worker_row" where
  "apply_report rep w =
     w\<lparr>w_status := rt_status rep, w_reserved := rt_reserved rep, wk_message := map_option WorkerText (rt_message rep),
       wk_heartbeat := Some (rt_time rep)\<rparr>"

definition flush_worker_status :: "rat \<Rightarrow> int \<Rightarrow> (int, status_report) dict \<Rightarrow> cluster_db \<Rightarrow> cluster_db" where
  "flush_worker_status now grace buf db =
     (if buf = [] then db
      else db\<lparr>cb_workers := map (\<lambda>(k, w). (k, case dget buf k of
                                               None \<Rightarrow> w
                                             | Some rep \<Rightarrow> compute_state now grace (apply_report rep w))) (cb_workers db)\<rparr>)"

section \<open>Instances on a worker\<close>

record worker_match =
  wm_main :: bool
  wm_subs :: "nat list"

definition wm_matched :: "worker_match \<Rightarrow> bool" where
  "wm_matched m \<longleftrightarrow> wm_main m \<or> wm_subs m \<noteq> []"

definition on_worker :: "string option \<Rightarrow> int option \<Rightarrow> string option \<Rightarrow> int option \<Rightarrow> bool" where
  "on_worker name wid its_name its_id \<longleftrightarrow> (name \<noteq> None \<and> its_name = name) \<or> (wid \<noteq> None \<and> its_id = wid)"

definition get_model_instance_worker_match :: "replica \<Rightarrow> string option \<Rightarrow> int option \<Rightarrow> worker_match" where
  "get_model_instance_worker_match r name wid =
     \<lparr>wm_main = on_worker name wid (rp_worker_name r) (rp_worker_id r),
      wm_subs = map fst (filter (\<lambda>(_, s). on_worker name wid (ss_worker_name s) (ss_worker_id s)) (enumerate 0 (items (rp_subs r))))\<rparr>"

definition match_of :: "worker_row \<Rightarrow> replica \<Rightarrow> worker_match" where
  "match_of w r = get_model_instance_worker_match r (Some (w_name w)) (Some (w_id w))"

section \<open>A lost worker\<close>

definition lost_note :: "string option" where
  "lost_note = Some ''Worker is unreachable from the server''"

definition lose_sub :: "sub_row \<Rightarrow> sub_row" where
  "lose_sub s = (if ss_state s = UNREACHABLE then s else s\<lparr>ss_state := UNREACHABLE, ss_message := lost_note\<rparr>)"

definition lose_main :: "replica \<Rightarrow> replica" where
  "lose_main r = r\<lparr>rp_state := UNREACHABLE, rp_message := lost_note\<rparr>"

text \<open>The loop over the matched indexes, and the patch of one instance.\<close>

fun lose_subs :: "nat list \<Rightarrow> sub_row list \<Rightarrow> sub_row list" where
  "lose_subs [] ss = ss"
| "lose_subs (i # js) ss = lose_subs js (ss[i := lose_sub (ss ! i)])"

definition lose_instance :: "worker_match \<Rightarrow> replica \<Rightarrow> replica" where
  "lose_instance m r =
     (let r1 = (if wm_main m \<and> rp_state r = RUNNING then lose_main r else r)
      in if wm_subs m = [] then r1 else r1\<lparr>rp_subs := map_option (lose_subs (wm_subs m)) (rp_subs r1)\<rparr>)"

definition update_impacted_instance_states_to_unreachable ::
  "(int \<times> replica \<times> worker_match) list \<Rightarrow> cluster_db \<Rightarrow> cluster_db" where
  "update_impacted_instance_states_to_unreachable matched db =
     fold (\<lambda>(k, r, m) db. db\<lparr>cb_instances := dput k (lose_instance m r) (cb_instances db)\<rparr>) matched db"

definition worker_reconcile ::
  "(int \<Rightarrow> bool) \<Rightarrow> event_type \<Rightarrow> worker_row option \<Rightarrow> string list \<Rightarrow> cluster_db \<Rightarrow> py_error option \<times> cluster_db" where
  "worker_reconcile delete_ok etype data changed db =
     (if etype \<notin> {UPDATED, DELETED} then (None, db)
      else case data of
        None \<Rightarrow> (None, db)
      | Some w \<Rightarrow>
          if is_provisioning (w_state w) \<and> w_state w \<noteq> WORKER_DELETING then (None, db)
          else if etype = UPDATED \<and> ''state'' \<notin> set changed then (None, db)
          else let rows = filter (\<lambda>(_, r). rp_cluster r = wk_cluster w) (cb_instances db);
                   matched = filter (\<lambda>(_, r, m). wm_matched m) (map (\<lambda>(k, r). (k, r, match_of w r)) rows)
            in if matched = [] then (None, db)
               else if etype = DELETED
                 then (case batch_delete delete_ok (map (\<lambda>(k, r, _). (k, r)) matched) db of
                         (Inl e, db') \<Rightarrow> (Some e, db') | (Inr _, db') \<Rightarrow> (None, db'))
               else if wk_unreachable w \<or> w_state w = WORKER_UNREACHABLE \<or> w_state w = WORKER_NOT_READY
                 then (None, update_impacted_instance_states_to_unreachable matched db)
               else (None, db))"

section \<open>The cleaner\<close>

definition is_dead :: "rat \<Rightarrow> int \<Rightarrow> worker_row \<Rightarrow> bool" where
  "is_dead now grace w \<longleftrightarrow>
     w_state w = WORKER_NOT_READY \<and> \<not> in_maintenance w \<and> fst (is_offline now grace (wk_heartbeat w))"

text \<open>By name: the identifier and the cluster.\<close>

definition offline_workers :: "rat \<Rightarrow> int \<Rightarrow> cluster_db \<Rightarrow> (string, int \<times> int option) dict" where
  "offline_workers now grace db =
     fold (\<lambda>w d. if is_dead now grace w then dput (w_name w) (w_id w, wk_cluster w) d else d) (dvals (cb_workers db)) []"

definition cleanup_rows :: "rat \<Rightarrow> int \<Rightarrow> cluster_db \<Rightarrow> (int \<times> replica) list" where
  "cleanup_rows now grace db =
     (let offline = offline_workers now grace db;
          clusters = filter truthy (map (\<lambda>(_, _, c). c) offline);
          rows = (if clusters \<noteq> [] then filter (\<lambda>(_, r). rp_cluster r \<in> set clusters) (cb_instances db) else cb_instances db)
      in filter (\<lambda>(_, r). list_ex (\<lambda>(n, wid, _). wm_matched (get_model_instance_worker_match r (Some n) (Some wid))) offline) rows)"

definition cleanup_offline_worker_instances ::
  "(int \<Rightarrow> bool) \<Rightarrow> rat \<Rightarrow> int \<Rightarrow> cluster_db \<Rightarrow> py_error option \<times> cluster_db" where
  "cleanup_offline_worker_instances delete_ok now grace db =
     (case batch_delete delete_ok (cleanup_rows now grace db) db of
        (Inl e, db') \<Rightarrow> (Some e, db') | (Inr _, db') \<Rightarrow> (None, db'))"

section \<open>Lemmas on lost workers\<close>

lemma lose_sub_idem [simp]: "lose_sub (lose_sub s) = lose_sub s"
  by (simp add: lose_sub_def)

lemma lose_sub_fields [simp]: "ss_worker_name (lose_sub s) = ss_worker_name s" "ss_worker_id (lose_sub s) = ss_worker_id s"
  "ss_state (lose_sub s) = UNREACHABLE"
  by (simp_all add: lose_sub_def)

lemma length_lose_subs [simp]: "length (lose_subs js ss) = length ss"
  by (induction js arbitrary: ss) simp_all

lemma lose_subs_nth: "i < length ss \<Longrightarrow> lose_subs js ss ! i = (if i \<in> set js then lose_sub (ss ! i) else ss ! i)"
proof (induction js arbitrary: ss)
  case (Cons j js)
  then show ?case by (cases "i = j") auto
qed simp

definition sub_on :: "worker_row \<Rightarrow> sub_row \<Rightarrow> bool" where
  "sub_on w s \<longleftrightarrow> on_worker (Some (w_name w)) (Some (w_id w)) (ss_worker_name s) (ss_worker_id s)"

definition main_on :: "worker_row \<Rightarrow> replica \<Rightarrow> bool" where
  "main_on w r \<longleftrightarrow> on_worker (Some (w_name w)) (Some (w_id w)) (rp_worker_name r) (rp_worker_id r)"

text \<open>The whole effect of the loss of a worker on one instance.\<close>

definition lost :: "worker_row \<Rightarrow> replica \<Rightarrow> replica" where
  "lost w r = (if main_on w r \<and> rp_state r = RUNNING then lose_main r else r)
     \<lparr>rp_subs := map_option (map (\<lambda>s. if sub_on w s then lose_sub s else s)) (rp_subs r)\<rparr>"

lemma lose_matched_subs:
  "lose_subs (map fst (filter (\<lambda>(_, s). sub_on w s) (enumerate 0 ss))) ss = map (\<lambda>s. if sub_on w s then lose_sub s else s) ss"
proof (rule nth_equalityI)
  fix i assume "i < length (lose_subs (map fst (filter (\<lambda>(_, s). sub_on w s) (enumerate 0 ss))) ss)"
  then have i: "i < length ss" by simp
  have "i \<in> set (map fst (filter (\<lambda>(_, s). sub_on w s) (enumerate 0 ss))) \<longleftrightarrow> sub_on w (ss ! i)"
    using i by (force simp: in_set_enumerate_eq image_iff)
  with i show "lose_subs (map fst (filter (\<lambda>(_, s). sub_on w s) (enumerate 0 ss))) ss ! i =
      map (\<lambda>s. if sub_on w s then lose_sub s else s) ss ! i"
    by (simp add: lose_subs_nth del: set_map)
qed simp

lemma match_of_fields:
  "wm_main (match_of w r) = main_on w r"
  "wm_subs (match_of w r) = map fst (filter (\<lambda>(_, s). sub_on w s) (enumerate 0 (items (rp_subs r))))"
  by (simp_all add: match_of_def get_model_instance_worker_match_def main_on_def sub_on_def)

lemma no_matched_subs: "map fst (filter (\<lambda>(_, s). sub_on w s) (enumerate 0 ss)) = [] \<longleftrightarrow> list_all (\<lambda>s. \<not> sub_on w s) ss"
proof -
  have "filter (\<lambda>(_, s). sub_on w s) (enumerate n ss) = [] \<longleftrightarrow> list_all (\<lambda>s. \<not> sub_on w s) ss" for n
    by (induction ss arbitrary: n) simp_all
  then show ?thesis by simp
qed

lemma matched_iff: "wm_matched (match_of w r) \<longleftrightarrow> main_on w r \<or> list_ex (sub_on w) (items (rp_subs r))"
  unfolding wm_matched_def match_of_fields no_matched_subs by (auto simp: list_all_iff list_ex_iff)

lemma map_unmatched: "list_all (\<lambda>s. \<not> sub_on w s) ss \<Longrightarrow> map (\<lambda>s. if sub_on w s then lose_sub s else s) ss = ss"
  by (induction ss) simp_all

lemma lose_main_subs [simp]: "rp_subs (lose_main r) = rp_subs r"
  by (simp add: lose_main_def)

lemma lose_instance_lost: "lose_instance (match_of w r) r = lost w r"
proof (cases "rp_subs r")
  case None
  then show ?thesis by (simp add: lose_instance_def lost_def match_of_fields Let_def lose_main_def)
next
  case (Some ss)
  show ?thesis
  proof (cases "list_all (\<lambda>s. \<not> sub_on w s) ss")
    case True
    then show ?thesis using Some
      by (simp add: lose_instance_def lost_def match_of_fields no_matched_subs [simplified] Let_def lose_main_def map_unmatched)
  next
    case False
    then have "wm_subs (match_of w r) \<noteq> []" unfolding match_of_fields no_matched_subs by (simp add: Some)
    then show ?thesis using Some lose_matched_subs [of w ss]
      by (simp add: lose_instance_def lost_def Let_def match_of_fields)
  qed
qed

lemma lost_unmatched: "\<not> wm_matched (match_of w r) \<Longrightarrow> lost w r = r"
  by (cases "rp_subs r") (auto simp: matched_iff lost_def list_ex_iff list_all_iff map_unmatched)

lemma sub_on_lose [simp]: "sub_on w (lose_sub s) = sub_on w s"
  by (simp add: sub_on_def)

lemma main_on_lost [simp]: "main_on w (lost w' r) = main_on w r"
  by (simp add: main_on_def lost_def lose_main_def)

lemma lost_idem: "lost w (lost w r) = lost w r"
  by (cases "rp_subs r") (auto simp: lost_def main_on_def lose_main_def)

lemma lost_cluster [simp]: "rp_cluster (lost w r) = rp_cluster r"
  by (simp add: lost_def lose_main_def)

text \<open>Writing back changed rows in their order is mapping over the table.\<close>

lemma dput_middle: "k \<notin> fst ` set xs \<Longrightarrow> dput k v (xs @ (k, r) # ys) = xs @ (k, v) # ys"
  by (induction xs) auto

lemma fold_dput_filter:
  "dict_ok (xs @ ys) \<Longrightarrow> fold (\<lambda>(k, r) d. dput k (f r) d) (filter P ys) (xs @ ys) = xs @ map (\<lambda>(k, r). (k, if P (k, r) then f r else r)) ys"
proof (induction ys arbitrary: xs)
  case (Cons y ys)
  obtain k r where y: "y = (k, r)" by force
  let ?v = "if P (k, r) then f r else r"
  have "dict_ok ((xs @ [(k, ?v)]) @ ys)" using Cons.prems y by simp
  from Cons.IH [OF this] show ?case using Cons.prems y by (cases "P (k, r)") (simp_all add: dput_middle)
qed simp

lemma fold_instances:
  "fold (\<lambda>(k, r) db. db\<lparr>cb_instances := dput k (f r) (cb_instances db)\<rparr>) xs db =
   db\<lparr>cb_instances := fold (\<lambda>(k, r) d. dput k (f r) d) xs (cb_instances db)\<rparr>"
  by (induction xs arbitrary: db) auto

definition on_lost_worker :: "worker_row \<Rightarrow> int \<times> replica \<Rightarrow> bool" where
  "on_lost_worker w = (\<lambda>(_, r). rp_cluster r = wk_cluster w \<and> wm_matched (match_of w r))"

lemma matched_rows:
  "filter (\<lambda>(_, r, m). wm_matched m) (map (\<lambda>(k, r). (k, r, match_of w r)) (filter (\<lambda>(_, r). rp_cluster r = wk_cluster w) d)) =
   map (\<lambda>(k, r). (k, r, match_of w r)) (filter (on_lost_worker w) d)"
  by (induction d) (auto simp: on_lost_worker_def)

lemma impacted_map:
  assumes "dict_ok (cb_instances db)"
  shows "update_impacted_instance_states_to_unreachable (map (\<lambda>(k, r). (k, r, match_of w r)) (filter (on_lost_worker w) (cb_instances db))) db =
    db\<lparr>cb_instances := map (\<lambda>(k, r). (k, if on_lost_worker w (k, r) then lost w r else r)) (cb_instances db)\<rparr>"
proof -
  have "update_impacted_instance_states_to_unreachable (map (\<lambda>(k, r). (k, r, match_of w r)) (filter (on_lost_worker w) (cb_instances db))) db =
    fold (\<lambda>(k, r) db. db\<lparr>cb_instances := dput k (lost w r) (cb_instances db)\<rparr>) (filter (on_lost_worker w) (cb_instances db)) db"
    unfolding update_impacted_instance_states_to_unreachable_def fold_map
    by (rule fold_cong) (auto simp: lose_instance_lost)
  with fold_dput_filter [of "[]" "cb_instances db"] assms show ?thesis by (simp add: fold_instances)
qed


lemma lost_reconcile:
  assumes "dict_ok (cb_instances db)" and "''state'' \<in> set changed"
    and "\<not> (is_provisioning (w_state w) \<and> w_state w \<noteq> WORKER_DELETING)"
    and "wk_unreachable w \<or> w_state w = WORKER_UNREACHABLE \<or> w_state w = WORKER_NOT_READY"
  shows "worker_reconcile ok UPDATED (Some w) changed db =
    (None, db\<lparr>cb_instances := map (\<lambda>(k, r). (k, if rp_cluster r = wk_cluster w then lost w r else r)) (cb_instances db)\<rparr>)"
proof -
  let ?m = "map (\<lambda>(k, r). (k, r, match_of w r)) (filter (on_lost_worker w) (cb_instances db))"
  have eq: "map (\<lambda>(k, r). (k, if on_lost_worker w (k, r) then lost w r else r)) (cb_instances db) =
      map (\<lambda>(k, r). (k, if rp_cluster r = wk_cluster w then lost w r else r)) (cb_instances db)"
    by (intro map_cong) (auto simp: on_lost_worker_def lost_unmatched)
  show ?thesis
  proof (cases "?m = []")
    case True
    then have "map (\<lambda>(k, r). (k, if on_lost_worker w (k, r) then lost w r else r)) (cb_instances db) = cb_instances db"
      by (intro map_idI) (auto simp: filter_empty_conv)
    then show ?thesis using True assms(2,4) eq
      by (simp add: worker_reconcile_def Let_def matched_rows if_not_P [OF assms(3)] del: map_is_Nil_conv)
  next
    case False
    then show ?thesis using assms(2,4) impacted_map [OF assms(1), of w] eq
      by (simp add: worker_reconcile_def Let_def matched_rows if_not_P [OF assms(3)] del: map_is_Nil_conv)
  qed
qed

section \<open>Properties of lost workers\<close>



section \<open>Properties of the cleaner\<close>

abbreviation put_offline :: "rat \<Rightarrow> int \<Rightarrow> worker_row \<Rightarrow> (string, int \<times> int option) dict \<Rightarrow> (string, int \<times> int option) dict" where
  "put_offline now grace \<equiv> \<lambda>w d. if is_dead now grace w then dput (w_name w) (w_id w, wk_cluster w) d else d"

lemma put_offline_sound:
  "x \<in> set (fold (put_offline now grace) ws d) \<Longrightarrow>
   x \<in> set d \<or> (\<exists>w \<in> set ws. is_dead now grace w \<and> x = (w_name w, w_id w, wk_cluster w))"
proof (induction ws arbitrary: d)
  case (Cons w ws)
  from Cons.prems have "x \<in> set (fold (put_offline now grace) ws (put_offline now grace w d))" by simp
  then have "x \<in> set (put_offline now grace w d) \<or> (\<exists>v \<in> set ws. is_dead now grace v \<and> x = (w_name v, w_id v, wk_cluster v))"
    by (rule Cons.IH)
  moreover have "x \<in> set d \<or> is_dead now grace w \<and> x = (w_name w, w_id w, wk_cluster w)" if "x \<in> set (put_offline now grace w d)"
    using that set_dput_subset [of "w_name w" "(w_id w, wk_cluster w)" d] by (cases "is_dead now grace w") auto
  ultimately show ?case by (metis list.set_intros)
qed simp

lemma put_offline_other: "n \<notin> w_name ` set ws \<Longrightarrow> dget (fold (put_offline now grace) ws d) n = dget d n"
  by (induction ws arbitrary: d) (auto simp: dict_simps)

lemma put_offline_complete:
  "distinct (map w_name ws) \<Longrightarrow> w \<in> set ws \<Longrightarrow> is_dead now grace w \<Longrightarrow>
   dget (fold (put_offline now grace) ws d) (w_name w) = Some (w_id w, wk_cluster w)"
  by (induction ws arbitrary: d) (auto simp: dict_simps put_offline_other)

lemma cleanup_rows_dead:
  "(k, r) \<in> set (cleanup_rows now grace db) \<Longrightarrow>
   (k, r) \<in> set (cb_instances db) \<and> (\<exists>w \<in> set (dvals (cb_workers db)). is_dead now grace w \<and> wm_matched (match_of w r))"
  using put_offline_sound [of _ now grace "dvals (cb_workers db)" "[]"]
  unfolding cleanup_rows_def offline_workers_def
  by (fastforce simp: Let_def list_ex_iff match_of_def split: if_splits)

text \<open>An instance lives in the cluster of every worker it uses.\<close>

definition placed_consistently :: "cluster_db \<Rightarrow> bool" where
  "placed_consistently db \<longleftrightarrow>
     list_all (\<lambda>(_, r). list_all (\<lambda>w. wm_matched (match_of w r) \<longrightarrow> rp_cluster r = wk_cluster w \<and> truthy (wk_cluster w))
       (dvals (cb_workers db))) (cb_instances db)"

lemma dead_rows_cleaned:
  assumes "distinct (map w_name (dvals (cb_workers db)))" and "placed_consistently db"
    and "(k, r) \<in> set (cb_instances db)" and "w \<in> set (dvals (cb_workers db))" and "is_dead now grace w" and "wm_matched (match_of w r)"
  shows "(k, r) \<in> set (cleanup_rows now grace db)"
proof -
  let ?off = "offline_workers now grace db"
  have "dget ?off (w_name w) = Some (w_id w, wk_cluster w)"
    unfolding offline_workers_def by (rule put_offline_complete [OF assms(1,4,5)])
  then have off: "(w_name w, w_id w, wk_cluster w) \<in> set ?off" by (rule dget_mem)
  have c: "rp_cluster r = wk_cluster w" "truthy (wk_cluster w)"
    using assms(2-4,6) unfolding placed_consistently_def list_all_iff by blast+
  then have "rp_cluster r \<in> set (filter truthy (map (\<lambda>(_, _, c). c) ?off))" using off by force
  moreover have "list_ex (\<lambda>(n, wid, _). wm_matched (get_model_instance_worker_match r (Some n) (Some wid))) ?off"
    using off assms(6) unfolding list_ex_iff match_of_def by blast
  ultimately show ?thesis using assms(3) unfolding cleanup_rows_def Let_def by auto
qed

lemma cleanup_cases:
  "cleanup_offline_worker_instances ok now grace db = (Some External, db) \<or>
   cleanup_offline_worker_instances ok now grace db =
     (None, db\<lparr>cb_instances := filter (\<lambda>(k, _). k \<notin> set (map fst (cleanup_rows now grace db))) (cb_instances db)\<rparr>)"
  using batch_delete_cases [of ok "cleanup_rows now grace db" db] unfolding cleanup_offline_worker_instances_def by auto

lemma cleanup_ok:
  "list_all (\<lambda>(k, _). ok k) (cleanup_rows now grace db) \<Longrightarrow>
   cleanup_offline_worker_instances ok now grace db =
     (None, db\<lparr>cb_instances := filter (\<lambda>(k, _). k \<notin> set (map fst (cleanup_rows now grace db))) (cb_instances db)\<rparr>)"
  by (cases "cleanup_rows now grace db = []")
    (simp_all add: cleanup_offline_worker_instances_def batch_delete_def case_prod_unfold)

lemma cleaned_iff:
  assumes "dict_ok (cb_instances db)" and "(k, r) \<in> set (cb_instances db)"
  shows "k \<in> set (map fst (cleanup_rows now grace db)) \<longleftrightarrow> (k, r) \<in> set (cleanup_rows now grace db)"
proof
  assume "k \<in> set (map fst (cleanup_rows now grace db))"
  then obtain r' where r': "(k, r') \<in> set (cleanup_rows now grace db)" by auto
  then have "(k, r') \<in> set (cb_instances db)" by (simp add: cleanup_rows_dead)
  with assms have "r' = r" by (metis eq_key_imp_eq_value)
  with r' show "(k, r) \<in> set (cleanup_rows now grace db)" by simp
qed force

text \<open>the cleaner deletes an instance only for a dead worker: whatever the database accepts, a row
  that disappears uses a worker that is not ready, not in maintenance, and whose last heartbeat is
  missing or older than the grace period.\<close>

theorem cleanup_only_dead:
  assumes "dict_ok (cb_instances db)" and "cleanup_offline_worker_instances ok now grace db = (e, db')"
    and "(k, r) \<in> set (cb_instances db) - set (cb_instances db')"
  shows "\<exists>w \<in> set (dvals (cb_workers db)). wm_matched (match_of w r) \<and>
    w_state w = WORKER_NOT_READY \<and> \<not> in_maintenance w \<and>
    (wk_heartbeat w = None \<or> (\<exists>t. wk_heartbeat w = Some t \<and> py_trunc now - py_trunc t > grace))"
proof -
  have "(k, r) \<in> set (cleanup_rows now grace db)"
    using cleanup_cases [of ok now grace db] assms(2,3) cleaned_iff [OF assms(1)] by (auto simp del: set_map)
  from cleanup_rows_dead [OF this] show ?thesis by (auto simp: is_dead_def is_offline_def split: option.splits)
qed

text \<open>C4: failover. Let instances live in the clusters of their workers, and let a live model have no
  more instances than replicas. When the cleaner runs and then the model is synchronized (deletions
  accepted, drawn names free), both succeed; the model has exactly its replicas again, none of them
  uses a dead worker; every instance that used no dead worker is still there, and every new one is
  pending without a worker, ready for the scheduler.\<close>

theorem failover_restores_replicas:
  assumes "dict_ok (cb_instances db)" and "distinct (map w_name (dvals (cb_workers db)))" and "placed_consistently db"
    and "dget (cb_models db) mid = Some m" and "\<not> rm_deleted m" and "int (length (replicas_of mid db)) \<le> rm_replicas m"
    and "list_all (\<lambda>(k, _). ok k) (cleanup_rows now grace db)"
    and "db1 = snd (cleanup_offline_worker_instances ok now grace db)"
    and "names_fresh env m 0 (nat (rm_replicas m - int (length (replicas_of mid db1)))) db1"
  shows "\<exists>db2. cleanup_offline_worker_instances ok now grace db = (None, db1) \<and> sync_replicas env mid db1 = (None, db2) \<and>
    int (length (replicas_of mid db2)) = rm_replicas m \<and>
    (\<forall>k r w. (k, r) \<in> set (replicas_of mid db2) \<and> w \<in> set (dvals (cb_workers db2)) \<and> is_dead now grace w \<longrightarrow> \<not> wm_matched (match_of w r)) \<and>
    (\<forall>k r. (k, r) \<in> set (replicas_of mid db) \<and> (\<forall>w. w \<in> set (dvals (cb_workers db)) \<and> is_dead now grace w \<longrightarrow> \<not> wm_matched (match_of w r)) \<longrightarrow>
       (k, r) \<in> set (replicas_of mid db2)) \<and>
    (\<forall>k r. (k, r) \<in> set (replicas_of mid db2) - set (replicas_of mid db) \<longrightarrow> rp_state r = PENDING \<and> rp_worker_id r = None)"
proof -
  note clean = cleanup_ok [OF assms(7)]
  let ?gone = "set (map fst (cleanup_rows now grace db))"
  have db1: "db1 = db\<lparr>cb_instances := filter (\<lambda>(k, _). k \<notin> ?gone) (cb_instances db)\<rparr>" using clean assms(8) by simp
  have rows1: "replicas_of mid db1 = filter (\<lambda>(k, _). k \<notin> ?gone) (replicas_of mid db)" unfolding db1 by (rule replicas_of_filter)
  have mem: "(k, r) \<in> set (replicas_of mid db1) \<longleftrightarrow> (k, r) \<in> set (replicas_of mid db) \<and> (k, r) \<notin> set (cleanup_rows now grace db)" for k r
    using cleaned_iff [OF assms(1), of k r] unfolding rows1 by (auto simp: replicas_of_def simp del: set_map)
  have "length (replicas_of mid db1) \<le> length (replicas_of mid db)" unfolding rows1 by simp
  then have le: "int (length (replicas_of mid db1)) \<le> rm_replicas m" using assms(6) by simp
  have m1: "dget (cb_models db1) mid = Some m" using assms(4) db1 by simp
  obtain new where new: "sync_replicas env mid db1 = (None, db1\<lparr>cb_instances := cb_instances db1 @ new\<rparr>)"
    "length new = nat (rm_replicas m - int (length (replicas_of mid db1)))" "\<forall>(i, r) \<in> set new. \<exists>j. r = new_replica env mid m j"
  proof (cases "int (length (replicas_of mid db1)) < rm_replicas m")
    case True
    with create_step [OF m1 assms(5,9)] that show ?thesis by blast
  next
    case False
    with le m1 have "sync_replicas env mid db1 = (None, db1)" by (intro settled_stable) (simp add: settled_def)
    with False that [of "[]"] show ?thesis by simp
  qed
  let ?db2 = "db1\<lparr>cb_instances := cb_instances db1 @ new\<rparr>"
  have rows2: "replicas_of mid ?db2 = replicas_of mid db1 @ new"
    unfolding replicas_of_append filter_new_replicas [OF new(3)] by simp
  have fresh: "\<not> wm_matched (match_of w r) \<and> rp_state r = PENDING \<and> rp_worker_id r = None" if "(k, r) \<in> set new" for k r w
    using new(3) that by (auto simp: matched_iff main_on_def on_worker_def new_replica_def)
  have alive: "\<not> wm_matched (match_of w r)" if "(k, r) \<in> set (replicas_of mid ?db2)" "w \<in> set (dvals (cb_workers db))" "is_dead now grace w" for k r w
    using that fresh dead_rows_cleaned [OF assms(2,3) _ that(2,3), of k r] mem unfolding rows2 by (auto simp: replicas_of_def)
  have kept: "(k, r) \<in> set (replicas_of mid ?db2)"
    if "(k, r) \<in> set (replicas_of mid db)" "\<forall>w. w \<in> set (dvals (cb_workers db)) \<and> is_dead now grace w \<longrightarrow> \<not> wm_matched (match_of w r)" for k r
    using that cleanup_rows_dead mem unfolding rows2 by (metis Un_iff set_append)
  have "cb_workers ?db2 = cb_workers db" using db1 by simp
  moreover have "int (length (replicas_of mid ?db2)) = rm_replicas m" using new(2) le unfolding rows2 by simp
  moreover have "rp_state r = PENDING \<and> rp_worker_id r = None" if "(k, r) \<in> set (replicas_of mid ?db2) - set (replicas_of mid db)" for k r
    using that mem fresh unfolding rows2 by auto
  ultimately show ?thesis using clean db1 new(1) alive kept by (intro exI [of _ ?db2]) (simp only:, blast)
qed


section \<open>Properties of worker states\<close>

lemma py_trunc_of_int [simp]: "py_trunc (of_int z) = z"
  by (simp add: py_trunc_def)

lemma compute_state_health:
  assumes "\<not> in_maintenance w" and "\<not> is_provisioning (w_state w)" and "\<not> (w_state w = WORKER_NOT_READY \<and> wk_message w \<noteq> None)"
  shows "compute_state now grace w =
    (if fst (is_offline now grace (wk_heartbeat w))
     then w\<lparr>w_state := WORKER_NOT_READY, wk_message := Some (HeartbeatLost (snd (is_offline now grace (wk_heartbeat w))))\<rparr>
     else if wk_unreachable w then w\<lparr>w_state := WORKER_UNREACHABLE, wk_message := Some CannotAccessHealthz\<rparr>
     else w\<lparr>w_state := WORKER_READY, wk_message := None\<rparr>)"
  unfolding compute_state_def if_not_P [OF assms(1)] if_not_P [OF assms(2)] if_not_P [OF assms(3)] case_prod_unfold ..

lemma compute_state_same:
  assumes "\<not> in_maintenance w" and "is_provisioning (w_state w) \<or> w_state w = WORKER_NOT_READY \<and> wk_message w \<noteq> None"
  shows "compute_state now grace w = w"
  unfolding compute_state_def if_not_P [OF assms(1)] using assms(2)
  by (cases "is_provisioning (w_state w)") (simp_all only: if_True if_False simp_thms)

lemma compute_state_idem: "compute_state now grace (compute_state now grace w) = compute_state now grace w"
proof (cases "in_maintenance w \<or> is_provisioning (w_state w) \<or> w_state w = WORKER_NOT_READY \<and> wk_message w \<noteq> None")
  case True
  show ?thesis
  proof (cases "in_maintenance w")
    case maint: True
    then show ?thesis by (simp add: compute_state_def in_maintenance_def)
  next
    case False
    with True have "compute_state now grace w = w" by (intro compute_state_same) simp_all
    then show ?thesis by simp
  qed
next
  case False
  then have "compute_state now grace w =
    (if fst (is_offline now grace (wk_heartbeat w))
     then w\<lparr>w_state := WORKER_NOT_READY, wk_message := Some (HeartbeatLost (snd (is_offline now grace (wk_heartbeat w))))\<rparr>
     else if wk_unreachable w then w\<lparr>w_state := WORKER_UNREACHABLE, wk_message := Some CannotAccessHealthz\<rparr>
     else w\<lparr>w_state := WORKER_READY, wk_message := None\<rparr>)" (is "_ = ?w") by (intro compute_state_health) simp_all
  moreover have "compute_state now grace ?w = ?w"
  proof (cases "fst (is_offline now grace (wk_heartbeat w))")
    case True
    with False show ?thesis by (simp add: compute_state_same in_maintenance_def)
  next
    case fresh: False
    with False show ?thesis
      by (cases "wk_unreachable w") (simp_all add: compute_state_health in_maintenance_def is_provisioning_def)
  qed
  ultimately show ?thesis by simp
qed

text \<open>A worker in a provisioning state keeps it unless it is put into maintenance.\<close>

lemma provisioning_kept:
  "is_provisioning (w_state w) \<Longrightarrow> \<not> in_maintenance w \<Longrightarrow> compute_state now grace w = w"
  by (simp add: compute_state_def)

text \<open>Maintenance overwrites a provisioning state, and ending it leads to a health state.\<close>

lemma maintenance_ends_provisioning:
  assumes "in_maintenance w" and "w' = compute_state now grace w"
  shows "w_state (compute_state now grace (w'\<lparr>wk_maintenance := None\<rparr>)) \<in> {WORKER_READY, WORKER_NOT_READY, WORKER_UNREACHABLE}"
proof -
  have "w_state (w'\<lparr>wk_maintenance := None\<rparr>) = WORKER_MAINTENANCE" using assms by (simp add: compute_state_def)
  then have "compute_state now grace (w'\<lparr>wk_maintenance := None\<rparr>) =
      (let v = w'\<lparr>wk_maintenance := None\<rparr> in
       if fst (is_offline now grace (wk_heartbeat v))
       then v\<lparr>w_state := WORKER_NOT_READY, wk_message := Some (HeartbeatLost (snd (is_offline now grace (wk_heartbeat v))))\<rparr>
       else if wk_unreachable v then v\<lparr>w_state := WORKER_UNREACHABLE, wk_message := Some CannotAccessHealthz\<rparr>
       else v\<lparr>w_state := WORKER_READY, wk_message := None\<rparr>)"
    unfolding Let_def by (intro compute_state_health) (simp_all add: in_maintenance_def is_provisioning_def)
  then show ?thesis by (simp add: Let_def)
qed

text \<open>Heartbeats alone do not bring back a worker that was marked for a lost heartbeat.\<close>

lemma heartbeat_alone_sticky:
  assumes "w_state w = WORKER_NOT_READY" and "wk_message w \<noteq> None" and "\<not> in_maintenance w"
  shows "compute_state now grace (w\<lparr>wk_heartbeat := Some t\<rparr>) = w\<lparr>wk_heartbeat := Some t\<rparr>"
  using assms by (simp add: compute_state_def in_maintenance_def is_provisioning_def)

text \<open>What the collector reports as a failure is dropped for a worker that was ready.\<close>

lemma reported_failure_dropped:
  assumes "w_state w = WORKER_READY" and "\<not> in_maintenance w" and "\<not> wk_unreachable w" and "py_trunc now - py_trunc (rt_time rep) \<le> grace"
  shows "w_state (compute_state now grace (apply_report rep w)) = WORKER_READY \<and>
    wk_message (compute_state now grace (apply_report rep w)) = None"
  using assms by (simp add: compute_state_def apply_report_def in_maintenance_def is_provisioning_def is_offline_def)

lemma dget_map_rows: "dget (map (\<lambda>(k, w). (k, f k w)) d) k = map_option (f k) (dget d k)"
  by (induction d) auto

text \<open>a report brings a worker back. Once a report without a failure is buffered and flushed
  within the heartbeat grace period, a reachable worker outside provisioning and maintenance is ready
  with no message, whatever state and message it had; and as long as that report is not older than a
  grace period, the cleaner does not count the worker as dead.\<close>

theorem report_recovers_worker:
  assumes "dget (cb_workers db) wid = Some w" and "\<not> in_maintenance w" and "\<not> is_provisioning (w_state w)" and "\<not> wk_unreachable w"
    and "py_trunc now - floor t \<le> grace"
  shows "\<exists>w'. dget (cb_workers (flush_worker_status now grace (create_worker_status t st rsv None wid buf) db)) wid = Some w' \<and>
    w_state w' = WORKER_READY \<and> wk_message w' = None \<and> w_status w' = st \<and>
    (\<forall>later period st'. py_trunc later - floor t \<le> period \<longrightarrow> \<not> is_dead later period (w'\<lparr>w_state := st'\<rparr>))"
proof -
  have ne: "create_worker_status t st rsv None wid buf \<noteq> []"
    using keys_dput [of wid _ buf] by (auto simp: create_worker_status_def dest: arg_cong [where f = set])
  show ?thesis using assms ne
    by (simp add: flush_worker_status_def dget_map_rows create_worker_status_def dict_simps apply_report_def
        compute_state_def in_maintenance_def is_offline_def is_dead_def is_provisioning_def)
qed

section \<open>Witnesses on sample data\<close>

text \<open>A cluster whose first worker was lost: one instance on it, one on another worker.\<close>

definition sample_lost :: cluster_db where
  "sample_lost = (sample_cluster 2)\<lparr>cb_instances := [(1, sample_row ''a'' RUNNING 1 ''w1''), (2, sample_row ''b'' RUNNING 2 ''w2'')],
     cb_workers := [(1, sample_worker_row 1 ''w1'' WORKER_NOT_READY 0), (2, sample_worker_row 2 ''w2'' WORKER_READY 900)]\<rparr>"

lemma sample_lost_ok:
  "dict_ok (cb_instances sample_lost)" "distinct (map w_name (dvals (cb_workers sample_lost)))" "placed_consistently sample_lost"
  "dget (cb_models sample_lost) 1 = Some (sample_replica_model 2)" "\<not> rm_deleted (sample_replica_model 2)"
  "int (length (replicas_of 1 sample_lost)) \<le> rm_replicas (sample_replica_model 2)"
  "list_all (\<lambda>(k, _). True) (cleanup_rows 1000 300 sample_lost)"
  by code_simp+

lemma sample_lost_fresh:
  "names_fresh sample_replica_env (sample_replica_model 2) 0 (nat (rm_replicas (sample_replica_model 2) -
     int (length (replicas_of 1 (snd (cleanup_offline_worker_instances (\<lambda>_. True) 1000 300 sample_lost))))))
     (snd (cleanup_offline_worker_instances (\<lambda>_. True) 1000 300 sample_lost))"
  by code_simp

theorem failover_restores_replicas_witness:
  "map fst (cleanup_rows 1000 300 sample_lost) = [1] \<and>
   length (replicas_of 1 (snd (sync_replicas sample_replica_env 1 (snd (cleanup_offline_worker_instances (\<lambda>_. True) 1000 300 sample_lost))))) = 2"
proof -
  have "map fst (cleanup_rows 1000 300 sample_lost) = [1]" by code_simp
  with failover_restores_replicas [OF sample_lost_ok refl sample_lost_fresh] show ?thesis by (auto simp: sample_replica_model_def)
qed

theorem cleanup_only_dead_witness:
  "w_state (sample_worker_row 1 ''w1'' WORKER_NOT_READY 0) = WORKER_NOT_READY \<and>
   (\<exists>w. wm_matched (match_of w (sample_row ''a'' RUNNING 1 ''w1'')) \<and> w_state w = WORKER_NOT_READY)"
proof -
  have c: "cleanup_offline_worker_instances (\<lambda>_. True) 1000 300 sample_lost =
      (None, sample_lost\<lparr>cb_instances := [(2, sample_row ''b'' RUNNING 2 ''w2'')]\<rparr>)" by code_simp
  have "(1, sample_row ''a'' RUNNING 1 ''w1'') \<in> set (cb_instances sample_lost) -
      set (cb_instances (sample_lost\<lparr>cb_instances := [(2, sample_row ''b'' RUNNING 2 ''w2'')]\<rparr>))" by (simp add: sample_lost_def)
  from cleanup_only_dead [OF sample_lost_ok(1) c this] show ?thesis by (auto simp: sample_worker_row_def)
qed


theorem report_recovers_worker_witness:
  "w_state (sample_worker_row 1 ''w1'' WORKER_NOT_READY 0) = WORKER_NOT_READY \<and>
   (\<exists>w'. dget (cb_workers (flush_worker_status 1001 150 (create_worker_status 1000 None None None 1 []) sample_lost)) 1 = Some w' \<and>
      w_state w' = WORKER_READY)"
proof -
  have "dget (cb_workers sample_lost) 1 = Some (sample_worker_row 1 ''w1'' WORKER_NOT_READY 0)" by (simp add: sample_lost_def)
  moreover have "\<not> in_maintenance (sample_worker_row 1 ''w1'' WORKER_NOT_READY 0)" "\<not> is_provisioning (w_state (sample_worker_row 1 ''w1'' WORKER_NOT_READY 0))"
    "\<not> wk_unreachable (sample_worker_row 1 ''w1'' WORKER_NOT_READY 0)" "py_trunc 1001 - floor (1000 :: rat) \<le> 150"
    by (simp_all add: sample_worker_row_def in_maintenance_def is_provisioning_def py_trunc_def)
  ultimately show ?thesis using report_recovers_worker by (fastforce simp: sample_worker_row_def)
qed

end
