(* ===== verification/Traffic.thy ===== *)
theory Traffic
  imports ModelFiles
begin

text \<open>
  Traffic of a model route, \<^verbatim>\<open>src/gpustack/server/controllers.py\<close> and \<^verbatim>\<open>gateway/utils.py\<close>: the
  registries that stand for instances, workers, clusters and providers in the gateway, the shares of
  targets by the largest-remainder method, and the destinations of a route with its proxy groups.
  Parsing of addresses, the digest of adapter names and the parsed address of a provider are parameters.
\<close>

section \<open>Rows\<close>

datatype proxy_mode = PROXY_WORKER | PROXY_DIRECT | PROXY_DELEGATED | PROXY_TUNNEL

record registry =
  rg_domain :: string
  rg_port :: int
  rg_name :: string
  rg_protocol :: string
  rg_type :: string
  rg_proxy :: "string option"

record served_instance =
  se_model_id :: int
  se_model_name :: string
  se_state :: instance_state
  se_worker_id :: "int option"
  se_advertise :: "string option"
  se_ip :: "string option"
  se_port :: "int option"

record gateway_worker =
  gw_cluster :: "int option"
  gw_deleted :: bool
  gw_mode :: "proxy_mode option"
  gw_advertise :: "string option"
  gw_ip :: "string option"
  gw_port :: "int option"
  gw_proxy :: "string option"

text \<open>\<open>gc_own\<close>: the cluster has a system principal that exists and is not the default one.\<close>

record gateway_cluster =
  gc_own :: bool
  gc_endpoint :: "string option"
  gc_reported :: "string option"
  gc_token :: "string option"

record route_model =
  rt_name :: string
  rt_cluster :: "int option"
  rt_native :: bool

record route_target =
  tg_route :: int
  tg_active :: bool
  tg_weight :: int
  tg_model :: "int option"
  tg_provider :: "int option"
  tg_override :: "string option"
  tg_fallback :: "string list option"

record gateway_db =
  gd_targets :: "route_target list"
  gd_models :: "(int, route_model) dict"
  gd_instances :: "(int, served_instance) dict"
  gd_workers :: "(int, gateway_worker) dict"
  gd_clusters :: "(int, gateway_cluster) dict"
  gd_providers :: "(int, registry option) dict"

text \<open>A parsed address: scheme, host and port.\<close>

record gateway_env =
  ge_is_ip :: "string \<Rightarrow> bool"
  ge_url :: "string \<Rightarrow> string \<times> string \<times> int option"
  ge_digest :: "string \<Rightarrow> string"

type_synonym destination = "nat \<times> string option \<times> registry option"

section \<open>Names and registries\<close>

definition int_text :: "int \<Rightarrow> string" where
  "int_text n = (if n < 0 then CHR ''-'' # nat_str (nat (- n)) else nat_str (nat n))"

definition model_prefix :: "int \<Rightarrow> string" where
  "model_prefix mid = ''model-'' @ int_text mid @ ''-''"

definition model_instance_prefix :: "int \<Rightarrow> served_instance \<Rightarrow> string" where
  "model_instance_prefix k i = model_prefix (se_model_id i) @ int_text k"

definition lora_registry_name_suffix :: "gateway_env \<Rightarrow> string \<Rightarrow> string" where
  "lora_registry_name_suffix env name = CHR ''l'' # take 8 (ge_digest env name)"

definition get_service_name :: "registry \<Rightarrow> string" where
  "get_service_name r = rg_name r @ ''.'' @ rg_type r"

definition get_service_name_with_port :: "registry \<Rightarrow> string" where
  "get_service_name_with_port r = get_service_name r @ '':'' @ int_text (if rg_port r \<noteq> 0 then rg_port r else 80)"

text \<open>An address and a port: an address literal is registered with its port, a name without.\<close>

definition address_registry :: "gateway_env \<Rightarrow> string option \<Rightarrow> int option \<Rightarrow> string \<Rightarrow> registry option" where
  "address_registry env addr port name =
     (if blank addr \<or> port = None then None
      else if ge_is_ip env (the addr)
        then Some \<lparr>rg_domain = the addr @ '':'' @ int_text (the port), rg_port = 80, rg_name = name,
                   rg_protocol = ''http'', rg_type = ''static'', rg_proxy = None\<rparr>
      else Some \<lparr>rg_domain = the addr, rg_port = the port, rg_name = name, rg_protocol = ''http'', rg_type = ''dns'', rg_proxy = None\<rparr>)"

definition worker_reserve_proxy_registry :: "gateway_env \<Rightarrow> gateway_worker \<Rightarrow> string \<Rightarrow> registry option" where
  "worker_reserve_proxy_registry env w name = address_registry env (or_text (gw_advertise w) (gw_ip w)) (gw_port w) name"

definition get_proxy_address :: "gateway_worker \<Rightarrow> string option" where
  "get_proxy_address w = (if gw_mode w \<noteq> Some PROXY_TUNNEL then None else gw_proxy w)"

definition worker_tunnel_proxy_registry :: "gateway_env \<Rightarrow> gateway_worker \<Rightarrow> string \<Rightarrow> registry option" where
  "worker_tunnel_proxy_registry env w name =
     (case get_proxy_address w of
        None \<Rightarrow> None
      | Some a \<Rightarrow>
          let (scheme, host, port) = ge_url env a;
              protocol = (if scheme = ''http'' then ''http'' else ''https'');
              p = (if truthy port then the port else if protocol = ''http'' then 80 else 443)
          in Some \<lparr>rg_domain = host @ '':'' @ int_text p, rg_port = 80, rg_name = name, rg_protocol = protocol,
                   rg_type = ''static'', rg_proxy = None\<rparr>)"

definition model_instance_registry ::
  "gateway_env \<Rightarrow> int \<Rightarrow> served_instance \<Rightarrow> gateway_worker option \<Rightarrow> string option \<Rightarrow> registry option" where
  "model_instance_registry env k i w suffix =
     (let name = model_instance_prefix k i @ (if blank suffix then [] else ''-'' @ the suffix)
      in case Option.bind w gw_mode of
           Some PROXY_WORKER \<Rightarrow> worker_reserve_proxy_registry env (the w) name
         | Some PROXY_TUNNEL \<Rightarrow> worker_tunnel_proxy_registry env (the w) name
         | _ \<Rightarrow> address_registry env (or_text (se_advertise i) (se_ip i)) (se_port i) name)"

definition cluster_registry :: "gateway_cluster \<Rightarrow> registry option" where
  "cluster_registry c =
     (if gc_endpoint c = None \<and> gc_reported c = None then None
      else Some \<lparr>rg_domain = (case or_text (gc_endpoint c) (gc_reported c) of None \<Rightarrow> [] | Some d \<Rightarrow> d), rg_port = 80,
                 rg_name = ''cluster-gateway'', rg_protocol = ''http'', rg_type = ''static'', rg_proxy = None\<rparr>)"

definition get_cluster_registry :: "gateway_db \<Rightarrow> int option \<Rightarrow> registry option" where
  "get_cluster_registry db cid =
     (case Option.bind cid (dget (gd_clusters db)) of
        None \<Rightarrow> None
      | Some c \<Rightarrow> if \<not> gc_own c then None else cluster_registry c)"

section \<open>Shares\<close>

definition scale_weight :: "(int \<times> nat) list \<Rightarrow> (int \<times> nat) list" where
  "scale_weight pairs =
     (let counts = filter (\<lambda>c. c > 0) (map snd pairs)
      in if counts = [] then pairs
         else let lcm_count = foldr lcm counts 1
              in map (\<lambda>(w, c). (if c > 0 then w * int lcm_count div int c else 0, c)) pairs)"

definition spread_weights :: "(int \<times> nat) list \<Rightarrow> int list" where
  "spread_weights pairs = concat (map (\<lambda>(w, c). replicate c w) pairs)"

text \<open>The seats left over go to the largest remainders, in a stable order; indexing past the end raises.\<close>

definition largest_remainder :: "int list \<Rightarrow> py_error + int list" where
  "largest_remainder ws =
     (let total_weight = sum_list ws
      in if total_weight = 0 then Inr []
         else let exact_quota = map (\<lambda>w. of_int w * 100 / of_int total_weight :: rat) ws;
                  floor_quota = map py_trunc exact_quota;
                  remainder = map2 (\<lambda>e f. e - of_int f) exact_quota floor_quota;
                  seats = nat (100 - sum_list floor_quota);
                  order = sort_key (\<lambda>i. - (remainder ! i)) [0..<length ws]
              in if seats > length ws then Inl IndexError
                 else Inr (map (\<lambda>i. floor_quota ! i + (if i \<in> set (take seats order) then 1 else 0)) [0..<length ws]))"

definition hamilton_calculate_weight :: "(int \<times> nat) list \<Rightarrow> int \<Rightarrow> py_error + int list" where
  "hamilton_calculate_weight pairs max_weight =
     largest_remainder (map (\<lambda>w. max w max_weight) (spread_weights (scale_weight pairs)))"

fun flatten_part :: "int list \<Rightarrow> nat \<Rightarrow> destination list \<Rightarrow> (int \<times> string option \<times> registry option) list \<times> nat" where
  "flatten_part ps index [] = ([], index)"
| "flatten_part ps index ((c, name, reg) # r) =
     (let total = sum_list (take c (drop index ps));
          (out, index') = flatten_part ps (index + c) r
      in (if total \<noteq> 0 then (total, name, reg) # out else out, index'))"

fun flatten_parts :: "int list \<Rightarrow> nat \<Rightarrow> destination list list \<Rightarrow> (int \<times> string option \<times> registry option) list" where
  "flatten_parts ps index [] = []"
| "flatten_parts ps index (p # r) = (let (out, index') = flatten_part ps index p in out @ flatten_parts ps index' r)"

definition flatten_destinations ::
  "(int \<times> nat \<times> destination list) list \<Rightarrow> int \<Rightarrow> py_error + (int \<times> string option \<times> registry option) list" where
  "flatten_destinations wtc max_weight =
     bind_err (hamilton_calculate_weight (map (\<lambda>(w, c, _). (w, c)) wtc) max_weight) (\<lambda>ps.
       Inr (flatten_parts ps 0 (map (\<lambda>(_, _, l). l) wtc)))"

section \<open>Destinations of a route\<close>

definition model_instances_registry_list ::
  "gateway_env \<Rightarrow> (int \<times> served_instance) list \<Rightarrow> (int, gateway_worker) dict \<Rightarrow> string option \<Rightarrow> string option \<Rightarrow> destination list" where
  "model_instances_registry_list env insts workers downstream suffix =
     concat (map (\<lambda>(k, i).
       case model_instance_registry env k i (if truthy (se_worker_id i) then dget workers (the (se_worker_id i)) else None) suffix of
         None \<Rightarrow> []
       | Some r \<Rightarrow> [(1, or_text downstream (Some (se_model_name i)), Some r)]) insts)"

definition calculate_model_destinations :: "gateway_env \<Rightarrow> gateway_db \<Rightarrow> int \<Rightarrow> route_model \<Rightarrow> string option \<Rightarrow> destination list" where
  "calculate_model_destinations env db mid m override =
     (let downstream = or_text override (Some (rt_name m));
          suffix = (case override of
                      Some n \<Rightarrow> if CHR '':'' \<in> set n then Some (lora_registry_name_suffix env n) else None
                    | None \<Rightarrow> None)
      in case get_cluster_registry db (rt_cluster m) of
           Some r \<Rightarrow> [(1, downstream, Some r)]
         | None \<Rightarrow>
             let insts = filter (\<lambda>(_, i). se_model_id i = mid \<and> \<not> blank (se_ip i) \<and> se_port i \<noteq> None \<and> se_state i = RUNNING) (gd_instances db);
                 workers = filter (\<lambda>(k, w). gw_cluster w = rt_cluster m \<and> \<not> gw_deleted w \<and> Some k \<in> set (map (\<lambda>(_, i). se_worker_id i) insts)) (gd_workers db)
             in model_instances_registry_list env insts workers downstream suffix)"

definition provider_destinations :: "gateway_db \<Rightarrow> int \<Rightarrow> string option \<Rightarrow> destination list" where
  "provider_destinations db pid name =
     (case dget (gd_providers db) pid of None \<Rightarrow> [] | Some reg \<Rightarrow> [(1, name, reg)])"

definition is_fallback_target :: "route_target \<Rightarrow> bool" where
  "is_fallback_target t \<longleftrightarrow> (case tg_fallback t of None \<Rightarrow> False | Some cs \<Rightarrow> length cs > 0)"

text \<open>\<open>None\<close>: the target's model is gone.\<close>

definition target_destinations :: "gateway_env \<Rightarrow> gateway_db \<Rightarrow> route_target \<Rightarrow> destination list" where
  "target_destinations env db t =
     (case tg_model t of
        Some mid \<Rightarrow> (case dget (gd_models db) mid of
                       None \<Rightarrow> []
                     | Some m \<Rightarrow> calculate_model_destinations env db mid m (tg_override t))
      | None \<Rightarrow> (case tg_provider t of
                   Some pid \<Rightarrow> provider_destinations db pid (tg_override t)
                 | None \<Rightarrow> []))"

record proxy_group =
  pg_tokens :: "string list"
  pg_native :: bool
  pg_services :: "string set"
  pg_fallback :: "string set"

definition cluster_registration_tokens :: "gateway_db \<Rightarrow> int option \<Rightarrow> string list" where
  "cluster_registration_tokens db cid =
     (case Option.bind cid (dget (gd_clusters db)) of
        None \<Rightarrow> []
      | Some c \<Rightarrow> if blank (gc_token c) then [] else [the (gc_token c)])"

definition accumulate_model_ai_proxy_group ::
  "gateway_db \<Rightarrow> int \<Rightarrow> route_model \<Rightarrow> destination list \<Rightarrow> bool \<Rightarrow> (int, proxy_group) dict \<Rightarrow> (int, proxy_group) dict" where
  "accumulate_model_ai_proxy_group db mid m dests fb groups =
     (let g = (case dget groups mid of
                 Some g \<Rightarrow> g
               | None \<Rightarrow> \<lparr>pg_tokens = cluster_registration_tokens db (rt_cluster m), pg_native = rt_native m, pg_services = {}, pg_fallback = {}\<rparr>);
          names = (\<lambda>(_, _, r). get_service_name (the r)) ` set dests
      in dput mid (g\<lparr>pg_services := pg_services g \<union> names, pg_fallback := (if fb then pg_fallback g \<union> names else pg_fallback g)\<rparr>) groups)"

record route_plan =
  pl_weights :: "(int \<times> nat \<times> destination list) list"
  pl_fallback :: "(int \<times> nat \<times> destination list) list"
  pl_groups :: "(int, proxy_group) dict"

definition add_target :: "gateway_env \<Rightarrow> gateway_db \<Rightarrow> route_target \<Rightarrow> route_plan \<Rightarrow> route_plan" where
  "add_target env db t p =
     (let dests = target_destinations env db t; fb = is_fallback_target t
      in if \<not> tg_active t \<or> dests = [] then p
         else let grp = (case tg_model t of
                           None \<Rightarrow> pl_groups p
                         | Some mid \<Rightarrow> accumulate_model_ai_proxy_group db mid (the (dget (gd_models db) mid)) dests fb (pl_groups p));
                  row = (tg_weight t, sum_list (map fst dests), dests)
              in \<lparr>pl_weights = pl_weights p @ [row], pl_fallback = (if fb then pl_fallback p @ [row] else pl_fallback p), pl_groups = grp\<rparr>)"

definition route_targets :: "gateway_db \<Rightarrow> int \<Rightarrow> route_target list" where
  "route_targets db rid = filter (\<lambda>t. tg_route t = rid) (gd_targets db)"

definition calculate_destinations ::
  "gateway_env \<Rightarrow> gateway_db \<Rightarrow> int \<Rightarrow>
   py_error + (int \<times> string option \<times> registry option) list \<times> (int \<times> string option \<times> registry option) list \<times> (int, proxy_group) dict" where
  "calculate_destinations env db rid =
     (let p = fold (add_target env db) (route_targets db rid) \<lparr>pl_weights = [], pl_fallback = [], pl_groups = []\<rparr>
      in if pl_weights p = [] then Inr ([], [], [])
         else bind_err (flatten_destinations (pl_weights p) 0) (\<lambda>main.
              bind_err (if pl_fallback p \<noteq> [] then flatten_destinations (pl_fallback p) 1 else Inr []) (\<lambda>fallback.
              Inr (main, fallback, pl_groups p))))"

section \<open>Lemmas on shares\<close>

lemma py_trunc_floor: "0 \<le> q \<Longrightarrow> py_trunc q = floor q"
  by (simp add: py_trunc_def)

lemma insort_key_same: "\<forall>y \<in> insert x (set ys). f y = g y \<Longrightarrow> insort_key f x ys = insort_key g x ys"
  by (induction ys) auto

lemma sort_key_same: "\<forall>x \<in> set xs. f x = g x \<Longrightarrow> sort_key f xs = sort_key g xs"
  by (induction xs) (simp_all add: insort_key_same)

text \<open>In an order by descending key, the first \<open>k\<close> entries have positive keys when at least \<open>k\<close> entries do.\<close>

lemma top_positive:
  fixes key :: "nat \<Rightarrow> rat"
  assumes "k \<le> card {i. i < n \<and> 0 < key i}" and "i \<in> set (take k (sort_key (\<lambda>i. - key i) [0..<n]))"
  shows "0 < key i"
proof (rule ccontr)
  assume z: "\<not> 0 < key i"
  let ?o = "sort_key (\<lambda>i. - key i) [0..<n]"
  obtain p where p: "p < k" "p < n" "?o ! p = i" using assms(2) by (auto simp: in_set_conv_nth)
  have "{i. i < n \<and> 0 < key i} \<subseteq> (\<lambda>q. ?o ! q) ` {..<p}"
  proof
    fix j assume j: "j \<in> {i. i < n \<and> 0 < key i}"
    then have "j \<in> set ?o" by simp
    then obtain q where "q < length ?o" "?o ! q = j" unfolding in_set_conv_nth by blast
    then have q: "q < n" "?o ! q = j" by simp_all
    have "q < p"
    proof (rule ccontr)
      assume "\<not> q < p"
      then have "- key (?o ! p) \<le> - key (?o ! q)"
        using sorted_nth_mono [OF sorted_sort_key [of "\<lambda>i. - key i" "[0..<n]"], of p q] q(1) by simp
      then show False using z p(3) q(2) j by simp
    qed
    then show "j \<in> (\<lambda>q. ?o ! q) ` {..<p}" using q(2) by auto
  qed
  then have "card {i. i < n \<and> 0 < key i} \<le> card ((\<lambda>q. ?o ! q) ` {..<p})" by (intro card_mono) simp_all
  also have "\<dots> \<le> p" using card_image_le [of "{..<p}" "\<lambda>q. ?o ! q"] by simp
  finally have "card {i. i < n \<and> 0 < key i} \<le> p" .
  with assms(1) p(1) show False by simp
qed

lemma sum_list_upt: "sum_list (map f [0..<n]) = (\<Sum>i<n. f i)"
  by (simp add: interv_sum_list_conv_sum_set_nat lessThan_atLeast0)

lemma sum_list_nth: "sum_list (map f xs) = (\<Sum>i<length xs. f (xs ! i))"
  by (simp add: sum_list_sum_nth lessThan_atLeast0)

text \<open>The largest-remainder method: the shares are whole, add up to 100, and each is next to its exact quota.\<close>

lemma largest_remainder_fair:
  assumes nn: "list_all (\<lambda>w. 0 \<le> w) ws" and pos: "0 < sum_list ws"
  shows "\<exists>ps. largest_remainder ws = Inr ps \<and> length ps = length ws \<and> sum_list ps = 100 \<and>
    (\<forall>i < length ws. 0 \<le> ps ! i \<and> \<bar>of_int (ps ! i) - of_int (ws ! i) * 100 / of_int (sum_list ws) :: rat\<bar> < 1)"
proof -
  let ?n = "length ws"
  define e where "e = (\<lambda>i. of_int (ws ! i) * 100 / of_int (sum_list ws) :: rat)"
  define f where "f = (\<lambda>i. floor (e i))"
  define d where "d = (\<lambda>i. e i - of_int (f i))"
  have e0: "0 \<le> e i" if "i < ?n" for i using that nn pos by (simp add: e_def list_all_length)
  have d01: "0 \<le> d i" "d i < 1" for i by (simp_all add: d_def f_def) linarith
  have "(\<Sum>i<?n. e i) = (\<Sum>i<?n. of_int (ws ! i)) * 100 / of_int (sum_list ws)"
    by (simp add: e_def sum_divide_distrib sum_distrib_right)
  also have "(\<Sum>i<?n. of_int (ws ! i)) = (of_int (sum_list ws) :: rat)" using sum_list_nth [of id ws] by simp
  finally have e100: "(\<Sum>i<?n. e i) = 100" using pos by simp
  define R where "R = 100 - (\<Sum>i<?n. f i)"
  have Rd: "of_int R = (\<Sum>i<?n. d i)" using e100 by (simp add: R_def d_def sum_subtractf)
  have R0: "0 \<le> R" using Rd d01(1) by (metis of_int_0_le_iff sum_nonneg)
  let ?P = "{i. i < ?n \<and> 0 < d i}"
  have "(\<Sum>i<?n. d i) \<le> (\<Sum>i<?n. if 0 < d i then 1 else 0)"
    using d01 by (intro sum_mono) (auto simp: less_imp_le intro: order.antisym [THEN eq_refl])
  also have "\<dots> = of_nat (card ?P)" by (simp add: sum.If_cases Collect_conj_eq lessThan_def)
  finally have "of_int R \<le> (of_nat (card ?P) :: rat)" using Rd by simp
  then have RP: "nat R \<le> card ?P" using R0 by (metis nat_le_iff of_int_le_iff of_int_of_nat_eq)
  have "card ?P \<le> ?n" using card_mono [of "{..<?n}" ?P] by auto
  then have Rn: "nat R \<le> ?n" using RP by simp
  define ord where "ord = sort_key (\<lambda>i. - d i) [0..<?n]"
  have S: "card (set (take (nat R) ord)) = nat R" "set (take (nat R) ord) \<subseteq> {..<?n}"
    using Rn by (auto simp: distinct_card ord_def dest: in_set_takeD)
  have up: "0 < d i" if "i \<in> set (take (nat R) ord)" for i
    using top_positive [OF RP] that unfolding ord_def by simp
  define ps where "ps = map (\<lambda>i. f i + (if i \<in> set (take (nat R) ord) then 1 else 0)) [0..<?n]"
  have lr: "largest_remainder ws = Inr ps"
  proof -
    let ?E = "map (\<lambda>w. of_int w * 100 / of_int (sum_list ws) :: rat) ws"
    have E: "?E = map e [0..<?n]" by (rule nth_equalityI) (simp_all add: e_def)
    have Fl: "map py_trunc (map e [0..<?n]) = map f [0..<?n]" using e0 by (auto simp: py_trunc_floor f_def)
    have D: "map2 (\<lambda>e f. e - of_int f) (map e [0..<?n]) (map f [0..<?n]) = map d [0..<?n]"
      by (rule nth_equalityI) (simp_all add: d_def)
    have O: "sort_key (\<lambda>i. - (map d [0..<?n] ! i)) [0..<?n] = ord"
      unfolding ord_def by (rule sort_key_same) simp
    have Sm: "nat (100 - sum_list (map f [0..<?n])) = nat R" by (simp add: R_def sum_list_upt)
    show ?thesis unfolding largest_remainder_def Let_def E Fl D O Sm ps_def using pos Rn by simp
  qed
  have "sum_list ps = (\<Sum>i<?n. f i) + int (card (set (take (nat R) ord)))"
    using S(2) by (simp add: ps_def sum_list_upt sum.distrib sum.If_cases Int_absorb1)
  then have "sum_list ps = 100" using S(1) R0 by (simp add: R_def)
  moreover have "0 \<le> ps ! i \<and> \<bar>of_int (ps ! i) - e i\<bar> < 1" if i: "i < ?n" for i
    using e0 [OF i] d01 [of i] up [of i] i by (auto simp: ps_def d_def f_def)
  ultimately show ?thesis using lr by (intro exI [of _ ps]) (simp add: ps_def e_def)
qed


text \<open>The reference: a group's weight, divided evenly over its instances, as a part of the weight of
  all groups that have instances.\<close>

definition live_weight :: "(int \<times> nat) list \<Rightarrow> int" where
  "live_weight pairs = sum_list (map (\<lambda>(w, c). if c > 0 then w else 0) pairs)"

definition exact_shares :: "(int \<times> nat) list \<Rightarrow> rat list" where
  "exact_shares pairs = concat (map (\<lambda>(w, c). replicate c (100 * of_int w / (of_nat c * of_int (live_weight pairs)))) pairs)"

lemma dvd_foldr_lcm: "c \<in> set cs \<Longrightarrow> (c :: nat) dvd foldr lcm cs 1"
  by (induction cs) auto

lemma foldr_lcm_pos: "list_all (\<lambda>c. (0 :: nat) < c) cs \<Longrightarrow> 0 < foldr lcm cs 1"
  by (induction cs) (auto simp: lcm_pos_nat)

lemma map_spread: "map f (spread_weights pairs) = concat (map (\<lambda>(w, c). replicate c (f w)) pairs)"
  by (simp add: spread_weights_def map_concat comp_def case_prod_unfold)

lemma sum_spread: "sum_list (spread_weights pairs) = sum_list (map (\<lambda>(w, c). int c * w) pairs)"
  by (induction pairs) (auto simp: spread_weights_def sum_list_replicate)

lemma scale_weight_eq:
  assumes "0 < live_weight pairs"
  shows "\<exists>L > 0. scale_weight pairs = map (\<lambda>(w, c). (if c > 0 then w * int L div int c else 0, c)) pairs \<and>
    (\<forall>(w, c) \<in> set pairs. c > 0 \<longrightarrow> int c dvd int L)"
proof -
  let ?cs = "filter (\<lambda>c. c > 0) (map snd pairs)"
  have "?cs \<noteq> []"
  proof
    assume "?cs = []"
    then have "live_weight pairs = 0" by (induction pairs) (auto simp: live_weight_def split: if_splits)
    with assms show False by simp
  qed
  moreover have "0 < foldr lcm ?cs 1" by (rule foldr_lcm_pos) (simp add: list_all_iff)
  moreover have "c dvd foldr lcm ?cs 1" if "(w, c) \<in> set pairs" "c > 0" for w c
    using that by (intro dvd_foldr_lcm) force
  ultimately show ?thesis by (intro exI [of _ "foldr lcm ?cs 1"]) (auto simp: scale_weight_def Let_def)
qed

lemma scaled_total:
  assumes "\<forall>(w, c) \<in> set pairs. c > 0 \<longrightarrow> int c dvd int L"
  shows "sum_list (spread_weights (map (\<lambda>(w, c). (if c > 0 then w * int L div int c else 0, c)) pairs)) = int L * live_weight pairs"
  using assms unfolding sum_spread
proof (induction pairs)
  case (Cons p pairs)
  obtain w c where p: "p = (w, c)" by force
  have "int c * (w * int L div int c) = int L * w" if "c > 0"
    using Cons.prems p that by (simp add: dvd_mult algebra_simps)
  with Cons p show ?case by (auto simp: live_weight_def algebra_simps)
qed (simp add: live_weight_def)

lemma scaled_quota:
  assumes "0 < L" and "c > 0" and "int c dvd int L"
  shows "of_int (w * int L div int c) * 100 / of_int (int L * W) = (100 * of_int w / (of_nat c * of_int W) :: rat)"
proof -
  obtain q where "int L = int c * q" using assms(3) by (elim dvdE)
  moreover from this have "q \<noteq> 0" "w * int L div int c = w * q" using assms(1,2) by auto
  ultimately show ?thesis using assms(2) by (simp add: field_simps)
qed

definition near :: "int \<Rightarrow> rat \<Rightarrow> bool" where
  "near p x \<longleftrightarrow> 0 \<le> p \<and> \<bar>of_int p - x\<bar> < 1"

lemma hamilton_shares:
  assumes "list_all (\<lambda>(w, _). 0 \<le> w) pairs" and "0 < live_weight pairs"
  shows "\<exists>ps. hamilton_calculate_weight pairs 0 = Inr ps \<and> sum_list ps = 100 \<and> list_all2 near ps (exact_shares pairs)"
proof -
  obtain L where L: "0 < L" "scale_weight pairs = map (\<lambda>(w, c). (if c > 0 then w * int L div int c else 0, c)) pairs"
    "\<forall>(w, c) \<in> set pairs. c > 0 \<longrightarrow> int c dvd int L" using scale_weight_eq [OF assms(2)] by blast
  let ?ws = "spread_weights (scale_weight pairs)"
  have total: "sum_list ?ws = int L * live_weight pairs" unfolding L(2) by (rule scaled_total [OF L(3)])
  have nn: "list_all (\<lambda>w. 0 \<le> w) ?ws"
    using assms(1) L(1) unfolding L(2) by (auto simp: spread_weights_def list_all_iff pos_imp_zdiv_nonneg_iff)
  then have mx: "map (\<lambda>w. max w 0) ?ws = ?ws" by (auto simp: list_all_iff intro!: map_idI)
  have quota: "map (\<lambda>w. of_int w * 100 / of_int (sum_list ?ws)) ?ws = exact_shares pairs"
  proof -
    have "replicate (snd x) (of_int (fst (case x of (w, c) \<Rightarrow> (if c > 0 then w * int L div int c else 0, c))) * 100 / of_int (int L * live_weight pairs)) =
        (replicate (snd x) (100 * of_int (fst x) / (of_nat (snd x) * of_int (live_weight pairs))) :: rat list)" if "x \<in> set pairs" for x
      using L(3) that scaled_quota [OF L(1), of "snd x" "fst x" "live_weight pairs"] by (cases "snd x = 0") (auto simp: case_prod_unfold)
    then show ?thesis unfolding total unfolding map_spread exact_shares_def L(2) map_map
      by (intro arg_cong [of _ _ concat] map_cong) (auto simp: case_prod_unfold)
  qed
  obtain ps where "largest_remainder ?ws = Inr ps" "length ps = length ?ws" "sum_list ps = 100"
    "\<forall>i < length ?ws. 0 \<le> ps ! i \<and> \<bar>of_int (ps ! i) - of_int (?ws ! i) * 100 / of_int (sum_list ?ws) :: rat\<bar> < 1"
    using largest_remainder_fair [OF nn] assms(2) L(1) total by auto
  then show ?thesis unfolding hamilton_calculate_weight_def mx quota [symmetric]
    by (intro exI [of _ ps]) (simp add: list_all2_conv_all_nth near_def)
qed

text \<open>C36: traffic shares. For targets with weights that are not negative and at least one positive
  weight on a target with instances, \<open>hamilton_calculate_weight\<close> gives one whole percentage per
  instance; they add up to 100, and each differs by less than one from the exact share: the target's
  part of the weight, divided evenly over its instances. In particular no instance of a target of
  weight zero gets traffic.\<close>

theorem traffic_shares_fair:
  assumes "list_all (\<lambda>(w, _). 0 \<le> w) pairs" and "0 < live_weight pairs"
  shows "\<exists>ps. hamilton_calculate_weight pairs 0 = Inr ps \<and> sum_list ps = 100 \<and> list_all2 near ps (exact_shares pairs)"
  by (rule hamilton_shares [OF assms])


section \<open>Lemmas on destinations\<close>

lemma flatten_part_index: "snd (flatten_part ps i l) = i + sum_list (map fst l)"
  by (induction ps i l rule: flatten_part.induct) (auto simp: Let_def case_prod_unfold)

lemma flatten_part_append:
  "i + sum_list (map fst l) \<le> length xs \<Longrightarrow> fst (flatten_part (xs @ ys) i l) = fst (flatten_part xs i l)"
proof (induction xs i l rule: flatten_part.induct)
  case (2 ps index c name reg r)
  then have "take c (drop index (ps @ ys)) = take c (drop index ps)" by simp
  with 2 show ?case by (simp add: Let_def case_prod_unfold)
qed simp

lemma flatten_part_shift: "fst (flatten_part (xs @ ys) (length xs + i) l) = fst (flatten_part ys i l)"
  by (induction l arbitrary: i) (auto simp: Let_def case_prod_unfold add.assoc)

lemma flatten_parts_shift: "flatten_parts (xs @ ys) (length xs + i) ls = flatten_parts ys i ls"
  by (induction ls arbitrary: i) (auto simp: Let_def case_prod_unfold flatten_part_shift flatten_part_index add.assoc)

lemma flatten_parts_Cons:
  assumes "length xs = sum_list (map fst l)"
  shows "flatten_parts (xs @ ys) 0 (l # ls) = fst (flatten_part xs 0 l) @ flatten_parts ys 0 ls"
  using flatten_part_append [of 0 l xs ys] flatten_parts_shift [of xs ys 0 ls] assms
  by (simp add: Let_def case_prod_unfold flatten_part_index)

lemma flatten_part_sum:
  "i + sum_list (map fst l) = length ps \<Longrightarrow> sum_list (map fst (fst (flatten_part ps i l))) = sum_list (drop i ps)"
proof (induction ps i l rule: flatten_part.induct)
  case (2 ps index c name reg r)
  have "sum_list (drop index ps) = sum_list (take c (drop index ps)) + sum_list (drop (index + c) ps)"
    by (metis add.commute append_take_drop_id drop_drop sum_list_append)
  with 2 show ?case by (simp add: Let_def case_prod_unfold)
qed simp

lemma flatten_part_mem:
  "list_all (\<lambda>p. 0 \<le> p) ps \<Longrightarrow> (p, n, r) \<in> set (fst (flatten_part ps i l)) \<Longrightarrow>
   0 < p \<and> (\<exists>c. (c, n, r) \<in> set l) \<and> \<not> list_all (\<lambda>p. p = 0) ps"
proof (induction ps i l rule: flatten_part.induct)
  case (2 ps index c name reg rest)
  let ?t = "sum_list (take c (drop index ps))"
  show ?case
  proof (cases "(p, n, r) \<in> set (fst (flatten_part ps (index + c) rest))")
    case True
    with 2 show ?thesis by auto
  next
    case False
    then have p: "p = ?t" "?t \<noteq> 0" "n = name" "r = reg"
      using 2(3) by (auto simp: Let_def case_prod_unfold split: if_splits)
    have sub: "set (take c (drop index ps)) \<subseteq> set ps" by (meson set_drop_subset set_take_subset subset_trans)
    then have "0 \<le> ?t" using 2(2) by (intro sum_list_nonneg) (auto simp: list_all_iff)
    moreover have "?t = 0" if "list_all (\<lambda>p. p = 0) ps" 
    proof -
      have "map id (take c (drop index ps)) = map (\<lambda>_. 0) (take c (drop index ps))" using that sub by (intro map_cong) (auto simp: list_all_iff)
      then show ?thesis by (metis list.map_id sum_list_0)
    qed
    ultimately show ?thesis using p by auto
  qed
qed simp

definition row_ok :: "int \<times> nat \<times> destination list \<Rightarrow> bool" where
  "row_ok = (\<lambda>(w, c, l). 0 \<le> w \<and> c = sum_list (map fst l))"

lemma near_nonneg: "list_all2 near ps xs \<Longrightarrow> list_all (\<lambda>p. 0 \<le> p) ps"
  by (induction rule: list_all2_induct) (simp_all add: near_def)

lemma near_zeros: "list_all2 near ps (replicate c 0) \<Longrightarrow> list_all (\<lambda>p. p = 0) ps"
  by (auto simp: list_all2_conv_all_nth list_all_length near_def)

text \<open>Flattening keeps the sum, and every entry comes from a row whose quota is not zero.\<close>

lemma flatten_parts_sound:
  assumes "list_all row_ok wtc" and "list_all2 near ps (concat (map (\<lambda>(w, c, _). replicate c (g w c)) wtc))"
  shows "sum_list (map fst (flatten_parts ps 0 (map (\<lambda>(_, _, l). l) wtc))) = sum_list ps \<and>
    (\<forall>p n r. (p, n, r) \<in> set (flatten_parts ps 0 (map (\<lambda>(_, _, l). l) wtc)) \<longrightarrow>
       0 < p \<and> (\<exists>w c l k. (w, c, l) \<in> set wtc \<and> g w c \<noteq> 0 \<and> (k, n, r) \<in> set l))"
  using assms
proof (induction wtc arbitrary: ps)
  case (Cons row wtc)
  obtain w c l where row: "row = (w, c, l)" by (metis surj_pair)
  have r: "c = sum_list (map fst l)" using Cons.prems(1) row by (simp add: row_ok_def)
  obtain xs ys where ps: "ps = xs @ ys" "list_all2 near xs (replicate c (g w c))"
    "list_all2 near ys (concat (map (\<lambda>(w, c, _). replicate c (g w c)) wtc))"
    using Cons.prems(2) row by (auto simp: list_all2_append2)
  have len: "length xs = sum_list (map fst l)" using ps(2) r by (auto dest: list_all2_lengthD)
  have one: "0 < p \<and> g w c \<noteq> 0 \<and> (\<exists>k. (k, n, r) \<in> set l)" if "(p, n, r) \<in> set (fst (flatten_part xs 0 l))" for p n r
    using flatten_part_mem [OF near_nonneg [OF ps(2)] that] near_zeros [of xs c] ps(2) by (cases "g w c = 0") auto
  have ih: "sum_list (map fst (flatten_parts ys 0 (map (\<lambda>(_, _, l). l) wtc))) = sum_list ys"
    "(p, n, r) \<in> set (flatten_parts ys 0 (map (\<lambda>(_, _, l). l) wtc)) \<Longrightarrow>
       0 < p \<and> (\<exists>w c l k. (w, c, l) \<in> set wtc \<and> g w c \<noteq> 0 \<and> (k, n, r) \<in> set l)" for p n r
    using Cons.IH [OF _ ps(3)] Cons.prems(1) by simp_all
  have eq: "flatten_parts ps 0 (map (\<lambda>(_, _, l). l) (row # wtc)) = fst (flatten_part xs 0 l) @ flatten_parts ys 0 (map (\<lambda>(_, _, l). l) wtc)"
    unfolding ps(1) row using flatten_parts_Cons [OF len] by simp
  have "sum_list (map fst (fst (flatten_part xs 0 l))) = sum_list xs" using flatten_part_sum [of 0 l xs] len by simp
  then have "sum_list (map fst (flatten_parts ps 0 (map (\<lambda>(_, _, l). l) (row # wtc)))) = sum_list ps" unfolding eq using ih(1) ps(1) by simp
  moreover have "0 < p \<and> (\<exists>w c l k. (w, c, l) \<in> set (row # wtc) \<and> g w c \<noteq> 0 \<and> (k, n, r) \<in> set l)"
    if "(p, n, r) \<in> set (flatten_parts ps 0 (map (\<lambda>(_, _, l). l) (row # wtc)))" for p n r
  proof (cases "(p, n, r) \<in> set (fst (flatten_part xs 0 l))")
    case True
    from one [OF this] row show ?thesis by (metis list.set_intros(1))
  next
    case False
    then have "(p, n, r) \<in> set (flatten_parts ys 0 (map (\<lambda>(_, _, l). l) wtc))" using that unfolding eq by simp
    from ih(2) [OF this] show ?thesis by (metis list.set_intros(2))
  qed
  ultimately show ?case by blast
qed simp


lemma flatten_part_nil: "fst (flatten_part [] i l) = []"
  by (induction "[] :: int list" i l rule: flatten_part.induct) (auto simp: Let_def case_prod_unfold)

lemma flatten_parts_nil: "flatten_parts [] i ls = []"
  by (induction ls arbitrary: i) (auto simp: Let_def case_prod_unfold flatten_part_nil)

definition usable :: "gateway_env \<Rightarrow> gateway_db \<Rightarrow> route_target \<Rightarrow> bool" where
  "usable env db t \<longleftrightarrow> tg_active t \<and> target_destinations env db t \<noteq> []"

definition target_row :: "gateway_env \<Rightarrow> gateway_db \<Rightarrow> route_target \<Rightarrow> int \<times> nat \<times> destination list" where
  "target_row env db t = (tg_weight t, sum_list (map fst (target_destinations env db t)), target_destinations env db t)"

lemma plan_rows:
  "pl_weights (fold (add_target env db) ts p) = pl_weights p @ map (target_row env db) (filter (usable env db) ts)"
  "pl_fallback (fold (add_target env db) ts p) =
     pl_fallback p @ map (target_row env db) (filter (\<lambda>t. usable env db t \<and> is_fallback_target t) ts)"
  by (induction ts arbitrary: p) (simp_all add: add_target_def usable_def target_row_def Let_def)

lemma destinations_single: "(c, n, r) \<in> set (target_destinations env db t) \<Longrightarrow> c = 1"
  by (auto simp: target_destinations_def calculate_model_destinations_def model_instances_registry_list_def
      provider_destinations_def Let_def split: option.splits)

lemma row_counts:
  assumes "usable env db t"
  shows "0 < sum_list (map fst (target_destinations env db t))"
proof -
  obtain d where "d \<in> set (target_destinations env db t)" using assms by (cases "target_destinations env db t") (auto simp: usable_def)
  moreover from this have "fst d = 1" by (metis destinations_single surjective_pairing)
  ultimately have "1 \<in> set (map fst (target_destinations env db t))" by force
  then have "1 \<le> sum_list (map fst (target_destinations env db t))" by (intro member_le_sum_list) simp_all
  then show ?thesis by simp
qed

lemma scale_weight_shape: "\<exists>s. scale_weight pairs = map (\<lambda>(w, c). (s w c, c)) pairs \<and> (\<forall>c. s 0 c = 0)"
proof (cases "filter (\<lambda>c. c > 0) (map snd pairs) = []")
  case True
  then show ?thesis by (intro exI [of _ "\<lambda>w _. w"]) (auto simp: scale_weight_def intro: map_idI [symmetric])
next
  case False
  then show ?thesis
    by (intro exI [of _ "\<lambda>w c. if c > 0 then w * int (foldr lcm (filter (\<lambda>c. c > 0) (map snd pairs)) 1) div int c else 0"])
      (auto simp: scale_weight_def Let_def)
qed

lemma member_le_sum_list_int: "v \<in> set ws \<Longrightarrow> list_all (\<lambda>w. (0 :: int) \<le> w) ws \<Longrightarrow> v \<le> sum_list ws"
proof (induction ws)
  case (Cons a ws)
  have "0 \<le> sum_list ws" using Cons.prems by (intro sum_list_nonneg) (auto simp: list_all_iff)
  with Cons show ?case by auto
qed simp

text \<open>With a positive floor for weights, some instance suffices.\<close>

lemma hamilton_floor:
  assumes "\<exists>(w, c) \<in> set pairs. c > 0"
  shows "\<exists>ps g. hamilton_calculate_weight pairs 1 = Inr ps \<and> sum_list ps = 100 \<and>
    list_all2 near ps (concat (map (\<lambda>(w, c). replicate c (g w c)) pairs))"
proof -
  obtain s where s: "scale_weight pairs = map (\<lambda>(w, c). (s w c, c)) pairs" using scale_weight_shape by blast
  let ?ws = "map (\<lambda>w. max w 1) (spread_weights (scale_weight pairs))"
  have one: "list_all (\<lambda>w. 1 \<le> w) ?ws" by (simp add: list_all_iff)
  have "?ws \<noteq> []" using assms unfolding s by (fastforce simp: spread_weights_def)
  then obtain v where v: "v \<in> set ?ws" by (cases ?ws) auto
  moreover have nn: "list_all (\<lambda>w. 0 \<le> w) ?ws" by (auto simp: list_all_iff le_max_iff_disj)
  ultimately have "v \<le> sum_list ?ws" by (intro member_le_sum_list_int)
  moreover have "1 \<le> v" using one v by (auto simp: list_all_iff)
  ultimately have pos: "0 < sum_list ?ws" by linarith
  obtain ps where ps: "largest_remainder ?ws = Inr ps" "length ps = length ?ws" "sum_list ps = 100"
    "\<forall>i < length ?ws. 0 \<le> ps ! i \<and> \<bar>of_int (ps ! i) - of_int (?ws ! i) * 100 / of_int (sum_list ?ws) :: rat\<bar> < 1"
    using largest_remainder_fair [OF nn pos] by blast
  let ?q = "\<lambda>x. of_int x * 100 / of_int (sum_list ?ws) :: rat"
  have gen: "map f ?ws = concat (map (\<lambda>(w, c). replicate c (f (max (s w c) 1))) pairs)" for f :: "int \<Rightarrow> rat"
    unfolding map_map unfolding map_spread s by (simp add: comp_def case_prod_unfold)
  have "map ?q ?ws = concat (map (\<lambda>(w, c). replicate c (?q (max (s w c) 1))) pairs)" by (rule gen)
  moreover have "list_all2 near ps (map ?q ?ws)" using ps(2,4) by (simp add: list_all2_conv_all_nth near_def)
  ultimately have "list_all2 near ps (concat (map (\<lambda>(w, c). replicate c (?q (max (s w c) 1))) pairs))" by (simp only:)
  then show ?thesis using ps(1,3) unfolding hamilton_calculate_weight_def
    by (intro exI [of _ ps] exI [of _ "\<lambda>w c. ?q (max (s w c) 1)"]) simp
qed


lemma live_weight_rows:
  assumes "list_all (usable env db) ts"
  shows "live_weight (map (\<lambda>(w, c, _). (w, c)) (map (target_row env db) ts)) = sum_list (map tg_weight ts)"
  using assms by (induction ts) (auto simp: live_weight_def target_row_def row_counts)

lemma hamilton_weightless:
  assumes "list_all (\<lambda>(w, _). w = 0) pairs"
  shows "hamilton_calculate_weight pairs 0 = Inr []"
proof -
  obtain s where s: "scale_weight pairs = map (\<lambda>(w, c). (s w c, c)) pairs" "\<forall>c. s 0 c = 0" using scale_weight_shape by blast
  have "sum_list (map (\<lambda>w. max w 0) (spread_weights (scale_weight pairs))) = 0"
    using assms s(2) unfolding map_spread s(1) by (induction pairs) (auto simp: sum_list_replicate)
  then show ?thesis by (simp add: hamilton_calculate_weight_def largest_remainder_def)
qed

lemma rows_ok: "list_all (\<lambda>t. 0 \<le> tg_weight t) ts \<Longrightarrow> list_all row_ok (map (target_row env db) ts)"
  by (simp add: list_all_iff row_ok_def target_row_def)

lemma concat_rows: "concat (map (\<lambda>(w, c). replicate c (g w c)) (map (\<lambda>(w, c, _). (w, c)) wtc)) = concat (map (\<lambda>(w, c, _). replicate c (g w c)) wtc)"
  by (simp add: comp_def case_prod_unfold)

lemma flatten_rows:
  assumes "hamilton_calculate_weight (map (\<lambda>(w, c, _). (w, c)) wtc) mw = Inr ps" and "sum_list ps = 100" and "list_all row_ok wtc"
    and "list_all2 near ps (concat (map (\<lambda>(w, c). replicate c (g w c)) (map (\<lambda>(w, c, _). (w, c)) wtc)))"
  shows "\<exists>out. flatten_destinations wtc mw = Inr out \<and> sum_list (map fst out) = 100 \<and>
    (\<forall>p n r. (p, n, r) \<in> set out \<longrightarrow> 0 < p \<and> (\<exists>w c l k. (w, c, l) \<in> set wtc \<and> g w c \<noteq> 0 \<and> (k, n, r) \<in> set l))"
  using assms flatten_parts_sound [OF assms(3) assms(4) [unfolded concat_rows]] by (simp add: flatten_destinations_def)

text \<open>The main destinations of a list of usable targets.\<close>

lemma main_destinations:
  assumes "list_all (usable env db) ts" and "list_all (\<lambda>t. 0 \<le> tg_weight t) ts"
  shows "\<exists>out. flatten_destinations (map (target_row env db) ts) 0 = Inr out \<and>
    (if \<exists>t \<in> set ts. 0 < tg_weight t then sum_list (map fst out) = 100 else out = []) \<and>
    (\<forall>p n r. (p, n, r) \<in> set out \<longrightarrow> 0 < p \<and> (\<exists>t \<in> set ts. 0 < tg_weight t \<and> (1, n, r) \<in> set (target_destinations env db t)))"
proof (cases "\<exists>t \<in> set ts. 0 < tg_weight t")
  case True
  let ?pairs = "map (\<lambda>(w, c, _). (w, c)) (map (target_row env db) ts)"
  obtain t where t: "t \<in> set ts" "0 < tg_weight t" using True by blast
  have "tg_weight t \<le> sum_list (map tg_weight ts)"
    using member_le_sum_list_int [of "tg_weight t" "map tg_weight ts"] t(1) assms(2) by (simp add: list_all_iff)
  then have live: "0 < live_weight ?pairs" using t(2) live_weight_rows [OF assms(1)] by linarith
  have nn: "list_all (\<lambda>(w, _). 0 \<le> w) ?pairs" using assms(2) by (auto simp: list_all_iff target_row_def)
  obtain ps where ps: "hamilton_calculate_weight ?pairs 0 = Inr ps" "sum_list ps = 100" "list_all2 near ps (exact_shares ?pairs)"
    using hamilton_shares [OF nn live] by blast
  from flatten_rows [OF ps(1,2) rows_ok [OF assms(2)] ps(3) [unfolded exact_shares_def]] obtain out where
    out: "flatten_destinations (map (target_row env db) ts) 0 = Inr out" "sum_list (map fst out) = 100"
    "\<forall>p n r. (p, n, r) \<in> set out \<longrightarrow> 0 < p \<and> (\<exists>w c l k. (w, c, l) \<in> set (map (target_row env db) ts) \<and>
       100 * of_int w / (of_nat c * of_int (live_weight ?pairs)) \<noteq> (0 :: rat) \<and> (k, n, r) \<in> set l)" by blast
  have "0 < p \<and> (\<exists>t \<in> set ts. 0 < tg_weight t \<and> (1, n, r) \<in> set (target_destinations env db t))" if "(p, n, r) \<in> set out" for p n r
  proof -
    from out(3) that obtain w c l k where "0 < p" and k: "(w, c, l) \<in> set (map (target_row env db) ts)"
      "100 * of_int w / (of_nat c * of_int (live_weight ?pairs)) \<noteq> (0 :: rat)" "(k, n, r) \<in> set l" by blast
    from k(1) obtain t where t: "t \<in> set ts" "w = tg_weight t" "l = target_destinations env db t" by (auto simp: target_row_def)
    have "tg_weight t \<noteq> 0" using k(2) t(2) by auto
    then have "0 < tg_weight t" using assms(2) t(1) by (auto simp: list_all_iff order.order_iff_strict)
    moreover have "(1, n, r) \<in> set (target_destinations env db t)" using k(3) t(3) destinations_single by metis
    ultimately show ?thesis using \<open>0 < p\<close> t(1) by blast
  qed
  with out(1,2) True show ?thesis by simp
next
  case False
  then have "list_all (\<lambda>(w, _). w = 0) (map (\<lambda>(w, c, _). (w, c)) (map (target_row env db) ts))"
    using assms(2) by (auto simp: list_all_iff target_row_def order.order_iff_strict)
  with False show ?thesis by (simp add: flatten_destinations_def hamilton_weightless flatten_parts_nil)
qed

lemma fallback_destinations:
  assumes "list_all (usable env db) ts" and "list_all (\<lambda>t. 0 \<le> tg_weight t) ts" and "ts \<noteq> []"
  shows "\<exists>out. flatten_destinations (map (target_row env db) ts) 1 = Inr out \<and> sum_list (map fst out) = 100 \<and>
    (\<forall>p n r. (p, n, r) \<in> set out \<longrightarrow> 0 < p \<and> (\<exists>t \<in> set ts. (1, n, r) \<in> set (target_destinations env db t)))"
proof -
  let ?pairs = "map (\<lambda>(w, c, _). (w, c)) (map (target_row env db) ts)"
  have "\<exists>(w, c) \<in> set ?pairs. c > 0" using assms(1,3) row_counts by (cases ts) (auto simp: target_row_def)
  then obtain ps g where ps: "hamilton_calculate_weight ?pairs 1 = Inr ps" "sum_list ps = 100"
    "list_all2 near ps (concat (map (\<lambda>(w, c). replicate c (g w c)) ?pairs))" using hamilton_floor by blast
  from flatten_rows [OF ps(1,2) rows_ok [OF assms(2)] ps(3)] obtain out where
    out: "flatten_destinations (map (target_row env db) ts) 1 = Inr out" "sum_list (map fst out) = 100"
    "\<forall>p n r. (p, n, r) \<in> set out \<longrightarrow> 0 < p \<and> (\<exists>w c l k. (w, c, l) \<in> set (map (target_row env db) ts) \<and> g w c \<noteq> 0 \<and> (k, n, r) \<in> set l)" by blast
  have "\<exists>t \<in> set ts. (1, n, r) \<in> set (target_destinations env db t)"
    if "(w, c, l) \<in> set (map (target_row env db) ts)" "(k, n, r) \<in> set l" for w c l k n r
    using that destinations_single by (fastforce simp: target_row_def)
  then have "\<forall>p n r. (p, n, r) \<in> set out \<longrightarrow> 0 < p \<and> (\<exists>t \<in> set ts. (1, n, r) \<in> set (target_destinations env db t))"
    using out(3) by meson
  with out(1,2) show ?thesis by blast
qed


section \<open>Properties of routes\<close>

text \<open>C6: the traffic of a route is complete. With weights that are not negative, the calculation of
  destinations never raises. The main percentages add up to 100 as soon as some active target with
  destinations has a positive weight, otherwise there are none; the fallback percentages add up to 100
  as soon as some active fallback target has destinations, whatever its weight, otherwise there are
  none. Every main entry is positive and is a destination of an active target of positive weight,
  every fallback entry one of an active fallback target.\<close>

theorem route_traffic_complete:
  assumes "list_all (\<lambda>t. 0 \<le> tg_weight t) (route_targets db rid)"
  shows "\<exists>main fallback groups. calculate_destinations env db rid = Inr (main, fallback, groups) \<and>
    (if \<exists>t \<in> set (route_targets db rid). usable env db t \<and> 0 < tg_weight t then sum_list (map fst main) = 100 else main = []) \<and>
    (if \<exists>t \<in> set (route_targets db rid). usable env db t \<and> is_fallback_target t then sum_list (map fst fallback) = 100 else fallback = []) \<and>
    (\<forall>p n r. (p, n, r) \<in> set main \<longrightarrow> 0 < p \<and>
       (\<exists>t \<in> set (route_targets db rid). usable env db t \<and> 0 < tg_weight t \<and> (1, n, r) \<in> set (target_destinations env db t))) \<and>
    (\<forall>p n r. (p, n, r) \<in> set fallback \<longrightarrow> 0 < p \<and>
       (\<exists>t \<in> set (route_targets db rid). usable env db t \<and> is_fallback_target t \<and> (1, n, r) \<in> set (target_destinations env db t)))"
proof -
  let ?ts = "route_targets db rid"
  let ?p = "fold (add_target env db) ?ts \<lparr>pl_weights = [], pl_fallback = [], pl_groups = []\<rparr>"
  let ?us = "filter (usable env db) ?ts" and ?fs = "filter (\<lambda>t. usable env db t \<and> is_fallback_target t) ?ts"
  have rows: "pl_weights ?p = map (target_row env db) ?us" "pl_fallback ?p = map (target_row env db) ?fs" by (simp_all add: plan_rows)
  have u: "list_all (usable env db) ?us" "list_all (\<lambda>t. 0 \<le> tg_weight t) ?us" "list_all (usable env db) ?fs" "list_all (\<lambda>t. 0 \<le> tg_weight t) ?fs"
    using assms by (auto simp: list_all_iff)
  obtain main where main: "flatten_destinations (map (target_row env db) ?us) 0 = Inr main"
    "if \<exists>t \<in> set ?us. 0 < tg_weight t then sum_list (map fst main) = 100 else main = []"
    "\<forall>p n r. (p, n, r) \<in> set main \<longrightarrow> 0 < p \<and> (\<exists>t \<in> set ?us. 0 < tg_weight t \<and> (1, n, r) \<in> set (target_destinations env db t))"
    using main_destinations [OF u(1,2)] by blast
  obtain fb where fb: "(if ?fs \<noteq> [] then flatten_destinations (map (target_row env db) ?fs) 1 else Inr []) = Inr fb"
    "if ?fs \<noteq> [] then sum_list (map fst fb) = 100 else fb = []"
    "\<forall>p n r. (p, n, r) \<in> set fb \<longrightarrow> 0 < p \<and> (\<exists>t \<in> set ?fs. (1, n, r) \<in> set (target_destinations env db t))"
    using fallback_destinations [OF u(3,4)] by (cases "?fs = []") fastforce+
  have fs: "?fs \<noteq> [] \<longleftrightarrow> (\<exists>t \<in> set ?ts. usable env db t \<and> is_fallback_target t)" by (auto simp: filter_empty_conv)
  have us: "(\<exists>t \<in> set ?us. 0 < tg_weight t) \<longleftrightarrow> (\<exists>t \<in> set ?ts. usable env db t \<and> 0 < tg_weight t)" by auto
  have "\<exists>groups. calculate_destinations env db rid = Inr (main, fb, groups)"
  proof (cases "?us = []")
    case True
    then have "main = []" "fb = []" using main(2) fb(2) by (auto simp: filter_empty_conv)
    with True show ?thesis by (simp add: calculate_destinations_def rows Let_def)
  next
    case False
    with main(1) fb(1) show ?thesis by (cases "?fs = []") (simp_all add: calculate_destinations_def rows Let_def)
  qed
  moreover have "\<forall>p n r. (p, n, r) \<in> set main \<longrightarrow> 0 < p \<and> (\<exists>t \<in> set ?ts. usable env db t \<and> 0 < tg_weight t \<and> (1, n, r) \<in> set (target_destinations env db t))"
    using main(3) by fastforce
  moreover have "\<forall>p n r. (p, n, r) \<in> set fb \<longrightarrow> 0 < p \<and> (\<exists>t \<in> set ?ts. usable env db t \<and> is_fallback_target t \<and> (1, n, r) \<in> set (target_destinations env db t))"
    using fb(3) by fastforce
  ultimately show ?thesis using main(2) fb(2) unfolding fs us by blast
qed

text \<open>The registries of two clusters carry one service name, whatever their gateways are.\<close>

lemma cluster_registries_collide:
  "cluster_registry a = Some ra \<Longrightarrow> cluster_registry b = Some rb \<Longrightarrow> get_service_name_with_port ra = get_service_name_with_port rb"
  by (auto simp: cluster_registry_def get_service_name_with_port_def get_service_name_def split: if_splits)


section \<open>Witnesses on sample data\<close>

theorem traffic_shares_fair_witness:
  "hamilton_calculate_weight [(2, 1), (1, 3), (0, 1)] 0 = Inr [67, 11, 11, 11, 0] \<and>
   list_all2 near [67, 11, 11, 11, 0] (exact_shares [(2, 1), (1, 3), (0, 1)])"
proof -
  have h: "hamilton_calculate_weight [(2, 1), (1, 3), (0, 1)] 0 = Inr [67, 11, 11, 11, 0]" by code_simp
  have "list_all (\<lambda>(w, _). 0 \<le> w) [(2 :: int, 1 :: nat), (1, 3), (0, 1)]" "0 < live_weight [(2, 1), (1, 3), (0, 1)]"
    by (simp_all add: live_weight_def)
  from traffic_shares_fair [OF this] h show ?thesis by simp
qed

text \<open>A route with a deployment of two running instances and a provider of weight zero as fallback.\<close>

definition sample_served :: served_instance where
  "sample_served = \<lparr>se_model_id = 1, se_model_name = ''m'', se_state = RUNNING, se_worker_id = Some 1, se_advertise = None,
     se_ip = Some ''h'', se_port = Some 40\<rparr>"

definition sample_provider :: registry where
  "sample_provider = \<lparr>rg_domain = ''p'', rg_port = 443, rg_name = ''provider-1'', rg_protocol = ''https'', rg_type = ''dns'', rg_proxy = None\<rparr>"

definition sample_gateway :: gateway_db where
  "sample_gateway =
     \<lparr>gd_targets =
        [\<lparr>tg_route = 1, tg_active = True, tg_weight = 3, tg_model = Some 1, tg_provider = None, tg_override = None, tg_fallback = None\<rparr>,
         \<lparr>tg_route = 1, tg_active = True, tg_weight = 0, tg_model = None, tg_provider = Some 1, tg_override = Some ''x'', tg_fallback = Some [''5xx'']\<rparr>],
      gd_models = [(1, \<lparr>rt_name = ''m'', rt_cluster = Some 1, rt_native = False\<rparr>)],
      gd_instances = [(1, sample_served), (2, sample_served)],
      gd_workers = [], gd_clusters = [], gd_providers = [(1, Some sample_provider)]\<rparr>"

definition sample_gateway_env :: gateway_env where
  "sample_gateway_env = \<lparr>ge_is_ip = (\<lambda>_. False), ge_url = (\<lambda>u. (''http'', u, None)), ge_digest = (\<lambda>s. s)\<rparr>"

theorem route_traffic_complete_witness:
  "\<exists>main fallback groups. calculate_destinations sample_gateway_env sample_gateway 1 = Inr (main, fallback, groups) \<and>
     sum_list (map fst main) = 100 \<and> sum_list (map fst fallback) = 100 \<and> length main = 2 \<and> length fallback = 1"
proof -
  have "list_all (\<lambda>t. 0 \<le> tg_weight t) (route_targets sample_gateway 1)" by code_simp
  moreover have "list_ex (\<lambda>t. usable sample_gateway_env sample_gateway t \<and> 0 < tg_weight t) (route_targets sample_gateway 1)"
    "list_ex (\<lambda>t. usable sample_gateway_env sample_gateway t \<and> is_fallback_target t) (route_targets sample_gateway 1)" by code_simp+
  then have "\<exists>t \<in> set (route_targets sample_gateway 1). usable sample_gateway_env sample_gateway t \<and> 0 < tg_weight t"
    "\<exists>t \<in> set (route_targets sample_gateway 1). usable sample_gateway_env sample_gateway t \<and> is_fallback_target t" by (auto simp: list_ex_iff)
  ultimately obtain main fallback groups where c: "calculate_destinations sample_gateway_env sample_gateway 1 = Inr (main, fallback, groups)"
    "sum_list (map fst main) = 100" "sum_list (map fst fallback) = 100"
    using route_traffic_complete [of sample_gateway 1 sample_gateway_env] by auto
  moreover have "(case calculate_destinations sample_gateway_env sample_gateway 1 of Inl _ \<Rightarrow> False | Inr (main, fallback, _) \<Rightarrow> length main = 2 \<and> length fallback = 1)"
    by code_simp
  ultimately show ?thesis by simp
qed

end
