(* ===== verification/Scaling.thy ===== *)
theory Scaling
  imports Replicas
begin

text \<open>
  Scheduled scaling, \<^verbatim>\<open>src/gpustack/server/scaling_scheduler.py\<close> with the schedules of
  \<^verbatim>\<open>schemas/models.py\<close>: which replica count a timetable asks for at an instant, the validation of
  schedules, and the periodic task that writes the counts. Instants are absolute times; the most
  recent firing of a cron expression (the \<^verbatim>\<open>croniter\<close> package) is a parameter, \<open>None\<close> when it raises.
\<close>

section \<open>Schedules\<close>

record scale_rule =
  sl_cron :: string
  sl_duration :: "int option"
  sl_replicas :: int

record scale_schedule =
  sk_enabled :: bool
  sk_baseline :: "int option"
  sk_rules :: "scale_rule list"

datatype schedule_error = BaselineRequired | RuleRequired | CronRequired | DurationRequired

fun validate_rules :: "scale_rule list \<Rightarrow> schedule_error option" where
  "validate_rules [] = None"
| "validate_rules (r # rs) =
     (if sl_cron r = [] then Some CronRequired
      else if \<not> truthy (sl_duration r) then Some DurationRequired
      else validate_rules rs)"

definition validate_schedule :: "scale_schedule \<Rightarrow> schedule_error + scale_schedule" where
  "validate_schedule s =
     (if \<not> sk_enabled s then Inr s
      else if sk_baseline s = None then Inl BaselineRequired
      else if sk_rules s = [] then Inl RuleRequired
      else case validate_rules (sk_rules s) of Some e \<Rightarrow> Inl e | None \<Rightarrow> Inr s)"

type_synonym cron = "string \<Rightarrow> rat \<Rightarrow> rat option"

fun scan_rules :: "cron \<Rightarrow> rat \<Rightarrow> scale_rule list \<Rightarrow> (rat \<times> int) option \<Rightarrow> (rat \<times> int) option" where
  "scan_rules prev now [] best = best"
| "scan_rules prev now (r # rs) best =
     scan_rules prev now rs
       (if sl_cron r = [] \<or> \<not> truthy (sl_duration r) then best
        else case prev (sl_cron r) now of
               None \<Rightarrow> best
             | Some prev_start \<Rightarrow>
                 if \<not> (prev_start \<le> now \<and> now < prev_start + of_int (the (sl_duration r))) then best
                 else (case best of
                         None \<Rightarrow> Some (prev_start, sl_replicas r)
                       | Some (best_start, active) \<Rightarrow>
                           if prev_start > best_start \<or> (prev_start = best_start \<and> sl_replicas r > active)
                           then Some (prev_start, sl_replicas r) else best))"

definition compute_desired_replicas :: "cron \<Rightarrow> scale_schedule option \<Rightarrow> rat \<Rightarrow> int option" where
  "compute_desired_replicas prev schedule now =
     (case schedule of
        None \<Rightarrow> None
      | Some s \<Rightarrow>
          if \<not> sk_enabled s \<or> sk_rules s = [] then None
          else case scan_rules prev now (sk_rules s) None of
                 Some (_, active) \<Rightarrow> Some active
               | None \<Rightarrow> sk_baseline s)"

section \<open>The periodic task\<close>

text \<open>What a round decides from the rows it read, and its writes, on the rows as they are then.\<close>

definition scheduled_update :: "cron \<Rightarrow> rat \<Rightarrow> (int, scale_schedule) dict \<Rightarrow> int \<Rightarrow> replica_model \<Rightarrow> int option" where
  "scheduled_update prev now schedules k m =
     (case dget schedules k of
        None \<Rightarrow> None
      | Some s \<Rightarrow>
          if rm_deleted m \<or> \<not> sk_enabled s then None
          else (case compute_desired_replicas prev (Some s) now of
                  None \<Rightarrow> None
                | Some desired \<Rightarrow> if desired = rm_replicas m then None else Some desired))"

definition scheduled_updates ::
  "cron \<Rightarrow> rat \<Rightarrow> (int, scale_schedule) dict \<Rightarrow> (int, replica_model) dict \<Rightarrow> (int \<times> int) list" where
  "scheduled_updates prev now schedules models =
     concat (map (\<lambda>(k, m). case scheduled_update prev now schedules k m of None \<Rightarrow> [] | Some d \<Rightarrow> [(k, d)]) models)"

definition write_scheduled :: "int \<times> int \<Rightarrow> (int, replica_model) dict \<Rightarrow> (int, replica_model) dict" where
  "write_scheduled = (\<lambda>(k, desired) models.
     case dget models k of
       None \<Rightarrow> models
     | Some m \<Rightarrow>
         if rm_deleted m \<or> rm_replicas m = desired then models
         else dput k (m\<lparr>rm_replicas := desired\<rparr>) models)"

definition sync_scheduled_replicas :: "cron \<Rightarrow> rat \<Rightarrow> (int, scale_schedule) dict \<Rightarrow> cluster_db \<Rightarrow> cluster_db" where
  "sync_scheduled_replicas prev now schedules db =
     db\<lparr>cb_models := fold write_scheduled (scheduled_updates prev now schedules (cb_models db)) (cb_models db)\<rparr>"

section \<open>Lemmas\<close>

text \<open>The windows that are open at an instant: when they started and what they ask for.\<close>

definition open_window :: "cron \<Rightarrow> rat \<Rightarrow> scale_rule \<Rightarrow> (rat \<times> int) option" where
  "open_window prev now r =
     (case (sl_duration r, prev (sl_cron r) now) of
        (Some d, Some s) \<Rightarrow> if sl_cron r \<noteq> [] \<and> d \<noteq> 0 \<and> s \<le> now \<and> now < s + of_int d then Some (s, sl_replicas r) else None
      | _ \<Rightarrow> None)"

definition open_windows :: "cron \<Rightarrow> rat \<Rightarrow> scale_rule list \<Rightarrow> (rat \<times> int) set" where
  "open_windows prev now rules = {w. \<exists>r \<in> set rules. open_window prev now r = Some w}"

definition beats :: "rat \<times> int \<Rightarrow> rat \<times> int \<Rightarrow> bool" where
  "beats = (\<lambda>(s, n) (s', n'). s' < s \<or> (s' = s \<and> n' \<le> n))"

definition strongest :: "(rat \<times> int) set \<Rightarrow> (rat \<times> int) option \<Rightarrow> bool" where
  "strongest W b \<longleftrightarrow> (case b of None \<Rightarrow> W = {} | Some w \<Rightarrow> w \<in> W \<and> (\<forall>w' \<in> W. beats w w'))"

lemma beats_refl [simp]: "beats w w"
  by (simp add: beats_def case_prod_unfold)

lemma beats_trans: "beats a b \<Longrightarrow> beats b c \<Longrightarrow> beats a c"
  by (auto simp: beats_def case_prod_unfold)

lemma beats_antisym: "beats a b \<Longrightarrow> beats b a \<Longrightarrow> a = b"
  by (cases a; cases b) (auto simp: beats_def)

lemma beats_total: "beats a b \<or> beats b a"
  by (auto simp: beats_def case_prod_unfold)

lemma strongest_unique: "strongest W a \<Longrightarrow> strongest W b \<Longrightarrow> a = b"
proof (cases a; cases b)
  fix v w assume "strongest W a" "strongest W b" "a = Some v" "b = Some w"
  then have "beats v w" "beats w v" by (simp_all add: strongest_def)
  then show "a = b" using \<open>a = Some v\<close> \<open>b = Some w\<close> beats_antisym by blast
qed (auto simp: strongest_def)

lemma newer_iff: "(s > s' \<or> (s = s' \<and> n > n')) \<longleftrightarrow> \<not> beats (s', n') (s, n)"
  by (auto simp: beats_def)

lemma scan_rules_step:
  "scan_rules prev now (r # rs) best =
     scan_rules prev now rs
       (case open_window prev now r of
          None \<Rightarrow> best
        | Some w \<Rightarrow> (case best of None \<Rightarrow> Some w | Some b \<Rightarrow> if beats b w then best else Some w))"
  by (cases "sl_duration r"; cases "prev (sl_cron r) now"; cases best)
    (simp_all add: open_window_def newer_iff case_prod_unfold)

lemma scan_rules_strongest:
  "strongest W best \<Longrightarrow> strongest (W \<union> open_windows prev now rs) (scan_rules prev now rs best)"
proof (induction rs arbitrary: W best)
  case (Cons r rs)
  let ?b = "case open_window prev now r of None \<Rightarrow> best | Some w \<Rightarrow> (case best of None \<Rightarrow> Some w | Some b \<Rightarrow> if beats b w then best else Some w)"
  let ?W = "W \<union> open_windows prev now [r]"
  have "strongest ?W ?b"
  proof (cases "open_window prev now r")
    case (Some w)
    then have W: "?W = insert w W" by (auto simp: open_windows_def)
    show ?thesis
    proof (cases best)
      case None
      then show ?thesis using Cons.prems Some unfolding W by (simp add: strongest_def)
    next
      case (Some b)
      have "beats w b" if "\<not> beats b w" using beats_total that by blast
      then have "\<forall>v \<in> W. beats w v" if "\<not> beats b w" using Cons.prems Some that beats_trans by (auto simp: strongest_def)
      then show ?thesis using Cons.prems Some \<open>open_window prev now r = Some w\<close> unfolding W by (simp add: strongest_def)
    qed
  qed (use Cons.prems in \<open>simp add: open_windows_def\<close>)
  moreover have "?W \<union> open_windows prev now rs = W \<union> open_windows prev now (r # rs)" by (auto simp: open_windows_def)
  ultimately show ?case unfolding scan_rules_step using Cons.IH [of ?W ?b] by simp
qed (simp add: open_windows_def)

lemma scan_none: "strongest (open_windows prev now rs) (scan_rules prev now rs None)"
  using scan_rules_strongest [of "{}" None prev now rs] by (simp add: strongest_def)

lemma write_other: "k \<notin> fst ` set ups \<Longrightarrow> dget (fold write_scheduled ups ms) k = dget ms k"
  by (induction ups arbitrary: ms) (auto simp: write_scheduled_def dict_simps split: option.splits)

lemma write_one:
  assumes "distinct (map fst ups)" and "(k, d) \<in> set ups" and "dget ms k = Some m" and "\<not> rm_deleted m"
  shows "dget (fold write_scheduled ups ms) k = Some (m\<lparr>rm_replicas := d\<rparr>)"
  using assms
proof (induction ups arbitrary: ms)
  case (Cons u ups)
  show ?case
  proof (cases "u = (k, d)")
    case True
    then have "k \<notin> fst ` set ups" using Cons.prems(1) by simp
    then show ?thesis using True Cons.prems(3,4) by (simp add: write_other) (auto simp: write_scheduled_def dict_simps)
  next
    case False
    then have k: "(k, d) \<in> set ups" using Cons.prems(2) by auto
    then have "k \<in> fst ` set ups" by force
    then have "fst u \<noteq> k" using Cons.prems(1) by auto
    then have "dget (write_scheduled u ms) k = Some m"
      using Cons.prems(3) by (auto simp: write_scheduled_def dict_simps split: prod.splits option.splits)
    then show ?thesis using Cons.IH [OF _ k _ Cons.prems(4)] Cons.prems(1) by simp
  qed
qed simp

lemma scheduled_update_Some:
  "scheduled_update prev now sch k m = Some d \<longleftrightarrow>
   (\<exists>s. dget sch k = Some s \<and> sk_enabled s \<and> \<not> rm_deleted m \<and> compute_desired_replicas prev (Some s) now = Some d \<and> d \<noteq> rm_replicas m)"
  by (cases "dget sch k") (auto simp: scheduled_update_def split: option.splits)

lemma updates_iff:
  "(k, d) \<in> set (scheduled_updates prev now sch ms) \<longleftrightarrow> (\<exists>m. (k, m) \<in> set ms \<and> scheduled_update prev now sch k m = Some d)"
  by (induction ms) (auto simp: scheduled_updates_def split: option.splits)

lemma updates_keys: "fst ` set (scheduled_updates prev now sch ms) \<subseteq> fst ` set ms"
proof
  fix k assume "k \<in> fst ` set (scheduled_updates prev now sch ms)"
  then obtain d where "(k, d) \<in> set (scheduled_updates prev now sch ms)" by auto
  then show "k \<in> fst ` set ms" unfolding updates_iff by force
qed

lemma updates_distinct: "dict_ok ms \<Longrightarrow> distinct (map fst (scheduled_updates prev now sch ms))"
proof (induction ms)
  case (Cons x ms)
  obtain k m where x: "x = (k, m)" by force
  have k: "k \<notin> fst ` set (scheduled_updates prev now sch ms)" using Cons.prems x updates_keys [of prev now sch ms] by auto
  have "scheduled_updates prev now sch (x # ms) =
      (case scheduled_update prev now sch k m of None \<Rightarrow> [] | Some d \<Rightarrow> [(k, d)]) @ scheduled_updates prev now sch ms"
    by (simp add: scheduled_updates_def x)
  then show ?case using Cons k by (cases "scheduled_update prev now sch k m") simp_all
qed (simp add: scheduled_updates_def)

lemma updates_mem:
  assumes "dget ms k = Some m" and "dget sch k = Some s" and "\<not> rm_deleted m" and "sk_enabled s"
    and "compute_desired_replicas prev (Some s) now = Some d" and "d \<noteq> rm_replicas m"
  shows "(k, d) \<in> set (scheduled_updates prev now sch ms)"
  using dget_mem [OF assms(1)] assms(2-6) unfolding updates_iff scheduled_update_Some by blast

lemma updates_scheduled: "(k, d) \<in> set (scheduled_updates prev now sch ms) \<Longrightarrow>
    \<exists>s. dget sch k = Some s \<and> sk_enabled s \<and> compute_desired_replicas prev (Some s) now = Some d"
  unfolding updates_iff scheduled_update_Some by blast

lemma scheduled_row:
  assumes "dict_ok ms" and "dget ms k = Some m" and "dget sch k = Some s" and "\<not> rm_deleted m" and "sk_enabled s"
    and "compute_desired_replicas prev (Some s) now = Some d"
  shows "dget (fold write_scheduled (scheduled_updates prev now sch ms) ms) k = Some (m\<lparr>rm_replicas := d\<rparr>)"
proof (cases "d = rm_replicas m")
  case True
  have "k \<notin> fst ` set (scheduled_updates prev now sch ms)"
  proof
    assume "k \<in> fst ` set (scheduled_updates prev now sch ms)"
    then obtain d' where d': "(k, d') \<in> set (scheduled_updates prev now sch ms)" by auto
    then obtain m' where "(k, m') \<in> set ms" "d' \<noteq> rm_replicas m'" unfolding updates_iff scheduled_update_Some by blast
    moreover from this have "m' = m" using assms(1,2) by (metis map_of_is_SomeI option.sel)
    moreover have "d' = d" using updates_scheduled [OF d'] assms(3,6) by auto
    ultimately show False using True by simp
  qed
  then show ?thesis using assms(2) True by (simp add: write_other)
next
  case False
  then show ?thesis using write_one [OF updates_distinct [OF assms(1)] updates_mem [OF assms(2-6)] assms(2,4)] by simp
qed

section \<open>Properties\<close>

text \<open>C37: a valid schedule always decides, and as documented. For an enabled schedule that passes
  validation there is a count at every instant: the baseline when no window is open, otherwise the count
  of the window that started most recently, and of several that started together the largest; it does
  not depend on the order or repetition of the rules.\<close>

theorem schedule_decides:
  assumes "validate_schedule s = Inr s" and "sk_enabled s"
  shows "\<exists>n. compute_desired_replicas prev (Some s) now = Some n \<and>
    (if open_windows prev now (sk_rules s) = {} then sk_baseline s = Some n
     else \<exists>t. (t, n) \<in> open_windows prev now (sk_rules s) \<and> (\<forall>t' n'. (t', n') \<in> open_windows prev now (sk_rules s) \<longrightarrow> t' < t \<or> (t' = t \<and> n' \<le> n))) \<and>
    (\<forall>rules. set rules = set (sk_rules s) \<longrightarrow> compute_desired_replicas prev (Some (s\<lparr>sk_rules := rules\<rparr>)) now = Some n)"
proof -
  have v: "sk_rules s \<noteq> []" "sk_baseline s \<noteq> None" using assms by (auto simp: validate_schedule_def split: if_splits)
  let ?W = "open_windows prev now (sk_rules s)"
  let ?b = "scan_rules prev now (sk_rules s) None"
  have str: "strongest ?W ?b" by (rule scan_none)
  have comp: "compute_desired_replicas prev (Some (s\<lparr>sk_rules := rules\<rparr>)) now = (case ?b of Some (_, a) \<Rightarrow> Some a | None \<Rightarrow> sk_baseline s)"
    if "set rules = set (sk_rules s)" for rules
  proof -
    have "open_windows prev now rules = ?W" using that by (simp add: open_windows_def)
    then have "scan_rules prev now rules None = ?b" using scan_none [of prev now rules] str strongest_unique by metis
    moreover have "rules \<noteq> []" using that v(1) by auto
    ultimately show ?thesis using assms(2) by (simp add: compute_desired_replicas_def split: option.split)
  qed
  show ?thesis
  proof (cases ?b)
    case None
    then have "?W = {}" using str by (simp add: strongest_def)
    with None v(2) comp comp [of "sk_rules s"] show ?thesis by auto
  next
    case (Some w)
    obtain t n where w: "w = (t, n)" by force
    have W: "(t, n) \<in> ?W" "\<forall>t' n'. (t', n') \<in> ?W \<longrightarrow> t' < t \<or> (t' = t \<and> n' \<le> n)"
      using str Some w by (auto simp: strongest_def beats_def)
    have "compute_desired_replicas prev (Some (s\<lparr>sk_rules := rules\<rparr>)) now = Some n" if "set rules = set (sk_rules s)" for rules
      using comp [OF that] Some w by simp
    moreover from this [of "sk_rules s"] have "compute_desired_replicas prev (Some s) now = Some n" by simp
    ultimately show ?thesis using W by (intro exI [of _ n]) auto
  qed
qed


text \<open>The write does not look at what changed since the round read its rows, but for the target count.\<close>

lemma stale_desired_written:
  assumes "dget models k = Some m" and "\<not> rm_deleted m"
  shows "dget (write_scheduled (k, desired) models) k = Some (m\<lparr>rm_replicas := desired\<rparr>)"
  using assms by (auto simp: write_scheduled_def dict_simps)

section \<open>Witnesses on sample data\<close>

text \<open>A timetable that fires every 100 seconds; a day rule and an evening rule.\<close>

definition sample_cron :: cron where
  "sample_cron e now = (if e = ''bad'' then None else Some (of_int (100 * floor (now / 100)) + (if e = ''late'' then 50 else 0)))"

definition sample_schedule :: scale_schedule where
  "sample_schedule = \<lparr>sk_enabled = True, sk_baseline = Some 1, sk_rules =
     [\<lparr>sl_cron = ''day'', sl_duration = Some 60, sl_replicas = 3\<rparr>, \<lparr>sl_cron = ''late'', sl_duration = Some 20, sl_replicas = 2\<rparr>]\<rparr>"

theorem schedule_decides_witness:
  "compute_desired_replicas sample_cron (Some sample_schedule) 155 = Some 2 \<and>
   compute_desired_replicas sample_cron (Some sample_schedule) 190 = Some 1 \<and>
   compute_desired_replicas sample_cron (Some (sample_schedule\<lparr>sk_rules := rev (sk_rules sample_schedule)\<rparr>)) 155 = Some 2"
proof -
  have v: "validate_schedule sample_schedule = Inr sample_schedule" "sk_enabled sample_schedule" by code_simp+
  have c: "compute_desired_replicas sample_cron (Some sample_schedule) 155 = Some 2"
    "compute_desired_replicas sample_cron (Some sample_schedule) 190 = Some 1" by code_simp+
  have "set (rev (sk_rules sample_schedule)) = set (sk_rules sample_schedule)" by simp
  with schedule_decides [OF v, of sample_cron 155] c show ?thesis by (metis option.inject)
qed


end
