(* ===== verification/Serving.thy ===== *)
theory Serving
  imports Scheduler Command
begin

text \<open>
  The serving agent of a worker, \<^verbatim>\<open>src/gpustack/worker/serve_manager.py\<close>: assignment of ports, start, stop
  and restart with backoff of instances, the handler of instance events, the periodic sync of states
  with the reaping of instances the server no longer assigns, and the inference health check. The
  container runtime, the probes, drawn ports and the clock are parameters; log persistence, vGPU
  read-back and model metadata are left out.
\<close>

section \<open>Rows and state\<close>

datatype workload_state =
    WL_UNKNOWN | WL_PENDING | WL_INITIALIZING | WL_RUNNING | WL_UNHEALTHY | WL_INACTIVE | WL_FAILED

record serve_sub =
  su_worker_id :: "int option"
  su_ip :: string
  su_state :: instance_state
  su_message :: string

record serve_servers =
  ds_coordinate :: coordinate_mode
  ds_workers :: "serve_sub list option"

record serve_instance =
  sv_name :: string
  sv_model_id :: int
  sv_state :: instance_state
  sv_message :: string
  sv_worker_id :: "int option"
  sv_port :: "int option"
  sv_ports :: "int list"
  sv_servers :: "serve_servers option"
  sv_restarts :: "int option"
  sv_last_restart :: "rat option"
  sv_updated :: "rat option"

text \<open>What the agent reads of a model; \<open>vm_dp\<close> is its data-parallel size parameter.\<close>

record serve_model =
  vm_restart_on_error :: bool
  vm_vllm :: bool
  vm_executor :: executor_backend
  vm_dp :: "int option"
  vm_check_enabled :: bool
  vm_check_interval :: rat
  vm_check_threshold :: nat

record serve_env =
  en_worker :: int
  en_model :: "int \<Rightarrow> serve_model"
  en_range :: "int \<times> int"
  en_available :: "int \<Rightarrow> bool"
  en_draws :: "nat \<Rightarrow> int list"
  en_start_error :: "int \<Rightarrow> string option"
  en_ready :: "serve_instance \<Rightarrow> bool"
  en_inference_ok :: "serve_instance \<Rightarrow> bool"
  en_describe :: "workload_state option \<Rightarrow> string"

text \<open>\<open>ag_processes\<close>: provisioning processes, whether they are alive; \<open>ag_known\<close>: the instances cached by
  the event handler; \<open>ag_workloads\<close>: the container runtime; \<open>ag_server\<close>: the rows on the server.\<close>

record agent =
  ag_processes :: "(int, bool) dict"
  ag_errors :: "(int, serve_instance) dict"
  ag_known :: "(int, serve_instance) dict"
  ag_ports :: "(int, int set) dict"
  ag_backoff :: "(int, nat) dict"
  ag_failures :: "(int, nat) dict"
  ag_checked :: "(int, rat) dict"
  ag_succeeded :: "(int, rat) dict"
  ag_workloads :: "(string, workload_state) dict"
  ag_server :: "(int, serve_instance) dict"

definition sub_list :: "serve_instance \<Rightarrow> serve_sub list" where
  "sub_list r = (case sv_servers r of None \<Rightarrow> [] | Some s \<Rightarrow> items (ds_workers s))"

fun index_from :: "nat \<Rightarrow> ('a \<Rightarrow> bool) \<Rightarrow> 'a list \<Rightarrow> nat option" where
  "index_from i P [] = None"
| "index_from i P (x # xs) = (if P x then Some i else index_from (Suc i) P xs)"

definition sub_position :: "int \<Rightarrow> serve_instance \<Rightarrow> nat option" where
  "sub_position w r = index_from 0 (\<lambda>s. su_worker_id s = Some w) (sub_list r)"

record deployment =
  dm_name :: string
  dm_distributed :: bool
  dm_leader :: bool
  dm_follower :: bool
  dm_index :: "nat option"

definition get_deployment_metadata :: "int \<Rightarrow> serve_instance \<Rightarrow> deployment option" where
  "get_deployment_metadata w r =
     (let distributed = (sub_list r \<noteq> []);
          leader = (distributed \<and> sv_worker_id r = Some w);
          follower = (distributed \<and> \<not> leader);
          index = (if follower then sub_position w r else None)
      in if sv_worker_id r \<noteq> Some w \<and> index = None then None
         else Some \<lparr>dm_name = sv_name r @ (case index of None \<Rightarrow> [] | Some i \<Rightarrow> ''-f'' @ nat_str i), dm_distributed = distributed,
                    dm_leader = leader, dm_follower = follower, dm_index = index\<rparr>)"

section \<open>Ports\<close>

text \<open>A computation that draws ports: \<open>None\<close> while it would keep drawing.\<close>

type_synonym 'a drawn = "(py_error + 'a) option"

definition bind_drawn :: "'a drawn \<Rightarrow> ('a \<Rightarrow> 'b drawn) \<Rightarrow> 'b drawn" where
  "bind_drawn x f = (case x of None \<Rightarrow> None | Some (Inl e) \<Rightarrow> Some (Inl e) | Some (Inr v) \<Rightarrow> f v)"

text \<open>The loop over the draws; ports found busy join the set of the caller.\<close>

fun draw_port :: "(int \<Rightarrow> bool) \<Rightarrow> int \<Rightarrow> int list \<Rightarrow> int set \<Rightarrow> (int \<times> int set) drawn" where
  "draw_port avail port_count [] unavailable = None"
| "draw_port avail port_count (port # ds) unavailable =
     (if port \<in> unavailable then draw_port avail port_count ds unavailable
      else if avail port then Some (Inr (port, unavailable))
      else if int (card (insert port unavailable)) = port_count then Some (Inl External)
      else draw_port avail port_count ds (insert port unavailable))"

definition get_free_port :: "(int \<Rightarrow> bool) \<Rightarrow> int \<times> int \<Rightarrow> int list \<Rightarrow> int set \<Rightarrow> (int \<times> int set) drawn" where
  "get_free_port avail rng ds unavailable =
     (if int (card unavailable) \<ge> snd rng - fst rng + 1 then Some (Inl External)
      else draw_port avail (snd rng - fst rng + 1) ds unavailable)"

text \<open>Each call draws on its own.\<close>

definition free_port :: "serve_env \<Rightarrow> nat \<Rightarrow> int set \<Rightarrow> (int \<times> int set) drawn" where
  "free_port env call unavailable =
     bind_drawn (get_free_port (en_available env) (en_range env) (en_draws env call) unavailable) (\<lambda>(p, u).
       Some (Inr (p, insert p u)))"

fun cross_ports :: "serve_env \<Rightarrow> nat \<Rightarrow> nat \<Rightarrow> int set \<Rightarrow> int list drawn" where
  "cross_ports env call 0 unavailable = Some (Inr [])"
| "cross_ports env call (Suc n) unavailable =
     bind_drawn (free_port env call unavailable) (\<lambda>(p, u).
     bind_drawn (cross_ports env (Suc call) n u) (\<lambda>ps. Some (Inr (p # ps))))"

definition cross_port_count :: "serve_model \<Rightarrow> nat" where
  "cross_port_count m =
     (if \<not> vm_vllm m then 0
      else if vm_executor m = Mp then 3
      else if (case vm_dp m of Some d \<Rightarrow> d > 1 | None \<Rightarrow> False) then 1 else 0)"

text \<open>The ten ports from the connecting port on, within the range.\<close>

definition master_band :: "serve_env \<Rightarrow> serve_model \<Rightarrow> int \<Rightarrow> int set" where
  "master_band env m c =
     (if vm_vllm m \<and> vm_executor m = Mp then set [c..min (c + 10) (snd (en_range env) + 1) - 1] else {})"

definition choose_ports :: "serve_env \<Rightarrow> serve_instance \<Rightarrow> int set \<Rightarrow> int list drawn" where
  "choose_ports env r unavailable =
     (let m = en_model env (sv_model_id r)
      in bind_drawn (free_port env 0 unavailable) (\<lambda>(port, u1).
         if sub_list r = [] then Some (Inr [port])
         else bind_drawn (free_port env 1 u1) (\<lambda>(connecting, u2).
              bind_drawn (cross_ports env 2 (cross_port_count m) (u2 \<union> master_band env m connecting)) (\<lambda>cross.
              Some (Inr (port # cross @ [connecting]))))))"

text \<open>The row with its ports, and the table.\<close>

definition assign_ports :: "serve_env \<Rightarrow> int \<Rightarrow> serve_instance \<Rightarrow> (int, int set) dict \<Rightarrow> (serve_instance \<times> (int, int set) dict) drawn" where
  "assign_ports env k r table =
     (if truthy (sv_port r) then Some (Inr (r, table))
      else bind_drawn (choose_ports env r (\<Union>(set (dvals table)))) (\<lambda>ports.
           Some (Inr (r\<lparr>sv_port := Some (hd ports), sv_ports := ports\<rparr>, dput k (set ports) table))))"

section \<open>Start and stop\<close>

definition proc_alive :: "int \<Rightarrow> agent \<Rightarrow> bool" where
  "proc_alive k ag \<longleftrightarrow> dget (ag_processes ag) k = Some True"

text \<open>A row that is gone is skipped with a warning.\<close>

definition update_model_instance :: "int \<Rightarrow> (serve_instance \<Rightarrow> serve_instance) \<Rightarrow> agent \<Rightarrow> agent" where
  "update_model_instance k f ag =
     (case dget (ag_server ag) k of
        None \<Rightarrow> ag
      | Some r \<Rightarrow> ag\<lparr>ag_server := dput k (f r) (ag_server ag)\<rparr>)"

definition set_sub :: "nat \<Rightarrow> serve_sub \<Rightarrow> serve_instance \<Rightarrow> serve_instance" where
  "set_sub i s r = r\<lparr>sv_servers := map_option (\<lambda>d. d\<lparr>ds_workers := map_option (\<lambda>l. l[i := s]) (ds_workers d)\<rparr>) (sv_servers r)\<rparr>"

definition stop_model_instance :: "serve_env \<Rightarrow> int \<Rightarrow> serve_instance \<Rightarrow> bool \<Rightarrow> agent \<Rightarrow> agent" where
  "stop_model_instance env k r clear_restart_backoff ag =
     ag\<lparr>ag_workloads := (case get_deployment_metadata (en_worker env) r of
                             None \<Rightarrow> ag_workloads ag | Some d \<Rightarrow> dpop (dm_name d) (ag_workloads ag)),
         ag_processes := dpop k (ag_processes ag),
         ag_ports := dpop k (ag_ports ag),
         ag_errors := dpop k (ag_errors ag),
         ag_known := dpop k (ag_known ag),
         ag_backoff := (if clear_restart_backoff then dpop k (ag_backoff ag) else ag_backoff ag),
         ag_failures := dpop k (ag_failures ag),
         ag_checked := dpop k (ag_checked ag),
         ag_succeeded := dpop k (ag_succeeded ag)\<rparr>"

text \<open>The patch of the main worker, or of the subordinate entry of this worker.\<close>

definition patch_state :: "serve_env \<Rightarrow> int \<Rightarrow> serve_instance \<Rightarrow> instance_state \<Rightarrow> string option \<Rightarrow> agent \<Rightarrow> agent" where
  "patch_state env k r st msg ag =
     (if sv_worker_id r = Some (en_worker env)
      then update_model_instance k (\<lambda>row. row\<lparr>sv_state := st, sv_message := (case msg of None \<Rightarrow> sv_message row | Some m \<Rightarrow> m)\<rparr>) ag
      else case sub_position (en_worker env) r of
             None \<Rightarrow> ag
           | Some i \<Rightarrow>
               let s = sub_list r ! i;
                   s' = s\<lparr>su_state := st, su_message := (case msg of None \<Rightarrow> su_message s | Some m \<Rightarrow> m)\<rparr>
               in update_model_instance k (set_sub i s') ag)"

definition started_patch :: "serve_env \<Rightarrow> int \<Rightarrow> serve_instance \<Rightarrow> agent \<Rightarrow> agent" where
  "started_patch env k r ag =
     (if sv_worker_id r = Some (en_worker env)
      then update_model_instance k (\<lambda>row. row\<lparr>sv_state := INITIALIZING, sv_port := sv_port r, sv_ports := sv_ports r\<rparr>) ag
      else patch_state env k r
             (if map_option ds_coordinate (sv_servers r) = Some INITIALIZE_LATER then RUNNING else INITIALIZING) None ag)"

definition start_failed :: "serve_env \<Rightarrow> int \<Rightarrow> serve_instance \<Rightarrow> string \<Rightarrow> agent \<Rightarrow> agent" where
  "start_failed env k r e ag =
     (let ag1 = (if dget (ag_processes ag) k \<noteq> None then stop_model_instance env k r True ag else ag)
      in patch_state env k r ERROR (Some (''Failed to start model instance: '' @ e)) ag1)"

text \<open>\<open>None\<close>: the assignment keeps drawing. A subordinate start without an entry for this worker raises.\<close>

definition start_model_instance :: "serve_env \<Rightarrow> int \<Rightarrow> serve_instance \<Rightarrow> agent \<Rightarrow> agent option" where
  "start_model_instance env k r ag =
     (if proc_alive k ag then Some ag
      else if sv_worker_id r \<noteq> Some (en_worker env) \<and> sub_position (en_worker env) r = None then Some ag
      else case assign_ports env k r (ag_ports ag) of
             None \<Rightarrow> None
           | Some (Inl e) \<Rightarrow> Some (start_failed env k r ''No free port available in the port range.'' ag)
           | Some (Inr (r', table)) \<Rightarrow>
               let ag1 = ag\<lparr>ag_ports := table\<rparr>
               in Some (case en_start_error env k of
                          Some e \<Rightarrow> start_failed env k r' e ag1
                        | None \<Rightarrow> started_patch env k r' (ag1\<lparr>ag_processes := dput k True (ag_processes ag1)\<rparr>)))"

definition restart_model_instance :: "serve_env \<Rightarrow> int \<Rightarrow> serve_instance \<Rightarrow> agent \<Rightarrow> agent option" where
  "restart_model_instance env k r ag = start_model_instance env k r (stop_model_instance env k r False ag)"

definition restart_delay :: "nat \<Rightarrow> rat" where
  "restart_delay backoff = (if backoff > 0 then min (10 * 2 ^ (backoff - 1)) 300 else 0)"

definition restart_error_model_instance :: "rat \<Rightarrow> int \<Rightarrow> serve_instance \<Rightarrow> agent \<Rightarrow> agent" where
  "restart_error_model_instance now k r ag =
     (if proc_alive k ag then ag
      else let backoff = (case dget (ag_backoff ag) k of None \<Rightarrow> 0 | Some n \<Rightarrow> n);
               last_restart = (case sv_last_restart r of None \<Rightarrow> sv_updated r | t \<Rightarrow> t)
           in if backoff > 0 \<and> (case last_restart of None \<Rightarrow> False | Some t \<Rightarrow> now - t < restart_delay backoff) then ag
              else let ag1 = update_model_instance k (\<lambda>row. row\<lparr>sv_restarts := Some ((case sv_restarts r of None \<Rightarrow> 0 | Some n \<Rightarrow> n) + 1),
                                  sv_last_restart := Some now, sv_state := SCHEDULED, sv_message := []\<rparr>)
                               (ag\<lparr>ag_backoff := dput k (backoff + 1) (ag_backoff ag)\<rparr>)
                   in ag1\<lparr>ag_errors := dpop k (ag_errors ag1)\<rparr>)"

definition restart_round :: "rat \<Rightarrow> agent \<Rightarrow> agent" where
  "restart_round now ag = fold (\<lambda>(k, r). restart_error_model_instance now k r) (ag_errors ag) ag"

section \<open>Events\<close>

definition dead_workload :: "workload_state \<Rightarrow> bool" where
  "dead_workload st \<longleftrightarrow> st \<in> {WL_UNKNOWN, WL_UNHEALTHY, WL_INACTIVE, WL_FAILED}"

fun earlier_subs_ready :: "int \<Rightarrow> serve_sub list \<Rightarrow> bool" where
  "earlier_subs_ready w [] = True"
| "earlier_subs_ready w (s # ss) =
     (if su_worker_id s = Some w then True
      else if su_state s \<notin> {RUNNING, ERROR} then False
      else earlier_subs_ready w ss)"

text \<open>Whether the handler goes on after its first checks, for the main and for a subordinate worker.\<close>

definition main_goes_on :: "serve_instance \<Rightarrow> bool" where
  "main_goes_on r \<longleftrightarrow>
     (case sv_servers r of
        None \<Rightarrow> True
      | Some d \<Rightarrow> ds_coordinate d \<noteq> RUN_FIRST \<or> list_all (\<lambda>s. su_state s = RUNNING) (items (ds_workers d)))"

definition sub_goes_on :: "int \<Rightarrow> serve_instance \<Rightarrow> bool" where
  "sub_goes_on w r \<longleftrightarrow>
     (case sv_servers r of
        None \<Rightarrow> False
      | Some d \<Rightarrow> ds_coordinate d \<noteq> DELEGATED \<and> list_ex (\<lambda>s. su_worker_id s = Some w) (items (ds_workers d)) \<and>
          (ds_coordinate d = INITIALIZE_LATER \<longrightarrow> sv_state r \<in> {STARTING, RUNNING, ERROR}) \<and>
          earlier_subs_ready w (items (ds_workers d)))"

definition workload_name :: "int \<Rightarrow> serve_instance \<Rightarrow> string" where
  "workload_name w r = (case get_deployment_metadata w r of None \<Rightarrow> sv_name r | Some d \<Rightarrow> dm_name d)"

definition dispatch_updated :: "serve_env \<Rightarrow> int \<Rightarrow> serve_instance \<Rightarrow> agent \<Rightarrow> agent option" where
  "dispatch_updated env k r ag =
     (if sv_state r = ERROR
      then Some (if vm_restart_on_error (en_model env (sv_model_id r)) then ag\<lparr>ag_errors := dput k r (ag_errors ag)\<rparr> else ag)
      else if sv_worker_id r = Some (en_worker env)
        then (if sv_state r = SCHEDULED then restart_model_instance env k r ag else Some ag)
      else case dget (ag_workloads ag) (workload_name (en_worker env) r) of
             None \<Rightarrow> start_model_instance env k r ag
           | Some st \<Rightarrow> if dead_workload st then start_model_instance env k r (stop_model_instance env k r False ag) else Some ag)"

definition dispatch_model_instance_event :: "serve_env \<Rightarrow> event_type \<Rightarrow> int \<Rightarrow> serve_instance \<Rightarrow> agent \<Rightarrow> agent option" where
  "dispatch_model_instance_event env etype k r ag =
     (let is_main = (sv_worker_id r = Some (en_worker env));
          ag1 = (if is_main then ag\<lparr>ag_known := dput k r (ag_known ag)\<rparr> else ag)
      in if (if is_main then \<not> main_goes_on r else \<not> sub_goes_on (en_worker env) r) then Some ag1
         else case etype of
                DELETED \<Rightarrow> Some ag1
              | UPDATED \<Rightarrow> dispatch_updated env k r ag1
              | CREATED \<Rightarrow> if \<not> is_main \<or> sv_state r = RUNNING then Some ag1 else start_model_instance env k r ag1
              | _ \<Rightarrow> Some ag1)"

section \<open>Periodic sync\<close>

definition here_keys :: "serve_env \<Rightarrow> (int, serve_instance) dict \<Rightarrow> int list" where
  "here_keys env rows = map fst (filter (\<lambda>(_, r). get_deployment_metadata (en_worker env) r \<noteq> None) rows)"

text \<open>The instances to reap and the rows to sync: the cached rows, or those of the server when the cache
  lacks a local instance or a reconciliation is due.\<close>

definition reap_plan :: "serve_env \<Rightarrow> bool \<Rightarrow> (int, serve_instance) dict \<Rightarrow> agent \<Rightarrow> int list \<times> (int, serve_instance) dict" where
  "reap_plan env force cached ag =
     (let local = here_keys env (ag_known ag);
          reap = filter (\<lambda>k. k \<notin> set (here_keys env cached)) local
      in if reap \<noteq> [] \<or> force
         then (filter (\<lambda>k. k \<notin> set (here_keys env (ag_server ag))) local, ag_server ag)
         else (reap, cached))"

definition reap_one :: "serve_env \<Rightarrow> int \<Rightarrow> agent \<Rightarrow> agent" where
  "reap_one env k ag =
     (case dget (ag_known ag) k of None \<Rightarrow> ag | Some r \<Rightarrow> stop_model_instance env k r True ag)"

definition rows_to_sync :: "serve_env \<Rightarrow> (int, serve_instance) dict \<Rightarrow> (int \<times> serve_instance) list" where
  "rows_to_sync env rows =
     concat (map (\<lambda>(k, r).
       (if sv_worker_id r = Some (en_worker env) \<and> sv_state r \<noteq> SCHEDULED then [(k, r)] else []) @
       (if list_ex (\<lambda>s. su_worker_id s = Some (en_worker env)) (sub_list r) then [(k, r)] else [])) rows)"

text \<open>What the subordinates say about the main worker: nothing, or a state and whether to write it.\<close>

datatype distributed_state = AllRunning | Waiting | Report bool instance_state string

definition get_main_worker_distributed_state :: "serve_instance \<Rightarrow> distributed_state" where
  "get_main_worker_distributed_state r =
     (case find (\<lambda>s. su_state s = ERROR) (sub_list r) of
        Some s \<Rightarrow> Report (sv_state r \<noteq> ERROR) ERROR
                    (''Distributed serving error in subordinate worker '' @ su_ip s @ '': '' @ su_message s @ ''.'')
      | None \<Rightarrow>
          (case find (\<lambda>s. su_state s = UNREACHABLE) (sub_list r) of
             Some s \<Rightarrow> Report (sv_state r \<noteq> UNREACHABLE) UNREACHABLE
                         (''Distributed serving unreachable in subordinate worker '' @ su_ip s @ '': '' @ su_message s @ ''.'')
           | None \<Rightarrow> if list_all (\<lambda>s. su_state s = RUNNING) (sub_list r) then AllRunning else Waiting))"

definition sync_main :: "serve_env \<Rightarrow> int \<Rightarrow> serve_instance \<Rightarrow> agent \<Rightarrow> agent" where
  "sync_main env k r ag =
     (case get_main_worker_distributed_state r of
        AllRunning \<Rightarrow>
          if sv_state r = RUNNING then ag\<lparr>ag_backoff := dpop k (ag_backoff ag)\<rparr>
          else if sv_state r = ERROR \<or> \<not> en_ready env r then ag
          else patch_state env k r RUNNING (Some []) (ag\<lparr>ag_backoff := dpop k (ag_backoff ag)\<rparr>)
      | Report upd st msg \<Rightarrow> if upd then patch_state env k r st (Some msg) ag else ag
      | Waiting \<Rightarrow> ag)"

definition sync_sub :: "serve_env \<Rightarrow> int \<Rightarrow> serve_instance \<Rightarrow> agent \<Rightarrow> agent" where
  "sync_sub env k r ag =
     (if map_option ds_coordinate (sv_servers r) = Some INITIALIZE_LATER then ag
      else case sub_position (en_worker env) r of
             None \<Rightarrow> ag
           | Some i \<Rightarrow> if su_state (sub_list r ! i) = RUNNING then ag else patch_state env k r RUNNING (Some []) ag)"

definition sync_one :: "serve_env \<Rightarrow> int \<times> serve_instance \<Rightarrow> agent \<Rightarrow> agent" where
  "sync_one env = (\<lambda>(k, r) ag.
     let is_main = (sv_worker_id r = Some (en_worker env));
         workload = dget (ag_workloads ag) (if is_main then sv_name r else workload_name (en_worker env) r)
     in if proc_alive k ag then ag
        else if workload = Some WL_PENDING \<or> workload = Some WL_INITIALIZING then ag
        else if (case workload of None \<Rightarrow> True | Some st \<Rightarrow> dead_workload st)
          then (if sv_state r \<noteq> ERROR then patch_state env k r ERROR (Some (en_describe env workload)) ag else ag)
        else if is_main then sync_main env k r ag
        else sync_sub env k r ag)"

definition sync_model_instances_state :: "serve_env \<Rightarrow> bool \<Rightarrow> (int, serve_instance) dict \<Rightarrow> agent \<Rightarrow> agent" where
  "sync_model_instances_state env force cached ag =
     (let (reap, rows) = reap_plan env force cached ag
      in fold (sync_one env) (rows_to_sync env rows) (fold (reap_one env) reap ag))"

section \<open>Inference health\<close>

definition check_one :: "serve_env \<Rightarrow> rat \<Rightarrow> int \<times> serve_instance \<Rightarrow> agent \<Rightarrow> agent" where
  "check_one env now = (\<lambda>(k, r) ag.
     let m = en_model env (sv_model_id r)
     in if \<not> vm_check_enabled m \<or> proc_alive k ag then ag
        else if now - (case dget (ag_checked ag) k of None \<Rightarrow> 0 | Some t \<Rightarrow> t) < vm_check_interval m then ag
        else let ag1 = ag\<lparr>ag_checked := dput k now (ag_checked ag)\<rparr>
             in if (case dget (ag_succeeded ag) k of None \<Rightarrow> 0 | Some t \<Rightarrow> t) > now - vm_check_interval m \<or> en_inference_ok env r
                then ag1\<lparr>ag_failures := dpop k (ag_failures ag1)\<rparr>
                else let n = (case dget (ag_failures ag1) k of None \<Rightarrow> 0 | Some n \<Rightarrow> n) + 1;
                         ag2 = ag1\<lparr>ag_failures := dput k n (ag_failures ag1)\<rparr>
                     in if n \<ge> vm_check_threshold m
                        then (update_model_instance k (\<lambda>row. row\<lparr>sv_state := ERROR, sv_message := ''Inference health check failed.''\<rparr>) ag2)
                               \<lparr>ag_failures := dpop k (ag_failures ag2)\<rparr>
                        else ag2)"

definition sync_model_instances_inference_health :: "serve_env \<Rightarrow> rat \<Rightarrow> agent \<Rightarrow> agent" where
  "sync_model_instances_inference_health env now ag =
     fold (check_one env now) (filter (\<lambda>(_, r). sv_state r = RUNNING) (ag_known ag)) ag"


section \<open>Lemmas on ports\<close>

lemma bind_drawn_simps [simp]: "bind_drawn None f = None" "bind_drawn (Some (Inl e)) f = Some (Inl e)" "bind_drawn (Some (Inr v)) f = f v"
  by (simp_all add: bind_drawn_def)

lemma bind_drawn_Inr: "bind_drawn x f = Some (Inr v) \<longleftrightarrow> (\<exists>y. x = Some (Inr y) \<and> f y = Some (Inr v))"
  by (auto simp: bind_drawn_def split: option.splits sum.splits)

lemma bind_drawn_total: "x \<noteq> None \<Longrightarrow> (\<And>v. x = Some (Inr v) \<Longrightarrow> f v \<noteq> None) \<Longrightarrow> bind_drawn x f \<noteq> None"
  by (auto simp: bind_drawn_def split: option.splits sum.splits)

lemma draw_port_sound:
  "draw_port avail n ds u = Some (Inr (p, u')) \<Longrightarrow> p \<notin> u' \<and> u \<subseteq> u' \<and> avail p \<and> p \<in> set ds \<and> (finite u \<longrightarrow> finite u')"
  by (induction avail n ds u rule: draw_port.induct) (auto split: if_splits)

text \<open>Drawing ends once every port of the range came up.\<close>

lemma draw_port_returns:
  assumes "finite u" and "int (card u) < e - s + 1" and "{s..e} \<subseteq> u \<union> set ds"
  shows "draw_port avail (e - s + 1) ds u \<noteq> None"
  using assms
proof (induction ds arbitrary: u)
  case Nil
  then have "card {s..e} \<le> card u" by (intro card_mono) auto
  with Nil show ?case by (simp split: if_splits)
next
  case (Cons p ds)
  show ?case
  proof (cases "p \<in> u")
    case True
    then have "{s..e} \<subseteq> u \<union> set ds" using Cons.prems(3) by auto
    then show ?thesis using Cons.IH [OF Cons.prems(1,2)] True by simp
  next
    case False
    show ?thesis
    proof (cases "int (card (insert p u)) = e - s + 1")
      case neq: False
      then have "int (card (insert p u)) < e - s + 1" using Cons.prems(1,2) False by simp
      then have "draw_port avail (e - s + 1) ds (insert p u) \<noteq> None" using Cons.prems by (intro Cons.IH) auto
      then show ?thesis using False by simp
    qed (use False in simp)
  qed
qed

definition fair_draws :: "serve_env \<Rightarrow> bool" where
  "fair_draws env \<longleftrightarrow> (\<forall>call. set (en_draws env call) = {fst (en_range env)..snd (en_range env)})"

lemma free_port_returns: "fair_draws env \<Longrightarrow> finite u \<Longrightarrow> free_port env call u \<noteq> None"
  unfolding free_port_def get_free_port_def
  using draw_port_returns [of u "snd (en_range env)" "fst (en_range env)" "en_draws env call" "en_available env"]
  by (intro bind_drawn_total) (auto simp: fair_draws_def)

lemma free_port_sound:
  assumes "free_port env call u = Some (Inr (p, u'))"
  shows "p \<notin> u" and "insert p u \<subseteq> u'" and "finite u \<Longrightarrow> finite u'" and "en_available env p" and "p \<in> set (en_draws env call)"
proof -
  obtain v where v: "get_free_port (en_available env) (en_range env) (en_draws env call) u = Some (Inr (p, v))" "u' = insert p v"
    using assms by (auto simp: free_port_def bind_drawn_Inr)
  then have "draw_port (en_available env) (snd (en_range env) - fst (en_range env) + 1) (en_draws env call) u = Some (Inr (p, v))"
    by (simp add: get_free_port_def split: if_splits)
  from draw_port_sound [OF this] v(2) show "p \<notin> u" "insert p u \<subseteq> u'" "finite u \<Longrightarrow> finite u'" "en_available env p" "p \<in> set (en_draws env call)" by auto
qed

lemma cross_ports_returns: "fair_draws env \<Longrightarrow> finite u \<Longrightarrow> cross_ports env call n u \<noteq> None"
proof (induction n arbitrary: call u)
  case (Suc n)
  show ?case unfolding cross_ports.simps
  proof (rule bind_drawn_total [OF free_port_returns [OF Suc.prems]])
    fix v assume v: "free_port env call u = Some (Inr v)"
    obtain p w where pw: "v = (p, w)" by force
    have "finite w" using free_port_sound(3) [OF v [unfolded pw]] Suc.prems(2) by simp
    then show "(case v of (p, u) \<Rightarrow> bind_drawn (cross_ports env (Suc call) n u) (\<lambda>ps. Some (Inr (p # ps)))) \<noteq> None"
      using Suc.IH [OF Suc.prems(1)] unfolding pw by (simp add: bind_drawn_total)
  qed
qed simp

lemma cross_ports_sound:
  "cross_ports env call n u = Some (Inr ps) \<Longrightarrow>
   length ps = n \<and> distinct ps \<and> set ps \<inter> u = {} \<and> (\<forall>p \<in> set ps. en_available env p \<and> (\<exists>c. p \<in> set (en_draws env c)))"
proof (induction n arbitrary: call u ps)
  case (Suc n)
  obtain p w qs where q: "free_port env call u = Some (Inr (p, w))" "cross_ports env (Suc call) n w = Some (Inr qs)" "ps = p # qs"
    using Suc.prems by (auto simp: bind_drawn_Inr)
  from Suc.IH [OF q(2)] free_port_sound [OF q(1)] q(3) show ?case by auto
qed simp

lemma choose_ports_returns: "fair_draws env \<Longrightarrow> finite u \<Longrightarrow> choose_ports env r u \<noteq> None"
proof -
  assume f: "fair_draws env" "finite u"
  have "(case v of (port, u1) \<Rightarrow> if sub_list r = [] then Some (Inr [port])
        else bind_drawn (free_port env 1 u1) (\<lambda>(connecting, u2).
          bind_drawn (cross_ports env 2 (cross_port_count (en_model env (sv_model_id r))) (u2 \<union> master_band env (en_model env (sv_model_id r)) connecting)) (\<lambda>cross.
          Some (Inr (port # cross @ [connecting]))))) \<noteq> None" if v: "free_port env 0 u = Some (Inr v)" for v
  proof -
    obtain p w where pw: "v = (p, w)" by force
    have w: "finite w" using free_port_sound(3) [OF v [unfolded pw]] f(2) by simp
    have "(case x of (connecting, u2) \<Rightarrow>
          bind_drawn (cross_ports env 2 (cross_port_count (en_model env (sv_model_id r))) (u2 \<union> master_band env (en_model env (sv_model_id r)) connecting)) (\<lambda>cross.
          Some (Inr (p # cross @ [connecting])))) \<noteq> None" if x: "free_port env 1 w = Some (Inr x)" for x
    proof -
      obtain c u2 where c: "x = (c, u2)" by force
      have "finite (u2 \<union> master_band env (en_model env (sv_model_id r)) c)"
        using free_port_sound(3) [OF x [unfolded c]] w by (simp add: master_band_def)
      from cross_ports_returns [OF f(1) this] show ?thesis unfolding c by (simp add: bind_drawn_total)
    qed
    from bind_drawn_total [OF free_port_returns [OF f(1) w] this] show ?thesis unfolding pw by (cases "sub_list r = []") simp_all
  qed
  then show "choose_ports env r u \<noteq> None" unfolding choose_ports_def Let_def by (rule bind_drawn_total [OF free_port_returns [OF f]])
qed

text \<open>Chosen ports are distinct, new, free and in the range; for the multi-process executor the inner
  ports keep out of the band of the connecting port.\<close>

lemma choose_ports_sound:
  assumes "choose_ports env r u = Some (Inr ps)"
  shows "ps \<noteq> [] \<and> distinct ps \<and> set ps \<inter> u = {} \<and> (\<forall>p \<in> set ps. en_available env p \<and> (\<exists>c. p \<in> set (en_draws env c))) \<and>
    (sub_list r \<noteq> [] \<longrightarrow> length ps = 2 + cross_port_count (en_model env (sv_model_id r)) \<and>
       set (tl (butlast ps)) \<inter> master_band env (en_model env (sv_model_id r)) (last ps) = {})"
proof -
  let ?m = "en_model env (sv_model_id r)"
  obtain p w where p: "free_port env 0 u = Some (Inr (p, w))"
    and rest: "(if sub_list r = [] then Some (Inr [p])
       else bind_drawn (free_port env 1 w) (\<lambda>(c, u2). bind_drawn (cross_ports env 2 (cross_port_count ?m) (u2 \<union> master_band env ?m c)) (\<lambda>cross.
              Some (Inr (p # cross @ [c]))))) = Some (Inr ps)"
    using assms unfolding choose_ports_def Let_def bind_drawn_Inr by auto
  note p' = free_port_sound [OF p]
  show ?thesis
  proof (cases "sub_list r = []")
    case True
    with rest p' show ?thesis by auto
  next
    case False
    then obtain c u2 cross where c: "free_port env 1 w = Some (Inr (c, u2))"
      "cross_ports env 2 (cross_port_count ?m) (u2 \<union> master_band env ?m c) = Some (Inr cross)" "ps = p # cross @ [c]"
      using rest by (auto simp: bind_drawn_Inr)
    from cross_ports_sound [OF c(2)] free_port_sound [OF c(1)] p' c(3) show ?thesis by (auto simp: butlast_append)
  qed
qed


section \<open>What the operations touch\<close>

definition local_part :: "agent \<Rightarrow> agent" where
  "local_part ag = ag\<lparr>ag_server := []\<rparr>"

lemma update_local [simp]: "local_part (update_model_instance k f ag) = local_part ag"
  by (simp add: update_model_instance_def local_part_def split: option.split)

lemma patch_local [simp]: "local_part (patch_state env k r st msg ag) = local_part ag"
  by (simp add: patch_state_def Let_def split: option.split)

lemma started_local [simp]: "local_part (started_patch env k r ag) = local_part ag"
  by (simp add: started_patch_def)

lemma local_eq_fields:
  assumes "local_part a = local_part b"
  shows "ag_ports a = ag_ports b" "ag_known a = ag_known b" "ag_workloads a = ag_workloads b" "ag_processes a = ag_processes b"
    "ag_errors a = ag_errors b" "ag_backoff a = ag_backoff b"
  using assms by (auto simp: local_part_def elim: agent.cases) (metis agent.ext_inject agent.surjective agent.update_convs(10))+

lemmas patch_fields [simp] = local_eq_fields [OF patch_local] local_eq_fields [OF update_local] local_eq_fields [OF started_local]

lemma stop_fields [simp]:
  "ag_ports (stop_model_instance env k r c ag) = dpop k (ag_ports ag)"
  "ag_known (stop_model_instance env k r c ag) = dpop k (ag_known ag)"
  "ag_processes (stop_model_instance env k r c ag) = dpop k (ag_processes ag)"
  "ag_server (stop_model_instance env k r c ag) = ag_server ag"
  by (simp_all add: stop_model_instance_def)

lemma start_failed_fields:
  "ag_ports (start_failed env k r e ag) = (if dget (ag_processes ag) k \<noteq> None then dpop k (ag_ports ag) else ag_ports ag)"
  "ag_known (start_failed env k r e ag) = (if dget (ag_processes ag) k \<noteq> None then dpop k (ag_known ag) else ag_known ag)"
  by (simp_all add: start_failed_def Let_def)

lemma restart_error_fields [simp]:
  "ag_ports (restart_error_model_instance now k r ag) = ag_ports ag"
  "ag_known (restart_error_model_instance now k r ag) = ag_known ag"
  by (simp_all add: restart_error_model_instance_def Let_def)

lemma restart_round_fields [simp]: "ag_ports (restart_round now ag) = ag_ports ag" "ag_known (restart_round now ag) = ag_known ag"
proof -
  have "ag_ports (fold (\<lambda>(k, r). restart_error_model_instance now k r) xs a) = ag_ports a \<and>
      ag_known (fold (\<lambda>(k, r). restart_error_model_instance now k r) xs a) = ag_known a" for xs a
    by (induction xs arbitrary: a) auto
  then show "ag_ports (restart_round now ag) = ag_ports ag" "ag_known (restart_round now ag) = ag_known ag"
    by (simp_all add: restart_round_def)
qed

lemma sync_one_fields [simp]:
  "ag_ports (sync_one env x ag) = ag_ports ag" "ag_known (sync_one env x ag) = ag_known ag"
  "ag_workloads (sync_one env x ag) = ag_workloads ag" "ag_processes (sync_one env x ag) = ag_processes ag"
  by (cases x; simp add: sync_one_def sync_main_def sync_sub_def Let_def split: option.split distributed_state.split)+

lemma sync_rows_fields [simp]:
  "ag_ports (fold (sync_one env) xs ag) = ag_ports ag" "ag_known (fold (sync_one env) xs ag) = ag_known ag"
  "ag_workloads (fold (sync_one env) xs ag) = ag_workloads ag" "ag_processes (fold (sync_one env) xs ag) = ag_processes ag"
  by (induction xs arbitrary: ag) simp_all

lemma check_one_fields [simp]: "ag_ports (check_one env now x ag) = ag_ports ag" "ag_known (check_one env now x ag) = ag_known ag"
  by (cases x; simp add: check_one_def Let_def)+

lemma health_fields [simp]:
  "ag_ports (sync_model_instances_inference_health env now ag) = ag_ports ag"
  "ag_known (sync_model_instances_inference_health env now ag) = ag_known ag"
proof -
  have "ag_ports (fold (check_one env now) xs a) = ag_ports a \<and> ag_known (fold (check_one env now) xs a) = ag_known a" for xs a
    by (induction xs arbitrary: a) auto
  then show "ag_ports (sync_model_instances_inference_health env now ag) = ag_ports ag"
    "ag_known (sync_model_instances_inference_health env now ag) = ag_known ag"
    by (simp_all add: sync_model_instances_inference_health_def)
qed

section \<open>Steps of the agent\<close>

text \<open>The agent of worker \<open>w\<close> with its port range: its handlers and loops in any order, each with its own
  draws, probes and failures; between them processes, workloads, rows and traffic change freely.\<close>

inductive serve_step :: "int \<Rightarrow> int \<times> int \<Rightarrow> agent \<Rightarrow> agent \<Rightarrow> bool" for w rng where
  event: "en_worker env = w \<Longrightarrow> en_range env = rng \<Longrightarrow> (\<And>c. set (en_draws env c) \<subseteq> {fst rng..snd rng}) \<Longrightarrow>
    dispatch_model_instance_event env etype k r ag = Some ag' \<Longrightarrow> serve_step w rng ag ag'"
| sync: "en_worker env = w \<Longrightarrow> serve_step w rng ag (sync_model_instances_state env force cached ag)"
| restart: "serve_step w rng ag (restart_round now ag)"
| health: "serve_step w rng ag (sync_model_instances_inference_health env now ag)"
| outside: "ag_ports ag' = ag_ports ag \<Longrightarrow> ag_known ag' = ag_known ag \<Longrightarrow> ag_errors ag' = ag_errors ag \<Longrightarrow>
    ag_backoff ag' = ag_backoff ag \<Longrightarrow> serve_step w rng ag ag'"

inductive serve_reachable :: "int \<Rightarrow> int \<times> int \<Rightarrow> agent \<Rightarrow> bool" for w rng where
  fresh: "ag_ports ag = [] \<Longrightarrow> ag_known ag = [] \<Longrightarrow> ag_errors ag = [] \<Longrightarrow> ag_backoff ag = [] \<Longrightarrow> serve_reachable w rng ag"
| later: "serve_reachable w rng ag \<Longrightarrow> serve_step w rng ag ag' \<Longrightarrow> serve_reachable w rng ag'"

definition ports_apart :: "int \<times> int \<Rightarrow> (int, int set) dict \<Rightarrow> bool" where
  "ports_apart rng t \<longleftrightarrow> dict_ok t \<and> (\<forall>k S. dget t k = Some S \<longrightarrow> S \<noteq> {} \<and> S \<subseteq> {fst rng..snd rng}) \<and>
     (\<forall>k k' S S'. k \<noteq> k' \<and> dget t k = Some S \<and> dget t k' = Some S' \<longrightarrow> S \<inter> S' = {})"

lemma ports_apart_dpop: "ports_apart rng t \<Longrightarrow> ports_apart rng (dpop k t)"
  unfolding ports_apart_def by (simp add: dict_simps)

lemma ports_apart_dput:
  assumes "ports_apart rng t" and "S \<inter> \<Union>(set (dvals t)) = {}" and "S \<noteq> {}" and "S \<subseteq> {fst rng..snd rng}"
  shows "ports_apart rng (dput k S t)"
proof -
  have "S \<inter> S' = {}" if "dget t k' = Some S'" for k' S' using assms(2) dget_mem [OF that] by force
  with assms(1,3,4) show ?thesis unfolding ports_apart_def by (simp add: dict_simps) (metis Int_commute)
qed

lemma assign_ports_apart:
  assumes "assign_ports env k r t = Some (Inr (r', t'))" and "ports_apart rng t" and "\<And>c. set (en_draws env c) \<subseteq> {fst rng..snd rng}"
  shows "ports_apart rng t'"
proof (cases "truthy (sv_port r)")
  case True
  with assms show ?thesis by (simp add: assign_ports_def)
next
  case False
  obtain ps where ps: "choose_ports env r (\<Union>(set (dvals t))) = Some (Inr ps)" "t' = dput k (set ps) t"
    using assms(1) False by (auto simp: assign_ports_def bind_drawn_Inr)
  note c = choose_ports_sound [OF ps(1)]
  have "set ps \<inter> \<Union>(set (dvals t)) = {}" "set ps \<noteq> {}" using c by simp_all
  moreover have "set ps \<subseteq> {fst rng..snd rng}" using c assms(3) by blast
  ultimately show ?thesis unfolding ps(2) by (rule ports_apart_dput [OF assms(2)])
qed

lemma start_cases:
  assumes "start_model_instance env k r ag = Some ag'"
  shows "ag' = ag \<or>
    (\<exists>e. assign_ports env k r (ag_ports ag) = Some (Inl e) \<and> ag' = start_failed env k r ''No free port available in the port range.'' ag) \<or>
    (\<exists>r' t e. assign_ports env k r (ag_ports ag) = Some (Inr (r', t)) \<and> ag' = start_failed env k r' e (ag\<lparr>ag_ports := t\<rparr>)) \<or>
    (\<exists>r' t. assign_ports env k r (ag_ports ag) = Some (Inr (r', t)) \<and> en_start_error env k = None \<and>
       ag' = started_patch env k r' (ag\<lparr>ag_ports := t, ag_processes := dput k True (ag_processes ag)\<rparr>))"
proof (cases "proc_alive k ag \<or> sv_worker_id r \<noteq> Some (en_worker env) \<and> sub_position (en_worker env) r = None")
  case True
  then show ?thesis using assms by (auto simp: start_model_instance_def split: if_splits)
next
  case False
  then have n: "\<not> proc_alive k ag" "\<not> (sv_worker_id r \<noteq> Some (en_worker env) \<and> sub_position (en_worker env) r = None)" by blast+
  have st: "start_model_instance env k r ag =
      (case assign_ports env k r (ag_ports ag) of
         None \<Rightarrow> None
       | Some (Inl e) \<Rightarrow> Some (start_failed env k r ''No free port available in the port range.'' ag)
       | Some (Inr (r', table)) \<Rightarrow> let ag1 = ag\<lparr>ag_ports := table\<rparr>
           in Some (case en_start_error env k of
                Some e \<Rightarrow> start_failed env k r' e ag1
              | None \<Rightarrow> started_patch env k r' (ag1\<lparr>ag_processes := dput k True (ag_processes ag1)\<rparr>)))"
    unfolding start_model_instance_def if_not_P [OF n(1)] if_not_P [OF n(2)] ..
  show ?thesis
  proof (cases "assign_ports env k r (ag_ports ag)")
    case None
    with st assms show ?thesis by simp
  next
    case (Some x)
    show ?thesis
    proof (cases x)
      case (Inl e)
      with st assms Some show ?thesis by simp
    next
      case (Inr y)
      obtain r' t where y: "y = (r', t)" by force
      with st assms Some Inr show ?thesis by (cases "en_start_error env k") (auto simp: Let_def)
    qed
  qed
qed

lemma start_ports_apart:
  assumes "start_model_instance env k r ag = Some ag'" and "ports_apart rng (ag_ports ag)" and "\<And>c. set (en_draws env c) \<subseteq> {fst rng..snd rng}"
  shows "ports_apart rng (ag_ports ag')"
proof -
  from start_cases [OF assms(1)] consider "ag' = ag"
    | "ag' = start_failed env k r ''No free port available in the port range.'' ag"
    | r' t e where "assign_ports env k r (ag_ports ag) = Some (Inr (r', t))" "ag' = start_failed env k r' e (ag\<lparr>ag_ports := t\<rparr>)"
    | r' t where "assign_ports env k r (ag_ports ag) = Some (Inr (r', t))"
        "ag' = started_patch env k r' (ag\<lparr>ag_ports := t, ag_processes := dput k True (ag_processes ag)\<rparr>)" by blast
  then show ?thesis
  proof cases
    case 2
    then show ?thesis using assms(2) by (simp add: start_failed_fields ports_apart_dpop)
  next
    case 3
    then show ?thesis using assign_ports_apart [OF 3(1) assms(2,3)] by (simp add: start_failed_fields ports_apart_dpop)
  next
    case 4
    then show ?thesis using assign_ports_apart [OF 4(1) assms(2,3)] by simp
  qed (use assms(2) in simp)
qed

lemma reap_one_ports: "ports_apart rng (ag_ports ag) \<Longrightarrow> ports_apart rng (ag_ports (reap_one env k ag))"
  by (simp add: reap_one_def ports_apart_dpop split: option.split)

lemma reap_ports: "ports_apart rng (ag_ports ag) \<Longrightarrow> ports_apart rng (ag_ports (fold (reap_one env) ks ag))"
  by (induction ks arbitrary: ag) (simp_all add: reap_one_ports)

lemma sync_ports: "ports_apart rng (ag_ports ag) \<Longrightarrow> ports_apart rng (ag_ports (sync_model_instances_state env force cached ag))"
  by (simp add: sync_model_instances_state_def reap_ports split: prod.split)

lemma dispatch_ports:
  assumes "dispatch_model_instance_event env etype k r ag = Some ag'" and "ports_apart rng (ag_ports ag)"
    and "\<And>c. set (en_draws env c) \<subseteq> {fst rng..snd rng}"
  shows "ports_apart rng (ag_ports ag')"
proof -
  have st: "ports_apart rng (ag_ports b)" if "start_model_instance env k r a = Some b" "ports_apart rng (ag_ports a)" for a b
    using start_ports_apart [OF that(1,2) assms(3)] .
  have up: "ports_apart rng (ag_ports b)" if "dispatch_updated env k r a = Some b" "ports_apart rng (ag_ports a)" for a b
    using that st [of "stop_model_instance env k r False a" b] st [of a b]
    by (auto simp: dispatch_updated_def restart_model_instance_def ports_apart_dpop split: if_splits option.splits)
  have known: "ag_ports (ag\<lparr>ag_known := x\<rparr>) = ag_ports ag" for x by simp
  show ?thesis using assms(1,2) up [of _ ag'] st [of _ ag']
    unfolding dispatch_model_instance_event_def by (auto simp: Let_def split: if_splits event_type.splits)
qed


lemma reachable_ports: "serve_reachable w rng ag \<Longrightarrow> ports_apart rng (ag_ports ag)"
proof (induction rule: serve_reachable.induct)
  case (fresh ag)
  then show ?case by (simp add: ports_apart_def)
next
  case (later ag ag')
  from later.hyps(2) later.IH show ?case
    by cases (simp_all add: dispatch_ports sync_ports)
qed

section \<open>Properties\<close>

text \<open>C7: no two instances share a port. In every reachable state of the agent, whatever events, syncs,
  restarts, failures and changes outside came in which order, the ports reserved for two instances are
  disjoint, and every reserved port lies in the configured range.\<close>

theorem reserved_ports_disjoint:
  assumes "serve_reachable w rng ag" and "dget (ag_ports ag) k = Some S"
  shows "S \<noteq> {} \<and> S \<subseteq> {fst rng..snd rng} \<and> (\<forall>k' S'. k' \<noteq> k \<and> dget (ag_ports ag) k' = Some S' \<longrightarrow> S \<inter> S' = {})"
  using reachable_ports [OF assms(1)] assms(2) unfolding ports_apart_def by metis

text \<open>Only instances with this worker as their main worker are ever cached, so that only they are reaped.\<close>

definition known_main :: "int \<Rightarrow> agent \<Rightarrow> bool" where
  "known_main w ag \<longleftrightarrow> (\<forall>k r. dget (ag_known ag) k = Some r \<longrightarrow> sv_worker_id r = Some w)"

lemma start_known:
  assumes "start_model_instance env k r ag = Some ag'"
  shows "ag_known ag' = ag_known ag \<or> ag_known ag' = dpop k (ag_known ag)"
  using start_cases [OF assms] by (auto simp: start_failed_fields)

lemma known_main_dpop: "known_main w (ag\<lparr>ag_known := d\<rparr>) \<Longrightarrow> ag_known ag' = d \<or> ag_known ag' = dpop k d \<Longrightarrow> known_main w ag'"
  by (auto simp: known_main_def dict_simps split: if_splits)

lemma dispatch_known:
  assumes "dispatch_model_instance_event env etype k r ag = Some ag'" and "known_main (en_worker env) ag"
  shows "known_main (en_worker env) ag'"
proof -
  have st: "known_main (en_worker env) b" if "start_model_instance env k r a = Some b" "known_main (en_worker env) a" for a b
    using start_known [OF that(1)] that(2) known_main_dpop [where ag = a and d = "ag_known a" and ag' = b and k = k] by (simp add: known_main_def)
  have sp: "known_main (en_worker env) (stop_model_instance env k r c a)" if "known_main (en_worker env) a" for a c
    using that by (simp add: known_main_def dict_simps)
  have up: "known_main (en_worker env) b" if "dispatch_updated env k r a = Some b" "known_main (en_worker env) a" for a b
  proof -
    have "known_main (en_worker env) (a\<lparr>ag_errors := x\<rparr>)" for x using that(2) by (simp add: known_main_def)
    then show ?thesis using that st sp by (auto simp: dispatch_updated_def restart_model_instance_def split: if_splits option.splits)
  qed
  let ?ag1 = "if sv_worker_id r = Some (en_worker env) then ag\<lparr>ag_known := dput k r (ag_known ag)\<rparr> else ag"
  have k1: "known_main (en_worker env) ?ag1" using assms(2) by (auto simp: known_main_def dict_simps)
  have "ag' = ?ag1 \<or> dispatch_updated env k r ?ag1 = Some ag' \<or> start_model_instance env k r ?ag1 = Some ag'"
    using assms(1) unfolding dispatch_model_instance_event_def Let_def by (cases etype) (auto split: if_splits)
  then show ?thesis using k1 up st by blast
qed

lemma reap_known: "known_main w ag \<Longrightarrow> known_main w (fold (reap_one env) ks ag)"
proof (induction ks arbitrary: ag)
  case (Cons k ks)
  have "known_main w (reap_one env k ag)" using Cons.prems by (auto simp: reap_one_def known_main_def dict_simps split: option.splits)
  then show ?case using Cons.IH by simp
qed simp

lemma reachable_known: "serve_reachable w rng ag \<Longrightarrow> known_main w ag"
proof (induction rule: serve_reachable.induct)
  case (later ag ag')
  from later.hyps(2) show ?case
  proof cases
    case (event env etype k r)
    with dispatch_known [OF event(4)] later.IH show ?thesis by simp
  next
    case (sync env force cached)
    have "known_main w (fold (sync_one env) rows (fold (reap_one env) ks ag))" for rows ks
      using reap_known [OF later.IH, of env ks] by (simp add: known_main_def)
    then show ?thesis using sync by (simp add: sync_model_instances_state_def split: prod.split)
  qed (use later.IH in \<open>simp_all add: known_main_def\<close>)
qed (simp add: known_main_def)

text \<open>A deleted instance whose subordinate this worker was is not among the instances to reap.\<close>

lemma subordinate_never_reaped:
  assumes "serve_reachable w rng ag" and "en_worker env = w" and "k \<in> set (fst (reap_plan env force cached ag))"
  shows "\<exists>r. (k, r) \<in> set (ag_known ag) \<and> (dict_ok (ag_known ag) \<longrightarrow> sv_worker_id r = Some w)"
proof -
  obtain r where r: "(k, r) \<in> set (ag_known ag)" using assms(3) by (auto simp: reap_plan_def here_keys_def Let_def split: if_splits)
  with reachable_known [OF assms(1)] show ?thesis unfolding known_main_def by (meson map_of_is_SomeI)
qed

text \<open>A restart keeps the ports of an instance in its row and gives up their reservation.\<close>

lemma restart_drops_reservation:
  assumes "truthy (sv_port r)" and "restart_model_instance env k r ag = Some ag'"
  shows "dget (ag_ports ag') k = None"
proof -
  have "assign_ports env k r (ag_ports (stop_model_instance env k r False ag)) = Some (Inr (r, dpop k (ag_ports ag)))"
    using assms(1) by (simp add: assign_ports_def)
  with start_cases [OF assms(2) [unfolded restart_model_instance_def]] show ?thesis
    by (auto simp: start_failed_fields dict_simps)
qed

section \<open>Running and restarting\<close>

text \<open>What a row must satisfy to be reported as running by its main worker.\<close>

definition may_run :: "serve_env \<Rightarrow> agent \<Rightarrow> int \<times> serve_instance \<Rightarrow> bool" where
  "may_run env ag = (\<lambda>(k, r).
     sv_worker_id r = Some (en_worker env) \<and> \<not> proc_alive k ag \<and> dget (ag_workloads ag) (sv_name r) = Some WL_RUNNING \<and>
     sv_state r \<noteq> ERROR \<and> en_ready env r \<and> list_all (\<lambda>s. su_state s = RUNNING) (sub_list r))"

definition row_state :: "int \<Rightarrow> agent \<Rightarrow> instance_state option" where
  "row_state k ag = map_option sv_state (dget (ag_server ag) k)"

lemma row_state_update:
  "row_state k (update_model_instance j f ag) = (if j = k then map_option (\<lambda>r. sv_state (f r)) (dget (ag_server ag) k) else row_state k ag)"
  by (auto simp: row_state_def update_model_instance_def dict_simps split: option.split)

lemma row_state_patch_other: "j \<noteq> k \<Longrightarrow> row_state k (patch_state env j r st msg ag) = row_state k ag"
  by (auto simp: patch_state_def row_state_update Let_def split: option.split)

lemma set_sub_state [simp]: "sv_state (set_sub i s r) = sv_state r"
  by (simp add: set_sub_def)

lemma row_state_patch:
  "row_state k (patch_state env k r st msg ag) = row_state k ag \<or>
   (sv_worker_id r = Some (en_worker env) \<and> row_state k (patch_state env k r st msg ag) = Some st)"
  using row_state_def [of k ag]
  by (cases "dget (ag_server ag) k") (auto simp: patch_state_def row_state_update Let_def split: option.split)


lemma may_run_fields: "ag_workloads a = ag_workloads b \<Longrightarrow> ag_processes a = ag_processes b \<Longrightarrow> may_run env a x = may_run env b x"
  by (simp add: may_run_def proc_alive_def case_prod_unfold)

lemma distributed_all_running: "get_main_worker_distributed_state r = AllRunning \<Longrightarrow> list_all (\<lambda>s. su_state s = RUNNING) (sub_list r)"
  by (simp add: get_main_worker_distributed_state_def split: option.splits if_splits)

lemma distributed_report: "get_main_worker_distributed_state r = Report b st msg \<Longrightarrow> st \<in> {ERROR, UNREACHABLE}"
  by (auto simp: get_main_worker_distributed_state_def split: option.splits if_splits)

lemma row_state_backoff [simp]: "row_state k (ag\<lparr>ag_backoff := b\<rparr>) = row_state k ag"
  by (simp add: row_state_def)

text \<open>How one row is handled, by the state of its workload.\<close>

lemma sync_one_cases:
  "sync_one env (j, r) ag = ag \<or> (\<exists>msg. sync_one env (j, r) ag = patch_state env j r ERROR (Some msg) ag) \<or>
   (\<not> proc_alive j ag \<and> sv_worker_id r = Some (en_worker env) \<and> dget (ag_workloads ag) (sv_name r) = Some WL_RUNNING \<and>
      sync_one env (j, r) ag = sync_main env j r ag) \<or>
   (sv_worker_id r \<noteq> Some (en_worker env) \<and> sync_one env (j, r) ag = sync_sub env j r ag)"
proof (cases "proc_alive j ag")
  case True
  then show ?thesis by (simp add: sync_one_def)
next
  case False
  define wl where "wl = dget (ag_workloads ag) (if sv_worker_id r = Some (en_worker env) then sv_name r else workload_name (en_worker env) r)"
  have eq: "sync_one env (j, r) ag =
      (if wl = Some WL_PENDING \<or> wl = Some WL_INITIALIZING then ag
       else if (case wl of None \<Rightarrow> True | Some st \<Rightarrow> dead_workload st)
         then (if sv_state r \<noteq> ERROR then patch_state env j r ERROR (Some (en_describe env wl)) ag else ag)
       else if sv_worker_id r = Some (en_worker env) then sync_main env j r ag else sync_sub env j r ag)"
    using False by (simp add: sync_one_def wl_def Let_def)
  show ?thesis
  proof (cases "wl = Some WL_RUNNING")
    case True
    then show ?thesis using eq False by (cases "sv_worker_id r = Some (en_worker env)") (auto simp: wl_def dead_workload_def)
  next
    case nr: False
    then have "sync_one env (j, r) ag = ag \<or> sync_one env (j, r) ag = patch_state env j r ERROR (Some (en_describe env wl)) ag"
    proof (cases wl)
      case None
      then show ?thesis unfolding eq by simp
    next
      case (Some st)
      with nr show ?thesis unfolding eq by (cases st) (simp_all add: dead_workload_def)
    qed
    then show ?thesis by blast
  qed
qed


lemma sync_one_running:
  assumes "row_state k ag \<noteq> Some RUNNING" and "row_state k (sync_one env (j, r) ag) = Some RUNNING"
  shows "j = k \<and> may_run env ag (k, r)"
proof -
  have patch: "j = k \<and> sv_worker_id r = Some (en_worker env) \<and> st = RUNNING"
    if "row_state k (patch_state env j r st msg a) = Some RUNNING" "row_state k a \<noteq> Some RUNNING" for st msg a
    using row_state_patch [of k env r st msg a] row_state_patch_other [of j k env r st msg a] that by (cases "j = k") auto
  from sync_one_cases [of env j r ag] consider "sync_one env (j, r) ag = ag"
    | msg where "sync_one env (j, r) ag = patch_state env j r ERROR (Some msg) ag"
    | "\<not> proc_alive j ag" "sv_worker_id r = Some (en_worker env)" "dget (ag_workloads ag) (sv_name r) = Some WL_RUNNING" "sync_one env (j, r) ag = sync_main env j r ag"
    | "sv_worker_id r \<noteq> Some (en_worker env)" "sync_one env (j, r) ag = sync_sub env j r ag" by blast
  then show ?thesis
  proof cases
    case 1
    with assms show ?thesis by simp
  next
    case 2
    with assms patch show ?thesis by force
  next
    case 3
    show ?thesis
    proof (cases "get_main_worker_distributed_state r")
      case AllRunning
      then have "sv_state r \<noteq> ERROR" "en_ready env r" "j = k"
        using assms 3(4) patch [of RUNNING "Some []" "ag\<lparr>ag_backoff := dpop j (ag_backoff ag)\<rparr>"]
        by (auto simp: sync_main_def split: if_splits)
      then show ?thesis using 3(1-3) distributed_all_running [OF AllRunning] by (simp add: may_run_def)
    next
      case Waiting
      then show ?thesis using assms 3(4) by (simp add: sync_main_def)
    next
      case (Report upd st msg)
      then show ?thesis using assms 3(4) patch [of st "Some msg" ag] distributed_report [OF Report]
        by (auto simp: sync_main_def split: if_splits)
    qed
  next
    case 4
    then show ?thesis using assms patch [of RUNNING "Some []" ag] by (auto simp: sync_sub_def split: if_splits option.splits)
  qed
qed

lemma sync_rows_running:
  "row_state k ag \<noteq> Some RUNNING \<Longrightarrow> row_state k (fold (sync_one env) rows ag) = Some RUNNING \<Longrightarrow>
   \<exists>r. (k, r) \<in> set rows \<and> may_run env ag (k, r)"
proof (induction rows arbitrary: ag)
  case (Cons x rows)
  obtain j r where x: "x = (j, r)" by force
  show ?case
  proof (cases "row_state k (sync_one env x ag) = Some RUNNING")
    case True
    from sync_one_running [OF Cons.prems(1) True [unfolded x]] x show ?thesis by auto
  next
    case False
    with Cons.IH [of "sync_one env x ag"] Cons.prems(2) obtain r' where "(k, r') \<in> set rows" "may_run env (sync_one env x ag) (k, r')" by auto
    moreover have "may_run env (sync_one env x ag) (k, r') = may_run env ag (k, r')" by (rule may_run_fields) simp_all
    ultimately show ?thesis by auto
  qed
qed simp

lemma reap_server [simp]: "ag_server (fold (reap_one env) ks ag) = ag_server ag"
proof (induction ks arbitrary: ag)
  case (Cons k ks)
  have "ag_server (reap_one env k ag) = ag_server ag" by (simp add: reap_one_def split: option.split)
  with Cons show ?case by simp
qed simp

lemma rows_to_sync_mem: "(k, r) \<in> set (rows_to_sync env rows) \<Longrightarrow> (k, r) \<in> set rows"
  by (auto simp: rows_to_sync_def split: if_splits)

text \<open>C8: an instance is reported running only when it serves. When a sync turns a row of the server
  that was not running into a running one, then it worked from a row of the instance whose main worker
  this is and which was not failed, no provisioning process is alive, the workload is running, the
  health probe succeeds, and every subordinate worker is running.\<close>

theorem running_only_when_serving:
  assumes "row_state k ag \<noteq> Some RUNNING" and "row_state k (sync_model_instances_state env force cached ag) = Some RUNNING"
  shows "\<exists>r. (k, r) \<in> set (snd (reap_plan env force cached ag)) \<and>
    sv_worker_id r = Some (en_worker env) \<and> sv_state r \<noteq> ERROR \<and> en_ready env r \<and> list_all (\<lambda>s. su_state s = RUNNING) (sub_list r) \<and>
    dget (ag_workloads (sync_model_instances_state env force cached ag)) (sv_name r) = Some WL_RUNNING \<and>
    \<not> proc_alive k (sync_model_instances_state env force cached ag)"
proof -
  obtain reap rows where p: "reap_plan env force cached ag = (reap, rows)" by force
  let ?a = "fold (reap_one env) reap ag"
  have eq: "sync_model_instances_state env force cached ag = fold (sync_one env) (rows_to_sync env rows) ?a"
    by (simp add: sync_model_instances_state_def p)
  have "row_state k ?a \<noteq> Some RUNNING" using assms(1) by (simp add: row_state_def)
  from sync_rows_running [OF this assms(2) [unfolded eq]] obtain r where
    r: "(k, r) \<in> set (rows_to_sync env rows)" "may_run env ?a (k, r)" by blast
  have "may_run env (sync_model_instances_state env force cached ag) (k, r)"
    using r(2) may_run_fields [of "fold (sync_one env) (rows_to_sync env rows) ?a" ?a] unfolding eq by simp
  then show ?thesis using rows_to_sync_mem [OF r(1)] p by (auto simp: may_run_def)
qed

section \<open>Reaping\<close>

lemma reap_one_other:
  "j \<noteq> k \<Longrightarrow> dget (ag_known (reap_one env j ag)) k = dget (ag_known ag) k \<and> dget (ag_ports (reap_one env j ag)) k = dget (ag_ports ag) k \<and>
   dget (ag_processes (reap_one env j ag)) k = dget (ag_processes ag) k"
  by (simp add: reap_one_def dict_simps split: option.split)

lemma reap_other:
  "k \<notin> set ks \<Longrightarrow> dget (ag_known (fold (reap_one env) ks ag)) k = dget (ag_known ag) k \<and>
   dget (ag_ports (fold (reap_one env) ks ag)) k = dget (ag_ports ag) k \<and>
   dget (ag_processes (fold (reap_one env) ks ag)) k = dget (ag_processes ag) k"
proof (induction ks arbitrary: ag)
  case (Cons j ks)
  then show ?case using reap_one_other [of j k env ag] by simp
qed simp

lemma reap_gone:
  assumes "k \<in> set ks" and "dget (ag_known ag) k \<noteq> None"
  shows "dget (ag_known (fold (reap_one env) ks ag)) k = None \<and> dget (ag_ports (fold (reap_one env) ks ag)) k = None \<and>
    dget (ag_processes (fold (reap_one env) ks ag)) k = None"
  using assms
proof (induction ks arbitrary: ag)
  case (Cons j ks)
  have stay: "dget (ag_known (fold (reap_one env) ks b)) k = None \<and> dget (ag_ports (fold (reap_one env) ks b)) k = None \<and>
      dget (ag_processes (fold (reap_one env) ks b)) k = None"
    if "dget (ag_known b) k = None" "dget (ag_ports b) k = None" "dget (ag_processes b) k = None" for b
    using that
  proof (induction ks arbitrary: b)
    case (Cons i ks)
    have "dget (ag_known (reap_one env i b)) k = None" "dget (ag_ports (reap_one env i b)) k = None" "dget (ag_processes (reap_one env i b)) k = None"
      using Cons.prems by (auto simp: reap_one_def dict_simps split: option.split)
    then show ?case using Cons.IH by simp
  qed simp
  show ?case
  proof (cases "j = k")
    case True
    obtain r where "dget (ag_known ag) k = Some r" using Cons.prems(2) by blast
    then have "dget (ag_known (reap_one env j ag)) k = None" "dget (ag_ports (reap_one env j ag)) k = None"
      "dget (ag_processes (reap_one env j ag)) k = None" using True by (simp_all add: reap_one_def dict_simps)
    from stay [OF this] show ?thesis by simp
  next
    case False
    then have "k \<in> set ks" "dget (ag_known (reap_one env j ag)) k \<noteq> None" using Cons.prems reap_one_other [of j k env ag] by auto
    from Cons.IH [OF this] show ?thesis by simp
  qed
qed simp

lemma here_keys_dget: "dict_ok rows \<Longrightarrow> k \<in> set (here_keys env rows) \<longleftrightarrow> (\<exists>r. dget rows k = Some r \<and> get_deployment_metadata (en_worker env) r \<noteq> None)"
  by (auto simp: here_keys_def image_iff)



section \<open>Restarts and termination\<close>

lemma restart_delay_bounds: "0 \<le> restart_delay b" "restart_delay b \<le> 300" "0 < b \<Longrightarrow> 10 \<le> restart_delay b"
proof -
  have "(1 :: rat) \<le> 2 ^ n" for n by simp
  then show "0 \<le> restart_delay b" "0 < b \<Longrightarrow> 10 \<le> restart_delay b" by (auto simp: restart_delay_def)
qed (simp add: restart_delay_def)

text \<open>An early attempt changes nothing.\<close>

lemma restart_waits:
  assumes "dget (ag_backoff ag) k = Some b" and "0 < b" and "sv_last_restart r = Some t" and "now - t < restart_delay b"
  shows "restart_error_model_instance now k r ag = ag"
  using assms by (simp add: restart_error_model_instance_def Let_def)

lemma restart_error_due:
  assumes "\<not> proc_alive k ag" and "dget (ag_server ag) k = Some row"
    and "\<And>t. (case sv_last_restart r of None \<Rightarrow> sv_updated r | t \<Rightarrow> t) = Some t \<Longrightarrow> 300 \<le> now - t"
  shows "\<exists>row'. dget (ag_server (restart_error_model_instance now k r ag)) k = Some row' \<and> sv_state row' = SCHEDULED \<and>
    sv_last_restart row' = Some now \<and> sv_worker_id row' = sv_worker_id row \<and> sv_servers row' = sv_servers row \<and>
    sv_port row' = sv_port row \<and> dget (ag_errors (restart_error_model_instance now k r ag)) k = None"
proof -
  let ?b = "case dget (ag_backoff ag) k of None \<Rightarrow> 0 | Some n \<Rightarrow> n"
  have due: "\<not> (?b > 0 \<and> (case (case sv_last_restart r of None \<Rightarrow> sv_updated r | t \<Rightarrow> t) of None \<Rightarrow> False | Some t \<Rightarrow> now - t < restart_delay ?b))"
    using assms(3) restart_delay_bounds(2) [of ?b] by (cases "case sv_last_restart r of None \<Rightarrow> sv_updated r | t \<Rightarrow> t") force+
  show ?thesis using assms(2)
    unfolding restart_error_model_instance_def Let_def if_not_P [OF assms(1)] if_not_P [OF due]
    by (simp add: update_model_instance_def dict_simps)
qed

lemma start_with_port:
  assumes "\<not> proc_alive k ag" and "sv_worker_id r = Some (en_worker env)" and "truthy (sv_port r)" and "en_start_error env k = None"
    and "dget (ag_server ag) k \<noteq> None"
  shows "\<exists>ag'. start_model_instance env k r ag = Some ag' \<and> proc_alive k ag' \<and> row_state k ag' = Some INITIALIZING"
proof -
  have "start_model_instance env k r ag = Some (started_patch env k r (ag\<lparr>ag_processes := dput k True (ag_processes ag)\<rparr>))"
    using assms(1-4) by (simp add: start_model_instance_def assign_ports_def Let_def)
  moreover obtain row where "dget (ag_server ag) k = Some row" using assms(5) by blast
  ultimately show ?thesis using assms(2)
    by (auto simp: started_patch_def proc_alive_def dict_simps row_state_update)
qed


lemma reservations_finite: "ports_apart rng t \<Longrightarrow> finite (\<Union>(set (dvals t)))"
proof (intro finite_Union)
  fix S assume p: "ports_apart rng t" and "S \<in> set (dvals t)"
  then obtain j where "(j, S) \<in> set t" by auto
  then have "dget t j = Some S" using p by (simp add: ports_apart_def)
  then show "finite S" using p unfolding ports_apart_def by (meson finite_atLeastAtMost_int finite_subset)
qed simp

lemma assign_returns:
  assumes "fair_draws env" and "finite (\<Union>(set (dvals t)))"
  shows "assign_ports env k r t \<noteq> None"
proof -
  have "bind_drawn (choose_ports env r (\<Union>(set (dvals t)))) (\<lambda>ports.
      Some (Inr (r\<lparr>sv_port := Some (hd ports), sv_ports := ports\<rparr>, dput k (set ports) t))) \<noteq> None"
    by (rule bind_drawn_total [OF choose_ports_returns [OF assms]]) simp
  then show ?thesis by (simp add: assign_ports_def)
qed

lemma start_returns:
  assumes "fair_draws env" and "finite (\<Union>(set (dvals (ag_ports ag))))"
  shows "start_model_instance env k r ag \<noteq> None"
  using assign_returns [OF assms, of k r] by (auto simp: start_model_instance_def Let_def split: option.splits sum.splits)

text \<open>On its main worker an instance comes up, unless the range is exhausted.\<close>

lemma main_start:
  assumes "dget (ag_processes ag) k = None" and "sv_worker_id r = Some (en_worker env)" and "en_start_error env k = None"
    and "dget (ag_server ag) k \<noteq> None" and "fair_draws env" and "finite (\<Union>(set (dvals (ag_ports ag))))"
  shows "\<exists>ag'. start_model_instance env k r ag = Some ag' \<and>
    (if \<exists>e. assign_ports env k r (ag_ports ag) = Some (Inl e) then row_state k ag' = Some ERROR
     else proc_alive k ag' \<and> row_state k ag' = Some INITIALIZING)"
proof -
  have n: "\<not> proc_alive k ag" "\<not> (sv_worker_id r \<noteq> Some (en_worker env) \<and> sub_position (en_worker env) r = None)"
    using assms(1,2) by (simp_all add: proc_alive_def)
  obtain row where row: "dget (ag_server ag) k = Some row" using assms(4) by blast
  obtain x where x: "assign_ports env k r (ag_ports ag) = Some x" using assign_returns [OF assms(5,6)] by blast
  show ?thesis
  proof (cases x)
    case (Inl e)
    then show ?thesis using x row assms(1,2) unfolding start_model_instance_def if_not_P [OF n(1)] if_not_P [OF n(2)]
      by (simp add: start_failed_def patch_state_def row_state_update)
  next
    case (Inr y)
    obtain r' t where y: "y = (r', t)" by force
    have "sv_worker_id r' = sv_worker_id r" using x Inr y by (auto simp: assign_ports_def bind_drawn_Inr split: if_splits)
    then show ?thesis using x Inr y row assms(1-3) unfolding start_model_instance_def if_not_P [OF n(1)] if_not_P [OF n(2)]
      by (simp add: Let_def started_patch_def row_state_update proc_alive_def dict_simps)
  qed
qed

text \<open>C40: handling an event always ends. In every reachable state, when each series of drawn ports goes
  through the whole range, the handler of an event returns: it finds free ports or reports that there
  are none.\<close>

theorem event_handling_terminates:
  assumes "serve_reachable w rng ag" and "fair_draws env"
  shows "\<exists>ag'. dispatch_model_instance_event env etype k r ag = Some ag'"
proof -
  have st: "start_model_instance env k r a \<noteq> None" if "finite (\<Union>(set (dvals (ag_ports a))))" for a
    by (rule start_returns [OF assms(2) that])
  note fin = reservations_finite [OF reachable_ports [OF assms(1)]]
  have fin': "finite (\<Union>(set (dvals (dpop k (ag_ports ag)))))"
    using set_dpop_subset [of k "ag_ports ag"] by (intro finite_subset [OF _ fin]) auto
  have "dispatch_model_instance_event env etype k r ag \<noteq> None"
    using st fin fin' unfolding dispatch_model_instance_event_def dispatch_updated_def restart_model_instance_def
    by (auto simp: Let_def split: event_type.split option.split)
  then show ?thesis by blast
qed


section \<open>Witnesses on sample data\<close>

definition sample_serve_env :: serve_env where
  "sample_serve_env = \<lparr>en_worker = 1,
     en_model = (\<lambda>_. \<lparr>vm_restart_on_error = True, vm_vllm = True, vm_executor = Mp, vm_dp = None, vm_check_enabled = False,
                      vm_check_interval = 300, vm_check_threshold = 3\<rparr>),
     en_range = (40000, 40003), en_available = (\<lambda>p. p \<noteq> 40001), en_draws = (\<lambda>_. [40000, 40001, 40002, 40003]),
     en_start_error = (\<lambda>_. None), en_ready = (\<lambda>_. True), en_inference_ok = (\<lambda>_. True), en_describe = (\<lambda>_. ''exited'')\<rparr>"

definition sample_serving :: "instance_state \<Rightarrow> serve_instance" where
  "sample_serving st = \<lparr>sv_name = ''m-a'', sv_model_id = 1, sv_state = st, sv_message = [], sv_worker_id = Some 1, sv_port = None, sv_ports = [],
     sv_servers = None, sv_restarts = None, sv_last_restart = None, sv_updated = Some 0\<rparr>"

definition idle_agent :: agent where
  "idle_agent = \<lparr>ag_processes = [], ag_errors = [], ag_known = [], ag_ports = [], ag_backoff = [], ag_failures = [], ag_checked = [],
     ag_succeeded = [], ag_workloads = [], ag_server = [(1, sample_serving PENDING), (2, sample_serving PENDING)]\<rparr>"

definition after_created :: "int \<Rightarrow> agent \<Rightarrow> agent" where
  "after_created k ag = the (dispatch_model_instance_event sample_serve_env CREATED k (sample_serving PENDING) ag)"

lemma after_created_some:
  "dispatch_model_instance_event sample_serve_env CREATED 1 (sample_serving PENDING) idle_agent = Some (after_created 1 idle_agent)"
  "dispatch_model_instance_event sample_serve_env CREATED 2 (sample_serving PENDING) (after_created 1 idle_agent) =
     Some (after_created 2 (after_created 1 idle_agent))"
proof -
  have "dispatch_model_instance_event sample_serve_env CREATED 1 (sample_serving PENDING) idle_agent \<noteq> None"
    "dispatch_model_instance_event sample_serve_env CREATED 2 (sample_serving PENDING) (after_created 1 idle_agent) \<noteq> None" by code_simp+
  then show "dispatch_model_instance_event sample_serve_env CREATED 1 (sample_serving PENDING) idle_agent = Some (after_created 1 idle_agent)"
    "dispatch_model_instance_event sample_serve_env CREATED 2 (sample_serving PENDING) (after_created 1 idle_agent) =
       Some (after_created 2 (after_created 1 idle_agent))" by (simp_all add: after_created_def)
qed

lemma sample_env_facts: "en_worker sample_serve_env = 1" "en_range sample_serve_env = (40000, 40003)"
  "set (en_draws sample_serve_env c) \<subseteq> {fst (40000 :: int, 40003 :: int)..snd (40000 :: int, 40003 :: int)}"
  "fair_draws sample_serve_env"
  by (auto simp: sample_serve_env_def fair_draws_def)

lemma idle_reachable: "serve_reachable 1 (40000, 40003) idle_agent"
  by (rule serve_reachable.fresh) (simp_all add: idle_agent_def)

lemma two_reachable: "serve_reachable 1 (40000, 40003) (after_created 2 (after_created 1 idle_agent))"
proof -
  have "serve_reachable 1 (40000, 40003) (after_created 1 idle_agent)"
    by (rule serve_reachable.later [OF idle_reachable serve_step.event [OF sample_env_facts(1-3) after_created_some(1)]])
  then show ?thesis by (rule serve_reachable.later) (rule serve_step.event [OF sample_env_facts(1-3) after_created_some(2)])
qed

theorem reserved_ports_disjoint_witness:
  "dget (ag_ports (after_created 2 (after_created 1 idle_agent))) 1 = Some {40000} \<and>
   dget (ag_ports (after_created 2 (after_created 1 idle_agent))) 2 = Some {40002} \<and> {40000} \<inter> {40002 :: int} = {}"
proof -
  have p: "dget (ag_ports (after_created 2 (after_created 1 idle_agent))) 1 = Some {40000}"
    "dget (ag_ports (after_created 2 (after_created 1 idle_agent))) 2 = Some {40002}" by code_simp+
  from reserved_ports_disjoint [OF two_reachable p(1)] p show ?thesis by force
qed

text \<open>An instance whose container came up.\<close>

definition serving_agent :: agent where
  "serving_agent = idle_agent\<lparr>ag_workloads := [(''m-a'', WL_RUNNING)], ag_server := [(1, sample_serving STARTING)],
     ag_known := [(1, sample_serving STARTING), (7, sample_serving RUNNING)], ag_ports := [(7, {40003})]\<rparr>"

theorem running_only_when_serving_witness:
  "row_state 1 (sync_model_instances_state sample_serve_env False [(1, sample_serving STARTING)] (serving_agent\<lparr>ag_known := []\<rparr>)) = Some RUNNING \<and>
   (\<exists>r :: serve_instance. sv_worker_id r = Some (en_worker sample_serve_env) \<and>
      dget (ag_workloads (sync_model_instances_state sample_serve_env False [(1, sample_serving STARTING)] (serving_agent\<lparr>ag_known := []\<rparr>))) (sv_name r) = Some WL_RUNNING)"
proof -
  have h: "row_state 1 (serving_agent\<lparr>ag_known := []\<rparr>) \<noteq> Some RUNNING"
    "row_state 1 (sync_model_instances_state sample_serve_env False [(1, sample_serving STARTING)] (serving_agent\<lparr>ag_known := []\<rparr>)) = Some RUNNING"
    by code_simp+
  from running_only_when_serving [OF h] h(2) show ?thesis by blast
qed



theorem event_handling_terminates_witness:
  "\<exists>ag'. dispatch_model_instance_event sample_serve_env CREATED 3 (sample_serving PENDING) (after_created 2 (after_created 1 idle_agent)) = Some ag'"
  by (rule event_handling_terminates [OF two_reachable sample_env_facts(4)])

end
