(* ===== verification/Spec2Isabelle.thy ===== *)
theory Spec2Isabelle
  imports WorkQueue EventBus Tunnel Federation Tenant VllmSelector GgufSelector FileSync Workers Traffic Scaling Serving
begin

text \<open>
  \<^bold>\<open>Verification of GPUStack\<close>

  GPUStack manages clusters of GPU machines that serve models. A server keeps models, model
  instances, workers and tenants in a database; controllers react to changes of rows and
  drive the stored state toward the wanted one; a scheduler places instances on workers;
  workers run inference backends in containers and are reached through a websocket proxy.
  This development models the parts of \<^verbatim>\<open>src/gpustack\<close> that hold the program's own logic,
  one theory per component, and proves what each component promises to the others.

  \<^bold>\<open>Change propagation.\<close> A write to a table becomes an event on a topic.
  \<^item> \<open>Events\<close>: the event and its wire form (\<^verbatim>\<open>server/coordinator/base.py\<close>), the differences
    between two states of a row (\<^verbatim>\<open>server/coordinator/cache.py\<close>).
  \<^item> \<open>Subscriber\<close>: one subscriber of the bus (\<^verbatim>\<open>server/bus.py\<close>) as a state machine over the
    suspension points of \<^verbatim>\<open>asyncio\<close>: bounded queue, coalescing per id, rollback, close.
  \<^item> \<open>EventBus\<close>: topics, publication with and without a coordinator, hydration of events from
    other servers, the counters of departed subscribers.
  \<^item> \<open>WorkQueue\<close>: the queue of the controllers (\<^verbatim>\<open>server/workqueue.py\<close>): pending map, ready
    order, in-flight set, delay heap, debounce, backoff. Shown: no work is lost, a key is
    processed by one consumer at a time, deletions are sticky and first, waiting is exact.

  \<^bold>\<open>Placement.\<close> A model instance is matched with workers.
  \<^item> \<open>Allocation\<close>: what instances hold on a worker and what is left (\<^verbatim>\<open>policies/utils.py\<close>),
    also with unified memory; grouping of GPUs; claims and estimates.
  \<^item> \<open>WorkerFilters\<close>: the filter chain (\<^verbatim>\<open>policies/worker_filters\<close>, \<^verbatim>\<open>policies/base.py\<close>,
    \<^verbatim>\<open>utils/gpu.py\<close>), each filter an instance of the locale \<open>worker_filter\<close>.
  \<^item> \<open>Placement\<close>: scores and score chains (\<^verbatim>\<open>policies/scorers\<close>), best candidate, scale-down
    order (\<^verbatim>\<open>server/controllers.py\<close>); bounded scorers are instances of \<open>bounded_scorer\<close>.
  \<^item> \<open>Scheduler\<close>: due times, evaluation, unique queue, scheduling of one instance and the
    search for a candidate (\<^verbatim>\<open>scheduler/scheduler.py\<close>, \<^verbatim>\<open>scheduler/queue.py\<close>), as a step
    relation in which tasks are split at their awaits. Shown: typing of the tables in every
    interleaving, a due instance with a candidate is placed, the chosen worker is eligible
    (composing filters, scores and choice), and the run in which an instance is abandoned.
  \<^item> \<open>Topology\<close>, \<open>Selector\<close>, \<open>ManualSelection\<close>: parallel layouts over nodes (\<^verbatim>\<open>utils/vllm_topology.py\<close>),
    claims and the selection of GPUs by the user (\<^verbatim>\<open>candidate_selectors/base_candidate_selector.py\<close>): layouts
    add up, a selection fits what is allocatable and uses the GPUs that were asked for.
  \<^item> \<open>VllmSelector\<close>, \<open>GgufSelector\<close>: the automatic searches (\<^verbatim>\<open>vllm_resource_fit_selector.py\<close> and parts
    of \<^verbatim>\<open>gguf_resource_fit_selector.py\<close>): proposed placements fit, a partial offload is the best one.

  \<^bold>\<open>Controllers.\<close> Loops that drive the stored rows (\<^verbatim>\<open>server/controllers.py\<close> and neighbours).
  \<^item> \<open>Replicas\<close>: creation and scale-down of the instances of a model; the number of replicas is
    reached, never overshot, and other models are untouched.
  \<^item> \<open>Workers\<close>: states of workers, heartbeats, loss of a worker, the cleaner of instances on dead workers
    (\<^verbatim>\<open>schemas/workers.py\<close>, \<^verbatim>\<open>server/worker_syncer.py\<close>); cleaning and synchronization restore the replicas.
  \<^item> \<open>ModelFiles\<close>, \<open>FileSync\<close>: files of instances and the reports on them, as a step relation over all
    interleavings: an instance starts with all its files, and no instance with ready files is left waiting.
  \<^item> \<open>Scaling\<close>: scheduled replica counts (\<^verbatim>\<open>server/scaling_scheduler.py\<close>), decided independently of the
    order of rules and realised by \<open>Replicas\<close>.

  \<^bold>\<open>Worker agent.\<close> \<open>Serving\<close>: \<^verbatim>\<open>worker/serve_manager.py\<close> with the port search of \<^verbatim>\<open>utils/network.py\<close>:
  assignment of ports, start, stop, restart with backoff, events, state sync, reaping and inference
  health, as a step relation whose outside steps are free. Shown: reserved ports are disjoint, an
  instance is reported running only when it serves, the reap is exact, failed instances restart.

  \<^bold>\<open>Requests.\<close>
  \<^item> \<open>Tenant\<close>: the tenant context of a request, list filters under three-valued logic, row
    checks and write gates (\<^verbatim>\<open>api/tenant.py\<close>), grants (\<^verbatim>\<open>routes/cluster_access.py\<close>).
  \<^item> \<open>WsMessage\<close> over \<open>PyBytes\<close>: the messages of the proxy (\<^verbatim>\<open>websocket_proxy/message.py\<close>)
    byte for byte, with UTF-8 and \<^verbatim>\<open>struct\<close> fields.
  \<^item> \<open>Tunnel\<close>: tunnel connections and the managers of both sides (\<^verbatim>\<open>websocket_proxy/connection.py\<close>,
    \<^verbatim>\<open>connection_manager.py\<close>), shown to implement one independent stream per session.
  \<^item> \<open>Federation\<close>: clients, their address ranges and the servers that share them
    (\<^verbatim>\<open>message_server.py\<close>, \<^verbatim>\<open>patricia_trie.py\<close>); address lookup and registry agree in every
    reachable state, and a stale disconnect is shown to remove a live registration.

  \<^item> \<open>Traffic\<close>: registries and shares of a route (\<^verbatim>\<open>gateway/utils.py\<close>): weights become shares by largest
    remainder, add up to a hundred and stay within one of the exact value.

  \<^bold>\<open>Backends.\<close>
  \<^item> \<open>Command\<close>: parameters of inference backends (\<^verbatim>\<open>utils/command.py\<close>,
    \<^verbatim>\<open>worker/backends/base.py\<close>): splitting of pasted command lines, lookup, merging,
    extraction, redaction, formats. Shown: the masking loops end and unmasking restores the
    text; merging refines map override; formats keep every setting; secrets stay hidden.

  \<^bold>\<open>Conventions.\<close> \<open>Prelude\<close> has the shared types and lemmas. A dictionary is an association list
  in insertion order, as Python iterates it; a table is a dictionary or a list of rows.
  Python integers are \<open>int\<close>; wire fields are words. Floats are rationals, so that results on
  scores hold for exact arithmetic. Exceptions are the left values of sums or \<open>None\<close>, as each
  theory says. Time, random numbers and the order of tasks are arguments or steps. Loops over
  lists are recursive functions with termination proofs. The loops of the JSON scanner, kept over
  indices, are partial functions, for which termination is a theorem. The port search draws until
  it finds a port: a series of draws is an argument, the value is \<open>None\<close> when the series ends first,
  and a theorem shows that a series through the whole range is enough. No other fuel is used.

  \<^bold>\<open>Parameters.\<close> Code outside the repository is an argument: \<^verbatim>\<open>gzip\<close> (its round trip is
  assumed), SHA-256, \<^verbatim>\<open>croniter\<close>, the LRU cache of the change detector, the version comparison of the
  runtime package, parsing of floats, the container runtime, and the radix tree of the proxy, which is
  represented by the assignments made to it and whose search is assumed to return only what was assigned.
  Of the repository's own code, these stand as arguments where they read files, networks or the
  database: the backend framework filter (assumed to select), evaluation of model files, the
  estimates of the GGUF calculator, the answers of workers and of probes, the LoRA estimate. In
  \<open>Scheduler\<close> the search for a candidate is an argument too, which is assumed to propose workers it was given.

  \<^bold>\<open>Across components.\<close> The end of this theory composes \<open>Scheduler\<close> and \<open>Serving\<close>: an instance the
  scheduler places is brought up by the agent of the chosen worker and by no other.

  \<^bold>\<open>Not modelled.\<close> The remaining selectors, the GGUF calculator, the object-relational layer, the HTTP
  routes other than the grants, authentication, the Kubernetes resources of the gateway, downloads,
  log persistence and container backends of workers, metrics and usage collection, cloud and
  Kubernetes clients, detectors, migrations, generated clients, configuration: glue around external
  systems, or code whose answers are arguments here.
\<close>

section \<open>From the scheduler to the worker\<close>

text \<open>The row of the scheduler and the row an agent receives are two views of one instance.\<close>

definition same_instance :: "inst \<Rightarrow> serve_instance \<Rightarrow> bool" where
  "same_instance i r \<longleftrightarrow>
     sv_state r = in_state i \<and> sv_model_id r = in_model_id i \<and> sv_worker_id r = in_worker_id i \<and>
     map_option (\<lambda>d. (ds_coordinate d, map su_worker_id (items (ds_workers d)))) (sv_servers r) =
     map_option (\<lambda>d. (ds_mode d, map sw_worker_id (items (ds_subs d)))) (in_servers i)"

lemma same_instance_mode: "same_instance i r \<Longrightarrow> map_option ds_coordinate (sv_servers r) = map_option ds_mode (in_servers i)"
  by (cases "sv_servers r"; cases "in_servers i") (auto simp: same_instance_def)

text \<open>The coordination modes the scheduler assigns: the main worker never waits, a subordinate always
  waits for a main worker that has not come up.\<close>

lemma scheduled_main_goes_on:
  assumes "same_instance i r" and "in_servers i = Some (servers_for m c)"
  shows "main_goes_on r"
  using same_instance_mode [OF assms(1)] assms(2) by (auto simp: main_goes_on_def servers_for_def split: if_splits option.splits)

lemma scheduled_sub_waits:
  assumes "same_instance i r" and "in_servers i = Some (servers_for m c)" and "in_state i = SCHEDULED"
  shows "\<not> sub_goes_on w r"
proof -
  have "sv_state r = SCHEDULED" using assms(1,3) by (simp add: same_instance_def)
  then show ?thesis using same_instance_mode [OF assms(1)] assms(2)
    by (auto simp: sub_goes_on_def servers_for_def split: if_splits option.splits)
qed

text \<open>C3: a due instance is served. When the scheduler, idle, takes up a due instance and its search finds a
  candidate, and the agent of any worker, in any reachable state, handles the event of the placement
  (ports drawn fairly, the process starting), then the handling ends, and on the worker of the
  candidate, there alone, the instance comes up: a provisioning process runs and the row is
  initializing, or, when the port range is exhausted, the row is failed. On every other worker,
  subordinates included, nothing happens yet.\<close>

theorem due_instance_served:
  assumes "dget (db_instances s) k = Some i" and "in_id i = k" and "should_schedule (clock s) i"
    and "dget (db_models s) (in_model_id i) = Some m" and "idle s" and "\<not> snd (snd (evaluate_model ev m))"
    and "search (evaluated_model ev m) = Inr (Some c, msgs)"
    and "dget (db_instances (schedule_finish True search (until_search k ev m i s))) k = Some i'" and "same_instance i' r"
    and "serve_reachable (en_worker env) (en_range env) ag" and "fair_draws env" and "en_start_error env k = None"
    and "dget (ag_server ag) k = Some r"
  shows "\<exists>ag'. dispatch_model_instance_event env UPDATED k r ag = Some ag' \<and>
    (if en_worker env \<noteq> w_id (cd_worker c) then ag' = ag
     else if \<exists>e. assign_ports env k r (dpop k (ag_ports ag)) = Some (Inl e) then row_state k ag' = Some ERROR
     else proc_alive k ag' \<and> row_state k ag' = Some INITIALIZING)"
proof -
  have placed: "in_state i' = SCHEDULED" "in_worker_id i' = Some (w_id (cd_worker c))" "in_servers i' = Some (servers_for (evaluated_model ev m) c)"
    using due_instance_run [OF assms(1-6), of search c msgs, OF assms(7)] assms(8) by auto
  have r: "sv_state r = SCHEDULED" "sv_worker_id r = Some (w_id (cd_worker c))" using placed assms(9) by (simp_all add: same_instance_def)
  show ?thesis
  proof (cases "en_worker env = w_id (cd_worker c)")
    case True
    let ?b = "stop_model_instance env k r False (ag\<lparr>ag_known := dput k r (ag_known ag)\<rparr>)"
    have disp: "dispatch_model_instance_event env UPDATED k r ag = start_model_instance env k r ?b"
      using r True scheduled_main_goes_on [OF assms(9) placed(3)]
      by (simp add: dispatch_model_instance_event_def dispatch_updated_def restart_model_instance_def Let_def)
    have "finite (\<Union>(set (dvals (ag_ports ?b))))"
      using reservations_finite [OF ports_apart_dpop [OF reachable_ports [OF assms(10)], of k]] by simp
    from main_start [OF _ _ assms(12) _ assms(11) this, of r] r(2) assms(13) True show ?thesis unfolding disp by (simp add: dict_simps)
  next
    case False
    then have "sv_worker_id r \<noteq> Some (en_worker env)" using r(2) by simp
    with False scheduled_sub_waits [OF assms(9) placed(3,1), of "en_worker env"] show ?thesis
      by (simp add: dispatch_model_instance_event_def Let_def)
  qed
qed

text \<open>A placed instance on worker 1.\<close>

definition placed_serving :: serve_instance where
  "placed_serving = (sample_serving SCHEDULED)\<lparr>sv_servers := Some \<lparr>ds_coordinate = INITIALIZE_LATER, ds_workers = None\<rparr>\<rparr>"

theorem due_instance_served_witness:
  "\<exists>ag'. dispatch_model_instance_event sample_serve_env UPDATED 1 placed_serving (idle_agent\<lparr>ag_server := [(1, placed_serving)]\<rparr>) = Some ag' \<and>
     proc_alive 1 ag' \<and> row_state 1 ag' = Some INITIALIZING"
proof -
  let ?s = "initial_sched [(1, sample_inst PENDING None)] [(1, sample_sm)] 5" and ?i = "sample_inst PENDING None"
  let ?ev = "\<lambda>m. Inl ValueErr" and ?search = "\<lambda>m. Inr (Some (sample_cand 1), [])" and ?ag = "idle_agent\<lparr>ag_server := [(1, placed_serving)]\<rparr>"
  have s: "dget (db_instances ?s) 1 = Some ?i" "in_id ?i = 1" "should_schedule (clock ?s) ?i" "dget (db_models ?s) (in_model_id ?i) = Some sample_sm"
    "idle ?s" "\<not> snd (snd (evaluate_model ?ev sample_sm))"
    by (simp_all add: sample_simps should_schedule_def seconds_def idle_def evaluate_model_def)
  have d: "dget (db_instances (schedule_finish True ?search (until_search 1 ?ev sample_sm ?i ?s))) 1 \<noteq> None"
    and v: "same_instance (the (dget (db_instances (schedule_finish True ?search (until_search 1 ?ev sample_sm ?i ?s))) 1)) placed_serving"
    and w: "en_worker sample_serve_env = w_id (cd_worker (sample_cand 1))"
    and a: "case assign_ports sample_serve_env 1 placed_serving (dpop 1 (ag_ports ?ag)) of Some (Inr _) \<Rightarrow> True | _ \<Rightarrow> False"
    by code_simp+
  have r: "serve_reachable (en_worker sample_serve_env) (en_range sample_serve_env) ?ag" "en_start_error sample_serve_env 1 = None"
    "dget (ag_server ?ag) 1 = Some placed_serving"
    by (auto intro: serve_reachable.fresh simp: idle_agent_def sample_serve_env_def)
  from d obtain i' where i': "dget (db_instances (schedule_finish True ?search (until_search 1 ?ev sample_sm ?i ?s))) 1 = Some i'" by blast
  have "same_instance i' placed_serving" using v i' by simp
  from due_instance_served [OF s refl i' this r(1) sample_env_facts(4) r(2,3)] w a show ?thesis by (auto split: option.splits sum.splits if_splits)
qed

end
